(* ===== verification/Prelude.thy ===== *)
theory Prelude
  imports Main "HOL-Library.Word"
begin

text \<open>
  Shared vocabulary of the development: bytes and JavaScript strings, results with a
  thrown message, the generic list and word lemmas the components use, and the
  interfaces (locales) several components instantiate.

  A JavaScript string is a sequence of 16-bit code units, so \<open>jstr\<close> is a list of 16-bit
  words and \<open>length\<close> on it is the JavaScript \<open>.length\<close>. A \<open>Uint8Array\<close> is a list of
  8-bit words. A thrown \<open>Error\<close> is \<open>Inl\<close> of its message.
\<close>

type_synonym byte = "8 word"
type_synonym bytes = "byte list"
type_synonym jstr = "16 word list"
type_synonym 'a res = "jstr + 'a"

named_theorems codec_simps "equations of the encoders and decoders"

section \<open>Words\<close>

lemma unat16_lt: "unat (u :: 16 word) < 65536"
  using unsigned_less [of u] by simp

lemma unat8_lt: "unat (b :: 8 word) < 256"
  using unsigned_less [of b] by simp

lemma unat_of_nat16 [simp]: "n < 65536 \<Longrightarrow> unat (of_nat n :: 16 word) = n"
  by (simp add: unat_of_nat)

lemma unat_of_nat8 [simp]: "n < 256 \<Longrightarrow> unat (of_nat n :: 8 word) = n"
  by (simp add: unat_of_nat)

section \<open>ASCII literals\<close>

text \<open>\<open>lit ''abc''\<close> is the JavaScript literal \<open>"abc"\<close>.\<close>

definition unit_of :: "char \<Rightarrow> 16 word" where
  "unit_of c = of_nat (of_char c)"

definition lit :: "string \<Rightarrow> jstr" where
  "lit s = map unit_of s"

lemma of_char_lt_256: "(of_char c :: nat) < 256"
proof -
  have "(of_char c :: nat) = of_char c mod 256" by simp
  also have "\<dots> < 256" by simp
  finally show ?thesis .
qed

lemma unat_unit_of [simp]: "unat (unit_of c) = of_char c"
proof -
  have "(of_char c :: nat) < 65536"
    by (rule less_trans [OF of_char_lt_256]) simp
  then show ?thesis by (simp add: unit_of_def unat_of_nat)
qed

lemma unit_of_eq [simp]: "unit_of c = unit_of d \<longleftrightarrow> c = d"
proof
  assume "unit_of c = unit_of d"
  then have "unat (unit_of c) = unat (unit_of d)" by simp
  then show "c = d" by (simp add: of_char_eq_iff)
qed simp

lemma lit_eq [simp]: "lit a = lit b \<longleftrightarrow> a = b"
  by (simp add: lit_def inj_map_eq_map inj_def)

lemma lit_Nil [simp]: "lit [] = []"
  by (simp add: lit_def)

lemma lit_eq_Nil [simp]: "lit s = [] \<longleftrightarrow> s = []" "[] = lit s \<longleftrightarrow> s = []"
  by (auto simp: lit_def)

lemma length_lit [simp]: "length (lit s) = length s"
  by (simp add: lit_def)

lemma lit_append: "lit (a @ b) = lit a @ lit b"
  by (simp add: lit_def)

section \<open>Results\<close>

text \<open>
  Statement sequencing with exceptions: \<open>bind_res r f\<close> runs \<open>f\<close> on the value of \<open>r\<close> and
  passes a thrown message on; \<open>guard_not c m r\<close> is \<open>if (c) throw new Error(m); r\<close>.
\<close>

fun bind_res :: "'a res \<Rightarrow> ('a \<Rightarrow> 'b res) \<Rightarrow> 'b res" where
  "bind_res (Inl e) f = Inl e"
| "bind_res (Inr x) f = f x"

definition throw_if :: "bool \<Rightarrow> jstr \<Rightarrow> 'a res \<Rightarrow> 'a res" where
  "throw_if c m r = (if c then Inl m else r)"

lemma bind_res_Inr_iff [simp]: "bind_res r f = Inr y \<longleftrightarrow> (\<exists>x. r = Inr x \<and> f x = Inr y)"
  by (cases r) auto

lemma bind_res_Inl_iff:
  "bind_res r f = Inl e \<longleftrightarrow> r = Inl e \<or> (\<exists>x. r = Inr x \<and> f x = Inl e)"
  by (cases r) auto

lemma throw_if_Inr_iff [simp]: "throw_if c m r = Inr y \<longleftrightarrow> \<not> c \<and> r = Inr y"
  by (simp add: throw_if_def)

lemma throw_if_Inl_iff: "throw_if c m r = Inl e \<longleftrightarrow> (c \<and> e = m) \<or> (\<not> c \<and> r = Inl e)"
  by (auto simp: throw_if_def)

lemma throw_if_False [simp]: "throw_if False m r = r"
  by (simp add: throw_if_def)

lemma throw_if_True [simp]: "throw_if True m r = Inl m"
  by (simp add: throw_if_def)

text \<open>\<open>try { r } catch (_) { throw new Error(m) }\<close>, for a callee modelled by an option.\<close>

definition or_throw :: "jstr \<Rightarrow> 'a option \<Rightarrow> 'a res" where
  "or_throw m r = (case r of None \<Rightarrow> Inl m | Some x \<Rightarrow> Inr x)"

lemma or_throw_simps [simp]: "or_throw m None = Inl m" "or_throw m (Some x) = Inr x"
  by (simp_all add: or_throw_def)

lemma or_throw_Inr_iff [simp]: "or_throw m r = Inr x \<longleftrightarrow> r = Some x"
  by (cases r) auto

lemma or_throw_Inl_iff: "or_throw m r = Inl e \<longleftrightarrow> r = None \<and> e = m"
  by (cases r) auto

definition is_ok :: "'a res \<Rightarrow> bool" where
  "is_ok r = (case r of Inl _ \<Rightarrow> False | Inr _ \<Rightarrow> True)"

lemma is_ok_simps [simp]: "is_ok (Inr x)" "\<not> is_ok (Inl e)"
  by (simp_all add: is_ok_def)

lemma is_ok_iff: "is_ok r \<longleftrightarrow> (\<exists>x. r = Inr x)"
  by (cases r) auto

section \<open>Lists\<close>

lemma concat_map_cong: "(\<And>x. x \<in> set xs \<Longrightarrow> f x = g x) \<Longrightarrow> concat (map f xs) = concat (map g xs)"
  by (induction xs) auto

text \<open>\<open>Array.prototype.join\<close> on strings.\<close>

fun join :: "'a list \<Rightarrow> 'a list list \<Rightarrow> 'a list" where
  "join sep [] = []"
| "join sep [x] = x"
| "join sep (x # y # xs) = x @ sep @ join sep (y # xs)"

lemma join_Cons: "xs \<noteq> [] \<Longrightarrow> join sep (x # xs) = x @ sep @ join sep xs"
  by (cases xs) auto

text \<open>\<open>String.prototype.startsWith\<close>, \<open>includes\<close> and \<open>indexOf\<close>.\<close>

fun starts_with :: "'a list \<Rightarrow> 'a list \<Rightarrow> bool" where
  "starts_with [] s = True"
| "starts_with (p # ps) [] = False"
| "starts_with (p # ps) (c # cs) = (p = c \<and> starts_with ps cs)"

fun index_of :: "'a list \<Rightarrow> 'a list \<Rightarrow> nat option" where
  "index_of p [] = (if p = [] then Some 0 else None)"
| "index_of p (c # cs) =
     (if starts_with p (c # cs) then Some 0 else map_option Suc (index_of p cs))"

definition str_includes :: "'a list \<Rightarrow> 'a list \<Rightarrow> bool" where
  "str_includes s p = (index_of p s \<noteq> None)"

lemma starts_with_iff: "starts_with p s \<longleftrightarrow> (\<exists>t. s = p @ t)"
  by (induction p s rule: starts_with.induct) auto

lemma starts_with_append [simp]: "starts_with p (p @ t)"
  by (simp add: starts_with_iff)

lemma index_of_Some_D: "index_of p s = Some n \<Longrightarrow> n \<le> length s \<and> (\<exists>t. drop n s = p @ t)"
  by (induction s arbitrary: n) (auto simp: starts_with_iff split: if_splits)

lemma index_of_append: "index_of p (a @ p @ b) \<noteq> None"
proof (induction a)
  case Nil
  have "starts_with p (p @ b)" by simp
  then show ?case by (cases "p @ b") auto
next
  case (Cons x a)
  then show ?case by auto
qed

lemma str_includes_iff: "str_includes s p \<longleftrightarrow> (\<exists>a b. s = a @ p @ b)"
proof
  assume "str_includes s p"
  then obtain n where "index_of p s = Some n" by (auto simp: str_includes_def)
  then obtain t where "drop n s = p @ t" using index_of_Some_D by blast
  then have "s = take n s @ p @ t" by (metis append_take_drop_id)
  then show "\<exists>a b. s = a @ p @ b" by blast
next
  assume "\<exists>a b. s = a @ p @ b"
  then show "str_includes s p" using index_of_append by (auto simp: str_includes_def)
qed

lemma starts_with_lits: "starts_with (lit p) (lit s) = starts_with p s"
  by (induction p s rule: starts_with.induct) (simp_all add: lit_def)

lemma index_of_lits: "index_of (lit p) (lit s) = index_of p s"
proof (induction s)
  case (Cons c s)
  have "lit (c # s) = unit_of c # lit s" by (simp add: lit_def)
  then show ?case using Cons starts_with_lits [of p "c # s"] by simp
qed simp

lemma str_includes_lits: "str_includes (lit s) (lit p) = str_includes s p"
  by (simp add: str_includes_def index_of_lits)

lemma includes_append: "str_includes s p \<Longrightarrow> str_includes (s @ t) p"
  unfolding str_includes_iff by (metis append_assoc)

section \<open>Interfaces\<close>

lemma set_remove_nth: "set (take n xs @ drop (Suc n) xs) \<subseteq> set xs"
  using set_take_subset set_drop_subset by fastforce

text \<open>
  An encoder with a decoder that undoes it on the encodable values: the strings, byte
  strings, JSON values and vault files of the components are instances.
\<close>

locale codec =
  fixes encodable :: "'a \<Rightarrow> bool"
    and enc :: "'a \<Rightarrow> 'b"
    and dec :: "'b \<Rightarrow> 'a res"
  assumes dec_enc: "encodable x \<Longrightarrow> dec (enc x) = Inr x"
begin

lemma enc_inj: "encodable x \<Longrightarrow> encodable y \<Longrightarrow> enc x = enc y \<longleftrightarrow> x = y"
  using dec_enc by (metis sum.inject(2))

lemma inj_on_enc: "inj_on enc {x. encodable x}"
  by (rule inj_onI) (simp add: enc_inj)

lemma not_decodable: "dec t = Inl e \<Longrightarrow> \<not> (\<exists>x. encodable x \<and> enc x = t)"
  using dec_enc by fastforce

end

text \<open>Two encoders one after the other.\<close>

locale codec_chain = inner: codec encodable1 enc1 dec1 + outer: codec encodable2 enc2 dec2
  for encodable1 :: "'a \<Rightarrow> bool" and enc1 :: "'a \<Rightarrow> 'b" and dec1 :: "'b \<Rightarrow> 'a res"
    and encodable2 :: "'b \<Rightarrow> bool" and enc2 :: "'b \<Rightarrow> 'c" and dec2 :: "'c \<Rightarrow> 'b res" +
  assumes fits: "encodable1 x \<Longrightarrow> encodable2 (enc1 x)"

sublocale codec_chain \<subseteq> chained: codec encodable1 "\<lambda>x. enc2 (enc1 x)" "\<lambda>t. bind_res (dec2 t) dec1"
  by unfold_locales (simp add: outer.dec_enc fits inner.dec_enc)

text \<open>
  An envelope format: a validator, and an opener that only ever opens what it accepts.
\<close>

locale opener =
  fixes valid :: "'v \<Rightarrow> bool"
    and check :: "'v \<Rightarrow> unit res"
    and open_with :: "'v \<Rightarrow> 'k \<Rightarrow> 'm res"
  assumes check_valid: "check v = Inr () \<longleftrightarrow> valid v"
    and check_first: "check v = Inl e \<Longrightarrow> open_with v k = Inl e"
begin

lemma opened_valid: "open_with v k = Inr m \<Longrightarrow> valid v"
  using check_valid [of v] check_first [of v] by (cases "check v") auto

lemma invalid_rejected: "\<not> valid v \<Longrightarrow> \<exists>e. \<forall>k. open_with v k = Inl e"
  using check_valid [of v] check_first [of v] by (cases "check v") auto

end

end
