(* ===== verification/Utf8.thy ===== *)
theory Utf8
  imports Prelude
begin

text \<open>
  The text codecs of the platform, as \<open>qev-cli/lib/canonical.js\<close> uses them:
  \<open>new TextEncoder().encode(s)\<close> (\<open>utf8\<close>), \<open>new TextDecoder("utf-8", {fatal: true})\<close>
  (\<open>fromUtf8\<close>) and the non-fatal decoder of \<open>qev-cli/lib/prompt.js\<close> (\<open>from_utf8_lossy\<close>).

  A JavaScript string may hold lone surrogates; the encoder replaces each by U+FFFD. The
  decoders drop a leading byte order mark. Both facts limit the round trip, and
  \<open>fromUtf8_utf8\<close> states exactly how far it goes.
\<close>

section \<open>Code points of a string\<close>

definition is_lead :: "nat \<Rightarrow> bool" where
  "is_lead c \<longleftrightarrow> 0xD800 \<le> c \<and> c \<le> 0xDBFF"

definition is_trail :: "nat \<Rightarrow> bool" where
  "is_trail c \<longleftrightarrow> 0xDC00 \<le> c \<and> c \<le> 0xDFFF"

definition scalar :: "nat \<Rightarrow> bool" where
  "scalar c \<longleftrightarrow> c < 0x110000 \<and> \<not> (0xD800 \<le> c \<and> c \<le> 0xDFFF)"

definition pair_cp :: "nat \<Rightarrow> nat \<Rightarrow> nat" where
  "pair_cp hi lo = 0x10000 + (hi - 0xD800) * 1024 + (lo - 0xDC00)"

definition is_surrogate :: "nat \<Rightarrow> bool" where
  "is_surrogate c \<longleftrightarrow> is_lead c \<or> is_trail c"

definition cp_or_replacement :: "16 word \<Rightarrow> nat" where
  "cp_or_replacement u = (if is_surrogate (unat u) then 0xFFFD else unat u)"

fun code_points :: "jstr \<Rightarrow> nat list" where
  "code_points [] = []"
| "code_points [u] = [cp_or_replacement u]"
| "code_points (u # v # us) =
     (if is_lead (unat u) \<and> is_trail (unat v) then pair_cp (unat u) (unat v) # code_points us
      else cp_or_replacement u # code_points (v # us))"

definition lead_of :: "nat \<Rightarrow> nat" where
  "lead_of c = 0xD800 + (c - 0x10000) div 1024"

definition trail_of :: "nat \<Rightarrow> nat" where
  "trail_of c = 0xDC00 + (c - 0x10000) mod 1024"

definition units_of_cp :: "nat \<Rightarrow> jstr" where
  "units_of_cp c =
     (if c < 0x10000 then [of_nat c] else [of_nat (lead_of c), of_nat (trail_of c)])"

definition units_of :: "nat list \<Rightarrow> jstr" where
  "units_of cs = concat (map units_of_cp cs)"

text \<open>\<open>String.prototype.isWellFormed\<close>: no lone surrogate.\<close>

fun wf16 :: "jstr \<Rightarrow> bool" where
  "wf16 [] = True"
| "wf16 [u] = (\<not> is_surrogate (unat u))"
| "wf16 (u # v # us) =
     (if is_lead (unat u) \<and> is_trail (unat v) then wf16 us
      else \<not> is_surrogate (unat u) \<and> wf16 (v # us))"

lemma lead_trail_range:
  assumes "scalar c" and "\<not> c < 0x10000"
  shows "is_lead (lead_of c)" and "is_trail (trail_of c)"
    and "lead_of c < 65536" and "trail_of c < 65536"
    and "pair_cp (lead_of c) (trail_of c) = c"
  using assms
  by (auto simp: scalar_def is_lead_def is_trail_def lead_of_def trail_of_def pair_cp_def)

lemma pair_cp_inverse:
  assumes "is_lead hi" and "is_trail lo"
  shows "scalar (pair_cp hi lo)" and "\<not> pair_cp hi lo < 0x10000"
    and "lead_of (pair_cp hi lo) = hi" and "trail_of (pair_cp hi lo) = lo"
proof -
  obtain h l where "hi = 0xD800 + h" "lo = 0xDC00 + l" "h < 1024" "l < 1024"
    using assms that [of "hi - 0xD800" "lo - 0xDC00"] by (auto simp: is_lead_def is_trail_def)
  then show "scalar (pair_cp hi lo)" and "\<not> pair_cp hi lo < 0x10000"
    and "lead_of (pair_cp hi lo) = hi" and "trail_of (pair_cp hi lo) = lo"
    by (auto simp: scalar_def pair_cp_def lead_of_def trail_of_def)
qed

lemma cp_or_replacement_scalar: "scalar (cp_or_replacement u)"
  using unat16_lt [of u]
  by (auto simp: cp_or_replacement_def scalar_def is_surrogate_def is_lead_def is_trail_def)

lemma code_points_scalar: "\<forall>c \<in> set (code_points s). scalar c"
  by (induction s rule: code_points.induct) (auto simp: cp_or_replacement_scalar pair_cp_inverse)

lemma units_of_simps [simp]:
  "units_of [] = []" "units_of (c # cs) = units_of_cp c @ units_of cs"
  by (simp_all add: units_of_def)

lemma units_of_append: "units_of (cs @ ds) = units_of cs @ units_of ds"
  by (simp add: units_of_def)

lemma units_of_pair:
  "is_lead (unat u) \<Longrightarrow> is_trail (unat v) \<Longrightarrow> units_of_cp (pair_cp (unat u) (unat v)) = [u, v]"
  by (simp add: units_of_cp_def pair_cp_inverse)

lemma units_of_plain: "\<not> is_surrogate (unat u) \<Longrightarrow> units_of_cp (cp_or_replacement u) = [u]"
  by (simp add: units_of_cp_def cp_or_replacement_def unat16_lt)

lemma units_of_code_points: "wf16 s \<Longrightarrow> units_of (code_points s) = s"
  by (induction s rule: code_points.induct)
    (simp_all add: units_of_pair units_of_plain split: if_splits)

lemma not_lead_trail: "is_trail c \<Longrightarrow> \<not> is_lead c"
  by (simp add: is_lead_def is_trail_def)

lemma code_points_Cons_plain:
  "\<not> is_surrogate (unat u) \<Longrightarrow> code_points (u # s) = unat u # code_points s"
  by (cases s) (simp_all add: cp_or_replacement_def is_surrogate_def)

lemma wf16_Cons_plain: "\<not> is_surrogate (unat u) \<Longrightarrow> wf16 (u # s) = wf16 s"
  by (cases s) (simp_all add: is_surrogate_def)

lemma code_points_append_wf: "wf16 s \<Longrightarrow> code_points (s @ t) = code_points s @ code_points t"
proof (induction s rule: wf16.induct)
  case (2 u)
  then show ?case by (simp add: code_points_Cons_plain cp_or_replacement_def)
next
  case (3 u v us)
  show ?case
  proof (cases "is_lead (unat u) \<and> is_trail (unat v)")
    case True
    with 3 show ?thesis by simp
  next
    case False
    with 3 have plain: "\<not> is_surrogate (unat u)" and "wf16 (v # us)" by auto
    with 3 False have "code_points ((v # us) @ t) = code_points (v # us) @ code_points t"
      by simp
    then show ?thesis
      using code_points_Cons_plain [OF plain, of "(v # us) @ t"]
        code_points_Cons_plain [OF plain, of "v # us"]
      by simp
  qed
qed simp

lemma wf16_append: "wf16 s \<Longrightarrow> wf16 t \<Longrightarrow> wf16 (s @ t)"
proof (induction s rule: wf16.induct)
  case (2 u)
  then show ?case by (simp add: wf16_Cons_plain)
next
  case (3 u v us)
  then show ?case by (auto simp: wf16_Cons_plain split: if_splits)
qed simp

lemma cp_units_of_cp:
  assumes "scalar c"
  shows "wf16 (units_of_cp c)" and "code_points (units_of_cp c) = [c]"
proof -
  have small: "\<not> is_surrogate c" if "c < 0x10000"
    using assms by (auto simp: scalar_def is_surrogate_def is_lead_def is_trail_def)
  show "wf16 (units_of_cp c)"
    using small assms by (simp add: units_of_cp_def lead_trail_range)
  show "code_points (units_of_cp c) = [c]"
    using small assms by (simp add: units_of_cp_def lead_trail_range cp_or_replacement_def)
qed

lemma wf16_units_of: "(\<forall>c \<in> set cs. scalar c) \<Longrightarrow> wf16 (units_of cs)"
  by (induction cs) (auto intro!: wf16_append cp_units_of_cp)

lemma code_points_units_of: "(\<forall>c \<in> set cs. scalar c) \<Longrightarrow> code_points (units_of cs) = cs"
  by (induction cs) (auto simp: code_points_append_wf cp_units_of_cp)

section \<open>The encoder\<close>

text \<open>The one to four bytes of a code point, as numbers below 256.\<close>

definition enc_cp :: "nat \<Rightarrow> nat list" where
  "enc_cp c =
     (if c < 0x80 then [c]
      else if c < 0x800 then [0xC0 + c div 64, 0x80 + c mod 64]
      else if c < 0x10000 then
        [0xE0 + c div 4096, 0x80 + (c div 64) mod 64, 0x80 + c mod 64]
      else
        [0xF0 + c div 262144, 0x80 + (c div 4096) mod 64, 0x80 + (c div 64) mod 64,
         0x80 + c mod 64])"

definition enc_cps :: "nat list \<Rightarrow> bytes" where
  "enc_cps cs = map of_nat (concat (map enc_cp cs))"

definition utf8 :: "jstr \<Rightarrow> bytes" where
  "utf8 s = enc_cps (code_points s)"

section \<open>The decoder\<close>

text \<open>
  \<open>cont lo hi n acc bs\<close> reads \<open>n\<close> continuation bytes, the first within \<open>lo..hi\<close>. A byte
  out of range is an error and is not consumed, as in the Encoding Standard.
\<close>

fun cont :: "nat \<Rightarrow> nat \<Rightarrow> nat \<Rightarrow> nat \<Rightarrow> nat list \<Rightarrow> nat option \<times> nat list" where
  "cont lo hi 0 acc bs = (Some acc, bs)"
| "cont lo hi (Suc n) acc [] = (None, [])"
| "cont lo hi (Suc n) acc (b # bs) =
     (if lo \<le> b \<and> b \<le> hi then cont 0x80 0xBF n (acc * 64 + (b - 0x80)) bs
      else (None, b # bs))"

definition dec1 :: "nat \<Rightarrow> nat list \<Rightarrow> nat option \<times> nat list" where
  "dec1 b bs =
     (if b < 0x80 then (Some b, bs)
      else if 0xC2 \<le> b \<and> b \<le> 0xDF then cont 0x80 0xBF 1 (b - 0xC0) bs
      else if 0xE0 \<le> b \<and> b \<le> 0xEF then
        cont (if b = 0xE0 then 0xA0 else 0x80) (if b = 0xED then 0x9F else 0xBF) 2 (b - 0xE0) bs
      else if 0xF0 \<le> b \<and> b \<le> 0xF4 then
        cont (if b = 0xF0 then 0x90 else 0x80) (if b = 0xF4 then 0x8F else 0xBF) 3 (b - 0xF0) bs
      else (None, bs))"

lemma cont_length: "length (snd (cont lo hi n acc bs)) \<le> length bs"
  by (induction lo hi n acc bs rule: cont.induct) auto

lemma dec1_length: "length (snd (dec1 b bs)) \<le> length bs"
  by (simp add: dec1_def cont_length)

text \<open>One entry per decoded code point, \<open>None\<close> for each decoding error.\<close>

function decode_units :: "nat list \<Rightarrow> nat option list" where
  "decode_units [] = []"
| "decode_units (b # bs) = fst (dec1 b bs) # decode_units (snd (dec1 b bs))"
  by pat_completeness auto
termination
  by (relation "measure length") (auto simp: le_imp_less_Suc dec1_length)

definition drop_bom :: "nat list \<Rightarrow> nat list" where
  "drop_bom cs = (case cs of c # ds \<Rightarrow> if c = 0xFEFF then ds else cs | [] \<Rightarrow> [])"

definition decode_error :: jstr where
  "decode_error = lit ''The encoded data was not valid for encoding utf-8''"

definition fromUtf8 :: "bytes \<Rightarrow> jstr res" where
  "fromUtf8 bs =
     (let us = decode_units (map unat bs)
      in if None \<in> set us then Inl decode_error
         else Inr (units_of (drop_bom (map the us))))"

definition from_utf8_lossy :: "bytes \<Rightarrow> jstr" where
  "from_utf8_lossy bs =
     units_of (drop_bom (map (\<lambda>u. case u of None \<Rightarrow> 0xFFFD | Some c \<Rightarrow> c)
                             (decode_units (map unat bs))))"

section \<open>The round trip\<close>

lemma enc_cp_lt_256: "scalar c \<Longrightarrow> \<forall>b \<in> set (enc_cp c). b < 256"
  by (auto simp: enc_cp_def scalar_def)

lemma cont_step:
  "lo \<le> 0x80 + y \<Longrightarrow> 0x80 + y \<le> hi \<Longrightarrow>
   cont lo hi (Suc n) acc ((0x80 + y) # r) = cont 0x80 0xBF n (acc * 64 + y) r"
  by simp

lemma split3: "(c div 4096 * 64 + c div 64 mod 64) * 64 + c mod 64 = (c :: nat)"
proof -
  have "c div 4096 = c div 64 div 64" by (simp add: div_mult2_eq [symmetric])
  then show ?thesis by simp
qed

lemma split4:
  "((c div 262144 * 64 + c div 4096 mod 64) * 64 + c div 64 mod 64) * 64 + c mod 64 = (c :: nat)"
proof -
  have "c div 262144 = c div 4096 div 64" by (simp add: div_mult2_eq [symmetric])
  then show ?thesis using split3 [of c] by simp
qed

lemma dec1_lead2:
  "2 \<le> x \<Longrightarrow> x < 32 \<Longrightarrow> dec1 (0xC0 + x) r = cont 0x80 0xBF (Suc 0) x r"
  by (simp add: dec1_def)

lemma dec1_lead3:
  "x < 16 \<Longrightarrow> dec1 (0xE0 + x) r =
     cont (if x = 0 then 0xA0 else 0x80) (if x = 13 then 0x9F else 0xBF) (Suc (Suc 0)) x r"
  by (simp add: dec1_def numeral_2_eq_2)

lemma dec1_lead4:
  "x < 5 \<Longrightarrow> dec1 (0xF0 + x) r =
     cont (if x = 0 then 0x90 else 0x80) (if x = 4 then 0x8F else 0xBF) (Suc (Suc (Suc 0))) x r"
  by (simp add: dec1_def numeral_3_eq_3)

lemma dec1_enc_cp:
  assumes "scalar c" and "enc_cp c = b # bs"
  shows "dec1 b (bs @ rest) = (Some c, rest)"
proof -
  consider "c < 0x80" | "0x80 \<le> c" "c < 0x800" | "0x800 \<le> c" "c < 0x10000" | "0x10000 \<le> c"
    by linarith
  then show ?thesis
  proof cases
    case 1
    with assms show ?thesis by (simp add: enc_cp_def dec1_def)
  next
    case 2
    then have b: "b = 0xC0 + c div 64" "bs = [0x80 + c mod 64]" "2 \<le> c div 64" "c div 64 < 32"
      using assms by (auto simp: enc_cp_def)
    then have "dec1 b (bs @ rest) = (Some ((c div 64) * 64 + c mod 64), rest)"
      by (simp add: dec1_lead2 cont_step)
    then show ?thesis by simp
  next
    case 3
    define x where "x = c div 4096"
    define y where "y = c div 64 mod 64"
    have b: "b = 0xE0 + x" "bs = [0x80 + y, 0x80 + c mod 64]"
      using 3 assms by (auto simp: enc_cp_def x_def y_def)
    have c: "(x * 64 + y) * 64 + c mod 64 = c" and y: "y < 64"
      using split3 [of c] by (simp_all add: x_def y_def)
    obtain z where z: "z < 64" and cz: "c = 4096 * x + 64 * y + z"
    proof
      show "c mod 64 < 64" by simp
      show "c = 4096 * x + 64 * y + c mod 64" using c by (simp add: algebra_simps)
    qed
    have "x < 16"
      using 3 cz by linarith
    moreover have "x = 0 \<longrightarrow> 32 \<le> y" and "x = 13 \<longrightarrow> y < 32"
      using 3 assms(1) cz y z unfolding scalar_def by arith+
    ultimately have xy: "x < 16" "x = 0 \<Longrightarrow> 32 \<le> y" "x = 13 \<Longrightarrow> y < 32"
      by simp_all
    have "dec1 b (bs @ rest) = (Some ((x * 64 + y) * 64 + c mod 64), rest)"
      using xy y mod_less_divisor [of 64 c] by (auto simp: b dec1_lead3 cont_step)
    then show ?thesis using c by simp
  next
    case 4
    define x where "x = c div 262144"
    define y where "y = c div 4096 mod 64"
    define z where "z = c div 64 mod 64"
    have b: "b = 0xF0 + x" "bs = [0x80 + y, 0x80 + z, 0x80 + c mod 64]"
      using 4 assms by (auto simp: enc_cp_def x_def y_def z_def)
    have c: "((x * 64 + y) * 64 + z) * 64 + c mod 64 = c" and yz: "y < 64" "z < 64"
      using split4 [of c] by (simp_all add: x_def y_def z_def)
    obtain w where w: "w < 64" and cw: "c = 262144 * x + 4096 * y + 64 * z + w"
    proof
      show "c mod 64 < 64" by simp
      show "c = 262144 * x + 4096 * y + 64 * z + c mod 64"
        using c by (simp add: algebra_simps)
    qed
    have "x < 5"
      using assms(1) cw unfolding scalar_def by linarith
    moreover have "x = 0 \<longrightarrow> 16 \<le> y" and "x = 4 \<longrightarrow> y < 16"
      using 4 assms(1) cw yz w unfolding scalar_def by arith+
    ultimately have xy: "x < 5" "x = 0 \<Longrightarrow> 16 \<le> y" "x = 4 \<Longrightarrow> y < 16"
      by simp_all
    have "dec1 b (bs @ rest) = (Some (((x * 64 + y) * 64 + z) * 64 + c mod 64), rest)"
      using xy yz mod_less_divisor [of 64 c] by (auto simp: b dec1_lead4 cont_step)
    then show ?thesis using c by simp
  qed
qed

lemma enc_cp_nonempty: "\<exists>b bs. enc_cp c = b # bs"
  by (simp add: enc_cp_def)

lemma decode_enc_cps:
  "\<forall>c \<in> set cs. scalar c \<Longrightarrow> decode_units (concat (map enc_cp cs)) = map Some cs"
proof (induction cs)
  case (Cons c cs)
  obtain b bs where b: "enc_cp c = b # bs" using enc_cp_nonempty by blast
  moreover have "dec1 b (bs @ concat (map enc_cp cs)) = (Some c, concat (map enc_cp cs))"
    using Cons.prems b by (simp add: dec1_enc_cp)
  ultimately show ?case using Cons by simp
qed simp

lemma unat_enc_cps:
  "\<forall>c \<in> set cs. scalar c \<Longrightarrow> map unat (enc_cps cs) = concat (map enc_cp cs)"
  using enc_cp_lt_256 by (induction cs) (auto simp: enc_cps_def intro!: map_idI)

lemma decode_utf8: "decode_units (map unat (utf8 s)) = map Some (code_points s)"
  by (simp add: utf8_def unat_enc_cps decode_enc_cps code_points_scalar)

lemma fromUtf8_utf8: "fromUtf8 (utf8 s) = Inr (units_of (drop_bom (code_points s)))"
  by (auto simp: fromUtf8_def decode_utf8 Let_def comp_def)

lemma from_utf8_lossy_utf8: "from_utf8_lossy (utf8 s) = units_of (drop_bom (code_points s))"
  by (simp add: from_utf8_lossy_def decode_utf8 comp_def)

section \<open>What a successful decoding says about the bytes\<close>

lemma cont_SomeE:
  assumes "cont lo hi (Suc n) acc bs = (Some c, rest)" and "0x80 \<le> lo"
  obtains y bs' where "bs = (0x80 + y) # bs'" "lo \<le> 0x80 + y" "0x80 + y \<le> hi"
    "cont 0x80 0xBF n (acc * 64 + y) bs' = (Some c, rest)"
proof (cases bs)
  case Nil
  with assms show ?thesis by simp
next
  case (Cons b bs')
  with assms have "lo \<le> b" "b \<le> hi" "cont 0x80 0xBF n (acc * 64 + (b - 0x80)) bs' = (Some c, rest)"
    by (auto split: if_splits)
  with Cons assms(2) show ?thesis by (intro that [of "b - 0x80" bs']) auto
qed

lemma enc_cp_2: "2 \<le> x \<Longrightarrow> x < 32 \<Longrightarrow> y < 64 \<Longrightarrow> enc_cp (x * 64 + y) = [0xC0 + x, 0x80 + y]"
  by (simp add: enc_cp_def)

lemma divmod64: "r < 64 \<Longrightarrow> (q * 64 + r) div 64 = q" "r < 64 \<Longrightarrow> (q * 64 + r) mod 64 = (r :: nat)"
  by simp_all

lemma enc_cp_3:
  assumes "x < 16" "y < 64" "z < 64" "x = 0 \<Longrightarrow> 32 \<le> y"
  shows "enc_cp ((x * 64 + y) * 64 + z) = [0xE0 + x, 0x80 + y, 0x80 + z]"
proof -
  let ?c = "(x * 64 + y) * 64 + z"
  have r: "\<not> ?c < 0x800"
    using assms by (cases "x = 0") simp_all
  have r': "?c < 0x10000"
    using assms by simp
  have q: "?c div 64 = x * 64 + y" "?c mod 64 = z" using assms(3) by (simp_all only: divmod64)
  have "?c div 4096 = ?c div 64 div 64" by (simp add: div_mult2_eq [symmetric])
  also have "\<dots> = x" by (simp only: q divmod64 assms)
  finally have d: "?c div 4096 = x" .
  show ?thesis
    using r r' by (simp only: enc_cp_def d q divmod64 assms) (simp add: assms)
qed

lemma enc_cp_4:
  assumes "x < 5" "y < 64" "z < 64" "w < 64" "x = 0 \<Longrightarrow> 16 \<le> y"
  shows "enc_cp (((x * 64 + y) * 64 + z) * 64 + w) = [0xF0 + x, 0x80 + y, 0x80 + z, 0x80 + w]"
proof -
  let ?c = "((x * 64 + y) * 64 + z) * 64 + w"
  have r: "\<not> ?c < 0x10000" using assms by (cases "x = 0"; simp)
  have q: "?c div 64 = (x * 64 + y) * 64 + z" "?c mod 64 = w" using assms(4) by (simp_all only: divmod64)
  have "?c div 4096 = ?c div 64 div 64" by (simp add: div_mult2_eq [symmetric])
  also have "\<dots> = x * 64 + y" by (simp only: q divmod64 assms)
  finally have d: "?c div 4096 = x * 64 + y" .
  have "?c div 262144 = ?c div 4096 div 64" by (simp add: div_mult2_eq [symmetric])
  also have "\<dots> = x" by (simp only: d divmod64 assms)
  finally have e: "?c div 262144 = x" .
  show ?thesis
    using r by (simp only: enc_cp_def e d q divmod64 assms) (simp add: assms)
qed

lemma dec1_Some:
  assumes "dec1 b bs = (Some c, rest)"
  shows "scalar c \<and> b # bs = enc_cp c @ rest"
proof -
  consider "b < 0x80" | "0xC2 \<le> b" "b \<le> 0xDF" | "0xE0 \<le> b" "b \<le> 0xEF" | "0xF0 \<le> b" "b \<le> 0xF4"
    using assms by (auto simp: dec1_def split: if_splits)
  then show ?thesis
  proof cases
    case 1
    with assms show ?thesis by (auto simp: dec1_def enc_cp_def scalar_def)
  next
    case 2
    define x where "x = b - 0xC0"
    have b: "b = 0xC0 + x" "2 \<le> x" "x < 32" using 2 by (auto simp: x_def)
    from assms have "cont 0x80 0xBF (Suc 0) x bs = (Some c, rest)" using b by (simp add: dec1_lead2)
    then obtain y where y: "bs = (0x80 + y) # rest" "0x80 + y \<le> 0xBF" "c = x * 64 + y"
      by (rule cont_SomeE) auto
    with b show ?thesis by (simp add: enc_cp_2 scalar_def)
  next
    case 3
    define x where "x = b - 0xE0"
    have b: "b = 0xE0 + x" "x < 16" using 3 by (auto simp: x_def)
    from assms obtain y bs1 where y: "bs = (0x80 + y) # bs1" "y < 64" "x = 0 \<Longrightarrow> 32 \<le> y"
      "x = 13 \<Longrightarrow> y < 32" "cont 0x80 0xBF (Suc 0) (x * 64 + y) bs1 = (Some c, rest)"
      using b by (auto simp: dec1_lead3 split: if_splits elim!: cont_SomeE)
    from y(5) obtain z where z: "bs1 = (0x80 + z) # rest" "0x80 + z \<le> 0xBF"
      "c = (x * 64 + y) * 64 + z"
      by (rule cont_SomeE) auto
    have "scalar c"
      using b(2) y(2-4) z(2,3) by (cases "x = 13"; cases "x < 13") (auto simp: scalar_def)
    moreover have "enc_cp c = [0xE0 + x, 0x80 + y, 0x80 + z]"
      using b(2) y(2,3) z(2) unfolding z(3) by (intro enc_cp_3) auto
    ultimately show ?thesis using b(1) y(1) z(1) by simp
  next
    case 4
    define x where "x = b - 0xF0"
    have b: "b = 0xF0 + x" "x < 5" using 4 by (auto simp: x_def)
    from assms obtain y bs1 where y: "bs = (0x80 + y) # bs1" "y < 64" "x = 0 \<Longrightarrow> 16 \<le> y"
      "x = 4 \<Longrightarrow> y < 16" "cont 0x80 0xBF (Suc (Suc 0)) (x * 64 + y) bs1 = (Some c, rest)"
      using b by (auto simp: dec1_lead4 split: if_splits elim!: cont_SomeE)
    from y(5) obtain z bs2 where z: "bs1 = (0x80 + z) # bs2" "0x80 + z \<le> 0xBF"
      "cont 0x80 0xBF (Suc 0) ((x * 64 + y) * 64 + z) bs2 = (Some c, rest)"
      by (rule cont_SomeE) auto
    from z(3) obtain w where w: "bs2 = (0x80 + w) # rest" "0x80 + w \<le> 0xBF"
      "c = ((x * 64 + y) * 64 + z) * 64 + w"
      by (rule cont_SomeE) auto
    have "scalar c"
      using b(2) y(2-4) z(2) w(2,3)
      by (cases "x = 0"; cases "x = 4") (auto simp: scalar_def)
    moreover have "enc_cp c = [0xF0 + x, 0x80 + y, 0x80 + z, 0x80 + w]"
      using b(2) y(2,3) z(2) w(2) unfolding w(3) by (intro enc_cp_4) auto
    ultimately show ?thesis using b(1) y(1) z(1) w(1) by simp
  qed
qed

lemma decode_units_Some:
  "decode_units bs = map Some cs \<Longrightarrow>
   (\<forall>c \<in> set cs. scalar c) \<and> bs = concat (map enc_cp cs)"
proof (induction bs arbitrary: cs rule: decode_units.induct)
  case 1
  then show ?case by simp
next
  case (2 b bs)
  then obtain c cs' where cs: "cs = c # cs'" "fst (dec1 b bs) = Some c"
    "decode_units (snd (dec1 b bs)) = map Some cs'"
    by (cases cs) auto
  then have "scalar c \<and> b # bs = enc_cp c @ snd (dec1 b bs)"
    by (intro dec1_Some) (metis prod.collapse)
  with 2(1) [OF cs(3)] cs(1) show ?case by auto
qed

text \<open>
  A text the fatal decoder returns re-encodes to the bytes it was given, up to one leading
  byte order mark.
\<close>

lemma fromUtf8_sound:
  assumes "fromUtf8 bs = Inr s"
  shows "wf16 s \<and> (bs = utf8 s \<or> bs = [0xEF, 0xBB, 0xBF] @ utf8 s)"
proof -
  define us where "us = decode_units (map unat bs)"
  define cs where "cs = map the us"
  from assms have "None \<notin> set us" and s: "s = units_of (drop_bom cs)"
    by (auto simp: fromUtf8_def us_def cs_def Let_def split: if_splits)
  then have "\<forall>x \<in> set us. Some (the x) = x"
    by (metis option.collapse)
  then have "us = map Some cs"
    by (simp add: cs_def map_idI)
  then have cs: "\<forall>c \<in> set cs. scalar c" "map unat bs = concat (map enc_cp cs)"
    using decode_units_Some [of "map unat bs" cs] by (simp_all add: us_def)
  have bs: "bs = enc_cps cs"
    by (simp add: enc_cps_def flip: cs(2))
      (simp add: comp_def)
  have drop: "\<forall>c \<in> set (drop_bom cs). scalar c"
    using cs(1) by (auto simp: drop_bom_def split: list.splits if_splits)
  then have "wf16 s" and "utf8 s = enc_cps (drop_bom cs)"
    by (simp_all add: s wf16_units_of utf8_def code_points_units_of)
  moreover have "enc_cps cs = enc_cps (drop_bom cs) \<or>
      enc_cps cs = [0xEF, 0xBB, 0xBF] @ enc_cps (drop_bom cs)"
    by (auto simp: drop_bom_def enc_cps_def enc_cp_def split: list.splits)
  ultimately show ?thesis using bs by simp
qed

section \<open>Injectivity and sizes\<close>

lemma enc_cps_inj:
  assumes "\<forall>c \<in> set cs. scalar c" and "\<forall>c \<in> set ds. scalar c" and "enc_cps cs = enc_cps ds"
  shows "cs = ds"
proof -
  from assms have "map Some cs = map Some ds"
    using decode_enc_cps unat_enc_cps by metis
  then show ?thesis by (simp add: inj_map_eq_map)
qed

lemma utf8_eq_iff: "utf8 s = utf8 t \<longleftrightarrow> code_points s = code_points t"
  using enc_cps_inj code_points_scalar by (auto simp: utf8_def)

lemma utf8_inj: "wf16 s \<Longrightarrow> wf16 t \<Longrightarrow> utf8 s = utf8 t \<Longrightarrow> s = t"
  by (metis units_of_code_points utf8_eq_iff)

lemma enc_cp_length: "length (enc_cp c) \<le> 4" "c < 65536 \<Longrightarrow> length (enc_cp c) \<le> 3"
  by (simp_all add: enc_cp_def)

lemma length_enc_cps_Cons: "length (enc_cps (c # cs)) = length (enc_cp c) + length (enc_cps cs)"
  by (simp add: enc_cps_def)

lemma cp_or_replacement_lt: "cp_or_replacement u < 65536"
  by (simp add: cp_or_replacement_def unat16_lt)

lemma utf8_length: "length (utf8 s) \<le> 3 * length s"
proof (induction s rule: code_points.induct)
  case 1
  then show ?case by (simp add: utf8_def enc_cps_def)
next
  case (2 u)
  then show ?case
    using enc_cp_length(2) [OF cp_or_replacement_lt [of u]] by (simp add: utf8_def enc_cps_def)
next
  case (3 u v us)
  then show ?case
    using enc_cp_length(2) [OF cp_or_replacement_lt [of u]]
      enc_cp_length(1) [of "pair_cp (unat u) (unat v)"]
    by (auto simp: utf8_def length_enc_cps_Cons split: if_splits)
qed

lemma utf8_eq_Nil [simp]: "utf8 s = [] \<longleftrightarrow> s = []"
proof
  assume "utf8 s = []"
  then have "map Some (code_points s) = []" using decode_utf8 [of s] by simp
  then show "s = []" by (cases s rule: code_points.cases) (auto split: if_splits)
qed (simp add: utf8_def enc_cps_def)

lemma utf8_Nil [simp]: "utf8 [] = []"
  by simp

lemma utf8_lit: "list_all (\<lambda>c. of_char c < (128 :: nat)) s \<Longrightarrow> utf8 (lit s) = map (\<lambda>c. of_nat (of_char c)) s"
proof (induction s)
  case (Cons c s)
  have "\<not> is_surrogate (unat (unit_of c))"
    using Cons.prems by (simp add: is_surrogate_def is_lead_def is_trail_def)
  then have "code_points (lit (c # s)) = of_char c # code_points (lit s)"
    by (simp add: lit_def code_points_Cons_plain)
  then show ?case using Cons by (simp add: utf8_def enc_cps_def enc_cp_def)
qed simp

section \<open>The codec\<close>

text \<open>A string \<open>TextDecoder\<close> gives back: well formed, and without a leading byte order mark.\<close>

definition plain_text :: "jstr \<Rightarrow> bool" where
  "plain_text s = (wf16 s \<and> (case s of [] \<Rightarrow> True | u # _ \<Rightarrow> u \<noteq> 0xFEFF))"

lemma drop_bom_plain: "plain_text s \<Longrightarrow> drop_bom (code_points s) = code_points s"
proof (cases s)
  case (Cons u t)
  assume p: "plain_text s"
  then have u: "unat u \<noteq> 0xFEFF" using Cons unat_of_nat16 [of "0xFEFF"]
    by (auto simp: plain_text_def word_unat_eq_iff)
  show ?thesis
  proof (cases "is_surrogate (unat u)")
    case False
    with u Cons show ?thesis by (simp add: code_points_Cons_plain drop_bom_def)
  next
    case True
    then obtain v t' where t: "t = v # t'" "is_lead (unat u)" "is_trail (unat v)"
      using p Cons by (cases t) (auto simp: plain_text_def split: if_splits)
    moreover have "pair_cp (unat u) (unat v) \<noteq> 0xFEFF"
      using t by (simp add: pair_cp_def is_lead_def is_trail_def)
    ultimately show ?thesis using Cons by (simp add: drop_bom_def)
  qed
qed (simp add: drop_bom_def)

lemma fromUtf8_utf8_plain: "plain_text s \<Longrightarrow> fromUtf8 (utf8 s) = Inr s"
  by (simp add: fromUtf8_utf8 drop_bom_plain) (simp add: plain_text_def units_of_code_points)

interpretation utf8: codec plain_text utf8 fromUtf8
  by unfold_locales (rule fromUtf8_utf8_plain)

text \<open>
  Strict UTF-8 decoding of an encoded string gives the string with every lone surrogate
  replaced by U+FFFD and one leading byte order mark removed; it is the string itself
  exactly when that string is well formed and does not start with the mark.
\<close>

theorem utf8_roundtrip:
  "fromUtf8 (utf8 s) = Inr (units_of (drop_bom (code_points s))) \<and>
   (fromUtf8 (utf8 s) = Inr s \<longleftrightarrow> plain_text s)"
proof -
  have "plain_text s" if eq: "units_of (drop_bom (code_points s)) = s"
  proof -
    have sc: "\<forall>c \<in> set (drop_bom (code_points s)). scalar c"
      using code_points_scalar [of s] by (cases "code_points s") (simp_all add: drop_bom_def)
    then have wf: "wf16 s" using wf16_units_of [of "drop_bom (code_points s)"] eq by simp
    have dd: "drop_bom (code_points s) = code_points s"
      using code_points_units_of [OF sc] eq by simp
    show ?thesis
    proof (cases s)
      case (Cons u t)
      have "u \<noteq> 0xFEFF"
      proof
        assume u: "u = 0xFEFF"
        have "code_points s = 0xFEFF # code_points t"
          unfolding Cons u by (subst code_points_Cons_plain) (simp_all add: is_surrogate_def is_lead_def is_trail_def)
        then show False using dd by (simp add: drop_bom_def)
      qed
      with wf Cons show ?thesis by (simp add: plain_text_def)
    qed (simp add: plain_text_def)
  qed
  then show ?thesis using fromUtf8_utf8_plain [of s] by (auto simp: fromUtf8_utf8)
qed

end
