(* ===== verification/Base64url.thy ===== *)
theory Base64url
  imports Prelude
begin

text \<open>
  \<open>b64urlEncode\<close> and \<open>b64urlDecode\<close> of \<open>qev-cli/lib/canonical.js\<close>, over Node's
  \<open>Buffer\<close>. \<open>Buffer.from(s, "base64")\<close> reads both alphabets, skips every other character
  and drops an incomplete last byte, so the decoder accepts more than the encoder
  produces; \<open>b64urlDecode_encode\<close> is the round trip and \<open>b64urlDecode_padding\<close> the laxity.
\<close>

section \<open>Sextets and bytes\<close>

fun to_sextets :: "nat list \<Rightarrow> nat list" where
  "to_sextets [] = []"
| "to_sextets [a] = [a div 4, (a mod 4) * 16]"
| "to_sextets [a, b] = [a div 4, (a mod 4) * 16 + b div 16, (b mod 16) * 4]"
| "to_sextets (a # b # c # r) =
     (a div 4) # ((a mod 4) * 16 + b div 16) # ((b mod 16) * 4 + c div 64) # (c mod 64) # to_sextets r"

fun from_sextets :: "nat list \<Rightarrow> nat list" where
  "from_sextets (s # t # u # v # r) =
     (s * 4 + t div 16) # ((t mod 16) * 16 + u div 4) # ((u mod 4) * 64 + v) # from_sextets r"
| "from_sextets [s, t, u] = [s * 4 + t div 16, (t mod 16) * 16 + u div 4]"
| "from_sextets [s, t] = [s * 4 + t div 16]"
| "from_sextets _ = []"

lemma to_sextets_lt_64: "\<forall>b \<in> set bs. b < 256 \<Longrightarrow> \<forall>s \<in> set (to_sextets bs). s < 64"
  by (induction bs rule: to_sextets.induct) auto

lemma from_to_sextets: "\<forall>b \<in> set bs. b < 256 \<Longrightarrow> from_sextets (to_sextets bs) = bs"
proof (induction bs rule: to_sextets.induct)
  case (4 a b c r)
  have "(a mod 4 * 16 + b div 16) div 16 = a mod 4" "(a mod 4 * 16 + b div 16) mod 16 = b div 16"
    "(b mod 16 * 4 + c div 64) div 4 = b mod 16" "(b mod 16 * 4 + c div 64) mod 4 = c div 64"
    using 4 by auto
  with 4 show ?case by simp
qed auto

lemma length_to_sextets: "length (to_sextets bs) = (4 * length bs + 2) div 3"
  by (induction bs rule: to_sextets.induct) auto

lemma length_from_sextets: "length (from_sextets ss) = 3 * length ss div 4"
  by (induction ss rule: from_sextets.induct) auto

lemma from_sextets_lt_256: "\<forall>s \<in> set ss. s < 64 \<Longrightarrow> \<forall>b \<in> set (from_sextets ss). b < 256"
proof (induction ss rule: from_sextets.induct)
  case (1 s t u v r)
  have "s * 4 + t div 16 < 256" "(t mod 16) * 16 + u div 4 < 256" "(u mod 4) * 64 + v < 256"
    using 1(2) by (auto simp: less_mult_imp_div_less)
  with 1 show ?case by auto
qed (auto simp: less_mult_imp_div_less)

section \<open>Alphabets\<close>

definition std_code :: "nat \<Rightarrow> nat" where
  "std_code n =
     (if n < 26 then 65 + n else if n < 52 then 71 + n else if n < 62 then n - 4
      else if n = 62 then 43 else 47)"

definition std_char :: "nat \<Rightarrow> 16 word" where
  "std_char n = of_nat (std_code n)"

definition sextet_of :: "16 word \<Rightarrow> nat option" where
  "sextet_of u =
     (let c = unat u
      in if 65 \<le> c \<and> c \<le> 90 then Some (c - 65)
         else if 97 \<le> c \<and> c \<le> 122 then Some (c - 71)
         else if 48 \<le> c \<and> c \<le> 57 then Some (c + 4)
         else if c = 43 \<or> c = 45 then Some 62
         else if c = 47 \<or> c = 95 then Some 63
         else None)"

definition url_char :: "16 word \<Rightarrow> bool" where
  "url_char u =
     (let c = unat u
      in 65 \<le> c \<and> c \<le> 90 \<or> 97 \<le> c \<and> c \<le> 122 \<or> 48 \<le> c \<and> c \<le> 57 \<or> c = 95 \<or> c = 45)"

definition eq_char :: "16 word" where
  "eq_char = 61"

definition replace_char :: "'a \<Rightarrow> 'a \<Rightarrow> 'a list \<Rightarrow> 'a list" where
  "replace_char a b s = map (\<lambda>c. if c = a then b else c) s"

section \<open>Node's Buffer\<close>

definition buffer_to_base64 :: "bytes \<Rightarrow> jstr" where
  "buffer_to_base64 bs =
     (let t = map std_char (to_sextets (map unat bs))
      in t @ replicate ((4 - length t mod 4) mod 4) eq_char)"

definition buffer_from_base64 :: "jstr \<Rightarrow> bytes" where
  "buffer_from_base64 s = map of_nat (from_sextets (List.map_filter sextet_of s))"

section \<open>The functions of canonical.js\<close>

definition strip_trailing :: "'a \<Rightarrow> 'a list \<Rightarrow> 'a list" where
  "strip_trailing c s = rev (dropWhile (\<lambda>x. x = c) (rev s))"

definition b64urlEncode :: "bytes \<Rightarrow> jstr" where
  "b64urlEncode bs =
     strip_trailing eq_char (replace_char 47 95 (replace_char 43 45 (buffer_to_base64 bs)))"

definition b64url_syntax :: "jstr \<Rightarrow> bool" where
  "b64url_syntax s = list_all (\<lambda>c. c = eq_char) (dropWhile url_char s)"

definition msg_b64_invalid :: jstr where
  "msg_b64_invalid = lit ''b64urlDecode: invalid character in input''"

definition b64urlDecode :: "jstr \<Rightarrow> bytes res" where
  "b64urlDecode str =
     throw_if (\<not> b64url_syntax str) msg_b64_invalid
       (let b64 = replace_char 95 47 (replace_char 45 43 str);
            pad = length b64 mod 4;
            padded = (if pad = 0 then b64 else b64 @ replicate (4 - pad) eq_char)
        in Inr (buffer_from_base64 padded))"

section \<open>Characters of the encoding\<close>

definition b64url_of :: "nat \<Rightarrow> 16 word" where
  "b64url_of n = (if n = 62 then 45 else if n = 63 then 95 else std_char n)"

lemma unat_std_char: "n < 64 \<Longrightarrow> unat (std_char n) = std_code n"
proof -
  assume "n < 64"
  then have "std_code n < 65536" by (auto simp: std_code_def)
  then show ?thesis by (simp add: std_char_def)
qed

lemma std_char_eq:
  assumes "n < 64"
  shows "std_char n = 43 \<longleftrightarrow> n = 62" and "std_char n = 47 \<longleftrightarrow> n = 63" and "std_char n \<noteq> eq_char"
proof -
  have eqs: "w = v \<longleftrightarrow> unat w = unat v" for w v :: "16 word" by (rule word_unat_eq_iff)
  show "std_char n = 43 \<longleftrightarrow> n = 62" and "std_char n = 47 \<longleftrightarrow> n = 63" and "std_char n \<noteq> eq_char"
    unfolding eqs unat_std_char [OF assms] eq_char_def std_code_def using assms by auto
qed

lemma b64url_of_props:
  assumes "n < 64"
  shows "url_char (b64url_of n)" and "sextet_of (b64url_of n) = Some n" and "b64url_of n \<noteq> eq_char"
proof -
  have u: "unat (b64url_of n) = (if n = 62 then 45 else if n = 63 then 95 else unat (std_char n))"
    by (simp add: b64url_of_def)
  show "url_char (b64url_of n)" "sextet_of (b64url_of n) = Some n"
    using assms by (auto simp: url_char_def sextet_of_def Let_def u unat_std_char std_code_def)
  show "b64url_of n \<noteq> eq_char"
    using assms std_char_eq by (auto simp: b64url_of_def eq_char_def)
qed

lemma dropWhile_all: "list_all P s \<Longrightarrow> dropWhile P (s @ t) = dropWhile P t"
  by (induction s) auto

lemma strip_trailing_replicate:
  "s = [] \<or> last s \<noteq> c \<Longrightarrow> strip_trailing c (s @ replicate n c) = s"
proof -
  assume a: "s = [] \<or> last s \<noteq> c"
  have "dropWhile (\<lambda>x. x = c) (replicate n c @ rev s) = dropWhile (\<lambda>x. x = c) (rev s)"
    by (rule dropWhile_all) (simp add: list_all_iff)
  also have "\<dots> = rev s"
    using a by (cases s rule: rev_cases) auto
  finally show ?thesis by (simp add: strip_trailing_def)
qed

text \<open>The encoding is the sextets in the URL-safe alphabet, without padding.\<close>

lemma b64urlEncode_eq: "b64urlEncode bs = map b64url_of (to_sextets (map unat bs))"
proof -
  let ?ss = "to_sextets (map unat bs)"
  have lt: "\<forall>s \<in> set ?ss. s < 64"
    by (rule to_sextets_lt_64) (auto simp: unat8_lt)
  define t where "t = replace_char 47 95 (replace_char 43 45 (map std_char ?ss))"
  have t: "t = map b64url_of ?ss"
    using lt by (auto simp: t_def replace_char_def b64url_of_def std_char_eq)
  have "replace_char 47 95 (replace_char 43 45 (buffer_to_base64 bs)) =
      t @ replicate ((4 - length ?ss mod 4) mod 4) eq_char"
    by (simp add: buffer_to_base64_def Let_def t_def replace_char_def eq_char_def)
  moreover have "t = [] \<or> last t \<noteq> eq_char"
    using lt b64url_of_props(3) by (cases ?ss rule: rev_cases) (auto simp: t)
  ultimately show ?thesis
    by (simp add: b64urlEncode_def strip_trailing_replicate t)
qed

lemma length_b64urlEncode: "length (b64urlEncode bs) = (4 * length bs + 2) div 3"
  by (simp add: b64urlEncode_eq length_to_sextets)

lemma b64urlEncode_eq_Nil [simp]: "b64urlEncode bs = [] \<longleftrightarrow> bs = []"
  by (cases "map unat bs" rule: to_sextets.cases) (auto simp: b64urlEncode_eq)

lemma b64url_syntax_encode: "b64url_syntax (b64urlEncode bs)"
proof -
  have "\<forall>s \<in> set (to_sextets (map unat bs)). s < 64"
    by (rule to_sextets_lt_64) (auto simp: unat8_lt)
  then have "\<forall>x \<in> set (b64urlEncode bs). url_char x"
    by (auto simp: b64urlEncode_eq b64url_of_props)
  then have "dropWhile url_char (b64urlEncode bs) = []"
    by (simp only: dropWhile_eq_Nil_conv)
  then show ?thesis by (simp add: b64url_syntax_def del: dropWhile_eq_Nil_conv)
qed

text \<open>Both alphabets have the same sextets, and padding has none.\<close>

lemma sextet_of_replace:
  "sextet_of (if (if c = 45 then 43 else c) = 95 then 47 else (if c = 45 then 43 else c)) = sextet_of c"
  by (auto simp: sextet_of_def Let_def)

lemma sextet_of_eq_char [simp]: "sextet_of eq_char = None"
  by (simp add: sextet_of_def eq_char_def)

lemma map_filter_append: "List.map_filter f (xs @ ys) = List.map_filter f xs @ List.map_filter f ys"
  by (simp add: List.map_filter_def)

lemma map_filter_map: "List.map_filter f (map g xs) = List.map_filter (f \<circ> g) xs"
  by (induction xs) (simp_all add: map_filter_simps split: option.split)

lemma sextets_replicate [simp]: "List.map_filter sextet_of (replicate n eq_char) = []"
  by (induction n) (simp_all add: map_filter_simps)

lemma sextets_replace:
  "List.map_filter sextet_of (replace_char 95 47 (replace_char 45 43 s)) = List.map_filter sextet_of s"
proof -
  have "sextet_of \<circ> ((\<lambda>c. if c = 95 then 47 else c) \<circ> (\<lambda>c. if c = 45 then 43 else c)) = sextet_of"
    by (simp add: fun_eq_iff sextet_of_replace del: if_split)
  then show ?thesis by (simp only: replace_char_def map_map map_filter_map)
qed

text \<open>What the decoder computes: the bytes of the sextets it can read.\<close>

lemma b64urlDecode_eq:
  "b64urlDecode s =
     throw_if (\<not> b64url_syntax s) msg_b64_invalid
       (Inr (map of_nat (from_sextets (List.map_filter sextet_of s))))"
  by (simp add: b64urlDecode_def Let_def buffer_from_base64_def map_filter_append sextets_replace)

lemma sextets_encode:
  "\<forall>s \<in> set ss. s < 64 \<Longrightarrow> List.map_filter sextet_of (map b64url_of ss) = ss"
  by (induction ss) (simp_all add: map_filter_simps b64url_of_props)

lemma b64urlDecode_encode: "b64urlDecode (b64urlEncode bs) = Inr bs"
proof -
  have lt: "\<forall>b \<in> set (map unat bs). b < 256" by (auto simp: unat8_lt)
  then have "List.map_filter sextet_of (b64urlEncode bs) = to_sextets (map unat bs)"
    unfolding b64urlEncode_eq by (intro sextets_encode to_sextets_lt_64)
  with lt show ?thesis
    by (simp add: b64urlDecode_eq b64url_syntax_encode from_to_sextets comp_def)
qed

lemma b64url_syntax_pad: "b64url_syntax (s @ replicate n eq_char) = b64url_syntax s"
proof (cases "list_all url_char s")
  case True
  have "\<not> url_char eq_char" by (simp add: url_char_def eq_char_def)
  then have "dropWhile url_char (replicate n eq_char) = replicate n eq_char"
    by (cases n) auto
  moreover have "dropWhile url_char s = []"
    using True by (auto simp: list_all_iff)
  ultimately show ?thesis
    using True by (simp add: b64url_syntax_def dropWhile_all list_all_iff del: dropWhile_eq_Nil_conv)
next
  case False
  then obtain x where "x \<in> set s" "\<not> url_char x" by (auto simp: list_all_iff)
  then show ?thesis by (auto simp: b64url_syntax_def list_all_iff dropWhile_append1)
qed

text \<open>Any number of trailing \<open>=\<close> is accepted and changes nothing.\<close>

lemma b64urlDecode_padding: "b64urlDecode (s @ replicate n eq_char) = b64urlDecode s"
  by (simp add: b64urlDecode_eq b64url_syntax_pad map_filter_append)

lemma b64urlDecode_Inl_iff: "b64urlDecode s = Inl e \<longleftrightarrow> \<not> b64url_syntax s \<and> e = msg_b64_invalid"
  by (auto simp: b64urlDecode_eq throw_if_def)

lemma b64urlDecode_Inr_iff:
  "b64urlDecode s = Inr bs \<longleftrightarrow>
     b64url_syntax s \<and> bs = map of_nat (from_sextets (List.map_filter sextet_of s))"
  by (auto simp: b64urlDecode_eq throw_if_def)

lemma length_map_filter_le: "length (List.map_filter f xs) \<le> length xs"
  by (induction xs) (simp_all add: map_filter_simps split: option.split)

lemma b64urlDecode_length: "b64urlDecode s = Inr bs \<Longrightarrow> length bs \<le> 3 * length s div 4"
  using length_map_filter_le [of sextet_of s]
  by (auto simp: b64urlDecode_Inr_iff length_from_sextets intro: div_le_mono)

section \<open>The codec\<close>

interpretation b64url: codec "\<lambda>_. True" b64urlEncode b64urlDecode
  by unfold_locales (rule b64urlDecode_encode)

text \<open>
  Encoding bytes as base64url and decoding them gives the bytes back, whatever number
  of padding characters was appended, and the text has the expected length.
\<close>

theorem b64url_roundtrip:
  "b64urlDecode (b64urlEncode bs @ replicate n eq_char) = Inr bs \<and>
   length (b64urlEncode bs) = (4 * length bs + 2) div 3"
  by (simp add: b64urlDecode_padding b64urlDecode_encode length_b64urlEncode)

end
