(* ===== verification/Json.thy ===== *)
theory Json
  imports Utf8 "HOL-Library.List_Lexorder"
begin

text \<open>
  JavaScript values as the program meets them (the results of \<open>JSON.parse\<close>, object
  literals, \<open>undefined\<close> for a property that is not there), the operations of the language
  on them that the code uses, and \<open>JSON.stringify\<close> / \<open>JSON.parse\<close>.

  An object is the list of its properties in enumeration order, with distinct keys. Numbers
  are the integers: every number the formats carry is one. A literal with a fraction or an
  exponent is outside the model and the parser does not accept it. Key order is code unit
  order, the order of \<open>Array.prototype.sort\<close> on strings.
\<close>

datatype jsval =
  JUndef
| JNull
| JBool bool
| JNum int
| JStr jstr
| JArr "jsval list"
| JObj "(jstr \<times> jsval) list"

section \<open>Operations of the language\<close>

fun truthy :: "jsval \<Rightarrow> bool" where
  "truthy JUndef = False"
| "truthy JNull = False"
| "truthy (JBool b) = b"
| "truthy (JNum n) = (n \<noteq> 0)"
| "truthy (JStr s) = (s \<noteq> [])"
| "truthy (JArr _) = True"
| "truthy (JObj _) = True"

text \<open>\<open>typeof v === "object"\<close>: true of \<open>null\<close> too.\<close>

fun typeof_object :: "jsval \<Rightarrow> bool" where
  "typeof_object JNull = True"
| "typeof_object (JArr _) = True"
| "typeof_object (JObj _) = True"
| "typeof_object _ = False"

fun is_str :: "jsval \<Rightarrow> bool" where
  "is_str (JStr _) = True"
| "is_str _ = False"

fun is_num :: "jsval \<Rightarrow> bool" where
  "is_num (JNum _) = True"
| "is_num _ = False"

fun str_of :: "jsval \<Rightarrow> jstr" where
  "str_of (JStr s) = s"
| "str_of _ = []"

fun num_of :: "jsval \<Rightarrow> int" where
  "num_of (JNum n) = n"
| "num_of _ = 0"

definition squote :: "string" where "squote = [CHR 0x27]"
definition dquote :: "string" where "dquote = [CHR 0x22]"

definition msg_read_of :: "string \<Rightarrow> jstr \<Rightarrow> jstr" where
  "msg_read_of what k =
     lit (''Cannot read properties of '' @ what @ '' (reading '' @ squote) @ k @ lit (squote @ '')'')"

text \<open>A property read \<open>v.k\<close>, for a name that no prototype defines.\<close>

fun get :: "jsval \<Rightarrow> jstr \<Rightarrow> jsval res" where
  "get JUndef k = Inl (msg_read_of ''undefined'' k)"
| "get JNull k = Inl (msg_read_of ''null'' k)"
| "get (JObj kvs) k = Inr (case map_of kvs k of None \<Rightarrow> JUndef | Some v \<Rightarrow> v)"
| "get _ k = Inr JUndef"

text \<open>Property assignment on an object: an existing key keeps its place.\<close>

fun put :: "(jstr \<times> jsval) list \<Rightarrow> jstr \<Rightarrow> jsval \<Rightarrow> (jstr \<times> jsval) list" where
  "put [] k v = [(k, v)]"
| "put ((k', v') # kvs) k v = (if k' = k then (k, v) # kvs else (k', v') # put kvs k v)"

lemma map_of_put: "map_of (put kvs k v) = (map_of kvs)(k \<mapsto> v)"
  by (induction kvs k v rule: put.induct) auto

lemma put_new: "k \<notin> fst ` set kvs \<Longrightarrow> put kvs k v = kvs @ [(k, v)]"
  by (induction kvs k v rule: put.induct) auto

lemma keys_put: "set (map fst (put kvs k v)) = insert k (set (map fst kvs))"
  by (induction kvs k v rule: put.induct) auto

lemma distinct_put: "distinct (map fst kvs) \<Longrightarrow> distinct (map fst (put kvs k v))"
  by (induction kvs k v rule: put.induct) (auto simp: keys_put simp del: set_map)

section \<open>Numbers and strings\<close>

definition digit :: "nat \<Rightarrow> 16 word" where
  "digit d = of_nat (48 + d)"

fun digs :: "nat \<Rightarrow> jstr" where
  "digs n = (if n < 10 then [digit n] else digs (n div 10) @ [digit (n mod 10)])"

declare digs.simps [simp del]

definition num_str :: "int \<Rightarrow> jstr" where
  "num_str i = (if i < 0 then 45 # digs (nat (- i)) else digs (nat i))"

definition bool_str :: "bool \<Rightarrow> jstr" where
  "bool_str b = (if b then lit ''true'' else lit ''false'')"

definition msg_to_primitive :: jstr where
  "msg_to_primitive = lit ''Cannot convert object to primitive value''"

definition hex_digit :: "nat \<Rightarrow> 16 word" where
  "hex_digit d = of_nat (if d < 10 then 48 + d else 87 + d)"

definition hex4 :: "nat \<Rightarrow> jstr" where
  "hex4 n = [hex_digit (n div 4096 mod 16), hex_digit (n div 256 mod 16),
             hex_digit (n div 16 mod 16), hex_digit (n mod 16)]"

text \<open>One code unit inside a JSON string; lone surrogates and controls are escaped.\<close>

definition esc1 :: "16 word \<Rightarrow> jstr" where
  "esc1 u =
     (if u = 0x22 then [0x5C, 0x22]
      else if u = 0x5C then [0x5C, 0x5C]
      else if u = 8 then [0x5C, 0x62]
      else if u = 12 then [0x5C, 0x66]
      else if u = 10 then [0x5C, 0x6E]
      else if u = 13 then [0x5C, 0x72]
      else if u = 9 then [0x5C, 0x74]
      else if unat u < 0x20 \<or> is_surrogate (unat u) then [0x5C, 0x75] @ hex4 (unat u)
      else [u])"

fun quote_body :: "jstr \<Rightarrow> jstr" where
  "quote_body [] = []"
| "quote_body [u] = esc1 u"
| "quote_body (u # v # us) =
     (if is_lead (unat u) \<and> is_trail (unat v) then u # v # quote_body us
      else esc1 u @ quote_body (v # us))"

definition quote :: "jstr \<Rightarrow> jstr" where
  "quote s = 0x22 # quote_body s @ [0x22]"

section \<open>JSON.stringify\<close>

text \<open>
  \<open>json_str gap ind v\<close> is \<open>JSON.stringify(v, null, gap)\<close> at indentation \<open>ind\<close>; \<open>None\<close> is
  the result \<open>undefined\<close>. A property whose value has no serialization is left out, an array
  element without one is \<open>null\<close>.
\<close>

definition wrap_items :: "jstr \<Rightarrow> jstr \<Rightarrow> 16 word \<Rightarrow> 16 word \<Rightarrow> jstr list \<Rightarrow> jstr" where
  "wrap_items gap ind op cl items =
     (if items = [] then [op, cl]
      else if gap = [] then op # join [0x2C] items @ [cl]
      else op # 10 # ind @ gap @ join ([0x2C, 10] @ ind @ gap) items @ [10] @ ind @ [cl])"

definition member_str :: "jstr \<Rightarrow> jstr \<Rightarrow> jstr \<Rightarrow> jstr" where
  "member_str gap k s = quote k @ (if gap = [] then [0x3A] else [0x3A, 0x20]) @ s"

fun json_str :: "jstr \<Rightarrow> jstr \<Rightarrow> jsval \<Rightarrow> jstr option" where
  "json_str gap ind JUndef = None"
| "json_str gap ind JNull = Some (lit ''null'')"
| "json_str gap ind (JBool b) = Some (bool_str b)"
| "json_str gap ind (JNum n) = Some (num_str n)"
| "json_str gap ind (JStr s) = Some (quote s)"
| "json_str gap ind (JArr vs) =
     Some (wrap_items gap ind 0x5B 0x5D
       (map (\<lambda>v. case json_str gap (ind @ gap) v of None \<Rightarrow> lit ''null'' | Some s \<Rightarrow> s) vs))"
| "json_str gap ind (JObj kvs) =
     Some (wrap_items gap ind 0x7B 0x7D
       (concat (map (\<lambda>(k, v).
          case json_str gap (ind @ gap) v of None \<Rightarrow> [] | Some s \<Rightarrow> [member_str gap k s]) kvs)))"

definition JSON_stringify :: "jsval \<Rightarrow> jstr option" where
  "JSON_stringify v = json_str [] [] v"

definition JSON_stringify2 :: "jsval \<Rightarrow> jstr option" where
  "JSON_stringify2 v = json_str [0x20, 0x20] [] v"

section \<open>String conversion\<close>

text \<open>
  \<open>String(v)\<close>, as template literals and \<open>+\<close> use it. An object whose own \<open>toString\<close> hides
  the inherited one (a parsed value is never callable) cannot be converted.
\<close>

fun res_list :: "'a res list \<Rightarrow> 'a list res" where
  "res_list [] = Inr []"
| "res_list (r # rs) = bind_res r (\<lambda>x. bind_res (res_list rs) (\<lambda>xs. Inr (x # xs)))"

fun to_str :: "jsval \<Rightarrow> jstr res" where
  "to_str JUndef = Inr (lit ''undefined'')"
| "to_str JNull = Inr (lit ''null'')"
| "to_str (JBool b) = Inr (bool_str b)"
| "to_str (JNum n) = Inr (num_str n)"
| "to_str (JStr s) = Inr s"
| "to_str (JArr vs) =
     bind_res (res_list (map (\<lambda>v. if v = JUndef \<or> v = JNull then Inr [] else to_str v) vs))
       (\<lambda>ss. Inr (join [0x2C] ss))"
| "to_str (JObj kvs) =
     (if lit ''toString'' \<in> fst ` set kvs then Inl msg_to_primitive
      else Inr (lit ''[object Object]''))"

text \<open>\<open>throw new Error(prefix + v + suffix)\<close>.\<close>

definition throw_with :: "jstr \<Rightarrow> jsval \<Rightarrow> jstr \<Rightarrow> 'a res" where
  "throw_with pre v suf = bind_res (to_str v) (\<lambda>s. Inl (pre @ s @ suf))"

lemma throw_with_not_Inr [simp]: "throw_with pre v suf \<noteq> Inr x"
  by (simp add: throw_with_def)

lemma throw_with_Inl: "\<exists>m. throw_with pre v suf = Inl m"
  by (cases "to_str v") (simp_all add: throw_with_def)

section \<open>JSON.parse\<close>

definition is_ws :: "16 word \<Rightarrow> bool" where
  "is_ws c \<longleftrightarrow> c = 0x20 \<or> c = 9 \<or> c = 10 \<or> c = 13"

definition skip_ws :: "jstr \<Rightarrow> jstr" where
  "skip_ws s = dropWhile is_ws s"

definition is_digit :: "16 word \<Rightarrow> bool" where
  "is_digit c \<longleftrightarrow> 48 \<le> unat c \<and> unat c \<le> 57"

fun pdigits :: "nat \<Rightarrow> jstr \<Rightarrow> nat \<times> jstr" where
  "pdigits acc [] = (acc, [])"
| "pdigits acc (c # r) =
     (if is_digit c then pdigits (acc * 10 + (unat c - 48)) r else (acc, c # r))"

text \<open>After the integer part a fraction or an exponent is outside the model.\<close>

definition no_fraction :: "jstr \<Rightarrow> bool" where
  "no_fraction r = (case r of [] \<Rightarrow> True | c # _ \<Rightarrow> c \<noteq> 0x2E \<and> c \<noteq> 0x65 \<and> c \<noteq> 0x45)"

definition pnat :: "jstr \<Rightarrow> (nat \<times> jstr) option" where
  "pnat s =
     (case s of
        [] \<Rightarrow> None
      | c # r \<Rightarrow>
          if \<not> is_digit c then None
          else (let (n, r') = (if c = 48 then (0, r) else pdigits 0 s)
                in if no_fraction r' then Some (n, r') else None))"

definition pnum :: "jstr \<Rightarrow> (int \<times> jstr) option" where
  "pnum s =
     (case s of
        [] \<Rightarrow> None
      | c # r \<Rightarrow>
          if c = 45 then map_option (\<lambda>(n, r'). (- int n, r')) (pnat r)
          else map_option (\<lambda>(n, r'). (int n, r')) (pnat s))"

definition hex_val :: "16 word \<Rightarrow> nat option" where
  "hex_val u =
     (let c = unat u
      in if 48 \<le> c \<and> c \<le> 57 then Some (c - 48)
         else if 97 \<le> c \<and> c \<le> 102 then Some (c - 87)
         else if 65 \<le> c \<and> c \<le> 70 then Some (c - 55)
         else None)"

definition hex4_val :: "16 word \<Rightarrow> 16 word \<Rightarrow> 16 word \<Rightarrow> 16 word \<Rightarrow> 16 word option" where
  "hex4_val a b c d =
     (case (hex_val a, hex_val b, hex_val c, hex_val d) of
        (Some x, Some y, Some z, Some w) \<Rightarrow> Some (of_nat (x * 4096 + y * 256 + z * 16 + w))
      | _ \<Rightarrow> None)"

definition simple_escape :: "16 word \<Rightarrow> 16 word option" where
  "simple_escape e =
     (if e = 0x22 \<or> e = 0x5C \<or> e = 0x2F then Some e
      else if e = 0x62 then Some 8
      else if e = 0x66 then Some 12
      else if e = 0x6E then Some 10
      else if e = 0x72 then Some 13
      else if e = 0x74 then Some 9
      else None)"

definition cons_fst :: "'a \<Rightarrow> ('a list \<times> 'b) option \<Rightarrow> ('a list \<times> 'b) option" where
  "cons_fst x r = map_option (\<lambda>(xs, y). (x # xs, y)) r"

text \<open>The rest of a string literal, after its opening quote.\<close>

fun pstr :: "jstr \<Rightarrow> (jstr \<times> jstr) option" where
  "pstr [] = None"
| "pstr (c # r) =
     (if c = 0x22 then Some ([], r)
      else if c = 0x5C then
        (case r of
           [] \<Rightarrow> None
         | e # r1 \<Rightarrow>
             if e = 0x75 then
               (case r1 of
                  h1 # h2 # h3 # h4 # r2 \<Rightarrow>
                    (case hex4_val h1 h2 h3 h4 of None \<Rightarrow> None | Some u \<Rightarrow> cons_fst u (pstr r2))
                | _ \<Rightarrow> None)
             else
               (case simple_escape e of None \<Rightarrow> None | Some u \<Rightarrow> cons_fst u (pstr r1)))
      else if unat c < 0x20 then None
      else cons_fst c (pstr r))"

definition pliteral :: "jstr \<Rightarrow> jsval \<Rightarrow> jstr \<Rightarrow> (jsval \<times> jstr) option" where
  "pliteral w v s = (if starts_with w s then Some (v, drop (length w) s) else None)"

text \<open>
  The grammar by recursive descent. The first argument bounds the nesting and the number
  of elements; \<open>JSON_parse\<close> starts with more than the text can use.
\<close>

fun pvalue :: "nat \<Rightarrow> jstr \<Rightarrow> (jsval \<times> jstr) option"
and pelems :: "nat \<Rightarrow> jsval list \<Rightarrow> jstr \<Rightarrow> (jsval \<times> jstr) option"
and pmembers :: "nat \<Rightarrow> (jstr \<times> jsval) list \<Rightarrow> jstr \<Rightarrow> (jsval \<times> jstr) option" where
  "pvalue 0 s = None"
| "pvalue (Suc n) s =
     (case skip_ws s of
        [] \<Rightarrow> None
      | c # r \<Rightarrow>
          if c = 0x22 then map_option (\<lambda>(t, r'). (JStr t, r')) (pstr r)
          else if c = 0x5B then
            (case skip_ws r of
               [] \<Rightarrow> None
             | d # r' \<Rightarrow> if d = 0x5D then Some (JArr [], r') else pelems n [] r)
          else if c = 0x7B then
            (case skip_ws r of
               [] \<Rightarrow> None
             | d # r' \<Rightarrow> if d = 0x7D then Some (JObj [], r') else pmembers n [] r)
          else if c = 0x74 then pliteral (lit ''true'') (JBool True) (c # r)
          else if c = 0x66 then pliteral (lit ''false'') (JBool False) (c # r)
          else if c = 0x6E then pliteral (lit ''null'') JNull (c # r)
          else map_option (\<lambda>(i, r'). (JNum i, r')) (pnum (c # r)))"
| "pelems 0 acc s = None"
| "pelems (Suc n) acc s =
     (case pvalue n s of
        None \<Rightarrow> None
      | Some (v, r) \<Rightarrow>
          (case skip_ws r of
             [] \<Rightarrow> None
           | c # r' \<Rightarrow>
               if c = 0x2C then pelems n (acc @ [v]) r'
               else if c = 0x5D then Some (JArr (acc @ [v]), r')
               else None))"
| "pmembers 0 acc s = None"
| "pmembers (Suc n) acc s =
     (case skip_ws s of
        [] \<Rightarrow> None
      | q # r0 \<Rightarrow>
          if q \<noteq> 0x22 then None
          else
            (case pstr r0 of
               None \<Rightarrow> None
             | Some (k, r1) \<Rightarrow>
                 (case skip_ws r1 of
                    [] \<Rightarrow> None
                  | c # r2 \<Rightarrow>
                      if c \<noteq> 0x3A then None
                      else
                        (case pvalue n r2 of
                           None \<Rightarrow> None
                         | Some (v, r3) \<Rightarrow>
                             (case skip_ws r3 of
                                [] \<Rightarrow> None
                              | d # r4 \<Rightarrow>
                                  if d = 0x2C then pmembers n (put acc k v) r4
                                  else if d = 0x7D then Some (JObj (put acc k v), r4)
                                  else None)))))"

definition JSON_parse :: "jstr \<Rightarrow> jsval option" where
  "JSON_parse s =
     (case pvalue (2 * length s + 2) s of
        None \<Rightarrow> None
      | Some (v, r) \<Rightarrow> if skip_ws r = [] then Some v else None)"

end
