(* ===== verification/Json_Roundtrip.thy ===== *)
theory Json_Roundtrip
  imports Json
begin

text \<open>
  \<open>JSON.parse\<close> inverts \<open>JSON.stringify\<close> on every well-formed value, with or without
  indentation, and the parser's fuel is enough for every text the serializer writes.
\<close>

section \<open>Well-formed values\<close>

text \<open>What \<open>JSON.parse\<close> can return: no \<open>undefined\<close> inside, distinct keys.\<close>

fun wf_val :: "jsval \<Rightarrow> bool" where
  "wf_val JUndef = False"
| "wf_val (JArr vs) = list_all wf_val vs"
| "wf_val (JObj kvs) = (distinct (map fst kvs) \<and> list_all (\<lambda>(k, v). wf_val v) kvs)"
| "wf_val _ = True"

section \<open>Numbers\<close>

lemma unat_digit [simp]: "d < 10 \<Longrightarrow> unat (digit d) = 48 + d"
  unfolding digit_def by (subst unat_of_nat16) simp_all

lemma is_digit_digit [simp]: "d < 10 \<Longrightarrow> is_digit (digit d)"
  by (simp add: is_digit_def)

lemma digs_digits: "\<forall>c \<in> set (digs n). is_digit c"
proof (induction n rule: digs.induct)
  case (1 n)
  then show ?case by (cases "n < 10") (auto simp: digs.simps [of n])
qed

lemma pdigits_append:
  "\<forall>c \<in> set ds. is_digit c \<Longrightarrow> pdigits acc (ds @ r) = pdigits (fst (pdigits acc ds)) r"
  by (induction ds arbitrary: acc) auto

lemma pdigits_digs: "fst (pdigits acc (digs n)) = acc * 10 ^ length (digs n) + n"
proof (induction n arbitrary: acc rule: digs.induct)
  case (1 n)
  show ?case
  proof (cases "n < 10")
    case True
    then show ?thesis by (simp add: digs.simps [of n])
  next
    case False
    have m: "n mod 10 < 10" by simp
    have "fst (pdigits acc (digs n)) =
        fst (pdigits (acc * 10 ^ length (digs (n div 10)) + n div 10) [digit (n mod 10)])"
      using False 1 by (simp add: digs.simps [of n] pdigits_append digs_digits)
    also have "\<dots> = (acc * 10 ^ length (digs (n div 10)) + n div 10) * 10 + n mod 10"
      using m by simp
    also have "\<dots> = acc * 10 ^ length (digs n) + n"
      using False by (simp add: digs.simps [of n] algebra_simps)
    finally show ?thesis .
  qed
qed

lemma digs_hd: "\<exists>c r. digs n = c # r \<and> is_digit c \<and> (c = 48 \<longrightarrow> n = 0)"
proof (induction n rule: digs.induct)
  case (1 n)
  show ?case
  proof (cases "n < 10")
    case True
    have "unat (digit n) = 48 + n" using True by simp
    then have "digit n = 48 \<longrightarrow> n = 0" by auto
    with True show ?thesis by (simp add: digs.simps [of n])
  next
    case False
    with 1 obtain c r where "digs (n div 10) = c # r" "is_digit c" "c = 48 \<longrightarrow> n div 10 = 0"
      by blast
    with False show ?thesis by (auto simp: digs.simps [of n])
  qed
qed

text \<open>What may follow a number: the end, or a character that cannot continue it.\<close>

definition delim :: "jstr \<Rightarrow> bool" where
  "delim r = (case r of [] \<Rightarrow> True | c # _ \<Rightarrow> \<not> is_digit c \<and> c \<noteq> 0x2E \<and> c \<noteq> 0x65 \<and> c \<noteq> 0x45)"

lemma delim_simps [simp]:
  "delim []" "delim (0x2C # r)" "delim (0x5D # r)" "delim (0x7D # r)" "delim (10 # r)"
  by (simp_all add: delim_def is_digit_def)

lemma pdigits_delim: "delim r \<Longrightarrow> pdigits acc r = (acc, r)"
  by (cases r) (simp_all add: delim_def)

lemma no_fraction_delim: "delim r \<Longrightarrow> no_fraction r"
  by (cases r) (simp_all add: delim_def no_fraction_def)

lemma pnat_digs:
  assumes "delim r"
  shows "pnat (digs n @ r) = Some (n, r)"
proof -
  obtain c t where c: "digs n = c # t" "is_digit c" "c = 48 \<longrightarrow> n = 0"
    using digs_hd by blast
  show ?thesis
  proof (cases "n = 0")
    case True
    have "digs 0 = [48]" by (simp add: digs.simps [of 0] digit_def)
    with True assms show ?thesis by (simp add: pnat_def no_fraction_delim is_digit_def)
  next
    case False
    have "pdigits 0 (digs n @ r) = (n, r)"
      using assms by (simp add: pdigits_append digs_digits pdigits_digs pdigits_delim)
    with False c assms show ?thesis by (simp add: pnat_def no_fraction_delim)
  qed
qed

lemma is_digit_not: "is_digit c \<Longrightarrow> c \<noteq> 45"
  by (auto simp: is_digit_def)

lemma pnum_num_str: "delim r \<Longrightarrow> pnum (num_str i @ r) = Some (i, r)"
proof -
  assume r: "delim r"
  obtain c t where c: "digs (nat i) = c # t" "is_digit c" using digs_hd by blast
  show ?thesis
  proof (cases "i < 0")
    case True
    then show ?thesis using r by (simp add: pnum_def num_str_def pnat_digs)
  next
    case False
    then show ?thesis using r c is_digit_not [OF c(2)] pnat_digs [OF r, of "nat i"]
      by (simp add: pnum_def num_str_def)
  qed
qed

lemma num_str_hd: "\<exists>c r. num_str i = c # r \<and> (is_digit c \<or> c = 45)"
  by (metis digs_hd num_str_def)

section \<open>Strings\<close>

lemma unat_hex_digit: "d < 16 \<Longrightarrow> unat (hex_digit d) = (if d < 10 then 48 + d else 87 + d)"
  unfolding hex_digit_def by (subst unat_of_nat16) simp_all

lemma hex_val_digit: "d < 16 \<Longrightarrow> hex_val (hex_digit d) = Some d"
  by (auto simp: hex_val_def unat_hex_digit)

lemma hex4_value:
  assumes "n < 65536"
  shows "n div 4096 mod 16 * 4096 + n div 256 mod 16 * 256 + n div 16 mod 16 * 16 + n mod 16 = (n :: nat)"
proof -
  define p where "p = n div 16"
  define q where "q = p div 16"
  define r where "r = q div 16"
  have d: "n div 16 = p" "n div 256 = q" "n div 4096 = r"
    by (simp_all add: p_def q_def r_def div_mult2_eq [symmetric])
  have "p = 16 * q + p mod 16" "q = 16 * r + q mod 16" "n = 16 * p + n mod 16"
    by (simp_all add: p_def q_def r_def)
  moreover have "r < 16" using assms by (simp add: d [symmetric] less_mult_imp_div_less)
  ultimately show ?thesis unfolding d by simp
qed

lemma hex4_val_digits:
  assumes "x < 16" "y < 16" "z < 16" "w < 16"
  shows "hex4_val (hex_digit x) (hex_digit y) (hex_digit z) (hex_digit w)
    = Some (of_nat (x * 4096 + y * 256 + z * 16 + w))"
  using assms by (simp add: hex4_val_def hex_val_digit)

lemma hex4_val_hex4:
  assumes "hex4 (unat u) = [a, b, c, d]"
  shows "hex4_val a b c d = Some u"
proof -
  have "hex4_val a b c d = Some (of_nat (unat u div 4096 mod 16 * 4096 +
      unat u div 256 mod 16 * 256 + unat u div 16 mod 16 * 16 + unat u mod 16))"
    using assms unfolding hex4_def by (auto simp only: list.inject intro!: hex4_val_digits)
  also have "\<dots> = Some u"
    by (subst hex4_value [OF unat16_lt]) simp
  finally show ?thesis .
qed

lemma pstr_esc1: "pstr (esc1 u @ t) = cons_fst u (pstr t)"
proof -
  consider "u = 0x22" | "u = 0x5C" | "u = 8" | "u = 12" | "u = 10" | "u = 13" | "u = 9"
    | "u \<notin> {0x22, 0x5C, 8, 12, 10, 13, 9}" "unat u < 0x20 \<or> is_surrogate (unat u)"
    | "u \<notin> {0x22, 0x5C, 8, 12, 10, 13, 9}" "\<not> (unat u < 0x20 \<or> is_surrogate (unat u))"
    by auto
  then show ?thesis
  proof cases
    case 8
    obtain a b c d where h: "hex4 (unat u) = [a, b, c, d]" by (simp add: hex4_def)
    with 8 hex4_val_hex4 [OF h] show ?thesis by (simp add: esc1_def h)
  next
    case 9
    then show ?thesis by (simp add: esc1_def)
  qed (simp_all add: esc1_def simple_escape_def)
qed

lemma pstr_raw: "32 \<le> unat u \<Longrightarrow> u \<noteq> 0x22 \<Longrightarrow> u \<noteq> 0x5C \<Longrightarrow> pstr (u # t) = cons_fst u (pstr t)"
  by simp

lemma surrogate_raw: "is_surrogate (unat u) \<Longrightarrow> pstr (u # t) = cons_fst u (pstr t)"
proof -
  assume "is_surrogate (unat u)"
  then have "0xD800 \<le> unat u" by (auto simp: is_surrogate_def is_lead_def is_trail_def)
  then have "32 \<le> unat u" "u \<noteq> 0x22" "u \<noteq> 0x5C" by auto
  then show ?thesis by (rule pstr_raw)
qed

declare pstr.simps(2) [simp del]

lemma pstr_quote_body: "pstr (quote_body s @ 0x22 # r) = Some (s, r)"
proof (induction s rule: quote_body.induct)
  case (3 u v us)
  show ?case
  proof (cases "is_lead (unat u) \<and> is_trail (unat v)")
    case True
    then have "is_surrogate (unat u)" "is_surrogate (unat v)" by (auto simp: is_surrogate_def)
    with True 3 show ?thesis by (simp add: surrogate_raw cons_fst_def del: pstr.simps(2))
  next
    case False
    then have "quote_body (u # v # us) = esc1 u @ quote_body (v # us)" by auto
    with False 3 show ?thesis by (simp add: pstr_esc1 cons_fst_def del: quote_body.simps pstr.simps)
  qed
qed (simp_all add: pstr_esc1 cons_fst_def pstr.simps(2) [of "0x22"])

lemma pstr_quote: "quote s @ r = 0x22 # t \<Longrightarrow> pstr t = Some (s, r)"
  using pstr_quote_body [of s r] by (auto simp: quote_def)

section \<open>Values\<close>

text \<open>Fuel a value needs: one per value, element and member.\<close>

fun need :: "jsval \<Rightarrow> nat" where
  "need (JArr vs) = Suc (sum_list (map (\<lambda>v. Suc (need v)) vs))"
| "need (JObj kvs) = Suc (sum_list (map (\<lambda>(k, v). Suc (need v)) kvs))"
| "need _ = 1"

definition blank :: "jstr \<Rightarrow> bool" where
  "blank w = list_all is_ws w"

lemma blank_simps [simp]:
  "blank []" "blank (c # w) \<longleftrightarrow> is_ws c \<and> blank w" "blank (v @ w) \<longleftrightarrow> blank v \<and> blank w"
  by (simp_all add: blank_def)

lemma skip_ws_blank: "blank w \<Longrightarrow> skip_ws (w @ s) = skip_ws s"
  by (induction w) (simp_all add: skip_ws_def)

lemma skip_ws_Cons: "\<not> is_ws c \<Longrightarrow> skip_ws (c # s) = c # s"
  by (simp add: skip_ws_def)

lemma is_ws_consts [simp]:
  "is_ws 0x20" "is_ws 10" "\<not> is_ws 0x22" "\<not> is_ws 0x2C" "\<not> is_ws 0x3A" "\<not> is_ws 0x5B" "\<not> is_ws 0x5D"
  "\<not> is_ws 0x7B" "\<not> is_ws 0x7D" "\<not> is_ws 0x74" "\<not> is_ws 0x66" "\<not> is_ws 0x6E" "\<not> is_ws 45"
  by (simp_all add: is_ws_def)

lemma is_digit_not_ws: "is_digit c \<Longrightarrow> \<not> is_ws c"
  by (auto simp: is_digit_def is_ws_def)

lemma pvalue_blank: "blank w \<Longrightarrow> pvalue n (w @ s) = pvalue n s"
  by (cases n) (simp_all add: skip_ws_blank)

text \<open>\<open>reads f v\<close>: the text \<open>f v\<close> is read back as \<open>v\<close> wherever it stands.\<close>

definition reads :: "jstr \<Rightarrow> jsval \<Rightarrow> bool" where
  "reads t v \<longleftrightarrow>
     (\<forall>n r. need v \<le> n \<longrightarrow> delim r \<longrightarrow> pvalue n (t @ r) = Some (v, r)) \<and>
     (\<exists>c u. t = c # u \<and> \<not> is_ws c \<and> c \<noteq> 0x5D \<and> c \<noteq> 0x7D)"

lemma readsD: "reads t v \<Longrightarrow> need v \<le> n \<Longrightarrow> delim r \<Longrightarrow> pvalue n (t @ r) = Some (v, r)"
  by (simp add: reads_def)

lemma skip_ws_reads: "reads t v \<Longrightarrow> skip_ws (t @ r) = t @ r"
  by (auto simp: reads_def skip_ws_Cons)

lemma delim_post:
  "blank p \<Longrightarrow> p = [] \<or> hd p = 10 \<Longrightarrow> delim (p @ 0x2C # r) \<and> delim (p @ 0x5D # r) \<and> delim (p @ 0x7D # r)"
  by (cases p) auto

lemma pelems_read:
  assumes "vs \<noteq> []" and "\<forall>v \<in> set vs. reads (f v) v" and "blank w" and "blank p"
    and "p = [] \<or> hd p = 10" and "sum_list (map (\<lambda>v. Suc (need v)) vs) \<le> n"
  shows "pelems n acc (w @ join (0x2C # w) (map f vs) @ p @ 0x5D # r) = Some (JArr (acc @ vs), r)"
  using assms(1,2,6)
proof (induction vs arbitrary: acc n)
  case (Cons v vs)
  then obtain m where n: "n = Suc m" "need v \<le> m" by (cases n) auto
  show ?case
  proof (cases "vs = []")
    case True
    have "pvalue m (f v @ p @ 0x5D # r) = Some (v, p @ 0x5D # r)"
      using Cons.prems(2) n assms(4,5) delim_post by (intro readsD) auto
    then show ?thesis
      using True n assms(3,4) by (simp add: pvalue_blank skip_ws_blank skip_ws_Cons)
  next
    case False
    have "pvalue m (f v @ 0x2C # w @ join (0x2C # w) (map f vs) @ p @ 0x5D # r) =
        Some (v, 0x2C # w @ join (0x2C # w) (map f vs) @ p @ 0x5D # r)"
      using Cons.prems(2) n by (intro readsD) auto
    moreover have "pelems m (acc @ [v]) (w @ join (0x2C # w) (map f vs) @ p @ 0x5D # r) =
        Some (JArr ((acc @ [v]) @ vs), r)"
      using Cons.prems n False by (intro Cons.IH) auto
    ultimately show ?thesis
      using False n assms(3) by (simp add: join_Cons pvalue_blank skip_ws_Cons)
  qed
qed simp

lemma pmembers_read:
  assumes "kvs \<noteq> []" and "\<forall>(k, v) \<in> set kvs. reads (f v) v" and "blank w" and "blank p" and "blank sp"
    and "p = [] \<or> hd p = 10" and "sum_list (map (\<lambda>(k, v). Suc (need v)) kvs) \<le> n"
    and "distinct (map fst acc @ map fst kvs)"
  shows "pmembers n acc
      (w @ join (0x2C # w) (map (\<lambda>(k, v). quote k @ 0x3A # sp @ f v) kvs) @ p @ 0x7D # r)
    = Some (JObj (acc @ kvs), r)"
  using assms(1,2,7,8)
proof (induction kvs arbitrary: acc n)
  case (Cons kv kvs)
  obtain k v where kv: "kv = (k, v)" by (cases kv)
  with Cons.prems obtain m where n: "n = Suc m" "need v \<le> m" by (cases n) auto
  have put: "put acc k v = acc @ [(k, v)]"
    using Cons.prems(4) kv by (intro put_new) auto
  have ps: "pstr (quote_body k @ 0x22 # t) = Some (k, t)" for t by (rule pstr_quote_body)
  show ?case
  proof (cases "kvs = []")
    case True
    have "pvalue m (f v @ p @ 0x7D # r) = Some (v, p @ 0x7D # r)"
      using Cons.prems(2) n kv assms(4,6) delim_post by (intro readsD) auto
    then show ?thesis
      using True n kv put assms(3-5)
      by (simp add: quote_def ps pvalue_blank skip_ws_blank skip_ws_Cons)
  next
    case False
    let ?rest = "w @ join (0x2C # w) (map (\<lambda>(k, v). quote k @ 0x3A # sp @ f v) kvs) @ p @ 0x7D # r"
    have "pvalue m (f v @ 0x2C # ?rest) = Some (v, 0x2C # ?rest)"
      using Cons.prems(2) n kv by (intro readsD) auto
    moreover have "pmembers m (acc @ [(k, v)]) ?rest = Some (JObj ((acc @ [(k, v)]) @ kvs), r)"
      using Cons.prems n False kv by (intro Cons.IH) auto
    ultimately show ?thesis
      using False n kv put assms(3,5)
      by (simp add: join_Cons quote_def ps pvalue_blank skip_ws_blank skip_ws_Cons)
  qed
qed simp

lemma json_str_Some: "wf_val v \<Longrightarrow> \<exists>t. json_str gap ind v = Some t"
  by (cases v) auto

text \<open>The text of a well-formed value, without the option.\<close>

definition text_of :: "jstr \<Rightarrow> jstr \<Rightarrow> jsval \<Rightarrow> jstr" where
  "text_of gap ind v = (case json_str gap ind v of None \<Rightarrow> [] | Some t \<Rightarrow> t)"

lemma json_str_text_of: "wf_val v \<Longrightarrow> json_str gap ind v = Some (text_of gap ind v)"
  using json_str_Some [of v gap ind] by (auto simp: text_of_def)

lemma text_of_arr:
  assumes "wf_val (JArr vs)" and "vs \<noteq> []"
  shows "text_of gap ind (JArr vs) =
    (let w = (if gap = [] then [] else 10 # ind @ gap); p = (if gap = [] then [] else 10 # ind)
     in 0x5B # w @ join (0x2C # w) (map (text_of gap (ind @ gap)) vs) @ p @ [0x5D])"
proof -
  have "map (\<lambda>v. case json_str gap (ind @ gap) v of None \<Rightarrow> lit ''null'' | Some s \<Rightarrow> s) vs =
      map (text_of gap (ind @ gap)) vs"
    using assms(1) by (auto simp: json_str_text_of list_all_iff)
  then have "text_of gap ind (JArr vs) = wrap_items gap ind 0x5B 0x5D (map (text_of gap (ind @ gap)) vs)"
    by (simp only: text_of_def [of gap ind "JArr vs"] json_str.simps option.case)
  with assms show ?thesis
    by (simp add: wrap_items_def Let_def)
qed

lemma text_of_obj:
  assumes "wf_val (JObj kvs)" and "kvs \<noteq> []"
  shows "text_of gap ind (JObj kvs) =
    (let w = (if gap = [] then [] else 10 # ind @ gap); p = (if gap = [] then [] else 10 # ind);
         sp = (if gap = [] then [] else [0x20])
     in 0x7B # w @ join (0x2C # w)
          (map (\<lambda>(k, v). quote k @ 0x3A # sp @ text_of gap (ind @ gap) v) kvs) @ p @ [0x7D])"
proof -
  have "concat (map (\<lambda>(k, v). case json_str gap (ind @ gap) v of None \<Rightarrow> []
        | Some s \<Rightarrow> [member_str gap k s]) kvs) =
      concat (map (\<lambda>(k, v). [member_str gap k (text_of gap (ind @ gap) v)]) kvs)"
    using assms(1) by (intro concat_map_cong) (auto simp: json_str_text_of list_all_iff)
  also have "\<dots> = map (\<lambda>(k, v). member_str gap k (text_of gap (ind @ gap) v)) kvs"
    by (induction kvs) auto
  finally show ?thesis
    using assms(2)
    by (simp add: text_of_def [of gap ind "JObj kvs"] wrap_items_def Let_def member_str_def)
qed

lemma reads_node:
  assumes "\<And>n r. k \<le> n \<Longrightarrow> delim r \<Longrightarrow> pvalue (Suc n) (t @ r) = Some (v, r)" and "need v = Suc k"
    and "t = c # u" and "\<not> is_ws c" and "c \<noteq> 0x5D" and "c \<noteq> 0x7D"
  shows "reads t v"
proof -
  have "pvalue n (t @ r) = Some (v, r)" if "need v \<le> n" "delim r" for n r
    using assms(1,2) that by (cases n) auto
  then show ?thesis using assms(3-6) by (auto simp: reads_def)
qed

lemma reads_leaf:
  assumes "\<And>n r. delim r \<Longrightarrow> pvalue (Suc n) (t @ r) = Some (v, r)" and "need v = 1"
    and "t = c # u" and "\<not> is_ws c" and "c \<noteq> 0x5D" and "c \<noteq> 0x7D"
  shows "reads t v"
  using assms by (intro reads_node [of 0]) auto

lemma lit_codes:
  "lit ''true'' = [0x74, 0x72, 0x75, 0x65]" "lit ''false'' = [0x66, 0x61, 0x6C, 0x73, 0x65]"
  "lit ''null'' = [0x6E, 0x75, 0x6C, 0x6C]"
  by (simp_all add: lit_def unit_of_def)

lemma reads_num: "reads (num_str i) (JNum i)"
proof -
  obtain c u where c: "num_str i = c # u" "is_digit c \<or> c = 45" using num_str_hd by blast
  then have w: "\<not> is_ws c" using is_digit_not_ws by auto
  have ne: "c \<noteq> 0x5D" "c \<noteq> 0x7D" "c \<noteq> 0x22" "c \<noteq> 0x5B" "c \<noteq> 0x7B" "c \<noteq> 0x74" "c \<noteq> 0x66" "c \<noteq> 0x6E"
    using c(2) by (auto simp: is_digit_def)
  show ?thesis
  proof (rule reads_leaf [OF _ _ c(1) w ne(1,2)])
    fix n r assume "delim r"
    then have "pnum (c # u @ r) = Some (i, r)" using pnum_num_str [of r i] c by simp
    then show "pvalue (Suc n) (num_str i @ r) = Some (JNum i, r)"
      using c w ne by (simp add: skip_ws_Cons)
  qed simp
qed

lemma reads_str: "reads (quote s) (JStr s)"
  by (rule reads_leaf [of _ _ "0x22"]) (simp_all add: quote_def skip_ws_Cons pstr_quote_body)

lemma reads_arr:
  assumes "vs \<noteq> []" and "\<forall>v \<in> set vs. reads (f v) v" and "blank w" and "blank p"
    and "p = [] \<or> hd p = 10"
  shows "reads (0x5B # w @ join (0x2C # w) (map f vs) @ p @ [0x5D]) (JArr vs)"
proof -
  have "\<exists>d t. skip_ws (w @ join (0x2C # w) (map f vs) @ q) = d # t \<and> d \<noteq> 0x5D" for q
  proof -
    obtain v vs' where vs: "vs = v # vs'" using assms(1) by (cases vs) auto
    obtain t where "join (0x2C # w) (map f vs) = f v @ t" by (cases vs') (auto simp: vs)
    moreover have "reads (f v) v" using assms(2) vs by simp
    ultimately show ?thesis
      using assms(3) by (auto simp: skip_ws_blank reads_def skip_ws_Cons)
  qed
  note hd = this
  have "pvalue (Suc n) ((0x5B # w @ join (0x2C # w) (map f vs) @ p @ [0x5D]) @ r) = Some (JArr vs, r)"
    if "sum_list (map (\<lambda>v. Suc (need v)) vs) \<le> n" for n r
    using hd [of "p @ 0x5D # r"] pelems_read [OF assms that, of "[]" r]
    by (auto simp: skip_ws_Cons)
  then show ?thesis by (intro reads_node) auto
qed

lemma reads_obj:
  assumes "kvs \<noteq> []" and "\<forall>(k, v) \<in> set kvs. reads (f v) v" and "blank w" and "blank p" and "blank sp"
    and "p = [] \<or> hd p = 10" and "distinct (map fst kvs)"
  shows "reads (0x7B # w @ join (0x2C # w) (map (\<lambda>(k, v). quote k @ 0x3A # sp @ f v) kvs) @ p @ [0x7D])
    (JObj kvs)"
proof -
  let ?items = "map (\<lambda>(k, v). quote k @ 0x3A # sp @ f v) kvs"
  have "\<exists>t. skip_ws (w @ join (0x2C # w) ?items @ q) = 0x22 # t" for q
  proof -
    obtain k v kvs' where kvs: "kvs = (k, v) # kvs'" using assms(1) by (cases kvs) auto
    obtain t where "join (0x2C # w) ?items = 0x22 # t"
      by (cases kvs') (auto simp: kvs quote_def split: prod.splits)
    then show ?thesis using assms(3) by (simp add: skip_ws_blank skip_ws_Cons)
  qed
  note hd = this
  have "pvalue (Suc n) ((0x7B # w @ join (0x2C # w) ?items @ p @ [0x7D]) @ r) = Some (JObj kvs, r)"
    if "sum_list (map (\<lambda>(k, v). Suc (need v)) kvs) \<le> n" for n r
    using hd [of "p @ 0x7D # r"] pmembers_read [OF assms(1-6) that, of "[]" r] assms(7)
    by (auto simp: skip_ws_Cons)
  then show ?thesis by (intro reads_node) auto
qed

lemma reads_text_of:
  "wf_val v \<Longrightarrow> blank gap \<Longrightarrow> blank ind \<Longrightarrow> reads (text_of gap ind v) v"
proof (induction gap ind v rule: json_str.induct)
  case (3 gap ind b)
  then show ?case
    by (cases b; intro reads_leaf)
      (auto simp: text_of_def bool_str_def lit_codes skip_ws_Cons pliteral_def)
next
  case (6 gap ind vs)
  show ?case
  proof (cases "vs = []")
    case True
    then show ?thesis
      by (auto simp: text_of_def wrap_items_def reads_def skip_ws_Cons dest!: Suc_le_D)
  next
    case False
    have "\<forall>v \<in> set vs. reads (text_of gap (ind @ gap) v) v"
      using 6 by (auto simp: list_all_iff)
    with 6 False show ?thesis
      unfolding text_of_arr [OF 6(2) False] Let_def by (intro reads_arr) auto
  qed
next
  case (7 gap ind kvs)
  show ?case
  proof (cases "kvs = []")
    case True
    then show ?thesis
      by (auto simp: text_of_def wrap_items_def reads_def skip_ws_Cons dest!: Suc_le_D)
  next
    case False
    have "\<forall>(k, v) \<in> set kvs. reads (text_of gap (ind @ gap) v) v"
      using 7 by (fastforce simp: list_all_iff)
    with 7 False show ?thesis
      unfolding text_of_obj [OF 7(2) False] Let_def by (intro reads_obj) auto
  qed
next
  case (2 gap ind)
  then show ?case
    by (intro reads_leaf) (auto simp: text_of_def lit_codes skip_ws_Cons pliteral_def)
qed (simp_all add: text_of_def reads_num reads_str)

section \<open>Whole texts\<close>

lemma sum_list_join: "sum_list (map length xs) \<le> length (join sep xs)"
  by (induction sep xs rule: join.induct) auto

lemma sum_need_le:
  assumes "\<forall>x \<in> set xs. Suc (g x) \<le> 2 * length (f x)"
  shows "sum_list (map (\<lambda>x. Suc (g x)) xs) \<le> 2 * length (join sep (map f xs))"
proof -
  have "sum_list (map (\<lambda>x. Suc (g x)) xs) \<le> sum_list (map (\<lambda>x. 2 * length (f x)) xs)"
    using assms by (intro sum_list_mono) auto
  also have "\<dots> = 2 * sum_list (map length (map f xs))"
    by (simp add: sum_list_const_mult comp_def)
  also have "\<dots> \<le> 2 * length (join sep (map f xs))"
    using sum_list_join [of "map f xs" sep] by simp
  finally show ?thesis .
qed

lemma need_text_of: "wf_val v \<Longrightarrow> Suc (need v) \<le> 2 * length (text_of gap ind v)"
proof (induction gap ind v rule: json_str.induct)
  case (6 gap ind vs)
  show ?case
  proof (cases "vs = []")
    case True
    then show ?thesis by (simp add: text_of_def wrap_items_def)
  next
    case False
    have "\<forall>v \<in> set vs. Suc (need v) \<le> 2 * length (text_of gap (ind @ gap) v)"
      using 6 by (auto simp: list_all_iff)
    note le = sum_need_le [OF this]
    show ?thesis unfolding text_of_arr [OF 6(2) False] Let_def
      using le [of "0x2C # (if gap = [] then [] else 10 # ind @ gap)"] by simp
  qed
next
  case (7 gap ind kvs)
  show ?case
  proof (cases "kvs = []")
    case True
    then show ?thesis by (simp add: text_of_def wrap_items_def)
  next
    case False
    let ?sp = "if gap = [] then [] else [0x20]"
    let ?f = "\<lambda>(k, v). quote k @ 0x3A # ?sp @ text_of gap (ind @ gap) v"
    have "\<forall>kv \<in> set kvs. Suc (need (snd kv)) \<le> 2 * length (?f kv)"
      using 7 by (fastforce simp: list_all_iff)
    note le = sum_need_le [OF this]
    show ?thesis unfolding text_of_obj [OF 7(2) False] Let_def
      using le [of "0x2C # (if gap = [] then [] else 10 # ind @ gap)"]
      by (simp add: case_prod_unfold)
  qed
next
  case (4 gap ind n)
  then show ?case using num_str_hd [of n] by (auto simp: text_of_def)
qed (auto simp: text_of_def bool_str_def quote_def)

lemma skip_ws_all: "blank w \<Longrightarrow> skip_ws w = []"
  using skip_ws_blank [of w "[]"] by (simp add: skip_ws_def)

lemma JSON_parse_text:
  assumes "wf_val v" and "blank gap" and "blank w" and "blank w'" and "w' = [] \<or> hd w' = 10"
  shows "JSON_parse (w @ text_of gap [] v @ w') = Some v"
proof -
  let ?s = "w @ text_of gap [] v @ w'"
  have "need v \<le> 2 * length ?s + 2"
    using need_text_of [OF assms(1), of gap "[]"] by simp
  moreover have "delim w'" using assms(5) by (cases w') auto
  ultimately have "pvalue (2 * length ?s + 2) (text_of gap [] v @ w') = Some (v, w')"
    by (intro readsD [OF reads_text_of [OF assms(1,2)]]) simp_all
  then have "pvalue (2 * length ?s + 2) ?s = Some (v, w')"
    by (simp only: pvalue_blank [OF assms(3)])
  then show ?thesis using assms(4) by (simp add: JSON_parse_def skip_ws_all del: pvalue.simps)
qed

lemma JSON_parse_stringify: "wf_val v \<Longrightarrow> JSON_stringify v = Some t \<Longrightarrow> JSON_parse t = Some v"
  using JSON_parse_text [of v "[]" "[]" "[]"] by (simp add: JSON_stringify_def text_of_def)

lemma JSON_parse_stringify2:
  "wf_val v \<Longrightarrow> JSON_stringify2 v = Some t \<Longrightarrow> JSON_parse (t @ [10]) = Some v"
  "wf_val v \<Longrightarrow> JSON_stringify2 v = Some t \<Longrightarrow> JSON_parse t = Some v"
  using JSON_parse_text [of v "[0x20, 0x20]" "[]" "[10]"] JSON_parse_text [of v "[0x20, 0x20]" "[]" "[]"]
  by (simp_all add: JSON_stringify2_def text_of_def)

section \<open>What the parser returns\<close>

lemma list_all_put:
  "list_all (\<lambda>(k, v). P v) kvs \<Longrightarrow> P v \<Longrightarrow> list_all (\<lambda>(k, v). P v) (put kvs k v)"
  by (induction kvs k v rule: put.induct) auto

lemma pvalue_wf:
  "pvalue n s = Some (v, r) \<Longrightarrow> wf_val v"
  "pelems n acc s = Some (v, r) \<Longrightarrow> list_all wf_val acc \<Longrightarrow> wf_val v"
  "pmembers n kvs s = Some (v, r) \<Longrightarrow> wf_val (JObj kvs) \<Longrightarrow> wf_val v"
proof (induction n s and n acc s and n kvs s arbitrary: v r and v r and v r
    rule: pvalue_pelems_pmembers.induct)
  case (2 n s)
  then show ?case by (auto simp: pliteral_def split: list.splits if_splits)
next
  case (4 n acc s)
  then show ?case by (auto split: option.splits list.splits if_splits prod.splits)
next
  case (6 n kvs s)
  from 6(3) obtain r0 k r1 r2 v1 r3 d r4 where *: "skip_ws s = 0x22 # r0" "pstr r0 = Some (k, r1)"
    "skip_ws r1 = 0x3A # r2" "pvalue n r2 = Some (v1, r3)" "skip_ws r3 = d # r4"
    "d = 0x2C \<and> pmembers n (put kvs k v1) r4 = Some (v, r) \<or>
     d = 0x7D \<and> v = JObj (put kvs k v1)"
    by (auto split: option.splits list.splits if_splits prod.splits)
  have v1: "wf_val v1" using 6(1) [OF *(1)] * by simp
  have wf: "wf_val (JObj (put kvs k v1))"
    using 6(4) v1 by (auto simp: distinct_put intro!: list_all_put)
  show ?case using *(6)
  proof
    assume d: "d = 0x2C \<and> pmembers n (put kvs k v1) r4 = Some (v, r)"
    show ?case using 6(2) [OF *(1) _ *(2) refl *(3) _ *(4) refl *(5)] d wf by simp
  qed (use wf in simp)
qed auto

lemma JSON_parse_wf: "JSON_parse s = Some v \<Longrightarrow> wf_val v"
  by (auto simp: JSON_parse_def simp del: pvalue.simps split: option.splits if_splits intro: pvalue_wf)

section \<open>The codec\<close>

text \<open>A JSON file as the program writes it, indented by two spaces and with a final newline.\<close>

definition json_file :: "jsval \<Rightarrow> jstr" where
  "json_file v = text_of [0x20, 0x20] [] v @ [10]"

definition parse_text :: "jstr \<Rightarrow> jsval res" where
  "parse_text t = or_throw (lit ''SyntaxError'') (JSON_parse t)"

lemma json_file_stringify2: "wf_val v \<Longrightarrow> JSON_stringify2 v = Some t \<Longrightarrow> json_file v = t @ [10]"
  by (simp add: json_file_def text_of_def JSON_stringify2_def)

lemma JSON_parse_json_file: "wf_val v \<Longrightarrow> JSON_parse (json_file v) = Some v"
  using JSON_parse_text [of v "[0x20, 0x20]" "[]" "[10]"] by (simp add: json_file_def)

interpretation json_text: codec wf_val "text_of [] []" parse_text
  using JSON_parse_text [of _ "[]" "[]" "[]"] by unfold_locales (simp add: parse_text_def)

interpretation json_files: codec wf_val json_file parse_text
  by unfold_locales (simp add: parse_text_def JSON_parse_json_file)

end
