(* ===== verification/Canonical.thy ===== *)
theory Canonical
  imports Base64url Json_Roundtrip
begin

text \<open>
  \<open>qev-cli/lib/canonical.js\<close>: the canonical JSON whose UTF-8 bytes every vault binds as
  additional data, and the additional data itself. The codecs of the same file are in the
  theories Utf8 and Base64url.
\<close>

section \<open>Definitions\<close>

text \<open>
  A member whose value \<open>JSON.stringify\<close> drops is concatenated as \<open>"undefined"\<close>, an array
  element as the empty string.
\<close>

definition text_or_undefined :: "jstr option \<Rightarrow> jstr" where
  "text_or_undefined t = (case t of None \<Rightarrow> lit ''undefined'' | Some s \<Rightarrow> s)"

definition text_or_empty :: "jstr option \<Rightarrow> jstr" where
  "text_or_empty t = (case t of None \<Rightarrow> [] | Some s \<Rightarrow> s)"

fun canonicalJSON :: "jsval \<Rightarrow> jstr option" where
  "canonicalJSON (JArr vs) =
     Some (0x5B # join [0x2C] (map (\<lambda>v. text_or_empty (canonicalJSON v)) vs) @ [0x5D])"
| "canonicalJSON (JObj kvs) =
     (let texts = map (\<lambda>(k, v). (k, text_or_undefined (canonicalJSON v))) kvs
      in Some (0x7B # join [0x2C]
           (map (\<lambda>k. quote k @ 0x3A # the (map_of texts k)) (sort (map fst kvs))) @ [0x7D]))"
| "canonicalJSON v = JSON_stringify v"

text \<open>\<open>v.a.b\<close>\<close>

definition get2 :: "jsval \<Rightarrow> string \<Rightarrow> string \<Rightarrow> jsval res" where
  "get2 v a b = bind_res (get v (lit a)) (\<lambda>x. get x (lit b))"

text \<open>The object literal of \<open>buildAADV2\<close>, its members read in the order of the source.\<close>

definition aad_literal ::
  "jsval \<Rightarrow> jsval \<Rightarrow> jsval \<Rightarrow> jsval \<Rightarrow> jsval \<Rightarrow> jsval \<Rightarrow> jsval \<Rightarrow> jsval \<Rightarrow> jsval \<Rightarrow> jsval \<Rightarrow> jsval \<Rightarrow> jsval \<Rightarrow> jsval"
where
  "aad_literal ca cn at ka km ko ks md sc vn wa wn =
     JObj [(lit ''content'', JObj [(lit ''algorithm'', ca), (lit ''nonce'', cn)]),
           (lit ''created_at'', at),
           (lit ''kdf'', JObj [(lit ''algorithm'', ka), (lit ''memlimit'', km),
                              (lit ''opslimit'', ko), (lit ''salt'', ks)]),
           (lit ''mode'', md), (lit ''schema'', sc), (lit ''version'', vn),
           (lit ''wrap'', JObj [(lit ''algorithm'', wa), (lit ''nonce'', wn)])]"

definition aad_object :: "jsval \<Rightarrow> jsval res" where
  "aad_object vault =
     bind_res (get2 vault ''content'' ''algorithm'') (\<lambda>ca.
     bind_res (get2 vault ''content'' ''nonce'') (\<lambda>cn.
     bind_res (get vault (lit ''created_at'')) (\<lambda>at.
     bind_res (get2 vault ''kdf'' ''algorithm'') (\<lambda>ka.
     bind_res (get2 vault ''kdf'' ''memlimit'') (\<lambda>km.
     bind_res (get2 vault ''kdf'' ''opslimit'') (\<lambda>ko.
     bind_res (get2 vault ''kdf'' ''salt'') (\<lambda>ks.
     bind_res (get vault (lit ''mode'')) (\<lambda>md.
     bind_res (get vault (lit ''schema'')) (\<lambda>sc.
     bind_res (get vault (lit ''version'')) (\<lambda>vn.
     bind_res (get2 vault ''wrap'' ''algorithm'') (\<lambda>wa.
     bind_res (get2 vault ''wrap'' ''nonce'') (\<lambda>wn.
     Inr (aad_literal ca cn at ka km ko ks md sc vn wa wn)))))))))))))"

text \<open>\<open>TextEncoder.encode(undefined)\<close> is the empty array.\<close>

definition buildAADV2 :: "jsval \<Rightarrow> bytes res" where
  "buildAADV2 vault =
     bind_res (aad_object vault) (\<lambda>obj. Inr (utf8 (text_or_empty (canonicalJSON obj))))"

section \<open>Specification: the same data in key order\<close>

fun sort_keys :: "jsval \<Rightarrow> jsval" where
  "sort_keys (JArr vs) = JArr (map sort_keys vs)"
| "sort_keys (JObj kvs) =
     (let sorted_members = map (\<lambda>(k, v). (k, sort_keys v)) kvs
      in JObj (map (\<lambda>k. (k, the (map_of sorted_members k))) (sort (map fst kvs))))"
| "sort_keys v = v"

text \<open>Equal up to the order of members, at every depth.\<close>

inductive same_data :: "jsval \<Rightarrow> jsval \<Rightarrow> bool" where
  leaf: "(\<And>vs. v \<noteq> JArr vs) \<Longrightarrow> (\<And>kvs. v \<noteq> JObj kvs) \<Longrightarrow> same_data v v"
| arr: "list_all2 same_data vs ws \<Longrightarrow> same_data (JArr vs) (JArr ws)"
| obj: "(\<And>k. rel_option same_data (map_of a k) (map_of b k)) \<Longrightarrow> same_data (JObj a) (JObj b)"
monos list_all2_mono option.rel_mono

inductive_cases same_data_arrE: "same_data (JArr vs) w"
inductive_cases same_data_objE: "same_data (JObj kvs) w"

section \<open>Canonical text is the plain text of the sorted value\<close>

lemma sort_eq_Nil: "sort xs = [] \<longleftrightarrow> xs = []"
  by (metis set_sort set_empty)

lemma map_of_map_snd: "map_of (map (\<lambda>(k, v). (k, f v)) kvs) = map_option f \<circ> map_of kvs"
  by (induction kvs) auto

lemma wf_val_member: "wf_val (JObj kvs) \<Longrightarrow> (k, v) \<in> set kvs \<Longrightarrow> wf_val v"
  by (auto simp: list_all_iff)

lemma sorted_members:
  assumes "distinct (map fst kvs)"
  shows "sort_keys (JObj kvs) =
    JObj (map (\<lambda>k. (k, sort_keys (the (map_of kvs k)))) (sort (map fst kvs)))"
proof -
  have "the (map_of (map (\<lambda>(k, v). (k, sort_keys v)) kvs) k) = sort_keys (the (map_of kvs k))"
    if "k \<in> set (sort (map fst kvs))" for k
  proof -
    from that obtain v where "map_of kvs k = Some v"
      by (metis set_sort map_of_eq_None_iff option.exhaust list.set_map)
    then show ?thesis by (simp add: map_of_map_snd)
  qed
  then show ?thesis by (simp add: Let_def)
qed

lemma map_of_sort_keys:
  assumes "distinct (map fst kvs)"
  shows "map_of (map (\<lambda>k. (k, f (the (map_of kvs k)))) (sort (map fst kvs))) k =
    map_option f (map_of kvs k)"
proof (cases "map_of kvs k")
  case None
  then have "k \<notin> set (map fst kvs)" by (metis map_of_eq_None_iff list.set_map)
  then show ?thesis using None by (simp add: map_of_map_restrict restrict_map_def)
next
  case (Some v)
  then have "k \<in> set (map fst kvs)" by (metis map_of_SomeD fst_conv image_eqI list.set_map)
  then show ?thesis using Some by (simp add: map_of_map_restrict restrict_map_def)
qed

lemma wf_sort_keys: "wf_val v \<Longrightarrow> wf_val (sort_keys v)"
proof (induction v)
  case (JObj kvs)
  then have d: "distinct (map fst kvs)" by simp
  have "wf_val (sort_keys (the (map_of kvs k)))" if "k \<in> set (map fst kvs)" for k
  proof -
    from that obtain v where v: "map_of kvs k = Some v"
      by (metis map_of_eq_None_iff option.exhaust list.set_map)
    then have "(k, v) \<in> set kvs" by (rule map_of_SomeD)
    then show ?thesis using JObj v wf_val_member by fastforce
  qed
  then show ?case unfolding sorted_members [OF d] using d
    by (simp add: comp_def list_all_iff)
qed (simp_all add: list_all_iff)

lemma canonicalJSON_eq: "wf_val v \<Longrightarrow> canonicalJSON v = Some (text_of [] [] (sort_keys v))"
proof (induction v)
  case (JArr vs)
  then have IH: "canonicalJSON v = Some (text_of [] [] (sort_keys v))" if "v \<in> set vs" for v
    using that by (simp add: list_all_iff)
  show ?case
  proof (cases "vs = []")
    case False
    have wf: "wf_val (JArr (map sort_keys vs))" using wf_sort_keys [OF JArr.prems] by simp
    have m: "map (\<lambda>v. text_or_empty (canonicalJSON v)) vs = map (text_of [] [] \<circ> sort_keys) vs"
      using IH by (simp add: text_or_empty_def)
    show ?thesis using False text_of_arr [OF wf, of "[]" "[]"]
      by (simp only: canonicalJSON.simps m) (simp add: Let_def)
  qed (simp add: text_of_def wrap_items_def)
next
  case (JObj kvs)
  then have d: "distinct (map fst kvs)" by simp
  have IH: "canonicalJSON v = Some (text_of [] [] (sort_keys v))" if "(k, v) \<in> set kvs" for k v
    using JObj.IH [OF that, of v] wf_val_member [OF JObj.prems that] by simp
  have memb: "the (map_of (map (\<lambda>(k, v). (k, text_or_undefined (canonicalJSON v))) kvs) k) =
      text_of [] [] (sort_keys (the (map_of kvs k)))" if "k \<in> set (sort (map fst kvs))" for k
  proof -
    from that obtain v where v: "map_of kvs k = Some v"
      by (metis set_sort map_of_eq_None_iff option.exhaust list.set_map)
    then show ?thesis
      using IH [OF map_of_SomeD] by (simp add: map_of_map_snd text_or_undefined_def)
  qed
  show ?case
  proof (cases "kvs = []")
    case False
    have ne: "map (\<lambda>k. (k, sort_keys (the (map_of kvs k)))) (sort (map fst kvs)) \<noteq> []"
      using False by (simp add: sort_eq_Nil)
    have wf: "wf_val (JObj (map (\<lambda>k. (k, sort_keys (the (map_of kvs k)))) (sort (map fst kvs))))"
      using wf_sort_keys [OF JObj.prems] unfolding sorted_members [OF d] .
    have m: "map (\<lambda>k. quote k @ 0x3A #
          the (map_of (map (\<lambda>(k, v). (k, text_or_undefined (canonicalJSON v))) kvs) k)) (sort (map fst kvs)) =
        map (\<lambda>k. quote k @ 0x3A # text_of [] [] (sort_keys (the (map_of kvs k)))) (sort (map fst kvs))"
      by (rule map_cong [OF refl]) (simp only: memb)
    show ?thesis unfolding sorted_members [OF d]
      using text_of_obj [OF wf ne, of "[]" "[]"]
      by (simp only: canonicalJSON.simps Let_def m) (simp add: Let_def comp_def)
  qed (simp add: text_of_def wrap_items_def)
qed (simp_all add: JSON_stringify_def text_of_def)

lemma canonicalJSON_parse: "wf_val v \<Longrightarrow> canonicalJSON v = Some t \<Longrightarrow> JSON_parse t = Some (sort_keys v)"
  using JSON_parse_text [OF wf_sort_keys, of v "[]" "[]" "[]"] by (simp add: canonicalJSON_eq)

lemma canonicalJSON_inj:
  "wf_val v \<Longrightarrow> wf_val w \<Longrightarrow> canonicalJSON v = canonicalJSON w \<longleftrightarrow> sort_keys v = sort_keys w"
  by (metis canonicalJSON_eq canonicalJSON_parse option.inject)

section \<open>Order of members\<close>

lemma keys_eq: "(\<And>k. rel_option P (map_of a k) (map_of b k)) \<Longrightarrow> set (map fst a) = set (map fst b)"
proof -
  assume r: "\<And>k. rel_option P (map_of a k) (map_of b k)"
  have "map_of a k = None \<longleftrightarrow> map_of b k = None" for k using r [of k] by (auto simp: rel_option_iff split: option.splits)
  then show ?thesis by (auto simp: map_of_eq_None_iff)
qed

lemma sort_eqI: "distinct xs \<Longrightarrow> distinct ys \<Longrightarrow> set xs = set ys \<Longrightarrow> sort xs = (sort ys :: jstr list)"
  by (metis distinct_sort set_sort sorted_distinct_set_unique sorted_sort)

lemma same_data_sort_keys: "same_data v w \<Longrightarrow> wf_val v \<Longrightarrow> wf_val w \<Longrightarrow> sort_keys v = sort_keys w"
proof (induction rule: same_data.induct)
  case (arr vs ws)
  then have "list_all2 (\<lambda>x y. wf_val x \<longrightarrow> wf_val y \<longrightarrow> sort_keys x = sort_keys y) vs ws"
    by (auto elim!: list_all2_mono)
  then have "map sort_keys vs = map sort_keys ws"
    using arr.prems by (induction rule: list_all2_induct) auto
  then show ?case by simp
next
  case (obj a b)
  have d: "distinct (map fst a)" "distinct (map fst b)" using obj.prems by auto
  have s: "sort (map fst a) = sort (map fst b)"
    by (rule sort_eqI [OF d keys_eq]) (rule obj.IH)
  have "sort_keys (the (map_of a k)) = sort_keys (the (map_of b k))" if "k \<in> set (sort (map fst b))" for k
  proof -
    from that have "k \<in> set (map fst a)" by (simp only: s [symmetric] set_sort)
    then obtain v where v: "map_of a k = Some v"
      by (metis map_of_eq_None_iff option.exhaust list.set_map)
    with obj.IH [of k] obtain w where w: "map_of b k = Some w"
      and vw: "wf_val v \<longrightarrow> wf_val w \<longrightarrow> sort_keys v = sort_keys w"
      by (auto simp: rel_option_iff split: option.splits)
    then show ?thesis
      using v wf_val_member [OF obj.prems(1) map_of_SomeD [OF v]]
        wf_val_member [OF obj.prems(2) map_of_SomeD [OF w]] by simp
  qed
  then show ?case unfolding sorted_members [OF d(1)] sorted_members [OF d(2)] by (simp add: s)
qed simp

lemma sort_keys_same_data: "wf_val v \<Longrightarrow> wf_val w \<Longrightarrow> sort_keys v = sort_keys w \<Longrightarrow> same_data v w"
proof (induction v arbitrary: w)
  case (JArr vs)
  from JArr.prems(3) obtain ws where w: "w = JArr ws" "map sort_keys vs = map sort_keys ws"
    by (cases w) (auto simp: Let_def)
  then have "list_all2 same_data vs ws"
    using JArr by (auto simp: list_all2_conv_all_nth list_all_length list_eq_iff_nth_eq) 
  then show ?case by (simp add: w same_data.arr)
next
  case (JObj a)
  from JObj.prems(3) obtain b where w: "w = JObj b" by (cases w) (auto simp: Let_def)
  have d: "distinct (map fst a)" "distinct (map fst b)" using JObj.prems w by auto
  let ?m = "\<lambda>c. map (\<lambda>k. (k, sort_keys (the (map_of c k)))) (sort (map fst c))"
  have "?m a = ?m b" using JObj.prems(3) unfolding w sorted_members [OF d(1)] sorted_members [OF d(2)] by simp
  then have eq: "map_option sort_keys (map_of a k) = map_option sort_keys (map_of b k)" for k
    using map_of_sort_keys [OF d(1), of sort_keys k] map_of_sort_keys [OF d(2), of sort_keys k] by simp
  have "rel_option same_data (map_of a k) (map_of b k)" for k
  proof (cases "map_of a k")
    case None
    then show ?thesis using eq [of k] by simp
  next
    case (Some v)
    with eq [of k] obtain u where u: "map_of b k = Some u" "sort_keys v = sort_keys u"
      by (cases "map_of b k") auto
    have "same_data v u"
      using JObj.IH [OF map_of_SomeD [OF Some], of v u] u wf_val_member [OF JObj.prems(1) map_of_SomeD [OF Some]]
        wf_val_member [OF JObj.prems(2) [unfolded w] map_of_SomeD [OF u(1)]] by simp
    with Some u show ?thesis by simp
  qed
  then show ?case unfolding w by (rule same_data.obj)
qed (case_tac [!] w, auto simp: Let_def intro: same_data.leaf)

section \<open>Well formed UTF-16\<close>

lemma wf16_ascii: "\<forall>u \<in> set s. unat u < 0xD800 \<Longrightarrow> wf16 s"
  by (induction s) (auto simp: wf16_Cons_plain is_surrogate_def is_lead_def is_trail_def)


lemma unat_numeral_plus: "numeral k + n < 65536 \<Longrightarrow> unat (numeral k + of_nat n :: 16 word) = numeral k + n"
  by (metis of_nat_add of_nat_numeral unat_of_nat16)

lemma digs_ascii: "\<forall>u \<in> set (digs n). unat u < 0xD800"
proof (induction n rule: digs.induct)
  case (1 n)
  then show ?case by (subst digs.simps) (auto simp: digit_def unat_numeral_plus)
qed

lemma wf16_lit [simp]: "wf16 (lit s)"
  by (rule wf16_ascii) (auto simp: lit_def intro: less_trans [OF of_char_lt_256])

lemma wf16_num_str [simp]: "wf16 (num_str i)"
  by (rule wf16_ascii) (auto simp: num_str_def digs_ascii)

lemma below_surrogates [simp]: "n < 0xD800 \<Longrightarrow> \<not> is_surrogate n"
  by (simp add: is_surrogate_def is_lead_def is_trail_def)

lemma wf16_if: "(c \<Longrightarrow> wf16 a) \<Longrightarrow> (\<not> c \<Longrightarrow> wf16 b) \<Longrightarrow> wf16 (if c then a else b)"
  by simp

lemma wf16_Cons: "unat u < 0xD800 \<Longrightarrow> wf16 (u # s) = wf16 s"
  by (simp add: wf16_Cons_plain is_surrogate_def is_lead_def is_trail_def)

lemma hex_digit_ascii: "d < 16 \<Longrightarrow> unat (hex_digit d) < 0xD800"
  by (auto simp: hex_digit_def unat_numeral_plus)

lemma wf16_hex4 [simp]: "wf16 (hex4 n)"
  by (rule wf16_ascii) (simp add: hex4_def hex_digit_ascii)

lemma wf16_esc1 [simp]: "wf16 (esc1 u)"
  unfolding esc1_def by (intro wf16_if) (simp_all add: wf16_Cons)

lemma wf16_quote_body: "wf16 (quote_body s)"
  by (induction s rule: quote_body.induct) (auto intro: wf16_append)

lemma wf16_snoc: "unat u < 0xD800 \<Longrightarrow> wf16 s \<Longrightarrow> wf16 (s @ [u])"
  by (rule wf16_append) (simp_all add: wf16_Cons)

lemma wf16_quote [simp]: "wf16 (quote s)"
  by (simp add: quote_def wf16_Cons wf16_snoc wf16_quote_body)

lemma wf16_join: "wf16 sep \<Longrightarrow> \<forall>x \<in> set xs. wf16 x \<Longrightarrow> wf16 (join sep xs)"
  by (induction sep xs rule: join.induct) (auto intro!: wf16_append)

text \<open>
  Properties of strings that concatenation keeps hold of a whole JSON text when they hold of
  its punctuation, its numbers and its quoted strings.
\<close>

fun all_strings :: "(jstr \<Rightarrow> bool) \<Rightarrow> jsval \<Rightarrow> bool" where
  "all_strings Q (JStr s) = Q s"
| "all_strings Q (JArr vs) = list_all (all_strings Q) vs"
| "all_strings Q (JObj kvs) = list_all (\<lambda>(k, v). Q k \<and> all_strings Q v) kvs"
| "all_strings Q _ = True"

locale closed_text =
  fixes P :: "jstr \<Rightarrow> bool" and Q :: "jstr \<Rightarrow> bool"
  assumes app: "P a \<Longrightarrow> P b \<Longrightarrow> P (a @ b)"
    and mark: "c \<in> {10, 0x20, 0x2C, 0x3A, 0x5B, 0x5D, 0x7B, 0x7D} \<Longrightarrow> P [c]"
    and number: "P (num_str n)"
    and named: "w \<in> {''null'', ''true'', ''false''} \<Longrightarrow> P (lit w)"
    and quoted: "Q s \<Longrightarrow> P (quote s)"
    and empty: "P []"
begin

lemma snoc: "P s \<Longrightarrow> P [c] \<Longrightarrow> P (s @ [c])"
  by (rule app)

lemma cons: "P [c] \<Longrightarrow> P s \<Longrightarrow> P (c # s)"
  using app [of "[c]" s] by simp

lemma joined: "P sep \<Longrightarrow> \<forall>x \<in> set xs. P x \<Longrightarrow> P (join sep xs)"
  by (induction sep xs rule: join.induct) (auto intro!: app empty)

lemma text_closed:
  "wf_val v \<Longrightarrow> all_strings Q v \<Longrightarrow> P gap \<Longrightarrow> P ind \<Longrightarrow> P (text_of gap ind v)"
proof (induction gap ind v rule: json_str.induct)
  case (6 gap ind vs)
  let ?w = "if gap = [] then [] else 10 # ind @ gap" and ?p = "if gap = [] then [] else 10 # ind"
  have w: "P ?w" "P ?p" using 6(4,5) by (auto intro!: cons app mark empty)
  show ?case
  proof (cases "vs = []")
    case False
    have "P (text_of gap (ind @ gap) v)" if "v \<in> set vs" for v
      using 6(1) [OF that] 6(2-5) that by (simp add: list_all_iff app)
    then have m: "P (join (0x2C # ?w) (map (text_of gap (ind @ gap)) vs))"
      by (intro joined cons [OF mark w(1)]) simp_all
    show ?thesis unfolding text_of_arr [OF 6(2) False] Let_def
      by (rule cons [OF mark app [OF w(1) app [OF m app [OF w(2) mark]]]]) simp_all
  qed (use cons [OF mark mark, of "0x5B" "0x5D"] in \<open>simp add: text_of_def wrap_items_def\<close>)
next
  case (7 gap ind kvs)
  let ?w = "if gap = [] then [] else 10 # ind @ gap" and ?p = "if gap = [] then [] else 10 # ind"
  let ?sp = "if gap = [] then [] else [0x20 :: 16 word]"
  let ?f = "\<lambda>(k, v). quote k @ 0x3A # ?sp @ text_of gap (ind @ gap) v"
  have w: "P ?w" "P ?p" "P ?sp" using 7(4,5) by (auto intro!: cons app mark empty)
  show ?case
  proof (cases "kvs = []")
    case False
    have "P (?f (k, v))" if "(k, v) \<in> set kvs" for k v
    proof -
      have q: "Q k" "all_strings Q v" using 7(3) that by (auto simp: list_all_iff)
      then have "P (text_of gap (ind @ gap) v)"
        using 7(1) [OF that refl] wf_val_member [OF 7(2) that] 7(4,5) by (simp add: app)
      then have "P (0x3A # ?sp @ text_of gap (ind @ gap) v)"
        by (rule cons [OF mark app [OF w(3)], rotated]) simp
      then show ?thesis by (simp only: case_prod_conv) (rule app [OF quoted [OF q(1)]])
    qed
    then have m: "P (join (0x2C # ?w) (map ?f kvs))"
      by (intro joined cons [OF mark w(1)]) auto
    show ?thesis unfolding text_of_obj [OF 7(2) False] Let_def
      by (rule cons [OF mark app [OF w(1) app [OF m app [OF w(2) mark]]]]) simp_all
  qed (use cons [OF mark mark, of "0x7B" "0x7D"] in \<open>simp add: text_of_def wrap_items_def\<close>)
qed (simp_all add: text_of_def bool_str_def number named quoted)

end

lemma all_strings_True: "all_strings (\<lambda>_. True) v"
  by (induction v) (auto simp: list_all_iff)

interpretation wf16_text: closed_text wf16 "\<lambda>_. True"
  by unfold_locales (auto simp: wf16_append wf16_Cons)

lemma wf16_indented: "wf_val v \<Longrightarrow> wf16 gap \<Longrightarrow> wf16 ind \<Longrightarrow> wf16 (text_of gap ind v)"
  by (rule wf16_text.text_closed [OF _ all_strings_True])

lemma wf16_text_of: "wf_val v \<Longrightarrow> wf16 (text_of [] [] v)"
  by (simp add: wf16_indented)

lemma utf8_canonical_inj:
  assumes "wf_val v" and "wf_val w"
  shows "utf8 (text_or_empty (canonicalJSON v)) = utf8 (text_or_empty (canonicalJSON w)) \<longleftrightarrow>
    sort_keys v = sort_keys w"
proof -
  note wf = wf16_text_of [OF wf_sort_keys [OF assms(1)]] wf16_text_of [OF wf_sort_keys [OF assms(2)]]
  have "text_of [] [] (sort_keys v) = text_of [] [] (sort_keys w) \<longleftrightarrow> sort_keys v = sort_keys w"
    using canonicalJSON_inj [OF assms] by (simp add: canonicalJSON_eq assms)
  then show ?thesis using utf8_inj [OF wf]
    by (auto simp: canonicalJSON_eq assms text_or_empty_def)
qed

section \<open>Additional data\<close>

text \<open>The values the additional data of a vault is made of.\<close>

definition bound_fields :: "jsval \<Rightarrow> jsval list res" where
  "bound_fields vault = res_list
     [get2 vault ''content'' ''algorithm'', get2 vault ''content'' ''nonce'',
      get vault (lit ''created_at''), get2 vault ''kdf'' ''algorithm'', get2 vault ''kdf'' ''memlimit'',
      get2 vault ''kdf'' ''opslimit'', get2 vault ''kdf'' ''salt'', get vault (lit ''mode''),
      get vault (lit ''schema''), get vault (lit ''version''), get2 vault ''wrap'' ''algorithm'',
      get2 vault ''wrap'' ''nonce'']"

definition scalar_val :: "jsval \<Rightarrow> bool" where
  "scalar_val v = (is_str v \<or> is_num v)"

lemma scalar_val_simps [simp]: "scalar_val (JStr s)" "scalar_val (JNum n)"
  by (simp_all add: scalar_val_def)

lemma scalar_val_cases: "scalar_val v \<Longrightarrow> sort_keys v = v \<and> wf_val v"
  by (cases v) (simp_all add: scalar_val_def)

definition literal_of :: "jsval list \<Rightarrow> jsval" where
  "literal_of fs = aad_literal (fs ! 0) (fs ! 1) (fs ! 2) (fs ! 3) (fs ! 4) (fs ! 5) (fs ! 6) (fs ! 7)
     (fs ! 8) (fs ! 9) (fs ! 10) (fs ! 11)"

lemma aad_object_eq: "aad_object v = bind_res (bound_fields v) (\<lambda>fs. Inr (literal_of fs))"
proof -
  have b: "bind_res (bind_res r f) g = bind_res r (\<lambda>x. bind_res (f x) g)"
    for r :: "'a res" and f :: "'a \<Rightarrow> 'b res" and g :: "'b \<Rightarrow> 'c res" by (cases r) auto
  show ?thesis
    by (simp add: aad_object_def bound_fields_def literal_of_def b numeral_eq_Suc)
qed

lemma res_list_length: "res_list rs = Inr xs \<Longrightarrow> length xs = length rs"
  by (induction rs arbitrary: xs) auto

lemma length_bound_fields: "bound_fields v = Inr fs \<Longrightarrow> length fs = 12"
  unfolding bound_fields_def by (drule res_list_length) simp

lemma aad_literal_sorted:
  "list_all scalar_val [ca, cn, at, ka, km, ko, ks, md, sc, vn, wa, wn] \<Longrightarrow>
   sort_keys (aad_literal ca cn at ka km ko ks md sc vn wa wn) =
     aad_literal ca cn at ka km ko ks md sc vn wa wn \<and>
   wf_val (aad_literal ca cn at ka km ko ks md sc vn wa wn)"
  by (simp add: aad_literal_def lit_def unit_of_def scalar_val_cases Let_def)

lemma literal_of_sorted:
  assumes "length fs = 12" and "list_all scalar_val fs"
  shows "sort_keys (literal_of fs) = literal_of fs" and "wf_val (literal_of fs)"
proof -
  have "scalar_val (fs ! i)" if "i < 12" for i
    using assms that by (simp add: list_all_length)
  then have "list_all scalar_val [fs ! 0, fs ! 1, fs ! 2, fs ! 3, fs ! 4, fs ! 5, fs ! 6, fs ! 7,
      fs ! 8, fs ! 9, fs ! 10, fs ! 11]" by simp
  from aad_literal_sorted [OF this]
  show "sort_keys (literal_of fs) = literal_of fs" "wf_val (literal_of fs)"
    by (simp_all only: literal_of_def)
qed

lemma literal_of_inj: "length fs = 12 \<Longrightarrow> length gs = 12 \<Longrightarrow> literal_of fs = literal_of gs \<Longrightarrow> fs = gs"
  by (rule nth_equalityI) (auto simp: literal_of_def aad_literal_def less_Suc_eq numeral_eq_Suc)

lemma buildAADV2_eq:
  "buildAADV2 v = bind_res (bound_fields v) (\<lambda>fs. Inr (utf8 (text_or_empty (canonicalJSON (literal_of fs)))))"
  by (cases "bound_fields v") (simp_all add: buildAADV2_def aad_object_eq)

lemma buildAADV2_inj:
  assumes "bound_fields v = Inr fs" and "bound_fields w = Inr gs"
    and "list_all scalar_val fs" and "list_all scalar_val gs"
  shows "buildAADV2 v = buildAADV2 w \<longleftrightarrow> fs = gs"
proof -
  have l: "length fs = 12" "length gs = 12" using assms length_bound_fields by blast+
  note s = literal_of_sorted [OF l(1) assms(3)] literal_of_sorted [OF l(2) assms(4)]
  have "buildAADV2 v = buildAADV2 w \<longleftrightarrow> literal_of fs = literal_of gs"
    using utf8_canonical_inj [OF s(2,4)] by (simp add: buildAADV2_eq assms(1,2) s)
  then show ?thesis using literal_of_inj [OF l] by blast
qed

text \<open>The text behind the additional data reads back as exactly the bound values.\<close>

lemma buildAADV2_reads_back:
  assumes "bound_fields v = Inr fs" and "list_all scalar_val fs"
  shows "\<exists>aad t. buildAADV2 v = Inr aad \<and> fromUtf8 aad = Inr t \<and> JSON_parse t = Some (literal_of fs)"
proof -
  note s = literal_of_sorted [OF length_bound_fields [OF assms(1)] assms(2)]
  let ?t = "text_of [] [] (literal_of fs)"
  have c: "canonicalJSON (literal_of fs) = Some ?t" using canonicalJSON_eq [OF s(2)] s(1) by simp
  have "wf16 ?t" by (rule wf16_text_of [OF s(2)])
  then have "units_of (code_points ?t) = ?t" by (rule units_of_code_points)
  moreover have "drop_bom (code_points ?t) = code_points ?t"
  proof -
    obtain c u where "?t = c # u" "c = 0x7B"
      by (auto simp: literal_of_def aad_literal_def text_of_def wrap_items_def)
    then show ?thesis by (simp add: drop_bom_def code_points_Cons_plain)
  qed
  ultimately have "fromUtf8 (utf8 ?t) = Inr ?t" by (simp add: fromUtf8_utf8)
  moreover have "JSON_parse ?t = Some (literal_of fs)"
    using canonicalJSON_parse [OF s(2) c] s(1) by simp
  ultimately show ?thesis using c by (simp add: buildAADV2_eq assms(1) text_or_empty_def)
qed

section \<open>Text as base64url\<close>

interpretation b64text: codec_chain plain_text utf8 fromUtf8 "\<lambda>_. True" b64urlEncode b64urlDecode
  by unfold_locales (simp_all add: fromUtf8_utf8_plain)

section \<open>Properties\<close>

text \<open>
  C8: Two values have the same canonical JSON exactly when they are the same data up to the
  order of object members at every depth; the text parses to the value with sorted keys.
\<close>

theorem canonicalJSON_canonical:
  assumes "wf_val v" and "wf_val w"
  shows "(canonicalJSON v = canonicalJSON w \<longleftrightarrow> same_data v w) \<and>
    (\<exists>t. canonicalJSON v = Some t \<and> JSON_parse t = Some (sort_keys v))"
  using assms same_data_sort_keys sort_keys_same_data canonicalJSON_inj canonicalJSON_eq
    canonicalJSON_parse by blast

theorem canonicalJSON_canonical_witness:
  "canonicalJSON (JObj [(lit ''b'', JNum 1), (lit ''a'', JNull)]) =
     canonicalJSON (JObj [(lit ''a'', JNull), (lit ''b'', JNum 1)])"
proof -
  let ?v = "JObj [(lit ''b'', JNum 1), (lit ''a'', JNull)]" and ?w = "JObj [(lit ''a'', JNull), (lit ''b'', JNum 1)]"
  have "same_data (JNum 1) (JNum 1)" "same_data JNull JNull" by (auto intro: same_data.leaf)
  then have "same_data ?v ?w" by (auto intro!: same_data.obj)
  then show ?thesis using canonicalJSON_canonical [of ?v ?w] by simp
qed

end
