(* ===== verification/Vault_Format.thy ===== *)
theory Vault_Format
  imports Canonical
begin

text \<open>
  The V2 vault format of \<open>qev-cli/lib/vault.js\<close>: its constants and \<open>validateVaultSchemaV2\<close>,
  with the declarative shape of a well-formed vault.
\<close>

section \<open>Constants\<close>

definition SCHEMA_V1 :: jstr where "SCHEMA_V1 = lit ''BRY-NFET-SX-VAULT-V1''"
definition SCHEMA_V2 :: jstr where "SCHEMA_V2 = lit ''BRY-NFET-SX-VAULT-V2''"
definition VERSION :: jstr where "VERSION = lit ''0.30.0''"
definition KDF_ALG :: jstr where "KDF_ALG = lit ''argon2id''"
definition AEAD_ALG :: jstr where "AEAD_ALG = lit ''XChaCha20-Poly1305''"

definition DEFAULT_OPSLIMIT :: int where "DEFAULT_OPSLIMIT = 4"
definition DEFAULT_MEMLIMIT :: int where "DEFAULT_MEMLIMIT = 96 * 1024 * 1024"
definition MIN_OPSLIMIT :: int where "MIN_OPSLIMIT = 1"
definition MAX_OPSLIMIT :: int where "MAX_OPSLIMIT = 10"
definition MIN_MEMLIMIT :: int where "MIN_MEMLIMIT = 8 * 1024 * 1024"
definition MAX_MEMLIMIT :: int where "MAX_MEMLIMIT = 256 * 1024 * 1024"

definition SALT_BYTES :: nat where "SALT_BYTES = 16"
definition NONCE_BYTES :: nat where "NONCE_BYTES = 24"
definition KEY_BYTES :: nat where "KEY_BYTES = 32"
definition TAG_BYTES :: nat where "TAG_BYTES = 16"
definition MAX_PLAINTEXT_BYTES :: nat where "MAX_PLAINTEXT_BYTES = 256 * 1024"
definition MAX_CIPHERTEXT_BYTES :: nat where "MAX_CIPHERTEXT_BYTES = 1024 * 1024"

lemmas limit_defs = DEFAULT_OPSLIMIT_def DEFAULT_MEMLIMIT_def MIN_OPSLIMIT_def MAX_OPSLIMIT_def
  MIN_MEMLIMIT_def MAX_MEMLIMIT_def
lemmas size_defs = SALT_BYTES_def NONCE_BYTES_def KEY_BYTES_def TAG_BYTES_def
  MAX_PLAINTEXT_BYTES_def MAX_CIPHERTEXT_BYTES_def

text \<open>\<open>!v || typeof v !== "object"\<close>, negated.\<close>

definition is_object :: "jsval \<Rightarrow> bool" where
  "is_object v = (truthy v \<and> typeof_object v)"

definition nonempty_str :: "jsval \<Rightarrow> bool" where
  "nonempty_str v = (is_str v \<and> str_of v \<noteq> [])"

definition int_between :: "int \<Rightarrow> int \<Rightarrow> jsval \<Rightarrow> bool" where
  "int_between lo hi v = (is_num v \<and> lo \<le> num_of v \<and> num_of v \<le> hi)"

section \<open>Validation\<close>

definition malformed :: "string \<Rightarrow> jstr" where
  "malformed s = lit (''Vault malformed: '' @ s)"

definition msg_opslimit_range :: jstr where
  "msg_opslimit_range =
     lit ''KDF opslimit out of range ('' @ num_str MIN_OPSLIMIT @ lit ''-'' @ num_str MAX_OPSLIMIT @ lit '')''"

definition msg_memlimit_range :: jstr where
  "msg_memlimit_range =
     lit ''KDF memlimit out of range ('' @ num_str (MIN_MEMLIMIT div 1024 div 1024) @ lit ''-''
       @ num_str (MAX_MEMLIMIT div 1024 div 1024) @ lit '' MiB)''"

definition enforceKdfCaps :: "jsval \<Rightarrow> unit res" where
  "enforceKdfCaps kdf =
     throw_if (\<not> is_object kdf) (malformed ''missing kdf section'')
     (bind_res (get kdf (lit ''algorithm'')) (\<lambda>alg.
      if alg \<noteq> JStr KDF_ALG then throw_with (lit ''Unsupported KDF algorithm: '') alg []
      else
     bind_res (get kdf (lit ''opslimit'')) (\<lambda>ops.
     throw_if (\<not> int_between MIN_OPSLIMIT MAX_OPSLIMIT ops) msg_opslimit_range
     (bind_res (get kdf (lit ''memlimit'')) (\<lambda>mem.
     throw_if (\<not> int_between MIN_MEMLIMIT MAX_MEMLIMIT mem) msg_memlimit_range
     (bind_res (get kdf (lit ''salt'')) (\<lambda>salt.
     throw_if (\<not> nonempty_str salt) (malformed ''missing or invalid kdf.salt'')
     (Inr ()))))))))"

text \<open>The \<open>wrap\<close> and \<open>content\<close> sections are checked by the same statements.\<close>

definition check_section :: "string \<Rightarrow> string \<Rightarrow> jsval \<Rightarrow> unit res" where
  "check_section name payload s =
     throw_if (\<not> is_object s) (malformed (''missing '' @ name @ '' section''))
     (bind_res (get s (lit ''algorithm'')) (\<lambda>alg.
      if alg \<noteq> JStr AEAD_ALG
      then throw_with (lit (''Unsupported '' @ name @ '' AEAD algorithm: '')) alg []
      else
     bind_res (get s (lit ''nonce'')) (\<lambda>nonce.
     throw_if (\<not> nonempty_str nonce) (malformed (''missing '' @ name @ ''.nonce''))
     (bind_res (get s (lit payload)) (\<lambda>p.
     throw_if (\<not> nonempty_str p) (malformed (''missing '' @ name @ ''.'' @ payload))
     (Inr ()))))))"

definition msg_mode_CLI :: jstr where
  "msg_mode_CLI = malformed (''mode must be '' @ squote @ ''self'' @ squote @ '' or '' @ squote @ ''share'' @ squote)"

definition is_mode :: "jsval \<Rightarrow> bool" where
  "is_mode v = (v = JStr (lit ''self'') \<or> v = JStr (lit ''share''))"

definition validateVaultSchemaV2 :: "jsval \<Rightarrow> unit res" where
  "validateVaultSchemaV2 vault =
     throw_if (\<not> is_object vault) (malformed ''not an object'')
     (bind_res (get vault (lit ''schema'')) (\<lambda>schema.
      if schema \<noteq> JStr SCHEMA_V2
      then throw_with (lit (''Unsupported vault schema: '' @ dquote)) schema
             (lit (dquote @ '' (expected '') @ SCHEMA_V2 @ lit '')'')
      else
     bind_res (get vault (lit ''version'')) (\<lambda>version.
     throw_if (\<not> is_str version) (malformed ''missing version'')
     (bind_res (get vault (lit ''created_at'')) (\<lambda>created_at.
     throw_if (\<not> is_str created_at) (malformed ''missing created_at'')
     (bind_res (get vault (lit ''mode'')) (\<lambda>mode.
     throw_if (\<not> is_mode mode) msg_mode_CLI
     (bind_res (get vault (lit ''kdf'')) (\<lambda>kdf.
     bind_res (enforceKdfCaps kdf) (\<lambda>_.
     bind_res (get vault (lit ''wrap'')) (\<lambda>wrap.
     bind_res (check_section ''wrap'' ''wrapped_key'' wrap) (\<lambda>_.
     bind_res (get vault (lit ''content'')) (\<lambda>content.
     check_section ''content'' ''ciphertext'' content)))))))))))))"

section \<open>The declarative shape\<close>

text \<open>The value of a property, \<open>undefined\<close> where reading it would throw.\<close>

definition fld :: "jsval \<Rightarrow> string \<Rightarrow> jsval" where
  "fld v k = (case get v (lit k) of Inl _ \<Rightarrow> JUndef | Inr x \<Rightarrow> x)"

definition wf_kdf :: "jsval \<Rightarrow> bool" where
  "wf_kdf kdf =
     (is_object kdf \<and> fld kdf ''algorithm'' = JStr KDF_ALG \<and>
      int_between MIN_OPSLIMIT MAX_OPSLIMIT (fld kdf ''opslimit'') \<and>
      int_between MIN_MEMLIMIT MAX_MEMLIMIT (fld kdf ''memlimit'') \<and>
      nonempty_str (fld kdf ''salt''))"

definition wf_section :: "string \<Rightarrow> jsval \<Rightarrow> bool" where
  "wf_section payload s =
     (is_object s \<and> fld s ''algorithm'' = JStr AEAD_ALG \<and>
      nonempty_str (fld s ''nonce'') \<and> nonempty_str (fld s payload))"

definition wf_vault_v2 :: "jsval \<Rightarrow> bool" where
  "wf_vault_v2 v =
     (is_object v \<and> fld v ''schema'' = JStr SCHEMA_V2 \<and> is_str (fld v ''version'') \<and>
      is_str (fld v ''created_at'') \<and> is_mode (fld v ''mode'') \<and> wf_kdf (fld v ''kdf'') \<and>
      wf_section ''wrapped_key'' (fld v ''wrap'') \<and> wf_section ''ciphertext'' (fld v ''content''))"

lemma truthy_get: "truthy v \<Longrightarrow> get v (lit k) = Inr (fld v k)"
  by (cases v) (simp_all add: fld_def)

lemma is_object_get [simp]: "is_object v \<Longrightarrow> get v (lit k) = Inr (fld v k)"
  by (simp add: is_object_def truthy_get)

lemma throw_with_not_Inr' [simp]: "Inr x \<noteq> throw_with pre v suf"
  by (metis throw_with_not_Inr)

lemma enforceKdfCaps_ok: "enforceKdfCaps kdf = Inr u \<longleftrightarrow> wf_kdf kdf"
  by (auto simp: enforceKdfCaps_def wf_kdf_def split: if_splits)

lemma check_section_ok: "check_section name payload s = Inr u \<longleftrightarrow> wf_section payload s"
  by (auto simp: check_section_def wf_section_def split: if_splits)

lemma validate_ok: "validateVaultSchemaV2 v = Inr u \<longleftrightarrow> wf_vault_v2 v"
  by (auto simp: validateVaultSchemaV2_def wf_vault_v2_def enforceKdfCaps_ok check_section_ok
      split: if_splits)

lemma is_str_cases: "is_str v \<longleftrightarrow> (\<exists>s. v = JStr s)"
  by (cases v) auto

lemma is_num_cases: "is_num v \<longleftrightarrow> (\<exists>n. v = JNum n)"
  by (cases v) auto

lemma nonempty_strE: "nonempty_str v \<Longrightarrow> (\<And>s. v = JStr s \<Longrightarrow> s \<noteq> [] \<Longrightarrow> P) \<Longrightarrow> P"
  by (cases v) (auto simp: nonempty_str_def)

lemma int_betweenE: "int_between lo hi v \<Longrightarrow> (\<And>n. v = JNum n \<Longrightarrow> lo \<le> n \<Longrightarrow> n \<le> hi \<Longrightarrow> P) \<Longrightarrow> P"
  by (cases v) (auto simp: int_between_def)

lemma get2_object: "is_object v \<Longrightarrow> is_object (fld v a) \<Longrightarrow> get2 v a b = Inr (fld (fld v a) b)"
  by (simp add: get2_def)

section \<open>Well-formed vaults have additional data\<close>

definition v2_fields :: "jsval \<Rightarrow> jsval list" where
  "v2_fields v =
     [fld (fld v ''content'') ''algorithm'', fld (fld v ''content'') ''nonce'', fld v ''created_at'',
      fld (fld v ''kdf'') ''algorithm'', fld (fld v ''kdf'') ''memlimit'', fld (fld v ''kdf'') ''opslimit'',
      fld (fld v ''kdf'') ''salt'', fld v ''mode'', fld v ''schema'', fld v ''version'',
      fld (fld v ''wrap'') ''algorithm'', fld (fld v ''wrap'') ''nonce'']"

lemma wf_vault_sections:
  assumes "wf_vault_v2 v"
  shows "is_object v" "is_object (fld v ''kdf'')" "is_object (fld v ''wrap'')" "is_object (fld v ''content'')"
  using assms by (simp_all add: wf_vault_v2_def wf_kdf_def wf_section_def)

lemma bound_fields_wf: "wf_vault_v2 v \<Longrightarrow> bound_fields v = Inr (v2_fields v)"
  using wf_vault_sections [of v] by (simp add: bound_fields_def get2_object v2_fields_def)

lemma v2_fields_scalar: "wf_vault_v2 v \<Longrightarrow> list_all scalar_val (v2_fields v)"
  by (auto simp: wf_vault_v2_def wf_kdf_def wf_section_def v2_fields_def scalar_val_def is_mode_def
      nonempty_str_def int_between_def)

lemma buildAADV2_wf: "wf_vault_v2 v \<Longrightarrow> \<exists>aad. buildAADV2 v = Inr aad"
  by (simp add: buildAADV2_eq bound_fields_wf)

lemma buildAADV2_wf_inj:
  "wf_vault_v2 v \<Longrightarrow> wf_vault_v2 w \<Longrightarrow> buildAADV2 v = buildAADV2 w \<longleftrightarrow> v2_fields v = v2_fields w"
  by (rule buildAADV2_inj) (simp_all add: bound_fields_wf v2_fields_scalar)

section \<open>Properties\<close>

definition sample_vault :: "jstr \<Rightarrow> jsval" where
  "sample_vault mode =
     JObj [(lit ''schema'', JStr SCHEMA_V2), (lit ''version'', JStr VERSION), (lit ''created_at'', JStr []),
           (lit ''mode'', JStr mode),
           (lit ''kdf'', JObj [(lit ''algorithm'', JStr KDF_ALG), (lit ''opslimit'', JNum 1),
                              (lit ''memlimit'', JNum 8388608), (lit ''salt'', JStr (lit ''AAAAAAAAAAAAAAAAAAAAAA''))]),
           (lit ''wrap'', JObj [(lit ''algorithm'', JStr AEAD_ALG), (lit ''nonce'', JStr (lit ''AA'')),
                               (lit ''wrapped_key'', JStr (lit ''AA''))]),
           (lit ''content'', JObj [(lit ''algorithm'', JStr AEAD_ALG), (lit ''nonce'', JStr (lit ''AA'')),
                                  (lit ''ciphertext'', JStr (lit ''AA''))])]"

lemma sample_vault_wf: "wf_vault_v2 (sample_vault (lit ''self''))" "wf_vault_v2 (sample_vault (lit ''share''))"
  by (simp_all add: sample_vault_def wf_vault_v2_def wf_kdf_def wf_section_def fld_def is_object_def
      int_between_def nonempty_str_def is_mode_def limit_defs)

text \<open>
  The validator accepts exactly the well-formed V2 vaults (every field of its type and
  in range), and everything it rejects gets a message of one of the four kinds.
\<close>

theorem validate_exact: "validateVaultSchemaV2 v = Inr () \<longleftrightarrow> wf_vault_v2 v"
  by (rule validate_ok)

text \<open>
  The additional data binds the metadata: two well-formed vaults have the same
  additional data only if all twelve bound fields are equal, and its text parses back to
  exactly those fields.
\<close>

theorem aad_binds_metadata:
  assumes "wf_vault_v2 v" and "wf_vault_v2 w"
  shows "(buildAADV2 v = buildAADV2 w \<longleftrightarrow> v2_fields v = v2_fields w) \<and>
    (\<exists>aad t. buildAADV2 v = Inr aad \<and> fromUtf8 aad = Inr t \<and> JSON_parse t = Some (literal_of (v2_fields v)))"
  using buildAADV2_wf_inj [OF assms] buildAADV2_reads_back [OF bound_fields_wf [OF assms(1)] v2_fields_scalar [OF assms(1)]]
  by blast

theorem aad_binds_metadata_witness:
  "buildAADV2 (sample_vault (lit ''self'')) \<noteq> buildAADV2 (sample_vault (lit ''share''))"
  using aad_binds_metadata [OF sample_vault_wf] by (simp add: v2_fields_def sample_vault_def fld_def)

end
