(* ===== verification/Sodium.thy ===== *)
theory Sodium
  imports Base64url
begin

text \<open>
  libsodium (\<open>libsodium-wrappers-sumo\<close>, \<open>landing/vault/sodium.js\<close>), the library every
  component calls and none of the repository's own code implements. Its operations are the
  fields of a record, an argument of every definition that uses them; what the code relies
  on is stated as predicates on that record, the hypotheses of the theorems that need them.
  The wrappers throw, so an operation gives \<open>Inl\<close> of the library's own message.

  Randomness is an infinite stream of bytes; drawing consumes a prefix of it.
\<close>

type_synonym rng = "nat \<Rightarrow> byte"

definition randombytes_buf :: "nat \<Rightarrow> rng \<Rightarrow> bytes \<times> rng" where
  "randombytes_buf n r = (map r [0..<n], \<lambda>i. r (i + n))"

lemma length_randombytes_buf [simp]: "length (fst (randombytes_buf n r)) = n"
  by (simp add: randombytes_buf_def)

record sodium =
  crypto_pwhash :: "nat \<Rightarrow> bytes \<Rightarrow> bytes \<Rightarrow> int \<Rightarrow> int \<Rightarrow> bytes res"
  aead_encrypt :: "bytes \<Rightarrow> bytes \<Rightarrow> bytes \<Rightarrow> bytes \<Rightarrow> bytes res"
  aead_decrypt :: "bytes \<Rightarrow> bytes \<Rightarrow> bytes \<Rightarrow> bytes \<Rightarrow> bytes res"
  crypto_generichash :: "nat \<Rightarrow> bytes \<Rightarrow> bytes"
  crypto_hash_sha256 :: "bytes \<Rightarrow> bytes"
  randombytes_uniform :: "nat \<Rightarrow> rng \<Rightarrow> nat \<times> rng"
  to_base64 :: "bytes \<Rightarrow> jstr"
  from_base64 :: "jstr \<Rightarrow> bytes res"
  to_hex :: "bytes \<Rightarrow> jstr"

text \<open>
  The arguments are (data, additional data, nonce, key) for the two AEAD operations; the
  base64 operations are those of the variant \<open>URLSAFE_NO_PADDING\<close>.
\<close>

section \<open>What the code relies on\<close>

text \<open>
  Argon2id with a 16-byte salt inside the limits the formats allow gives 32 bytes (given
  the memory it asks for).
\<close>

definition kdf_works :: "sodium \<Rightarrow> bool" where
  "kdf_works so = (\<forall>pw salt ops mem. length salt = 16 \<longrightarrow> 1 \<le> ops \<longrightarrow> ops \<le> 10 \<longrightarrow>
     8388608 \<le> mem \<longrightarrow> mem \<le> 268435456 \<longrightarrow>
     (\<exists>k. crypto_pwhash so 32 pw salt ops mem = Inr k \<and> length k = 32))"

text \<open>Sealing adds a 16-byte tag and opening under the same inputs gives the data back.\<close>

definition aead_works :: "sodium \<Rightarrow> bool" where
  "aead_works so = (\<forall>m ad n k. length n = 24 \<longrightarrow> length k = 32 \<longrightarrow>
     (\<exists>c. aead_encrypt so m ad n k = Inr c \<and> length c = length m + 16 \<and>
          aead_decrypt so c ad n k = Inr m))"

text \<open>
  The construction is deterministic: opening recomputes the tag, so what opens is exactly
  what sealing the result would give.
\<close>

definition aead_exact :: "sodium \<Rightarrow> bool" where
  "aead_exact so = (\<forall>c ad n k m. aead_decrypt so c ad n k = Inr m \<longrightarrow> aead_encrypt so m ad n k = Inr c)"

definition uniform_bound :: "sodium \<Rightarrow> bool" where
  "uniform_bound so = (\<forall>n r. 0 < n \<longrightarrow> fst (randombytes_uniform so n r) < n)"

text \<open>
  The unpadded URL-safe alphabet (RFC 4648), decoded strictly: only the text encoding gives
  is accepted.
\<close>

definition base64_works :: "sodium \<Rightarrow> bool" where
  "base64_works so =
     ((\<forall>bs. to_base64 so bs = b64urlEncode bs) \<and>
      (\<forall>s bs. from_base64 so s = Inr bs \<longleftrightarrow> s = b64urlEncode bs))"

definition sodium_ok :: "sodium \<Rightarrow> bool" where
  "sodium_ok so = (kdf_works so \<and> aead_works so \<and> aead_exact so \<and> uniform_bound so \<and> base64_works so)"

lemma sodium_okD:
  "sodium_ok so \<Longrightarrow> kdf_works so" "sodium_ok so \<Longrightarrow> aead_works so"
  "sodium_ok so \<Longrightarrow> aead_exact so" "sodium_ok so \<Longrightarrow> uniform_bound so" "sodium_ok so \<Longrightarrow> base64_works so"
  by (simp_all add: sodium_ok_def)

lemma kdf_worksE:
  assumes "kdf_works so" and "length salt = 16" and "1 \<le> ops" and "ops \<le> 10"
    and "8388608 \<le> mem" and "mem \<le> 268435456"
  obtains k where "crypto_pwhash so 32 pw salt ops mem = Inr k" and "length k = 32"
  using assms unfolding kdf_works_def by blast

lemma aead_worksE:
  assumes "aead_works so" and "length n = 24" and "length k = 32"
  obtains c where "aead_encrypt so m ad n k = Inr c" and "length c = length m + 16"
    and "aead_decrypt so c ad n k = Inr m"
  using assms unfolding aead_works_def by blast

lemma aead_encrypt_opens:
  "aead_works so \<Longrightarrow> length n = 24 \<Longrightarrow> length k = 32 \<Longrightarrow> aead_encrypt so m ad n k = Inr c \<Longrightarrow>
   aead_decrypt so c ad n k = Inr m \<and> length c = length m + 16"
  using aead_worksE [of so n k m ad] by fastforce

lemma base64_worksD:
  "base64_works so \<Longrightarrow> to_base64 so bs = b64urlEncode bs"
  "base64_works so \<Longrightarrow> from_base64 so s = Inr bs \<longleftrightarrow> s = b64urlEncode bs"
  "base64_works so \<Longrightarrow> from_base64 so (b64urlEncode bs) = Inr bs"
  by (simp_all add: base64_works_def)

lemma aead_exactD: "aead_exact so \<Longrightarrow> aead_decrypt so c ad n k = Inr m \<Longrightarrow> aead_encrypt so m ad n k = Inr c"
  unfolding aead_exact_def by blast

section \<open>An instance\<close>

text \<open>
  A small implementation with those properties (not a secure one): the hypotheses above
  are satisfiable together, and the concrete examples of the development run on it.
\<close>

definition pad_to :: "nat \<Rightarrow> bytes \<Rightarrow> bytes" where
  "pad_to n bs = take n (bs @ replicate n 0)"

lemma length_pad_to [simp]: "length (pad_to n bs) = n"
  by (simp add: pad_to_def)

definition toy_tag :: "bytes \<Rightarrow> bytes \<Rightarrow> bytes \<Rightarrow> bytes" where
  "toy_tag m ad k = sum_list m # sum_list ad # pad_to 14 k"

lemma length_toy_tag [simp]: "length (toy_tag m ad k) = 16"
  by (simp add: toy_tag_def)

definition toy_open :: "bytes \<Rightarrow> bytes \<Rightarrow> bytes \<Rightarrow> bytes \<Rightarrow> bytes res" where
  "toy_open c ad n k =
     (let m = take (length c - 16) c
      in if 16 \<le> length c \<and> c = m @ toy_tag m ad k then Inr m else Inl (lit ''wrong secret key for the given ciphertext''))"

definition toy_sodium :: sodium where
  "toy_sodium =
     \<lparr> crypto_pwhash = (\<lambda>n pw salt ops mem. Inr (pad_to n (pw @ salt))),
       aead_encrypt = (\<lambda>m ad n k. Inr (m @ toy_tag m ad k)),
       aead_decrypt = toy_open,
       crypto_generichash = pad_to,
       crypto_hash_sha256 = pad_to 32,
       randombytes_uniform = (\<lambda>n r. (unat (r 0) mod n, \<lambda>i. r (i + 1))),
       to_base64 = b64urlEncode,
       from_base64 = (\<lambda>s. bind_res (b64urlDecode s) (\<lambda>bs.
         throw_if (b64urlEncode bs \<noteq> s) (lit ''invalid input'') (Inr bs))),
       to_hex = (\<lambda>bs. concat (map (\<lambda>b. [of_nat (97 + unat b div 16), of_nat (97 + unat b mod 16)]) bs)) \<rparr>"

lemma toy_open_iff: "toy_open c ad n k = Inr m \<longleftrightarrow> c = m @ toy_tag m ad k"
  by (auto simp: toy_open_def Let_def)

lemma toy_sodium_ok [simp]: "sodium_ok toy_sodium"
  by (auto simp: sodium_ok_def kdf_works_def aead_works_def aead_exact_def uniform_bound_def
      base64_works_def toy_sodium_def toy_open_iff b64urlDecode_encode)

end
