(* ===== verification/Vault.thy ===== *)
theory Vault
  imports Vault_Format Sodium
begin

text \<open>
  \<open>qev-cli/lib/vault.js\<close>: locking and unlocking a V2 vault, the presets, the passphrase
  generator and the self-test. libsodium and the clock are arguments; a call that draws
  randomness returns the rest of the stream.
\<close>

section \<open>Lock presets\<close>

record preset =
  preset_opslimit :: int
  preset_memlimit :: int
  preset_label :: jstr
  preset_hint :: jstr

definition mib :: "int \<Rightarrow> int" where "mib n = n * 1024 * 1024"

definition LOCK_PRESETS :: "(jstr \<times> preset) list" where
  "LOCK_PRESETS =
     [(lit ''quick'', \<lparr>preset_opslimit = 1, preset_memlimit = mib 32, preset_label = lit ''quick'', preset_hint = lit ''~1s''\<rparr>),
      (lit ''strong'', \<lparr>preset_opslimit = 4, preset_memlimit = mib 96, preset_label = lit ''strong'', preset_hint = lit ''~4s''\<rparr>),
      (lit ''vault'', \<lparr>preset_opslimit = 6, preset_memlimit = mib 128, preset_label = lit ''vault'', preset_hint = lit ''~7s''\<rparr>)]"

definition quick_preset :: preset where
  "quick_preset = the (map_of LOCK_PRESETS (lit ''quick''))"

section \<open>Locking\<close>

datatype plaintext_arg = PtString jstr | PtBytes bytes | PtOther

record encrypt_opts =
  o_plaintext :: plaintext_arg
  o_password :: jsval
  o_mode :: jsval
  o_opslimit :: "int option"
  o_memlimit :: "int option"
  o_salt :: "bytes option"
  o_wrapNonce :: "bytes option"
  o_contentNonce :: "bytes option"
  o_vaultKey :: "bytes option"
  o_createdAt :: "jstr option"
  o_version :: "jstr option"

text \<open>\<open>x || d\<close> on a number and on a string that may be missing.\<close>

definition num_or :: "int option \<Rightarrow> int \<Rightarrow> int" where
  "num_or x d = (case x of None \<Rightarrow> d | Some n \<Rightarrow> if n = 0 then d else n)"

definition str_or :: "jstr option \<Rightarrow> jstr \<Rightarrow> jstr" where
  "str_or x d = (case x of None \<Rightarrow> d | Some s \<Rightarrow> if s = [] then d else s)"

definition val_or :: "jsval \<Rightarrow> jsval \<Rightarrow> jsval" where
  "val_or v d = (if truthy v then v else d)"

definition plaintext_bytes :: "plaintext_arg \<Rightarrow> bytes res" where
  "plaintext_bytes p =
     bind_res
       (case p of PtString s \<Rightarrow> Inr (utf8 s) | PtBytes b \<Rightarrow> Inr b
        | PtOther \<Rightarrow> Inl (lit ''encryptVaultV2: plaintext must be string or Uint8Array''))
       (\<lambda>b. throw_if (b = []) (lit ''encryptVaultV2: plaintext is empty'')
            (throw_if (length b > MAX_PLAINTEXT_BYTES)
               (lit ''plaintext too large (max '' @ num_str (int MAX_PLAINTEXT_BYTES div 1024) @ lit '' KiB)'')
            (Inr b)))"

definition encrypt_checks :: "encrypt_opts \<Rightarrow> bytes res" where
  "encrypt_checks opts =
     throw_if (\<not> nonempty_str (o_password opts)) (lit ''encryptVaultV2: password must be a non-empty string'')
     (throw_if (\<not> is_mode (val_or (o_mode opts) (JStr (lit ''self''))))
        (lit (''encryptVaultV2: mode must be '' @ squote @ ''self'' @ squote @ '' or '' @ squote @ ''share'' @ squote))
     (throw_if (num_or (o_opslimit opts) DEFAULT_OPSLIMIT < MIN_OPSLIMIT \<or>
                num_or (o_opslimit opts) DEFAULT_OPSLIMIT > MAX_OPSLIMIT) (lit ''opslimit out of range'')
     (throw_if (num_or (o_memlimit opts) DEFAULT_MEMLIMIT < MIN_MEMLIMIT \<or>
                num_or (o_memlimit opts) DEFAULT_MEMLIMIT > MAX_MEMLIMIT) (lit ''memlimit out of range'')
     (plaintext_bytes (o_plaintext opts)))))"

text \<open>A supplied buffer is copied, a missing one drawn.\<close>

definition draw_or :: "bytes option \<Rightarrow> nat \<Rightarrow> rng \<Rightarrow> bytes \<times> rng" where
  "draw_or b n r = (case b of Some x \<Rightarrow> (x, r) | None \<Rightarrow> randombytes_buf n r)"

record randomness =
  r_salt :: bytes
  r_wrapNonce :: bytes
  r_contentNonce :: bytes
  r_vaultKey :: bytes

definition draw_randomness :: "encrypt_opts \<Rightarrow> rng \<Rightarrow> randomness \<times> rng" where
  "draw_randomness opts r0 =
     (let (salt, r1) = draw_or (o_salt opts) SALT_BYTES r0;
          (wn, r2) = draw_or (o_wrapNonce opts) NONCE_BYTES r1;
          (cn, r3) = draw_or (o_contentNonce opts) NONCE_BYTES r2;
          (vk, r4) = draw_or (o_vaultKey opts) KEY_BYTES r3
      in (\<lparr>r_salt = salt, r_wrapNonce = wn, r_contentNonce = cn, r_vaultKey = vk\<rparr>, r4))"

definition msg_invalid :: "string \<Rightarrow> nat \<Rightarrow> jstr" where
  "msg_invalid what n = lit (''invalid '' @ what @ '' (must be '') @ num_str (int n) @ lit '' bytes)''"

definition check_randomness :: "randomness \<Rightarrow> unit res" where
  "check_randomness x =
     throw_if (length (r_salt x) \<noteq> SALT_BYTES) (msg_invalid ''salt'' SALT_BYTES)
     (throw_if (length (r_wrapNonce x) \<noteq> NONCE_BYTES) (msg_invalid ''wrap nonce'' NONCE_BYTES)
     (throw_if (length (r_contentNonce x) \<noteq> NONCE_BYTES) (msg_invalid ''content nonce'' NONCE_BYTES)
     (throw_if (length (r_vaultKey x) \<noteq> KEY_BYTES) (msg_invalid ''vault_key'' KEY_BYTES)
     (Inr ()))))"

definition vault_literal ::
  "jstr \<Rightarrow> jstr \<Rightarrow> jsval \<Rightarrow> int \<Rightarrow> int \<Rightarrow> randomness \<Rightarrow> jstr \<Rightarrow> jstr \<Rightarrow> jsval"
where
  "vault_literal version created_at mode ops mem x wrapped ciphertext =
     JObj [(lit ''schema'', JStr SCHEMA_V2), (lit ''version'', JStr version),
           (lit ''created_at'', JStr created_at), (lit ''mode'', mode),
           (lit ''kdf'', JObj [(lit ''algorithm'', JStr KDF_ALG), (lit ''opslimit'', JNum ops),
                              (lit ''memlimit'', JNum mem), (lit ''salt'', JStr (b64urlEncode (r_salt x)))]),
           (lit ''wrap'', JObj [(lit ''algorithm'', JStr AEAD_ALG),
                               (lit ''nonce'', JStr (b64urlEncode (r_wrapNonce x))),
                               (lit ''wrapped_key'', JStr wrapped)]),
           (lit ''content'', JObj [(lit ''algorithm'', JStr AEAD_ALG),
                                  (lit ''nonce'', JStr (b64urlEncode (r_contentNonce x))),
                                  (lit ''ciphertext'', JStr ciphertext)])]"

text \<open>\<open>v.a.b = x\<close>\<close>

definition set2 :: "jsval \<Rightarrow> string \<Rightarrow> string \<Rightarrow> jsval \<Rightarrow> jsval" where
  "set2 v a b x =
     (case v of JObj kvs \<Rightarrow>
        (case map_of kvs (lit a) of
           Some (JObj inner) \<Rightarrow> JObj (put kvs (lit a) (JObj (put inner (lit b) x)))
         | _ \<Rightarrow> v)
      | _ \<Rightarrow> v)"

definition seal_vault :: "sodium \<Rightarrow> jstr \<Rightarrow> encrypt_opts \<Rightarrow> bytes \<Rightarrow> randomness \<Rightarrow> jsval res" where
  "seal_vault so now opts pt x =
     (let ops = num_or (o_opslimit opts) DEFAULT_OPSLIMIT;
          mem = num_or (o_memlimit opts) DEFAULT_MEMLIMIT
      in bind_res (check_randomness x) (\<lambda>_.
         bind_res (crypto_pwhash so KEY_BYTES (utf8 (str_of (o_password opts))) (r_salt x) ops mem) (\<lambda>wrapKey.
         let vault = vault_literal (str_or (o_version opts) VERSION) (str_or (o_createdAt opts) now)
                       (val_or (o_mode opts) (JStr (lit ''self''))) ops mem x [] []
         in bind_res (buildAADV2 vault) (\<lambda>aad.
            bind_res (aead_encrypt so (r_vaultKey x) aad (r_wrapNonce x) wrapKey) (\<lambda>wrappedKey.
            let vault1 = set2 vault ''wrap'' ''wrapped_key'' (JStr (b64urlEncode wrappedKey))
            in bind_res (aead_encrypt so pt aad (r_contentNonce x) (r_vaultKey x)) (\<lambda>contentCt.
               Inr (set2 vault1 ''content'' ''ciphertext'' (JStr (b64urlEncode contentCt)))))))))"

definition encryptVaultV2 :: "sodium \<Rightarrow> jstr \<Rightarrow> encrypt_opts \<Rightarrow> rng \<Rightarrow> jsval res \<times> rng" where
  "encryptVaultV2 so now opts r =
     (case encrypt_checks opts of
        Inl e \<Rightarrow> (Inl e, r)
      | Inr pt \<Rightarrow> (let (x, r') = draw_randomness opts r in (seal_vault so now opts pt x, r')))"

section \<open>Unlocking\<close>

definition msg_not_string :: jstr where
  "msg_not_string = lit ''b64urlDecode: input must be a string''"

definition b64_member :: "jsval \<Rightarrow> string \<Rightarrow> string \<Rightarrow> bytes res" where
  "b64_member v a b = bind_res (get2 v a b) (\<lambda>x.
     case x of JStr s \<Rightarrow> b64urlDecode s | _ \<Rightarrow> Inl msg_not_string)"

text \<open>\<open>try { r } catch (_err) { throw new Error(m) }\<close>\<close>

definition rethrow :: "jstr \<Rightarrow> 'a res \<Rightarrow> 'a res" where
  "rethrow m r = (case r of Inl _ \<Rightarrow> Inl m | Inr x \<Rightarrow> Inr x)"

lemma rethrow_Inr [simp]: "rethrow m r = Inr x \<longleftrightarrow> r = Inr x"
  by (cases r) (simp_all add: rethrow_def)

lemma rethrow_Inl: "rethrow m r = Inl e \<longleftrightarrow> e = m \<and> \<not> is_ok r"
  by (cases r) (auto simp: rethrow_def)

definition msg_wrapped_key_length :: "bytes \<Rightarrow> jstr" where
  "msg_wrapped_key_length w =
     malformed ''wrapped_key length (got '' @ num_str (int (length w)) @ lit '', expected ''
       @ num_str (int (KEY_BYTES + TAG_BYTES)) @ lit '')''"

definition msg_too_large :: jstr where
  "msg_too_large = lit ''Vault too large (max '' @ num_str (int MAX_CIPHERTEXT_BYTES div 1024) @ lit '' KiB)''"

definition msg_vault_key_size :: jstr where
  "msg_vault_key_size = malformed ''unwrapped vault_key is not '' @ num_str (int KEY_BYTES) @ lit '' bytes''"

definition msg_wrong_phrase :: jstr where
  "msg_wrong_phrase = lit ''Could not decrypt: wrong phrase or tampered vault''"

definition msg_content_tampered :: jstr where
  "msg_content_tampered = lit ''Could not decrypt: vault content has been tampered with (wrap was valid)''"

definition msg_not_utf8 :: jstr where
  "msg_not_utf8 = lit ''Decrypted bytes are not valid UTF-8 (vault may be corrupted)''"

record sealed_parts =
  p_salt :: bytes
  p_wrapNonce :: bytes
  p_wrappedKey :: bytes
  p_contentNonce :: bytes
  p_contentCt :: bytes

definition decode_parts :: "jsval \<Rightarrow> sealed_parts res" where
  "decode_parts vault =
     bind_res (b64_member vault ''kdf'' ''salt'') (\<lambda>salt.
     bind_res (b64_member vault ''wrap'' ''nonce'') (\<lambda>wrapNonce.
     bind_res (b64_member vault ''wrap'' ''wrapped_key'') (\<lambda>wrappedKey.
     bind_res (b64_member vault ''content'' ''nonce'') (\<lambda>contentNonce.
     bind_res (b64_member vault ''content'' ''ciphertext'') (\<lambda>contentCt.
     throw_if (length salt \<noteq> SALT_BYTES) (malformed ''salt length'')
     (throw_if (length wrapNonce \<noteq> NONCE_BYTES) (malformed ''wrap nonce length'')
     (throw_if (length contentNonce \<noteq> NONCE_BYTES) (malformed ''content nonce length'')
     (throw_if (length wrappedKey \<noteq> KEY_BYTES + TAG_BYTES) (msg_wrapped_key_length wrappedKey)
     (throw_if (contentCt = []) (malformed ''empty ciphertext'')
     (throw_if (length contentCt > MAX_CIPHERTEXT_BYTES) msg_too_large
     (Inr \<lparr>p_salt = salt, p_wrapNonce = wrapNonce, p_wrappedKey = wrappedKey,
           p_contentNonce = contentNonce, p_contentCt = contentCt\<rparr>)))))))))))"

definition wrap_key :: "sodium \<Rightarrow> jsval \<Rightarrow> bytes \<Rightarrow> jstr \<Rightarrow> bytes res" where
  "wrap_key so vault salt password =
     bind_res (get2 vault ''kdf'' ''opslimit'') (\<lambda>ops.
     bind_res (get2 vault ''kdf'' ''memlimit'') (\<lambda>mem.
     crypto_pwhash so KEY_BYTES (utf8 password) salt (num_of ops) (num_of mem)))"

definition open_parts :: "sodium \<Rightarrow> jsval \<Rightarrow> sealed_parts \<Rightarrow> jstr \<Rightarrow> jstr res" where
  "open_parts so vault p password =
     bind_res (wrap_key so vault (p_salt p) password) (\<lambda>wrapKey.
     bind_res (buildAADV2 vault) (\<lambda>aad.
     bind_res (rethrow msg_wrong_phrase (aead_decrypt so (p_wrappedKey p) aad (p_wrapNonce p) wrapKey)) (\<lambda>vaultKey.
     throw_if (length vaultKey \<noteq> KEY_BYTES) msg_vault_key_size
     (bind_res (rethrow msg_content_tampered (aead_decrypt so (p_contentCt p) aad (p_contentNonce p) vaultKey))
       (\<lambda>plaintextBytes. rethrow msg_not_utf8 (fromUtf8 plaintextBytes))))))"

definition decryptVaultV2 :: "sodium \<Rightarrow> jsval \<Rightarrow> jsval \<Rightarrow> jstr res" where
  "decryptVaultV2 so vault password =
     bind_res (validateVaultSchemaV2 vault) (\<lambda>_.
     throw_if (\<not> nonempty_str password) (lit ''decryptVaultV2: password must be a non-empty string'')
     (bind_res (decode_parts vault) (\<lambda>p. open_parts so vault p (str_of password))))"

section \<open>What locking produces\<close>

lemma fld_JObj [simp]: "fld (JObj kvs) k = (case map_of kvs (lit k) of None \<Rightarrow> JUndef | Some x \<Rightarrow> x)"
  by (simp add: fld_def)

lemma is_object_JObj [simp]: "is_object (JObj kvs)"
  by (simp add: is_object_def)

lemma vault_literal_set:
  "set2 (vault_literal ver at md ops mem x w c) ''wrap'' ''wrapped_key'' (JStr w') =
     vault_literal ver at md ops mem x w' c"
  "set2 (vault_literal ver at md ops mem x w c) ''content'' ''ciphertext'' (JStr c') =
     vault_literal ver at md ops mem x w c'"
  by (simp_all add: vault_literal_def set2_def)

lemma vault_literal_fields:
  fixes ver at md ops mem x w c
  defines "v \<equiv> vault_literal ver at md ops mem x w c"
  shows "is_object v" "fld v ''schema'' = JStr SCHEMA_V2" "fld v ''version'' = JStr ver"
    "fld v ''created_at'' = JStr at" "fld v ''mode'' = md" "is_object (fld v ''kdf'')"
    "fld (fld v ''kdf'') ''algorithm'' = JStr KDF_ALG" "fld (fld v ''kdf'') ''opslimit'' = JNum ops"
    "fld (fld v ''kdf'') ''memlimit'' = JNum mem" "fld (fld v ''kdf'') ''salt'' = JStr (b64urlEncode (r_salt x))"
    "is_object (fld v ''wrap'')" "fld (fld v ''wrap'') ''algorithm'' = JStr AEAD_ALG"
    "fld (fld v ''wrap'') ''nonce'' = JStr (b64urlEncode (r_wrapNonce x))"
    "fld (fld v ''wrap'') ''wrapped_key'' = JStr w"
    "is_object (fld v ''content'')" "fld (fld v ''content'') ''algorithm'' = JStr AEAD_ALG"
    "fld (fld v ''content'') ''nonce'' = JStr (b64urlEncode (r_contentNonce x))"
    "fld (fld v ''content'') ''ciphertext'' = JStr c"
  by (simp_all add: v_def vault_literal_def)

lemma vault_literal_bound:
  "v2_fields (vault_literal ver at md ops mem x w c) = v2_fields (vault_literal ver at md ops mem x [] [])"
  by (simp add: v2_fields_def vault_literal_fields del: fld_JObj)

lemma vault_literal_aad:
  "buildAADV2 (vault_literal ver at md ops mem x w c) = buildAADV2 (vault_literal ver at md ops mem x [] [])"
  by (simp add: buildAADV2_eq bound_fields_def get2_object vault_literal_fields del: fld_JObj)

lemma vault_literal_aad_filled:
  "buildAADV2 (vault_literal ver at md ops mem x (b64urlEncode w) (b64urlEncode c)) =
     buildAADV2 (vault_literal ver at md ops mem x [] [])"
  by (rule vault_literal_aad)

lemma vault_literal_aad_ok: "\<exists>aad. buildAADV2 (vault_literal ver at md ops mem x w c) = Inr aad"
  by (simp add: buildAADV2_eq bound_fields_def get2_object vault_literal_fields del: fld_JObj)

lemma vault_literal_wf:
  "wf_vault_v2 (vault_literal ver at md ops mem x w c) \<longleftrightarrow>
     is_mode md \<and> MIN_OPSLIMIT \<le> ops \<and> ops \<le> MAX_OPSLIMIT \<and> MIN_MEMLIMIT \<le> mem \<and> mem \<le> MAX_MEMLIMIT \<and>
     r_salt x \<noteq> [] \<and> r_wrapNonce x \<noteq> [] \<and> r_contentNonce x \<noteq> [] \<and> w \<noteq> [] \<and> c \<noteq> []"
  by (auto simp: wf_vault_v2_def wf_kdf_def wf_section_def vault_literal_fields int_between_def
      nonempty_str_def simp del: fld_JObj)

lemma check_randomness_ok:
  "check_randomness x = Inr u \<longleftrightarrow> length (r_salt x) = 16 \<and> length (r_wrapNonce x) = 24 \<and>
     length (r_contentNonce x) = 24 \<and> length (r_vaultKey x) = 32"
  by (auto simp: check_randomness_def size_defs)

lemma draw_or_length:
  "draw_or b n r = (x, r') \<Longrightarrow> (case b of None \<Rightarrow> True | Some y \<Rightarrow> length y = n) \<Longrightarrow> length x = n"
  by (cases b) (auto simp: draw_or_def randombytes_buf_def)

text \<open>The pieces of a vault that locking made.\<close>

definition sealed_as ::
  "sodium \<Rightarrow> jstr \<Rightarrow> encrypt_opts \<Rightarrow> bytes \<Rightarrow> randomness \<Rightarrow> bytes \<Rightarrow> bytes \<Rightarrow> bytes \<Rightarrow> bytes \<Rightarrow> jsval \<Rightarrow> bool"
where
  "sealed_as so now opts pt x wrapKey aad wrappedKey contentCt v =
     (check_randomness x = Inr () \<and>
      crypto_pwhash so 32 (utf8 (str_of (o_password opts))) (r_salt x)
        (num_or (o_opslimit opts) DEFAULT_OPSLIMIT) (num_or (o_memlimit opts) DEFAULT_MEMLIMIT) = Inr wrapKey \<and>
      v = vault_literal (str_or (o_version opts) VERSION) (str_or (o_createdAt opts) now)
            (val_or (o_mode opts) (JStr (lit ''self''))) (num_or (o_opslimit opts) DEFAULT_OPSLIMIT)
            (num_or (o_memlimit opts) DEFAULT_MEMLIMIT) x (b64urlEncode wrappedKey) (b64urlEncode contentCt) \<and>
      buildAADV2 v = Inr aad \<and>
      aead_encrypt so (r_vaultKey x) aad (r_wrapNonce x) wrapKey = Inr wrappedKey \<and>
      aead_encrypt so pt aad (r_contentNonce x) (r_vaultKey x) = Inr contentCt)"

lemma seal_vault_Inr:
  "seal_vault so now opts pt x = Inr v \<longleftrightarrow>
     (\<exists>wrapKey aad wrappedKey contentCt. sealed_as so now opts pt x wrapKey aad wrappedKey contentCt v)"
  unfolding seal_vault_def sealed_as_def Let_def KEY_BYTES_def
  by (auto simp: vault_literal_set vault_literal_aad_filled)

lemma encrypt_checks_Inr:
  "encrypt_checks opts = Inr pt \<Longrightarrow>
     nonempty_str (o_password opts) \<and> is_mode (val_or (o_mode opts) (JStr (lit ''self''))) \<and>
     MIN_OPSLIMIT \<le> num_or (o_opslimit opts) DEFAULT_OPSLIMIT \<and>
     num_or (o_opslimit opts) DEFAULT_OPSLIMIT \<le> MAX_OPSLIMIT \<and>
     MIN_MEMLIMIT \<le> num_or (o_memlimit opts) DEFAULT_MEMLIMIT \<and>
     num_or (o_memlimit opts) DEFAULT_MEMLIMIT \<le> MAX_MEMLIMIT \<and>
     pt \<noteq> [] \<and> length pt \<le> MAX_PLAINTEXT_BYTES"
  by (auto simp: encrypt_checks_def plaintext_bytes_def split: plaintext_arg.splits)

lemma encrypt_Inr:
  assumes "encryptVaultV2 so now opts r = (Inr v, r')"
  obtains pt x wrapKey aad wrappedKey contentCt where
    "encrypt_checks opts = Inr pt" "draw_randomness opts r = (x, r')"
    "sealed_as so now opts pt x wrapKey aad wrappedKey contentCt v"
  using assms unfolding encryptVaultV2_def
  by (auto simp: seal_vault_Inr split: sum.splits prod.splits)

section \<open>Opening what was locked\<close>

lemma b64_member_encoded:
  "is_object v \<Longrightarrow> is_object (fld v a) \<Longrightarrow> fld (fld v a) b = JStr (b64urlEncode bs) \<Longrightarrow>
   b64_member v a b = Inr bs"
  by (simp add: b64_member_def get2_object b64urlDecode_encode)

lemma decode_parts_literal:
  assumes "check_randomness x = Inr ()" and "length w = 48" and "c \<noteq> []" and "length c \<le> MAX_CIPHERTEXT_BYTES"
  shows "decode_parts (vault_literal ver at md ops mem x (b64urlEncode w) (b64urlEncode c)) =
    Inr \<lparr>p_salt = r_salt x, p_wrapNonce = r_wrapNonce x, p_wrappedKey = w,
         p_contentNonce = r_contentNonce x, p_contentCt = c\<rparr>"
  using assms
  by (simp add: decode_parts_def b64_member_encoded vault_literal_fields check_randomness_ok
      size_defs throw_if_def del: fld_JObj)

lemma wrap_key_object:
  "wf_vault_v2 v \<Longrightarrow> wrap_key so v salt pw =
     crypto_pwhash so 32 (utf8 pw) salt (num_of (fld (fld v ''kdf'') ''opslimit'')) (num_of (fld (fld v ''kdf'') ''memlimit''))"
  using wf_vault_sections [of v] by (simp add: wrap_key_def get2_object KEY_BYTES_def)

lemma open_sealed:
  assumes ok: "kdf_works so" "aead_works so"
    and chk: "encrypt_checks opts = Inr pt"
    and s: "sealed_as so now opts pt x wrapKey aad wrappedKey contentCt v"
  shows "wf_vault_v2 v \<and> decryptVaultV2 so v (o_password opts) = rethrow msg_not_utf8 (fromUtf8 pt)"
proof -
  note c = encrypt_checks_Inr [OF chk]
  let ?ops = "num_or (o_opslimit opts) DEFAULT_OPSLIMIT" and ?mem = "num_or (o_memlimit opts) DEFAULT_MEMLIMIT"
  have l: "length (r_salt x) = 16" "length (r_wrapNonce x) = 24" "length (r_contentNonce x) = 24"
    "length (r_vaultKey x) = 32" using s by (simp_all add: sealed_as_def check_randomness_ok)
  obtain k where "crypto_pwhash so 32 (utf8 (str_of (o_password opts))) (r_salt x) ?ops ?mem = Inr k" "length k = 32"
    using kdf_worksE [OF ok(1) l(1), of ?ops ?mem] c by (auto simp: limit_defs)
  with s have k: "length wrapKey = 32" by (simp add: sealed_as_def)
  have w: "aead_decrypt so wrappedKey aad (r_wrapNonce x) wrapKey = Inr (r_vaultKey x)" "length wrappedKey = 48"
    using aead_encrypt_opens [OF ok(2) l(2) k] s l(4) by (auto simp: sealed_as_def)
  have t: "aead_decrypt so contentCt aad (r_contentNonce x) (r_vaultKey x) = Inr pt"
    "length contentCt = length pt + 16"
    using aead_encrypt_opens [OF ok(2) l(3,4)] s by (auto simp: sealed_as_def)
  have v: "v = vault_literal (str_or (o_version opts) VERSION) (str_or (o_createdAt opts) now)
      (val_or (o_mode opts) (JStr (lit ''self''))) ?ops ?mem x (b64urlEncode wrappedKey) (b64urlEncode contentCt)"
    using s by (simp add: sealed_as_def)
  have ne: "contentCt \<noteq> []" "wrappedKey \<noteq> []" "length contentCt \<le> MAX_CIPHERTEXT_BYTES"
    using w(2) t(2) c by (auto simp: size_defs)
  have wf: "wf_vault_v2 v" using c l ne by (auto simp: v vault_literal_wf)
  have d: "decode_parts v = Inr \<lparr>p_salt = r_salt x, p_wrapNonce = r_wrapNonce x, p_wrappedKey = wrappedKey,
      p_contentNonce = r_contentNonce x, p_contentCt = contentCt\<rparr>"
    using s w(2) ne unfolding v by (intro decode_parts_literal) (auto simp: sealed_as_def)
  have wk: "wrap_key so v (r_salt x) (str_of (o_password opts)) = Inr wrapKey"
    using s by (simp add: wrap_key_object [OF wf]) (simp add: v vault_literal_fields sealed_as_def del: fld_JObj)
  have va: "validateVaultSchemaV2 v = Inr ()" using wf by (simp add: validate_ok)
  have aad: "buildAADV2 v = Inr aad" using s unfolding sealed_as_def by blast
  have "decryptVaultV2 so v (o_password opts) = rethrow msg_not_utf8 (fromUtf8 pt)"
    using c by (simp add: decryptVaultV2_def va d open_parts_def wk aad w t l(4) rethrow_def KEY_BYTES_def)
  with wf show ?thesis by blast
qed

lemma lock_opens:
  assumes "kdf_works so" and "aead_works so"
    and "encryptVaultV2 so now opts r = (Inr v, r')" and "o_plaintext opts = PtString s"
  shows "wf_vault_v2 v" and "decryptVaultV2 so v (o_password opts) = Inr (units_of (drop_bom (code_points s)))"
    and "plain_text s \<Longrightarrow> units_of (drop_bom (code_points s)) = s"
proof -
  obtain pt x k aad w c where chk: "encrypt_checks opts = Inr pt" and d: "sealed_as so now opts pt x k aad w c v"
    by (rule encrypt_Inr [OF assms(3)])
  have "pt = utf8 s" using chk assms(4) by (auto simp: encrypt_checks_def plaintext_bytes_def)
  then show "wf_vault_v2 v" "decryptVaultV2 so v (o_password opts) = Inr (units_of (drop_bom (code_points s)))"
    using open_sealed [OF assms(1,2) chk d] by (simp_all add: fromUtf8_utf8 rethrow_def)
  show "plain_text s \<Longrightarrow> units_of (drop_bom (code_points s)) = s"
    using fromUtf8_utf8 [of s] fromUtf8_utf8_plain [of s] by simp
qed

section \<open>What unlocking means\<close>

text \<open>The steps of a successful unlock.\<close>

definition opened_as ::
  "sodium \<Rightarrow> jsval \<Rightarrow> jstr \<Rightarrow> sealed_parts \<Rightarrow> bytes \<Rightarrow> bytes \<Rightarrow> bytes \<Rightarrow> bytes \<Rightarrow> bool"
where
  "opened_as so v pw p wrapKey aad vaultKey pt =
     (decode_parts v = Inr p \<and> wrap_key so v (p_salt p) pw = Inr wrapKey \<and> buildAADV2 v = Inr aad \<and>
      aead_decrypt so (p_wrappedKey p) aad (p_wrapNonce p) wrapKey = Inr vaultKey \<and>
      length vaultKey = 32 \<and>
      aead_decrypt so (p_contentCt p) aad (p_contentNonce p) vaultKey = Inr pt)"

lemma decrypt_Inr:
  "decryptVaultV2 so v pw = Inr m \<longleftrightarrow>
     wf_vault_v2 v \<and> nonempty_str pw \<and>
     (\<exists>p wrapKey aad vaultKey pt. opened_as so v (str_of pw) p wrapKey aad vaultKey pt \<and> fromUtf8 pt = Inr m)"
  unfolding decryptVaultV2_def open_parts_def opened_as_def
  by (auto simp: validate_ok KEY_BYTES_def)

text \<open>The command line tool's opener only opens what its validator accepts.\<close>

interpretation cli_v2: opener wf_vault_v2 validateVaultSchemaV2 "decryptVaultV2 so" for so
  by unfold_locales (simp_all add: validate_ok decryptVaultV2_def)

lemma decode_parts_lengths:
  "decode_parts v = Inr p \<Longrightarrow>
     length (p_salt p) = 16 \<and> length (p_wrapNonce p) = 24 \<and> length (p_contentNonce p) = 24 \<and>
     length (p_wrappedKey p) = 48 \<and> p_contentCt p \<noteq> [] \<and> length (p_contentCt p) \<le> MAX_CIPHERTEXT_BYTES"
  by (auto simp: decode_parts_def size_defs)

lemma decode_parts_members:
  "decode_parts v = Inr p \<Longrightarrow>
     b64_member v ''kdf'' ''salt'' = Inr (p_salt p) \<and> b64_member v ''wrap'' ''nonce'' = Inr (p_wrapNonce p) \<and>
     b64_member v ''wrap'' ''wrapped_key'' = Inr (p_wrappedKey p) \<and>
     b64_member v ''content'' ''nonce'' = Inr (p_contentNonce p) \<and>
     b64_member v ''content'' ''ciphertext'' = Inr (p_contentCt p)"
  by (auto simp: decode_parts_def)

section \<open>Which errors unlocking reports\<close>

text \<open>What every message of the validator starts with.\<close>

definition validation_prefixes :: "jstr list" where
  "validation_prefixes = map lit [''Vault malformed: '', ''Unsupported '', ''KDF '', ''Cannot convert '']"

definition has_prefix :: "jstr list \<Rightarrow> jstr \<Rightarrow> bool" where
  "has_prefix ps m = list_ex (\<lambda>p. starts_with p m) ps"

lemma has_prefixI: "p \<in> set ps \<Longrightarrow> has_prefix ps (p @ s)"
  unfolding has_prefix_def list_ex_iff by (rule bexI [of _ p]) simp_all

lemma to_str_error: "to_str v = Inl e \<Longrightarrow> e = msg_to_primitive"
proof (induction v)
  case (JArr vs)
  have "res_list (map (\<lambda>v. if v = JUndef \<or> v = JNull then Inr [] else to_str v) us) = Inl e \<Longrightarrow>
      set us \<subseteq> set vs \<Longrightarrow> e = msg_to_primitive" for us
  proof (induction us)
    case (Cons u us)
    then show ?case using JArr.IH [of u] by (auto simp: bind_res_Inl_iff split: if_splits)
  qed simp
  from this [of vs] JArr.prems show ?case by (simp add: bind_res_Inl_iff)
qed (auto split: if_splits)

lemma throw_with_error: "throw_with pre v suf = Inl m \<Longrightarrow> m = msg_to_primitive \<or> (\<exists>s. m = pre @ s)"
  by (auto simp: throw_with_def bind_res_Inl_iff dest: to_str_error)

lemma validation_prefixed:
  "has_prefix validation_prefixes (lit (''Vault malformed: '' @ s) @ t)"
  "has_prefix validation_prefixes (lit (''Unsupported '' @ s) @ t)"
  "has_prefix validation_prefixes (lit (''KDF '' @ s) @ t)"
  "has_prefix validation_prefixes (lit (''Cannot convert '' @ s) @ t)"
  unfolding lit_append append_assoc
  by (rule has_prefixI, simp add: validation_prefixes_def)+

lemma malformed_prefixed: "has_prefix validation_prefixes (malformed s)"
  using validation_prefixed(1) [of s "[]"] by (simp add: malformed_def)

lemma throw_prefixed:
  assumes "throw_with (lit (''Unsupported '' @ s)) v suf = Inl m"
  shows "has_prefix validation_prefixes m"
  using throw_with_error [OF assms] validation_prefixed(2) validation_prefixed(4) [of "''object to primitive value''" "[]"]
  by (auto simp: msg_to_primitive_def)

lemma range_prefixed:
  "has_prefix validation_prefixes msg_opslimit_range" "has_prefix validation_prefixes msg_memlimit_range"
  unfolding msg_opslimit_range_def msg_memlimit_range_def
  using validation_prefixed(3) [of "''opslimit out of range (''"] validation_prefixed(3) [of "''memlimit out of range (''"]
  by simp_all

lemma kdf_error: "enforceKdfCaps kdf = Inl e \<Longrightarrow> has_prefix validation_prefixes e"
  unfolding enforceKdfCaps_def throw_if_Inl_iff
  by (elim disjE conjE; (simp add: malformed_prefixed)?)
    (auto simp: throw_if_Inl_iff malformed_prefixed range_prefixed
      intro: throw_prefixed [of "''KDF algorithm: ''"] split: if_splits)

lemma section_error: "check_section name payload s = Inl e \<Longrightarrow> has_prefix validation_prefixes e"
  unfolding check_section_def throw_if_Inl_iff
  by (elim disjE conjE; (simp add: malformed_prefixed)?)
    (auto simp: throw_if_Inl_iff malformed_prefixed
      intro: throw_prefixed [of "name @ '' AEAD algorithm: ''"] split: if_splits)

lemma mode_prefixed: "has_prefix validation_prefixes msg_mode_CLI"
  by (simp add: msg_mode_CLI_def malformed_prefixed)

lemma validate_error: "validateVaultSchemaV2 v = Inl e \<Longrightarrow> has_prefix validation_prefixes e"
  unfolding validateVaultSchemaV2_def throw_if_Inl_iff
  by (elim disjE conjE; (simp add: malformed_prefixed)?)
    (auto simp: throw_if_Inl_iff bind_res_Inl_iff malformed_prefixed mode_prefixed kdf_error section_error
      intro: throw_prefixed [of "''vault schema: '' @ dquote"] split: if_splits)

lemma decode_parts_error:
  "wf_vault_v2 v \<Longrightarrow> decode_parts v = Inl e \<Longrightarrow> e = msg_b64_invalid \<or> e = msg_too_large \<or> has_prefix validation_prefixes e"
proof -
  assume wf: "wf_vault_v2 v" and e: "decode_parts v = Inl e"
  have b: "b64_member v a k = Inl f \<Longrightarrow> f = msg_b64_invalid"
    if "is_object (fld v a)" "nonempty_str (fld (fld v a) k)" for a k f
    using that wf_vault_sections(1) [OF wf]
    by (auto simp: b64_member_def get2_object b64urlDecode_Inl_iff elim: nonempty_strE)
  have "b64_member v ''kdf'' ''salt'' = Inl f \<Longrightarrow> f = msg_b64_invalid"
    "b64_member v ''wrap'' ''nonce'' = Inl f \<Longrightarrow> f = msg_b64_invalid"
    "b64_member v ''wrap'' ''wrapped_key'' = Inl f \<Longrightarrow> f = msg_b64_invalid"
    "b64_member v ''content'' ''nonce'' = Inl f \<Longrightarrow> f = msg_b64_invalid"
    "b64_member v ''content'' ''ciphertext'' = Inl f \<Longrightarrow> f = msg_b64_invalid" for f
    using wf b [of "''kdf''" "''salt''" f] b [of "''wrap''" "''nonce''" f] b [of "''wrap''" "''wrapped_key''" f]
      b [of "''content''" "''nonce''" f] b [of "''content''" "''ciphertext''" f]
    by (simp_all add: wf_vault_v2_def wf_kdf_def wf_section_def)
  moreover have "has_prefix validation_prefixes (msg_wrapped_key_length w)" for w
    using validation_prefixed(1) [of "''wrapped_key length (got ''"]
    by (simp add: msg_wrapped_key_length_def malformed_def)
  ultimately show ?thesis using e
    by (auto simp: decode_parts_def bind_res_Inl_iff throw_if_Inl_iff malformed_prefixed)
qed

lemma wf_wrap_key:
  assumes "kdf_works so" and "wf_vault_v2 v" and "length salt = 16"
  obtains k where "wrap_key so v salt pw = Inr k" and "length k = 32"
proof -
  let ?ops = "num_of (fld (fld v ''kdf'') ''opslimit'')" and ?mem = "num_of (fld (fld v ''kdf'') ''memlimit'')"
  have r: "1 \<le> ?ops" "?ops \<le> 10" "8388608 \<le> ?mem" "?mem \<le> 268435456"
    using assms(2) by (auto simp: wf_vault_v2_def wf_kdf_def int_between_def limit_defs)
  show thesis using kdf_worksE [OF assms(1,3) r] wrap_key_object [OF assms(2)] that by metis
qed

lemma open_parts_error:
  assumes "kdf_works so" and "wf_vault_v2 v" and "length (p_salt p) = 16"
    and "open_parts so v p pw = Inl e"
  obtains k aad where "wrap_key so v (p_salt p) pw = Inr k" and "length k = 32" and "buildAADV2 v = Inr aad"
    and "e = msg_wrong_phrase \<and> \<not> is_ok (aead_decrypt so (p_wrappedKey p) aad (p_wrapNonce p) k) \<or>
      (\<exists>vk. aead_decrypt so (p_wrappedKey p) aad (p_wrapNonce p) k = Inr vk \<and>
         (e = msg_vault_key_size \<and> length vk \<noteq> 32 \<or>
          length vk = 32 \<and> e = msg_content_tampered \<and> \<not> is_ok (aead_decrypt so (p_contentCt p) aad (p_contentNonce p) vk) \<or>
          length vk = 32 \<and> e = msg_not_utf8 \<and>
            (\<exists>pt. aead_decrypt so (p_contentCt p) aad (p_contentNonce p) vk = Inr pt \<and> \<not> is_ok (fromUtf8 pt))))"
proof -
  obtain k where k: "wrap_key so v (p_salt p) pw = Inr k" "length k = 32" by (rule wf_wrap_key [OF assms(1-3)])
  obtain aad where aad: "buildAADV2 v = Inr aad" using buildAADV2_wf [OF assms(2)] by blast
  show thesis
    using assms(4) by (intro that [OF k aad])
      (auto simp: open_parts_def k aad bind_res_Inl_iff throw_if_Inl_iff rethrow_Inl KEY_BYTES_def)
qed

text \<open>The messages of the later steps tell those steps apart, and from the validator's.\<close>

lemma distinct_open_messages:
  "msg_wrong_phrase \<noteq> msg_content_tampered" "msg_wrong_phrase \<noteq> msg_not_utf8"
  "msg_content_tampered \<noteq> msg_not_utf8"
  by (simp_all add: msg_wrong_phrase_def msg_content_tampered_def msg_not_utf8_def)

lemma has_prefix_lit:
  "list_all (\<lambda>p. length p \<le> length a) ps \<Longrightarrow>
   has_prefix (map lit ps) (lit a @ t) \<longleftrightarrow> list_ex (\<lambda>p. starts_with p a) ps"
proof -
  have "length p \<le> length a \<Longrightarrow> starts_with (lit p) (lit a @ t) \<longleftrightarrow> starts_with p a" for p
    by (induction p a rule: starts_with.induct) (auto simp: lit_def)
  then show "list_all (\<lambda>p. length p \<le> length a) ps \<Longrightarrow> ?thesis"
    by (auto simp: has_prefix_def list_ex_iff list_all_iff)
qed

lemma open_messages_not_prefixed:
  "\<not> has_prefix validation_prefixes msg_wrong_phrase" "\<not> has_prefix validation_prefixes msg_content_tampered"
  "\<not> has_prefix validation_prefixes msg_not_utf8"
proof -
  have "has_prefix validation_prefixes (lit m @ []) \<longleftrightarrow>
      list_ex (\<lambda>p. starts_with p m) [''Vault malformed: '', ''Unsupported '', ''KDF '', ''Cannot convert '']"
    if "17 \<le> length m" for m
    unfolding validation_prefixes_def using that by (intro has_prefix_lit) simp
  from this [of "''Could not decrypt: wrong phrase or tampered vault''"]
    this [of "''Could not decrypt: vault content has been tampered with (wrap was valid)''"]
    this [of "''Decrypted bytes are not valid UTF-8 (vault may be corrupted)''"]
  show "\<not> has_prefix validation_prefixes msg_wrong_phrase" "\<not> has_prefix validation_prefixes msg_content_tampered"
    "\<not> has_prefix validation_prefixes msg_not_utf8"
    by (simp_all add: msg_wrong_phrase_def msg_content_tampered_def msg_not_utf8_def)
qed

text \<open>The errors of an unlock, by the step that raised them.\<close>

definition msg_decrypt_password :: jstr where
  "msg_decrypt_password = lit ''decryptVaultV2: password must be a non-empty string''"

lemma decrypt_errorE:
  assumes "kdf_works so" and "decryptVaultV2 so v pw = Inl e"
  obtains (Invalid) "\<not> wf_vault_v2 v" "has_prefix validation_prefixes e"
  | (No_password) "wf_vault_v2 v" "\<not> nonempty_str pw" "e = msg_decrypt_password"
  | (Bad_parts) "wf_vault_v2 v" "decode_parts v = Inl e"
      "e = msg_b64_invalid \<or> e = msg_too_large \<or> has_prefix validation_prefixes e"
  | (Opening) p k aad where "wf_vault_v2 v" "decode_parts v = Inr p"
      "wrap_key so v (p_salt p) (str_of pw) = Inr k" "length k = 32" "buildAADV2 v = Inr aad"
      "e = msg_wrong_phrase \<and> \<not> is_ok (aead_decrypt so (p_wrappedKey p) aad (p_wrapNonce p) k) \<or>
      (\<exists>vk. aead_decrypt so (p_wrappedKey p) aad (p_wrapNonce p) k = Inr vk \<and>
         (e = msg_vault_key_size \<and> length vk \<noteq> 32 \<or>
          length vk = 32 \<and> e = msg_content_tampered \<and> \<not> is_ok (aead_decrypt so (p_contentCt p) aad (p_contentNonce p) vk) \<or>
          length vk = 32 \<and> e = msg_not_utf8 \<and>
            (\<exists>pt. aead_decrypt so (p_contentCt p) aad (p_contentNonce p) vk = Inr pt \<and> \<not> is_ok (fromUtf8 pt))))"
proof (cases "wf_vault_v2 v")
  case False
  then obtain e' where "validateVaultSchemaV2 v = Inl e'"
    using validate_ok [of v] by (cases "validateVaultSchemaV2 v") auto
  with assms(2) show ?thesis using Invalid [OF False] validate_error by (simp add: decryptVaultV2_def)
next
  case wf: True
  then have va: "validateVaultSchemaV2 v = Inr ()" by (simp add: validate_ok)
  show ?thesis
  proof (cases "nonempty_str pw")
    case False
    then show ?thesis using assms(2) No_password [OF wf] by (simp add: decryptVaultV2_def va msg_decrypt_password_def)
  next
    case True
    show ?thesis
    proof (cases "decode_parts v")
      case (Inl e')
      with assms(2) True show ?thesis using Bad_parts [OF wf] decode_parts_error [OF wf]
        by (simp add: decryptVaultV2_def va)
    next
      case (Inr p)
      with assms(2) True have "open_parts so v p (str_of pw) = Inl e" by (simp add: decryptVaultV2_def va)
      from open_parts_error [OF assms(1) wf _ this] decode_parts_lengths [OF Inr]
      show ?thesis using Opening [OF wf Inr] by blast
    qed
  qed
qed

section \<open>Passphrase generator\<close>

text \<open>\<open>text.split(/\s+/).filter(Boolean)\<close>\<close>

fun split_spaces :: "string \<Rightarrow> string \<Rightarrow> string list" where
  "split_spaces w [] = (if w = [] then [] else [rev w])"
| "split_spaces w (c # cs) =
     (if c = CHR 0x20 then (if w = [] then split_spaces [] cs else rev w # split_spaces [] cs)
      else split_spaces (c # w) cs)"

definition PASSPHRASE_WORDS :: "jstr list" where
  "PASSPHRASE_WORDS = map lit (split_spaces []
     (''able acid acre add age aim air ant ape arm army art ask atom auto '' @
      ''baby back bad bag bake ball band bank bar barn base bat bath bay '' @
      ''beam bean bear beat bed bee beef bell belt bend best bid big bike '' @
      ''bill bird bit blue boat body bold bolt bone book boot born boss '' @
      ''both bow bowl box boy bran brave bread bring brown brush bug build '' @
      ''burn bus bush busy buy cab cage cake calf calm camp can cap car '' @
      ''card care cart case cash cast cat catch cave cell chair chalk '' @
      ''charm cheap chest chief chin chip city claim clay clean clear '' @
      ''click cliff cloak clock cloth cloud club coal coast coat coin '' @
      ''cold come cook cool corn cost couch count court cow crab crew '' @
      ''crop cross crown cry cup curl daisy damp dance dark dawn day deal '' @
      ''deep deer desk dial dig dim dish dive dock dog doll door dot '' @
      ''dove down draft drag draw dream dress drift drive drop drum dry '' @
      ''duck dust eagle ear earth east easy edge egg eight elbow elf elm''))"

definition word_at :: "nat \<Rightarrow> jstr" where
  "word_at i = (if i < length PASSPHRASE_WORDS then PASSPHRASE_WORDS ! i else [])"

fun draw_uniform :: "sodium \<Rightarrow> nat \<Rightarrow> nat \<Rightarrow> rng \<Rightarrow> nat list \<times> rng" where
  "draw_uniform so bound 0 r = ([], r)"
| "draw_uniform so bound (Suc k) r =
     (let (i, r1) = randombytes_uniform so bound r; (is, r2) = draw_uniform so bound k r1 in (i # is, r2))"

definition generatePassphrase :: "sodium \<Rightarrow> rng \<Rightarrow> jstr \<times> rng" where
  "generatePassphrase so r =
     (let (is, r1) = draw_uniform so (length PASSPHRASE_WORDS) 4 r;
          (d1, r2) = randombytes_uniform so 10 r1;
          (d2, r3) = randombytes_uniform so 10 r2
      in (join (lit ''-'') (map word_at is) @ lit ''-'' @ num_str (int d1) @ num_str (int d2), r3))"

lemma length_PASSPHRASE_WORDS: "length PASSPHRASE_WORDS = 180"
  unfolding PASSPHRASE_WORDS_def length_map by code_simp

text \<open>The list is in alphabetical order, so no word is in it twice.\<close>

fun str_less :: "string \<Rightarrow> string \<Rightarrow> bool" where
  "str_less [] s = (s \<noteq> [])"
| "str_less (c # cs) [] = False"
| "str_less (c # cs) (d # ds) = ((of_char c :: nat) < of_char d \<or> c = d \<and> str_less cs ds)"

lemma str_less_irrefl: "\<not> str_less s s"
  by (induction s) auto

lemma str_less_trans: "str_less a b \<Longrightarrow> str_less b c \<Longrightarrow> str_less a c"
proof (induction a b arbitrary: c rule: str_less.induct)
  case (1 s)
  then show ?case by (cases s; cases c) auto
next
  case (3 x xs y ys)
  then show ?case by (cases c) auto
qed simp

lemma increasing_distinct: "successively str_less ws \<Longrightarrow> distinct ws"
proof -
  have t: "transp str_less" by (rule transpI) (rule str_less_trans)
  assume "successively str_less ws"
  then have "sorted_wrt str_less ws" by (simp add: successively_iff_sorted_wrt_strong [OF str_less_trans])
  then show ?thesis by (induction ws) (auto simp: str_less_irrefl)
qed

lemma distinct_PASSPHRASE_WORDS: "distinct PASSPHRASE_WORDS"
  unfolding PASSPHRASE_WORDS_def distinct_map
proof (rule conjI)
  have "inj lit" by (simp add: inj_def)
  then show "inj_on lit A" for A by (rule inj_on_subset) simp
qed (rule increasing_distinct, code_simp)

lemma draw_uniform_bound:
  "uniform_bound so \<Longrightarrow> 0 < bound \<Longrightarrow> draw_uniform so bound k r = (is, r') \<Longrightarrow>
     length is = k \<and> (\<forall>i \<in> set is. i < bound)"
proof (induction k arbitrary: r "is")
  case (Suc k)
  have "fst (randombytes_uniform so bound r) < bound" using Suc.prems by (simp add: uniform_bound_def)
  then show ?case using Suc by (auto simp: split: prod.splits)
qed simp

section \<open>When locking succeeds\<close>

definition overrides_ok :: "encrypt_opts \<Rightarrow> bool" where
  "overrides_ok opts =
     (pred_option (\<lambda>b. length b = SALT_BYTES) (o_salt opts) \<and>
      pred_option (\<lambda>b. length b = NONCE_BYTES) (o_wrapNonce opts) \<and>
      pred_option (\<lambda>b. length b = NONCE_BYTES) (o_contentNonce opts) \<and>
      pred_option (\<lambda>b. length b = KEY_BYTES) (o_vaultKey opts))"

lemma draw_or_len: "draw_or b n r = (x, r') \<Longrightarrow> length x = n \<longleftrightarrow> pred_option (\<lambda>b. length b = n) b"
  by (cases b) (auto simp: draw_or_def randombytes_buf_def)

lemma draw_randomness_ok:
  "draw_randomness opts r = (x, r') \<Longrightarrow> check_randomness x = Inr () \<longleftrightarrow> overrides_ok opts"
  unfolding draw_randomness_def Let_def check_randomness_ok overrides_ok_def
  by (auto simp: draw_or_len [symmetric] size_defs split: prod.splits)

lemma lock_total:
  assumes ok: "kdf_works so" "aead_works so"
    and chk: "encrypt_checks opts = Inr pt" and ov: "overrides_ok opts"
  obtains v r' where "encryptVaultV2 so now opts r = (Inr v, r')"
proof -
  obtain x r' where x: "draw_randomness opts r = (x, r')" by (cases "draw_randomness opts r")
  then have cr: "check_randomness x = Inr ()" using draw_randomness_ok ov by blast
  then have l: "length (r_salt x) = 16" "length (r_wrapNonce x) = 24" "length (r_contentNonce x) = 24"
    "length (r_vaultKey x) = 32" by (simp_all add: check_randomness_ok)
  note c = encrypt_checks_Inr [OF chk]
  let ?ops = "num_or (o_opslimit opts) DEFAULT_OPSLIMIT" and ?mem = "num_or (o_memlimit opts) DEFAULT_MEMLIMIT"
  obtain k where k: "crypto_pwhash so 32 (utf8 (str_of (o_password opts))) (r_salt x) ?ops ?mem = Inr k" "length k = 32"
    using kdf_worksE [OF ok(1) l(1), of ?ops ?mem] c by (auto simp: limit_defs)
  obtain aad where aad: "buildAADV2 (vault_literal (str_or (o_version opts) VERSION) (str_or (o_createdAt opts) now)
      (val_or (o_mode opts) (JStr (lit ''self''))) ?ops ?mem x [] []) = Inr aad"
    using vault_literal_aad_ok by blast
  obtain w where w: "aead_encrypt so (r_vaultKey x) aad (r_wrapNonce x) k = Inr w"
    by (rule aead_worksE [OF ok(2) l(2) k(2)])
  obtain t where t: "aead_encrypt so pt aad (r_contentNonce x) (r_vaultKey x) = Inr t"
    by (rule aead_worksE [OF ok(2) l(3,4)])
  have "\<exists>v. seal_vault so now opts pt x = Inr v"
    by (simp add: seal_vault_def Let_def cr KEY_BYTES_def k aad w t)
  then show thesis using that x by (auto simp: encryptVaultV2_def chk)
qed

lemma draw_randomness_lengths:
  "draw_randomness opts r = (x, r') \<Longrightarrow> \<not> overrides_ok opts \<Longrightarrow> \<exists>e. check_randomness x = Inl e"
  using draw_randomness_ok [of opts r x r'] by (cases "check_randomness x") auto

lemma encrypt_ok_overrides: "encryptVaultV2 so now opts r = (Inr v, r') \<Longrightarrow> overrides_ok opts"
  by (erule encrypt_Inr) (simp add: sealed_as_def draw_randomness_ok)

lemma lock_wf_val:
  assumes "encryptVaultV2 so now opts r = (Inr v, r')"
  shows "wf_val v"
proof -
  obtain pt x k aad w c where "encrypt_checks opts = Inr pt" and s: "sealed_as so now opts pt x k aad w c v"
    by (rule encrypt_Inr [OF assms])
  then have "is_mode (val_or (o_mode opts) (JStr (lit ''self'')))" using encrypt_checks_Inr by blast
  then show ?thesis using s by (auto simp: sealed_as_def vault_literal_def is_mode_def)
qed

section \<open>Properties\<close>

definition sample_opts :: "jstr \<Rightarrow> jstr \<Rightarrow> encrypt_opts" where
  "sample_opts text phrase = \<lparr>o_plaintext = PtString text, o_password = JStr phrase, o_mode = JUndef,
     o_opslimit = None, o_memlimit = None, o_salt = None, o_wrapNonce = None, o_contentNonce = None,
     o_vaultKey = None, o_createdAt = None, o_version = None\<rparr>"

lemma sample_opts_checks:
  "phrase \<noteq> [] \<Longrightarrow> text \<noteq> [] \<Longrightarrow> length (utf8 text) \<le> MAX_PLAINTEXT_BYTES \<Longrightarrow>
   encrypt_checks (sample_opts text phrase) = Inr (utf8 text) \<and> overrides_ok (sample_opts text phrase)"
  by (simp add: sample_opts_def encrypt_checks_def plaintext_bytes_def overrides_ok_def nonempty_str_def
      val_or_def is_mode_def num_or_def limit_defs throw_if_def)

lemma sample_lock:
  obtains v r' where "encryptVaultV2 toy_sodium now (sample_opts (lit ''hi'') (lit ''pw'')) r = (Inr v, r')"
proof (rule lock_total)
  have "length (utf8 (lit ''hi'')) \<le> 3 * length (lit ''hi'')" by (rule utf8_length)
  then show "encrypt_checks (sample_opts (lit ''hi'') (lit ''pw'')) = Inr (utf8 (lit ''hi''))"
    "overrides_ok (sample_opts (lit ''hi'') (lit ''pw''))"
    using sample_opts_checks [of "lit ''pw''" "lit ''hi''"] by (simp_all add: MAX_PLAINTEXT_BYTES_def)
qed (use toy_sodium_ok sodium_okD in blast)+

lemma sample_plain: "plain_text (lit ''hi'')"
  by (simp add: plain_text_def lit_def unit_of_def is_surrogate_def is_lead_def is_trail_def)

lemma sample_unlock:
  obtains v where "wf_vault_v2 v" and "wf_val v" and "fld v ''mode'' = JStr (lit ''self'')"
    and "decryptVaultV2 toy_sodium v (JStr (lit ''pw'')) = Inr (lit ''hi'')"
proof -
  let ?o = "sample_opts (lit ''hi'') (lit ''pw'')"
  obtain v r' where v: "encryptVaultV2 toy_sodium [] ?o (\<lambda>_. 7) = (Inr v, r')" by (rule sample_lock)
  obtain pt x k aad w c where chk: "encrypt_checks ?o = Inr pt" and s: "sealed_as toy_sodium [] ?o pt x k aad w c v"
    by (rule encrypt_Inr [OF v])
  have pt: "pt = utf8 (lit ''hi'')" using chk by (auto simp: encrypt_checks_def plaintext_bytes_def sample_opts_def)
  have ok: "kdf_works toy_sodium" "aead_works toy_sodium" using sodium_okD [OF toy_sodium_ok] by blast+
  have m: "fld v ''mode'' = JStr (lit ''self'')"
    using s by (auto simp: sealed_as_def vault_literal_def sample_opts_def val_or_def)
  from open_sealed [OF ok chk s] lock_wf_val [OF v] m show thesis
    by (intro that) (auto simp: sample_opts_def pt fromUtf8_utf8_plain [OF sample_plain] rethrow_def)
qed

text \<open>
  Locking succeeds exactly when the arguments pass the checks and every supplied buffer
  has the right length, and then nothing else can go wrong.
\<close>

theorem lock_succeeds_iff:
  assumes "kdf_works so" and "aead_works so"
  shows "(\<exists>v r'. encryptVaultV2 so now opts r = (Inr v, r')) \<longleftrightarrow>
    (\<exists>pt. encrypt_checks opts = Inr pt) \<and> overrides_ok opts"
  using lock_total [OF assms] encrypt_ok_overrides by (metis encrypt_Inr)

theorem lock_succeeds_iff_witness:
  "\<exists>v r'. encryptVaultV2 toy_sodium [] (sample_opts (lit ''a'') (lit ''b'')) (\<lambda>_. 0) = (Inr v, r')"
  using lock_succeeds_iff [of toy_sodium "[]" "sample_opts (lit ''a'') (lit ''b'')" "\<lambda>_. 0"]
    sample_opts_checks [of "lit ''b''" "lit ''a''"] utf8_length [of "lit ''a''"] sodium_okD [OF toy_sodium_ok]
  by (simp add: MAX_PLAINTEXT_BYTES_def)

text \<open>
  C1: A locked message opens again under the same phrase: the result is the message with
  lone surrogates replaced and a leading byte order mark removed, hence the message itself
  whenever it is plain text.
\<close>

theorem lock_then_unlock:
  assumes "kdf_works so" and "aead_works so"
    and "encryptVaultV2 so now opts r = (Inr v, r')" and "o_plaintext opts = PtString s"
  shows "decryptVaultV2 so v (o_password opts) = Inr (units_of (drop_bom (code_points s))) \<and>
    (plain_text s \<longrightarrow> decryptVaultV2 so v (o_password opts) = Inr s)"
  using lock_opens [OF assms] by simp

theorem lock_then_unlock_witness:
  "\<exists>v. decryptVaultV2 toy_sodium v (JStr (lit ''pw'')) = Inr (lit ''hi'')"
proof -
  obtain v r' where v: "encryptVaultV2 toy_sodium [] (sample_opts (lit ''hi'') (lit ''pw'')) (\<lambda>_. 7) = (Inr v, r')"
    by (rule sample_lock)
  have "plain_text (lit ''hi'')" by (simp add: plain_text_def lit_def unit_of_def is_surrogate_def is_lead_def is_trail_def)
  then show ?thesis using lock_then_unlock [OF _ _ v, of "lit ''hi''"] sodium_okD [OF toy_sodium_ok]
    by (auto simp: sample_opts_def)
qed

text \<open>
  What locking returns is a well-formed vault that survives being written to a file and
  parsed again.
\<close>

theorem lock_output_valid:
  assumes "kdf_works so" and "aead_works so" and "encryptVaultV2 so now opts r = (Inr v, r')"
  shows "validateVaultSchemaV2 v = Inr () \<and>
    (\<exists>t. JSON_stringify2 v = Some t \<and> JSON_parse (t @ [10]) = Some v)"
proof -
  obtain pt x k aad w c where "encrypt_checks opts = Inr pt" "sealed_as so now opts pt x k aad w c v"
    by (rule encrypt_Inr [OF assms(3)])
  then have "wf_vault_v2 v" using open_sealed [OF assms(1,2)] by blast
  moreover have wf: "wf_val v" by (rule lock_wf_val [OF assms(3)])
  obtain t where "JSON_stringify2 v = Some t" unfolding JSON_stringify2_def using json_str_Some [OF wf] by blast
  ultimately show ?thesis using JSON_parse_stringify2(1) [OF wf] by (auto simp: validate_ok)
qed

theorem lock_output_valid_witness:
  "\<exists>v t. validateVaultSchemaV2 v = Inr () \<and> JSON_parse (t @ [10]) = Some v"
proof -
  obtain v r' where v: "encryptVaultV2 toy_sodium [] (sample_opts (lit ''hi'') (lit ''pw'')) (\<lambda>_. 7) = (Inr v, r')"
    by (rule sample_lock)
  show ?thesis using lock_output_valid [OF _ _ v] sodium_okD [OF toy_sodium_ok] by blast
qed

text \<open>
  C2: A vault opens only if it is well formed, its five binary fields have their sizes, and
  both seals verify; a deterministic AEAD then makes both ciphertexts exactly the seals of
  the data key and of the bytes that were returned.
\<close>

theorem unlock_sound:
  assumes "aead_exact so" and "decryptVaultV2 so v pw = Inr m"
  shows "wf_vault_v2 v \<and> (\<exists>p wrapKey aad vaultKey pt.
    decode_parts v = Inr p \<and> length (p_salt p) = 16 \<and> length (p_wrapNonce p) = 24 \<and>
    length (p_contentNonce p) = 24 \<and> length (p_wrappedKey p) = 48 \<and> length vaultKey = 32 \<and>
    length (p_contentCt p) \<le> MAX_CIPHERTEXT_BYTES \<and>
    wrap_key so v (p_salt p) (str_of pw) = Inr wrapKey \<and> buildAADV2 v = Inr aad \<and>
    aead_encrypt so vaultKey aad (p_wrapNonce p) wrapKey = Inr (p_wrappedKey p) \<and>
    aead_encrypt so pt aad (p_contentNonce p) vaultKey = Inr (p_contentCt p) \<and>
    fromUtf8 pt = Inr m)"
proof -
  obtain p k aad vk pt where o: "opened_as so v (str_of pw) p k aad vk pt" and m: "fromUtf8 pt = Inr m"
    and wf: "wf_vault_v2 v" using assms(2) by (auto simp: decrypt_Inr)
  then have "decode_parts v = Inr p" by (simp add: opened_as_def)
  from decode_parts_lengths [OF this] o m wf show ?thesis
    using aead_exactD [OF assms(1)] unfolding opened_as_def by blast
qed

theorem unlock_sound_witness:
  "\<exists>v p wrapKey aad vaultKey. decode_parts v = Inr p \<and>
     aead_encrypt toy_sodium vaultKey aad (p_wrapNonce p) wrapKey = Inr (p_wrappedKey p)"
proof -
  obtain v where "decryptVaultV2 toy_sodium v (JStr (lit ''pw'')) = Inr (lit ''hi'')" by (rule sample_unlock)
  from unlock_sound [OF sodium_okD(3) [OF toy_sodium_ok] this] show ?thesis by blast
qed

lemma lock_seal:
  assumes "kdf_works so" and "aead_works so" and "encryptVaultV2 so now opts r = (Inr v, r')"
  obtains p k aad vk where "decode_parts v = Inr p" and "b64_member v ''wrap'' ''wrapped_key'' = Inr (p_wrappedKey p)"
    and "b64_member v ''kdf'' ''salt'' = Inr (p_salt p)"
    and "wrap_key so v (p_salt p) (str_of (o_password opts)) = Inr k"
    and "buildAADV2 v = Inr aad" and "aead_encrypt so vk aad (p_wrapNonce p) k = Inr (p_wrappedKey p)" and "wf_vault_v2 v"
proof -
  obtain pt x k aad w c where chk: "encrypt_checks opts = Inr pt" and s: "sealed_as so now opts pt x k aad w c v"
    by (rule encrypt_Inr [OF assms(3)])
  have wf: "wf_vault_v2 v" using open_sealed [OF assms(1,2) chk s] by blast
  let ?ops = "num_or (o_opslimit opts) DEFAULT_OPSLIMIT" and ?mem = "num_or (o_memlimit opts) DEFAULT_MEMLIMIT"
  have l: "length (r_salt x) = 16" "length (r_wrapNonce x) = 24" "length (r_contentNonce x) = 24" "length (r_vaultKey x) = 32"
    using s by (simp_all add: sealed_as_def check_randomness_ok)
  obtain k' where "crypto_pwhash so 32 (utf8 (str_of (o_password opts))) (r_salt x) ?ops ?mem = Inr k'" "length k' = 32"
    using kdf_worksE [OF assms(1) l(1), of ?ops ?mem] encrypt_checks_Inr [OF chk] by (auto simp: limit_defs)
  with s have k: "length k = 32" by (simp add: sealed_as_def)
  have w: "length w = 48" using aead_encrypt_opens [OF assms(2) l(2) k] s l(4) by (auto simp: sealed_as_def)
  have t: "length c = length pt + 16" using aead_encrypt_opens [OF assms(2) l(3,4)] s by (auto simp: sealed_as_def)
  obtain ver at md where v: "v = vault_literal ver at md ?ops ?mem x (b64urlEncode w) (b64urlEncode c)"
    using s by (simp add: sealed_as_def)
  have "c \<noteq> []" "length c \<le> MAX_CIPHERTEXT_BYTES" using t encrypt_checks_Inr [OF chk] by (auto simp: size_defs)
  then have d: "decode_parts v = Inr \<lparr>p_salt = r_salt x, p_wrapNonce = r_wrapNonce x, p_wrappedKey = w,
      p_contentNonce = r_contentNonce x, p_contentCt = c\<rparr>"
    using s w unfolding v by (intro decode_parts_literal) (auto simp: sealed_as_def)
  note f = vault_literal_fields [of ver at md ?ops ?mem x "b64urlEncode w" "b64urlEncode c", folded v]
  have m: "b64_member v ''wrap'' ''wrapped_key'' = Inr w" "b64_member v ''kdf'' ''salt'' = Inr (r_salt x)"
    using f by (auto intro!: b64_member_encoded)
  have wk: "wrap_key so v (r_salt x) (str_of (o_password opts)) = Inr k"
    using s by (simp add: wrap_key_object [OF wf]) (simp add: v vault_literal_fields sealed_as_def del: fld_JObj)
  have "buildAADV2 v = Inr aad" "aead_encrypt so (r_vaultKey x) aad (r_wrapNonce x) k = Inr w"
    using s unfolding sealed_as_def by blast+
  then show thesis using that [OF d, of k aad "r_vaultKey x"] m wk wf by simp
qed

text \<open>
  C3: Changing a bound metadata field of a locked vault while its wrapped key is kept is either
  noticed or a forgery. If the changed vault opens, under any phrase, then the very wrapped
  key that the lock sealed under the additional data of its vault was accepted under other
  additional data; and if the KDF section and the phrase are those of the lock, under the very
  key it was sealed with.
\<close>

theorem tampered_metadata_needs_forgery:
  assumes "kdf_works so" and "aead_works so" and "encryptVaultV2 so now opts r = (Inr v, r')"
    and "v2_fields v' \<noteq> v2_fields v"
    and "b64_member v' ''wrap'' ''wrapped_key'' = b64_member v ''wrap'' ''wrapped_key''"
    and "decryptVaultV2 so v' pw = Inr m"
  shows "\<exists>c vk n k aad n' k' aad'.
    b64_member v ''wrap'' ''wrapped_key'' = Inr c \<and> buildAADV2 v = Inr aad \<and> buildAADV2 v' = Inr aad' \<and>
    aead_encrypt so vk aad n k = Inr c \<and> aad' \<noteq> aad \<and> is_ok (aead_decrypt so c aad' n' k') \<and>
    (fld v' ''kdf'' = fld v ''kdf'' \<and> pw = o_password opts \<longrightarrow> k' = k) \<and>
    (fld (fld v' ''wrap'') ''nonce'' = fld (fld v ''wrap'') ''nonce'' \<longrightarrow> n' = n)"
proof -
  obtain p k aad vk where l: "decode_parts v = Inr p" "b64_member v ''wrap'' ''wrapped_key'' = Inr (p_wrappedKey p)"
    "b64_member v ''kdf'' ''salt'' = Inr (p_salt p)"
    "wrap_key so v (p_salt p) (str_of (o_password opts)) = Inr k" "buildAADV2 v = Inr aad"
    "aead_encrypt so vk aad (p_wrapNonce p) k = Inr (p_wrappedKey p)" "wf_vault_v2 v"
    by (rule lock_seal [OF assms(1-3)])
  obtain p' k' aad' vk' pt where o: "opened_as so v' (str_of pw) p' k' aad' vk' pt" and wf: "wf_vault_v2 v'"
    using assms(6) by (auto simp: decrypt_Inr)
  then have d: "decode_parts v' = Inr p'" "buildAADV2 v' = Inr aad'" "wrap_key so v' (p_salt p') (str_of pw) = Inr k'"
    "aead_decrypt so (p_wrappedKey p') aad' (p_wrapNonce p') k' = Inr vk'" by (simp_all add: opened_as_def)
  note m = decode_parts_members [OF d(1)] and m0 = decode_parts_members [OF l(1)]
  note ob = wf_vault_sections [OF wf] wf_vault_sections [OF l(7)]
  have "p_wrappedKey p' = p_wrappedKey p" using m l(2) assms(5) by simp
  moreover have "aad' \<noteq> aad" using buildAADV2_wf_inj [OF wf l(7)] assms(4) d(2) l(5) by auto
  moreover have "k' = k" if "fld v' ''kdf'' = fld v ''kdf''" "pw = o_password opts"
  proof -
    have "p_salt p' = p_salt p" using m m0 that(1) ob by (simp add: b64_member_def get2_object)
    then show ?thesis using d(3) l(4) that by (simp add: wrap_key_object [OF wf] wrap_key_object [OF l(7)])
  qed
  moreover have "p_wrapNonce p' = p_wrapNonce p" if "fld (fld v' ''wrap'') ''nonce'' = fld (fld v ''wrap'') ''nonce''"
    using m m0 that ob by (simp add: b64_member_def get2_object)
  ultimately show ?thesis using l(2,5,6) d(2,4) unfolding is_ok_iff by metis
qed

text \<open>A cipher that does not bind its additional data, to show what the statement rules out.\<close>

definition blind_sodium :: sodium where
  "blind_sodium = toy_sodium\<lparr>aead_encrypt := (\<lambda>m ad n k. Inr (m @ toy_tag m [] k)), aead_decrypt := (\<lambda>c ad. toy_open c [])\<rparr>"

lemma blind_works: "kdf_works blind_sodium" "aead_works blind_sodium"
  using toy_sodium_ok by (simp_all add: sodium_ok_def kdf_works_def aead_works_def blind_sodium_def toy_open_iff)

lemma blind_tampered:
  assumes "encryptVaultV2 blind_sodium now (sample_opts (lit ''hi'') (lit ''pw'')) r = (Inr v, r')"
  obtains v' where "fld v' ''created_at'' \<noteq> fld v ''created_at''"
    and "fld v' ''kdf'' = fld v ''kdf''" and "b64_member v' ''wrap'' ''wrapped_key'' = b64_member v ''wrap'' ''wrapped_key''"
    and "is_ok (decryptVaultV2 blind_sodium v' (JStr (lit ''pw'')))"
proof -
  let ?o = "sample_opts (lit ''hi'') (lit ''pw'')"
  obtain pt x k aad w c where chk: "encrypt_checks ?o = Inr pt" and s: "sealed_as blind_sodium now ?o pt x k aad w c v"
    by (rule encrypt_Inr [OF assms])
  have wf: "wf_vault_v2 v" and "decryptVaultV2 blind_sodium v (JStr (lit ''pw'')) = rethrow msg_not_utf8 (fromUtf8 pt)"
    using open_sealed [OF blind_works chk s] by (simp_all add: sample_opts_def)
  moreover have "pt = utf8 (lit ''hi'')" using chk by (auto simp: encrypt_checks_def plaintext_bytes_def sample_opts_def)
  ultimately have "decryptVaultV2 blind_sodium v (JStr (lit ''pw'')) = Inr (lit ''hi'')"
    by (simp add: fromUtf8_utf8_plain [OF sample_plain] rethrow_def)
  then obtain p k1 a1 vk p1 where op: "opened_as blind_sodium v (lit ''pw'') p k1 a1 vk p1" "fromUtf8 p1 = Inr (lit ''hi'')"
    by (auto simp: decrypt_Inr)
  obtain ver md ops mem where v: "v = vault_literal ver now md ops mem x (b64urlEncode w) (b64urlEncode c)"
    using s by (auto simp: sealed_as_def sample_opts_def str_or_def)
  let ?v = "vault_literal ver (10 # now) md ops mem x (b64urlEncode w) (b64urlEncode c)"
  have wf': "wf_vault_v2 ?v" using wf unfolding v vault_literal_wf .
  then obtain a2 where a2: "buildAADV2 ?v = Inr a2" using buildAADV2_wf by blast
  note f = vault_literal_fields [of ver now md ops mem x "b64urlEncode w" "b64urlEncode c", folded v] vault_literal_fields
  have b: "b64_member ?v a b = b64_member v a b" if "a \<in> {''kdf'', ''wrap'', ''content''}" for a b
    using that by (auto simp: v b64_member_def get2_def vault_literal_def)
  have "fld ?v ''kdf'' = fld v ''kdf''" by (simp add: v vault_literal_def)
  moreover have "decode_parts ?v = decode_parts v" by (simp add: decode_parts_def b)
  moreover have "wrap_key so ?v = wrap_key so v" for so by (simp add: fun_eq_iff wrap_key_def get2_def v vault_literal_def)
  moreover have "aead_decrypt blind_sodium c' a2 n k = aead_decrypt blind_sodium c' a1 n k" for c' n k by (simp add: blind_sodium_def)
  ultimately have "opened_as blind_sodium ?v (lit ''pw'') p k1 a2 vk p1" using op(1) a2 by (simp add: opened_as_def)
  then have "decryptVaultV2 blind_sodium ?v (JStr (lit ''pw'')) = Inr (lit ''hi'')"
    unfolding decrypt_Inr using wf' op(2) by (intro conjI) (assumption, simp add: nonempty_str_def lit_def, metis str_of.simps(1))
  then have "is_ok (decryptVaultV2 blind_sodium ?v (JStr (lit ''pw'')))" by (simp add: is_ok_def)
  moreover have "fld ?v ''created_at'' \<noteq> fld v ''created_at''" unfolding f(4) by (simp add: vault_literal_fields(4))
  ultimately show thesis using that [of ?v] b [of "''wrap''"] \<open>fld ?v ''kdf'' = fld v ''kdf''\<close> by simp
qed

theorem tampered_metadata_needs_forgery_witness:
  "\<exists>v c vk n k aad aad' n'. b64_member v ''wrap'' ''wrapped_key'' = Inr c \<and> aead_encrypt blind_sodium vk aad n k = Inr c \<and>
     aad' \<noteq> aad \<and> is_ok (aead_decrypt blind_sodium c aad' n' k)"
proof -
  have "length (utf8 (lit ''hi'')) \<le> MAX_PLAINTEXT_BYTES" using utf8_length [of "lit ''hi''"] by (simp add: MAX_PLAINTEXT_BYTES_def)
  then have "encrypt_checks (sample_opts (lit ''hi'') (lit ''pw'')) = Inr (utf8 (lit ''hi''))"
    "overrides_ok (sample_opts (lit ''hi'') (lit ''pw''))"
    using sample_opts_checks [of "lit ''pw''" "lit ''hi''"] by simp_all
  from lock_total [OF blind_works this]
  obtain v r' where v: "encryptVaultV2 blind_sodium [] (sample_opts (lit ''hi'') (lit ''pw'')) (\<lambda>_. 7) = (Inr v, r')" .
  from blind_tampered [OF this] obtain v' where v': "fld v' ''created_at'' \<noteq> fld v ''created_at''"
    "fld v' ''kdf'' = fld v ''kdf''" "b64_member v' ''wrap'' ''wrapped_key'' = b64_member v ''wrap'' ''wrapped_key''"
    "is_ok (decryptVaultV2 blind_sodium v' (JStr (lit ''pw'')))" by blast
  then obtain m where m: "decryptVaultV2 blind_sodium v' (JStr (lit ''pw'')) = Inr m" by (auto simp: is_ok_iff)
  have "v2_fields v' \<noteq> v2_fields v" using v'(1) by (simp add: v2_fields_def)
  have o: "o_password (sample_opts (lit ''hi'') (lit ''pw'')) = JStr (lit ''pw'')" by (simp add: sample_opts_def)
  from tampered_metadata_needs_forgery [OF blind_works v \<open>v2_fields v' \<noteq> v2_fields v\<close> v'(3) m] v'(2) o show ?thesis by metis
qed

text \<open>The six lengths a reader checks, in its order.\<close>

definition length_error :: "bytes \<Rightarrow> bytes \<Rightarrow> bytes \<Rightarrow> bytes \<Rightarrow> bytes \<Rightarrow> jstr option" where
  "length_error salt wn wk cn ct =
     map_of (filter fst
       [(length salt \<noteq> 16, malformed ''salt length''), (length wn \<noteq> 24, malformed ''wrap nonce length''),
        (length cn \<noteq> 24, malformed ''content nonce length''), (length wk \<noteq> 48, msg_wrapped_key_length wk),
        (ct = [], malformed ''empty ciphertext''), (1024 * 1024 < length ct, msg_too_large)]) True"

lemma b64_member_wf:
  assumes "wf_vault_v2 v"
  shows "b64_member v ''kdf'' ''salt'' = b64urlDecode (str_of (fld (fld v ''kdf'') ''salt''))"
    "b64_member v ''wrap'' ''nonce'' = b64urlDecode (str_of (fld (fld v ''wrap'') ''nonce''))"
    "b64_member v ''wrap'' ''wrapped_key'' = b64urlDecode (str_of (fld (fld v ''wrap'') ''wrapped_key''))"
    "b64_member v ''content'' ''nonce'' = b64urlDecode (str_of (fld (fld v ''content'') ''nonce''))"
    "b64_member v ''content'' ''ciphertext'' = b64urlDecode (str_of (fld (fld v ''content'') ''ciphertext''))"
  using assms wf_vault_sections [OF assms]
  by (auto simp: b64_member_def get2_object wf_vault_v2_def wf_kdf_def wf_section_def elim: nonempty_strE)

lemma decode_parts_syntax:
  assumes "wf_vault_v2 v" and "\<exists>(a, k) \<in> {(''kdf'', ''salt''), (''wrap'', ''nonce''), (''wrap'', ''wrapped_key''),
      (''content'', ''nonce''), (''content'', ''ciphertext'')}. \<not> b64url_syntax (str_of (fld (fld v a) k))"
  shows "decode_parts v = Inl msg_b64_invalid"
proof -
  have d: "b64urlDecode s = (if b64url_syntax s then Inr (map of_nat (from_sextets (List.map_filter sextet_of s))) else Inl msg_b64_invalid)" for s
    by (simp add: b64urlDecode_Inr_iff b64urlDecode_Inl_iff)
  show ?thesis using assms(2) by (auto simp: decode_parts_def b64_member_wf [OF assms(1)] d)
qed

lemma decode_parts_lengths_iff:
  assumes "b64_member v ''kdf'' ''salt'' = Inr salt" "b64_member v ''wrap'' ''nonce'' = Inr wn"
    "b64_member v ''wrap'' ''wrapped_key'' = Inr wk" "b64_member v ''content'' ''nonce'' = Inr cn" "b64_member v ''content'' ''ciphertext'' = Inr ct"
  shows "decode_parts v = (case length_error salt wn wk cn ct of Some e \<Rightarrow> Inl e
    | None \<Rightarrow> Inr \<lparr>p_salt = salt, p_wrapNonce = wn, p_wrappedKey = wk, p_contentNonce = cn, p_contentCt = ct\<rparr>)"
  by (simp add: decode_parts_def assms length_error_def throw_if_def size_defs)

text \<open>
  C7: What every unlock does, by the step that decides it. A vault that is not well formed is
  refused with a message of the validator (one that starts like those), an empty phrase with
  the message about it, a binary field that is not base64url as an invalid character, then
  the first of six wrong lengths by its name. With all that in order the key seal decides
  between "wrong phrase or tampered vault" and going on, the length of the opened key and
  the content seal between the next two messages, and only text that is not UTF-8 remains.
  The bytes that were opened are the result exactly when no step failed.
\<close>

theorem unlock_error_meaning:
  assumes "kdf_works so"
  shows "(\<not> wf_vault_v2 v \<longrightarrow> (\<exists>e. decryptVaultV2 so v pw = Inl e \<and> has_prefix validation_prefixes e)) \<and>
    (wf_vault_v2 v \<longrightarrow> \<not> nonempty_str pw \<longrightarrow> decryptVaultV2 so v pw = Inl msg_decrypt_password) \<and>
    (wf_vault_v2 v \<longrightarrow> nonempty_str pw \<longrightarrow>
      (\<exists>(a, k) \<in> {(''kdf'', ''salt''), (''wrap'', ''nonce''), (''wrap'', ''wrapped_key''), (''content'', ''nonce''), (''content'', ''ciphertext'')}.
         \<not> b64url_syntax (str_of (fld (fld v a) k))) \<longrightarrow> decryptVaultV2 so v pw = Inl msg_b64_invalid) \<and>
    (\<forall>salt wn wk cn ct. wf_vault_v2 v \<longrightarrow> nonempty_str pw \<longrightarrow>
      b64_member v ''kdf'' ''salt'' = Inr salt \<longrightarrow> b64_member v ''wrap'' ''nonce'' = Inr wn \<longrightarrow>
      b64_member v ''wrap'' ''wrapped_key'' = Inr wk \<longrightarrow> b64_member v ''content'' ''nonce'' = Inr cn \<longrightarrow>
      b64_member v ''content'' ''ciphertext'' = Inr ct \<longrightarrow>
      (case length_error salt wn wk cn ct of
         Some e \<Rightarrow> decryptVaultV2 so v pw = Inl e
       | None \<Rightarrow> \<exists>k aad. wrap_key so v salt (str_of pw) = Inr k \<and> buildAADV2 v = Inr aad \<and>
           (case aead_decrypt so wk aad wn k of
              Inl _ \<Rightarrow> decryptVaultV2 so v pw = Inl msg_wrong_phrase
            | Inr vk \<Rightarrow> if length vk \<noteq> 32 then decryptVaultV2 so v pw = Inl msg_vault_key_size
                else (case aead_decrypt so ct aad cn vk of
                   Inl _ \<Rightarrow> decryptVaultV2 so v pw = Inl msg_content_tampered
                 | Inr pt \<Rightarrow> (case fromUtf8 pt of
                     Inl _ \<Rightarrow> decryptVaultV2 so v pw = Inl msg_not_utf8
                   | Inr m \<Rightarrow> decryptVaultV2 so v pw = Inr m)))))"
proof (intro conjI impI allI)
  assume "\<not> wf_vault_v2 v"
  then obtain e where "validateVaultSchemaV2 v = Inl e" using validate_ok [of v] by (cases "validateVaultSchemaV2 v") auto
  then show "\<exists>e. decryptVaultV2 so v pw = Inl e \<and> has_prefix validation_prefixes e"
    using validate_error by (simp add: decryptVaultV2_def)
next
  assume "wf_vault_v2 v" "\<not> nonempty_str pw"
  then show "decryptVaultV2 so v pw = Inl msg_decrypt_password"
    by (simp add: decryptVaultV2_def validate_ok [of v "()", THEN iffD2] msg_decrypt_password_def)
next
  assume wf: "wf_vault_v2 v" and "nonempty_str pw" and "\<exists>(a, k) \<in> {(''kdf'', ''salt''), (''wrap'', ''nonce''), (''wrap'', ''wrapped_key''),
      (''content'', ''nonce''), (''content'', ''ciphertext'')}. \<not> b64url_syntax (str_of (fld (fld v a) k))"
  then show "decryptVaultV2 so v pw = Inl msg_b64_invalid"
    by (simp only: decryptVaultV2_def validate_ok [of v "()", THEN iffD2] decode_parts_syntax) simp
next
  fix salt wn wk cn ct
  assume wf: "wf_vault_v2 v" and n: "nonempty_str pw"
    and m: "b64_member v ''kdf'' ''salt'' = Inr salt" "b64_member v ''wrap'' ''nonce'' = Inr wn"
    "b64_member v ''wrap'' ''wrapped_key'' = Inr wk" "b64_member v ''content'' ''nonce'' = Inr cn" "b64_member v ''content'' ''ciphertext'' = Inr ct"
  have d: "decryptVaultV2 so v pw = bind_res (decode_parts v) (\<lambda>p. open_parts so v p (str_of pw))"
    using n by (simp add: decryptVaultV2_def validate_ok [of v "()", THEN iffD2, OF wf])
  show "case length_error salt wn wk cn ct of
         Some e \<Rightarrow> decryptVaultV2 so v pw = Inl e
       | None \<Rightarrow> \<exists>k aad. wrap_key so v salt (str_of pw) = Inr k \<and> buildAADV2 v = Inr aad \<and>
           (case aead_decrypt so wk aad wn k of
              Inl _ \<Rightarrow> decryptVaultV2 so v pw = Inl msg_wrong_phrase
            | Inr vk \<Rightarrow> if length vk \<noteq> 32 then decryptVaultV2 so v pw = Inl msg_vault_key_size
                else (case aead_decrypt so ct aad cn vk of
                   Inl _ \<Rightarrow> decryptVaultV2 so v pw = Inl msg_content_tampered
                 | Inr pt \<Rightarrow> (case fromUtf8 pt of
                     Inl _ \<Rightarrow> decryptVaultV2 so v pw = Inl msg_not_utf8
                   | Inr m \<Rightarrow> decryptVaultV2 so v pw = Inr m)))"
  proof (cases "length_error salt wn wk cn ct")
    case None
    let ?p = "\<lparr>p_salt = salt, p_wrapNonce = wn, p_wrappedKey = wk, p_contentNonce = cn, p_contentCt = ct\<rparr>"
    have p: "decode_parts v = Inr ?p" using decode_parts_lengths_iff [OF m] None by simp
    then have "length salt = 16" using decode_parts_lengths by fastforce
    with wf_wrap_key [OF assms wf] obtain k aad where k: "wrap_key so v salt (str_of pw) = Inr k" "buildAADV2 v = Inr aad"
      using buildAADV2_wf [OF wf] by blast
    show ?thesis using k
      by (simp add: None d p open_parts_def rethrow_def KEY_BYTES_def throw_if_def split: sum.splits)
  qed (simp add: d decode_parts_lengths_iff [OF m])
qed

theorem unlock_error_meaning_witness:
  "\<exists>v. decryptVaultV2 toy_sodium v (JStr (lit ''xx'')) = Inl msg_wrong_phrase \<and>
     decryptVaultV2 toy_sodium v (JStr []) = Inl msg_decrypt_password"
proof -
  obtain v p k aad vk pt where o: "opened_as toy_sodium v (lit ''pw'') p k aad vk pt" and wf: "wf_vault_v2 v"
    using sample_unlock by (metis decrypt_Inr str_of.simps(1))
  have dp: "decode_parts v = Inr p" and kk: "wrap_key toy_sodium v (p_salt p) (lit ''pw'') = Inr k"
    using o by (simp_all add: opened_as_def)
  have m: "b64_member v ''kdf'' ''salt'' = Inr (p_salt p)" "b64_member v ''wrap'' ''nonce'' = Inr (p_wrapNonce p)"
    "b64_member v ''wrap'' ''wrapped_key'' = Inr (p_wrappedKey p)" "b64_member v ''content'' ''nonce'' = Inr (p_contentNonce p)"
    "b64_member v ''content'' ''ciphertext'' = Inr (p_contentCt p)" using decode_parts_members [OF dp] by simp_all
  have le: "length_error (p_salt p) (p_wrapNonce p) (p_wrappedKey p) (p_contentNonce p) (p_contentCt p) = None"
    using decode_parts_lengths_iff [of v "p_salt p" "p_wrapNonce p" "p_wrappedKey p" "p_contentNonce p" "p_contentCt p"] m dp
    by (simp split: option.splits)
  have k2: "wrap_key toy_sodium v (p_salt p) (lit ''xx'') = Inr (pad_to 32 (utf8 (lit ''xx'') @ p_salt p))"
    "k = pad_to 32 (utf8 (lit ''pw'') @ p_salt p)"
    using kk by (simp_all add: wrap_key_object [OF wf] toy_sodium_def)
  have "aead_decrypt toy_sodium (p_wrappedKey p) aad (p_wrapNonce p) k = Inr vk" using o by (simp add: opened_as_def)
  then have c: "p_wrappedKey p = vk @ toy_tag vk aad k" by (simp add: toy_sodium_def toy_open_iff)
  have "\<not> is_ok (aead_decrypt toy_sodium (p_wrappedKey p) aad (p_wrapNonce p) (pad_to 32 (utf8 (lit ''xx'') @ p_salt p)))"
    by (simp add: is_ok_iff toy_sodium_def toy_open_iff c toy_tag_def k2 pad_to_def utf8_lit)
  then obtain e where e: "aead_decrypt toy_sodium (p_wrappedKey p) aad (p_wrapNonce p) (pad_to 32 (utf8 (lit ''xx'') @ p_salt p)) = Inl e"
    by (auto simp: is_ok_def split: sum.splits)
  have a: "buildAADV2 v = Inr aad" and n: "nonempty_str (JStr (lit ''xx''))" "\<not> nonempty_str (JStr [])"
    using o by (simp_all add: opened_as_def nonempty_str_def)
  note t = unlock_error_meaning [OF sodium_okD(1) [OF toy_sodium_ok]]
  have "decryptVaultV2 toy_sodium v (JStr (lit ''xx'')) = Inl msg_wrong_phrase"
    using t [of v "JStr (lit ''xx'')", THEN conjunct2, THEN conjunct2, THEN conjunct2, rule_format, OF wf n(1) m(1-5)]
    by (simp add: le k2 a e)
  moreover have "decryptVaultV2 toy_sodium v (JStr []) = Inl msg_decrypt_password"
    using t [of v "JStr []", THEN conjunct2, THEN conjunct1] wf n(2) by blast
  ultimately show ?thesis by blast
qed

text \<open>A generated passphrase is four listed words and two digits.\<close>

lemma passphrase_form:
  assumes "uniform_bound so" and "generatePassphrase so r = (p, r')"
  shows "\<exists>a b c d x y. set [a, b, c, d] \<subseteq> set PASSPHRASE_WORDS \<and> x < 10 \<and> y < 10 \<and>
    p = join (lit ''-'') [a, b, c, d] @ lit ''-'' @ num_str x @ num_str y \<and>
    length PASSPHRASE_WORDS = 180 \<and> distinct PASSPHRASE_WORDS"
proof -
  obtain ws r1 where ws: "draw_uniform so 180 4 r = (ws, r1)" by (cases "draw_uniform so 180 4 r")
  obtain x r2 where x: "randombytes_uniform so 10 r1 = (x, r2)" by (cases "randombytes_uniform so 10 r1")
  obtain y r3 where y: "randombytes_uniform so 10 r2 = (y, r3)" by (cases "randombytes_uniform so 10 r2")
  have xy: "x < 10" "y < 10" using assms(1) x y unfolding uniform_bound_def by (metis fst_conv zero_less_numeral)+
  from draw_uniform_bound [OF assms(1) _ ws] obtain i j k l where w: "ws = [i, j, k, l]" "\<forall>n \<in> set ws. n < 180"
    by (auto simp: numeral_eq_Suc length_Suc_conv)
  have "word_at n \<in> set PASSPHRASE_WORDS" if "n < 180" for n
    using that by (simp add: word_at_def length_PASSPHRASE_WORDS)
  then have "set (map word_at ws) \<subseteq> set PASSPHRASE_WORDS" using w(2) by auto
  moreover have "p = join (lit ''-'') (map word_at ws) @ lit ''-'' @ num_str (int x) @ num_str (int y)"
    using assms(2) by (simp add: generatePassphrase_def length_PASSPHRASE_WORDS ws x y)
  ultimately show ?thesis using w(1) xy length_PASSPHRASE_WORDS distinct_PASSPHRASE_WORDS
    by (intro exI [of _ "word_at i"] exI [of _ "word_at j"] exI [of _ "word_at k"] exI [of _ "word_at l"]
        exI [of _ "int x"] exI [of _ "int y"]) simp
qed

end
