(* ===== verification/Rewrap.thy ===== *)
theory Rewrap
  imports Vault
begin

text \<open>
  \<open>qev-cli/lib/rewrap.js\<close>: changing the phrase of a V2 vault by sealing its data key anew,
  the content left as it is.
\<close>

definition msg_rewrap_old :: jstr where
  "msg_rewrap_old = lit ''rewrapVaultV2: oldPassword must be a non-empty string''"
definition msg_rewrap_new :: jstr where
  "msg_rewrap_new = lit ''rewrapVaultV2: newPassword must be a non-empty string''"
definition msg_rewrap_same :: jstr where
  "msg_rewrap_same = lit ''rewrapVaultV2: new phrase must be different from old phrase''"
definition msg_rewrap_wrong :: jstr where
  "msg_rewrap_wrong = lit ''Could not rewrap: old phrase is wrong or vault wrap is tampered''"

text \<open>\<open>JSON.parse(JSON.stringify(v))\<close>\<close>

definition msg_undefined_json :: jstr where
  "msg_undefined_json = lit (dquote @ ''undefined'' @ dquote @ '' is not valid JSON'')"

definition json_clone :: "jsval \<Rightarrow> jsval res" where
  "json_clone v =
     (case JSON_stringify v of
        None \<Rightarrow> Inl msg_undefined_json
      | Some t \<Rightarrow> or_throw msg_undefined_json (JSON_parse t))"

definition rewrapVaultV2 :: "sodium \<Rightarrow> jsval \<Rightarrow> jsval \<Rightarrow> jsval \<Rightarrow> jsval res" where
  "rewrapVaultV2 so vault oldPassword newPassword =
     bind_res (validateVaultSchemaV2 vault) (\<lambda>_.
     throw_if (\<not> nonempty_str oldPassword) msg_rewrap_old
     (throw_if (\<not> nonempty_str newPassword) msg_rewrap_new
     (throw_if (oldPassword = newPassword) msg_rewrap_same
     (bind_res (b64_member vault ''kdf'' ''salt'') (\<lambda>salt.
      bind_res (b64_member vault ''wrap'' ''nonce'') (\<lambda>wrapNonce.
      bind_res (b64_member vault ''wrap'' ''wrapped_key'') (\<lambda>wrappedKey.
      throw_if (length wrappedKey \<noteq> KEY_BYTES + TAG_BYTES) (msg_wrapped_key_length wrappedKey)
      (bind_res (buildAADV2 vault) (\<lambda>aad.
       bind_res (wrap_key so vault salt (str_of oldPassword)) (\<lambda>oldWrapKey.
       bind_res (rethrow msg_rewrap_wrong (aead_decrypt so wrappedKey aad wrapNonce oldWrapKey)) (\<lambda>vaultKey.
       throw_if (length vaultKey \<noteq> KEY_BYTES) msg_vault_key_size
       (bind_res (wrap_key so vault salt (str_of newPassword)) (\<lambda>newWrapKey.
        bind_res (aead_encrypt so vaultKey aad wrapNonce newWrapKey) (\<lambda>newWrappedKey.
        bind_res (json_clone vault) (\<lambda>out.
        Inr (set2 out ''wrap'' ''wrapped_key'' (JStr (b64urlEncode newWrappedKey))))))))))))))))))"

section \<open>The frame\<close>

lemma json_clone_wf [simp]: "wf_val v \<Longrightarrow> json_clone v = Inr v"
proof -
  assume wf: "wf_val v"
  then obtain t where "JSON_stringify v = Some t" unfolding JSON_stringify_def using json_str_Some by blast
  then show ?thesis using JSON_parse_stringify [OF wf] by (simp add: json_clone_def)
qed

lemma section_is_JObj: "wf_section p s \<Longrightarrow> \<exists>kvs. s = JObj kvs"
  by (cases s) (auto simp: wf_section_def fld_def is_object_def)

text \<open>Two vaults that differ at most in \<open>wrap.wrapped_key\<close>.\<close>

definition with_wrapped_key :: "jsval \<Rightarrow> bytes \<Rightarrow> jsval" where
  "with_wrapped_key v w = set2 v ''wrap'' ''wrapped_key'' (JStr (b64urlEncode w))"

lemma set2_wrap:
  assumes "wf_vault_v2 v"
  obtains kvs inner where "v = JObj kvs" and "map_of kvs (lit ''wrap'') = Some (JObj inner)"
    and "with_wrapped_key v w =
      JObj (put kvs (lit ''wrap'') (JObj (put inner (lit ''wrapped_key'') (JStr (b64urlEncode w)))))"
proof -
  obtain kvs where v: "v = JObj kvs"
    using assms by (cases v) (auto simp: wf_vault_v2_def fld_def is_object_def)
  obtain inner where "fld v ''wrap'' = JObj inner"
    using assms section_is_JObj by (auto simp: wf_vault_v2_def)
  then have "map_of kvs (lit ''wrap'') = Some (JObj inner)" by (auto simp: v split: option.splits)
  then show thesis by (intro that [OF v]) (simp_all add: with_wrapped_key_def set2_def v)
qed

lemma with_wrapped_key_fields:
  assumes "wf_vault_v2 v"
  shows "k \<noteq> ''wrap'' \<Longrightarrow> fld (with_wrapped_key v w) k = fld v k"
    and "k \<noteq> ''wrapped_key'' \<Longrightarrow> fld (fld (with_wrapped_key v w) ''wrap'') k = fld (fld v ''wrap'') k"
    and "fld (fld (with_wrapped_key v w) ''wrap'') ''wrapped_key'' = JStr (b64urlEncode w)"
    and "is_object (with_wrapped_key v w)" and "is_object (fld (with_wrapped_key v w) ''wrap'')"
proof -
  obtain kvs inner where v: "v = JObj kvs" "map_of kvs (lit ''wrap'') = Some (JObj inner)"
    "with_wrapped_key v w =
      JObj (put kvs (lit ''wrap'') (JObj (put inner (lit ''wrapped_key'') (JStr (b64urlEncode w)))))"
    by (rule set2_wrap [OF assms])
  show "k \<noteq> ''wrap'' \<Longrightarrow> fld (with_wrapped_key v w) k = fld v k"
    "k \<noteq> ''wrapped_key'' \<Longrightarrow> fld (fld (with_wrapped_key v w) ''wrap'') k = fld (fld v ''wrap'') k"
    "fld (fld (with_wrapped_key v w) ''wrap'') ''wrapped_key'' = JStr (b64urlEncode w)"
    "is_object (with_wrapped_key v w)" "is_object (fld (with_wrapped_key v w) ''wrap'')"
    by (simp_all only: v(3)) (simp_all add: v(1,2) map_of_put)
qed

lemma with_wrapped_key_wf: "wf_vault_v2 v \<Longrightarrow> w \<noteq> [] \<Longrightarrow> wf_vault_v2 (with_wrapped_key v w)"
  using with_wrapped_key_fields [of v] unfolding wf_vault_v2_def wf_section_def by (simp add: nonempty_str_def)

lemma with_wrapped_key_v2_fields: "wf_vault_v2 v \<Longrightarrow> v2_fields (with_wrapped_key v w) = v2_fields v"
  by (simp add: v2_fields_def with_wrapped_key_fields)

lemma with_wrapped_key_aad:
  "wf_vault_v2 v \<Longrightarrow> w \<noteq> [] \<Longrightarrow> buildAADV2 (with_wrapped_key v w) = buildAADV2 v"
  by (simp add: buildAADV2_wf_inj with_wrapped_key_wf with_wrapped_key_v2_fields)

lemma with_wrapped_key_wrap_key:
  "wf_vault_v2 v \<Longrightarrow> w \<noteq> [] \<Longrightarrow> wrap_key so (with_wrapped_key v w) salt pw = wrap_key so v salt pw"
  by (simp add: wrap_key_object with_wrapped_key_wf with_wrapped_key_fields)

lemma b64_member_object:
  "is_object v \<Longrightarrow> is_object (fld v a) \<Longrightarrow> b64_member v a k =
    (case fld (fld v a) k of JStr s \<Rightarrow> b64urlDecode s | _ \<Rightarrow> Inl msg_not_string)"
  by (simp add: b64_member_def get2_object)

lemma with_wrapped_key_members:
  assumes "wf_vault_v2 v"
  shows "b64_member (with_wrapped_key v w) ''kdf'' ''salt'' = b64_member v ''kdf'' ''salt''"
    "b64_member (with_wrapped_key v w) ''wrap'' ''nonce'' = b64_member v ''wrap'' ''nonce''"
    "b64_member (with_wrapped_key v w) ''content'' ''nonce'' = b64_member v ''content'' ''nonce''"
    "b64_member (with_wrapped_key v w) ''content'' ''ciphertext'' = b64_member v ''content'' ''ciphertext''"
    "b64_member (with_wrapped_key v w) ''wrap'' ''wrapped_key'' = Inr w"
  using wf_vault_sections [OF assms]
  by (simp_all add: b64_member_object with_wrapped_key_fields [OF assms] b64urlDecode_encode)

lemma with_wrapped_key_parts:
  assumes "wf_vault_v2 v" and "decode_parts v = Inr p" and "length w = 48"
  shows "decode_parts (with_wrapped_key v w) = Inr (p\<lparr>p_wrappedKey := w\<rparr>)"
  using assms(2,3) unfolding decode_parts_def with_wrapped_key_members [OF assms(1)]
  by (auto simp: size_defs)

lemma with_wrapped_key_twice:
  "wf_vault_v2 v \<Longrightarrow> with_wrapped_key (with_wrapped_key v w) w' = with_wrapped_key v w'"
proof -
  have pp: "put (put kvs k x) k y = put kvs k y" for kvs :: "(jstr \<times> jsval) list" and k x y
    by (induction kvs k x rule: put.induct) auto
  assume "wf_vault_v2 v"
  then obtain kvs inner where "v = JObj kvs" "map_of kvs (lit ''wrap'') = Some (JObj inner)"
    by (rule set2_wrap)
  then show ?thesis by (simp add: with_wrapped_key_def set2_def map_of_put pp)
qed

section \<open>What a rewrap does\<close>

definition rewrapped_as ::
  "sodium \<Rightarrow> jsval \<Rightarrow> jsval \<Rightarrow> jsval \<Rightarrow> bytes \<Rightarrow> bytes \<Rightarrow> bytes \<Rightarrow> bytes \<Rightarrow> bytes \<Rightarrow> bytes \<Rightarrow> bytes \<Rightarrow> bytes \<Rightarrow> bool"
where
  "rewrapped_as so v old new salt nonce wk aad oldKey vk newKey wk' =
     (wf_vault_v2 v \<and> nonempty_str old \<and> nonempty_str new \<and> old \<noteq> new \<and>
      b64_member v ''kdf'' ''salt'' = Inr salt \<and> b64_member v ''wrap'' ''nonce'' = Inr nonce \<and>
      b64_member v ''wrap'' ''wrapped_key'' = Inr wk \<and> length wk = 48 \<and> buildAADV2 v = Inr aad \<and>
      wrap_key so v salt (str_of old) = Inr oldKey \<and> aead_decrypt so wk aad nonce oldKey = Inr vk \<and>
      length vk = 32 \<and> wrap_key so v salt (str_of new) = Inr newKey \<and>
      aead_encrypt so vk aad nonce newKey = Inr wk')"

lemma rewrap_Inr:
  "wf_val v \<Longrightarrow> rewrapVaultV2 so v old new = Inr v' \<longleftrightarrow>
     (\<exists>salt nonce wk aad oldKey vk newKey wk'.
        rewrapped_as so v old new salt nonce wk aad oldKey vk newKey wk' \<and> v' = with_wrapped_key v wk')"
  unfolding rewrapVaultV2_def rewrapped_as_def with_wrapped_key_def
  by (auto simp: validate_ok size_defs)

lemma wrap_key_length:
  assumes "kdf_works so" and "wf_vault_v2 v" and "length salt = 16" and "wrap_key so v salt pw = Inr k"
  shows "length k = 32"
proof -
  let ?ops = "num_of (fld (fld v ''kdf'') ''opslimit'')" and ?mem = "num_of (fld (fld v ''kdf'') ''memlimit'')"
  have r: "1 \<le> ?ops" "?ops \<le> 10" "8388608 \<le> ?mem" "?mem \<le> 268435456"
    using assms(2) by (auto simp: wf_vault_v2_def wf_kdf_def int_between_def limit_defs)
  show ?thesis using kdf_worksE [OF assms(1,3) r, of "utf8 pw"] wrap_key_object [OF assms(2)] assms(4)
    by (metis sum.inject(2))
qed

lemma wrap_key_total:
  assumes "kdf_works so" and "wf_vault_v2 v" and "length salt = 16"
  obtains k where "wrap_key so v salt pw = Inr k" and "length k = 32"
proof -
  let ?ops = "num_of (fld (fld v ''kdf'') ''opslimit'')" and ?mem = "num_of (fld (fld v ''kdf'') ''memlimit'')"
  have r: "1 \<le> ?ops" "?ops \<le> 10" "8388608 \<le> ?mem" "?mem \<le> 268435456"
    using assms(2) by (auto simp: wf_vault_v2_def wf_kdf_def int_between_def limit_defs)
  show thesis using kdf_worksE [OF assms(1,3) r, of "utf8 pw"] wrap_key_object [OF assms(2)] that by metis
qed

lemma opened_rewrapped:
  assumes ok: "kdf_works so" "aead_works so" and wf: "wf_vault_v2 v"
    and o: "opened_as so v old p oldKey aad vk pt"
  obtains newKey wk' where "wrap_key so v (p_salt p) new = Inr newKey" and "length wk' = 48"
    and "aead_encrypt so vk aad (p_wrapNonce p) newKey = Inr wk'"
    and "opened_as so (with_wrapped_key v wk') new (p\<lparr>p_wrappedKey := wk'\<rparr>) newKey aad vk pt"
proof -
  note l = decode_parts_lengths [of v p]
  have dp: "decode_parts v = Inr p" using o by (simp add: opened_as_def)
  have ls: "length (p_salt p) = 16" "length (p_wrapNonce p) = 24" using l [OF dp] by auto
  obtain k where k: "wrap_key so v (p_salt p) new = Inr k" "length k = 32"
    by (rule wrap_key_total [OF ok(1) wf ls(1)])
  obtain c where c: "aead_encrypt so vk aad (p_wrapNonce p) k = Inr c" "length c = length vk + 16"
    "aead_decrypt so c aad (p_wrapNonce p) k = Inr vk"
    by (rule aead_worksE [OF ok(2) ls(2) k(2)])
  have lc: "length c = 48" "c \<noteq> []" using c(2) o by (auto simp: opened_as_def)
  have "opened_as so (with_wrapped_key v c) new (p\<lparr>p_wrappedKey := c\<rparr>) k aad vk pt"
    using o c k with_wrapped_key_parts [OF wf dp lc(1)]
    by (simp add: opened_as_def with_wrapped_key_aad [OF wf lc(2)] with_wrapped_key_wrap_key [OF wf lc(2)])
  then show thesis using that [OF k(1) lc(1) c(1)] by blast
qed

section \<open>Properties\<close>

lemmas toy_works = sodium_okD(1) [OF toy_sodium_ok] sodium_okD(2) [OF toy_sodium_ok]

lemma with_wrapped_key_wf_val:
  assumes "wf_vault_v2 v" and "wf_val v"
  shows "wf_val (with_wrapped_key v w)"
proof -
  obtain kvs inner where v: "v = JObj kvs" "map_of kvs (lit ''wrap'') = Some (JObj inner)"
    "with_wrapped_key v w =
      JObj (put kvs (lit ''wrap'') (JObj (put inner (lit ''wrapped_key'') (JStr (b64urlEncode w)))))"
    by (rule set2_wrap [OF assms(1)])
  have "wf_val (JObj inner)" using wf_val_member assms(2) v(1) map_of_SomeD [OF v(2)] by blast
  then have "wf_val (JObj (put inner (lit ''wrapped_key'') (JStr (b64urlEncode w))))"
    by (simp add: distinct_put list_all_put)
  then show ?thesis using assms(2) unfolding v(3) by (simp add: v(1) distinct_put list_all_put)
qed

lemma rewrap_total:
  assumes "kdf_works so" and "aead_works so" and "wf_val v"
    and "decryptVaultV2 so v old = Inr m" and "nonempty_str new" and "old \<noteq> new"
  obtains w where "rewrapVaultV2 so v old new = Inr (with_wrapped_key v w)"
    and "decryptVaultV2 so (with_wrapped_key v w) new = Inr m" and "length w = 48"
proof -
  obtain p k aad vk pt where o: "opened_as so v (str_of old) p k aad vk pt" and m: "fromUtf8 pt = Inr m"
    and wf: "wf_vault_v2 v" "nonempty_str old" using assms(4) by (auto simp: decrypt_Inr)
  have dp: "decode_parts v = Inr p" using o by (simp add: opened_as_def)
  obtain nk w where n: "wrap_key so v (p_salt p) (str_of new) = Inr nk" "length w = 48"
    "aead_encrypt so vk aad (p_wrapNonce p) nk = Inr w"
    "opened_as so (with_wrapped_key v w) (str_of new) (p\<lparr>p_wrappedKey := w\<rparr>) nk aad vk pt"
    by (rule opened_rewrapped [OF assms(1,2) wf(1) o])
  have "w \<noteq> []" using n(2) by auto
  then have "wf_vault_v2 (with_wrapped_key v w)" by (rule with_wrapped_key_wf [OF wf(1)])
  with n(4) m assms(5) have d: "decryptVaultV2 so (with_wrapped_key v w) new = Inr m" unfolding decrypt_Inr by blast
  have "rewrapVaultV2 so v old new = Inr (with_wrapped_key v w)"
    using o n wf assms(5,6) decode_parts_members [OF dp] decode_parts_lengths [OF dp]
    unfolding rewrap_Inr [OF assms(3)] rewrapped_as_def opened_as_def by blast
  from that [OF this d n(2)] show thesis .
qed

text \<open>
  C4: A vault that opens under the old phrase is rewrapped successfully under every other
  non-empty phrase, and the result opens under the new phrase to the same message.
\<close>

theorem rewrap_then_unlock:
  assumes "kdf_works so" and "aead_works so" and "wf_val v"
    and "decryptVaultV2 so v old = Inr m" and "nonempty_str new" and "old \<noteq> new"
  shows "\<exists>v'. rewrapVaultV2 so v old new = Inr v' \<and> decryptVaultV2 so v' new = Inr m"
  using rewrap_total [OF assms] by metis

theorem rewrap_then_unlock_witness:
  "\<exists>v v'. rewrapVaultV2 toy_sodium v (JStr (lit ''pw'')) (JStr (lit ''qx'')) = Inr v' \<and>
     decryptVaultV2 toy_sodium v' (JStr (lit ''qx'')) = Inr (lit ''hi'')"
proof -
  obtain v where v: "wf_val v" "decryptVaultV2 toy_sodium v (JStr (lit ''pw'')) = Inr (lit ''hi'')" by (rule sample_unlock)
  have "nonempty_str (JStr (lit ''qx''))" "JStr (lit ''pw'') \<noteq> JStr (lit ''qx'')" by (simp_all add: nonempty_str_def)
  from rewrap_then_unlock [OF toy_works v this] show ?thesis by blast
qed

text \<open>
  C5: A rewrap changes nothing but \<open>wrap.wrapped_key\<close>: every other member of the vault and of
  its \<open>wrap\<close> section, the content and all bound metadata are untouched, and the result is
  again a vault the validator accepts.
\<close>

theorem rewrap_frame:
  assumes "wf_val v" and "rewrapVaultV2 so v old new = Inr v'"
  shows "\<exists>w. v' = with_wrapped_key v w \<and> (\<forall>k. k \<noteq> ''wrap'' \<longrightarrow> fld v' k = fld v k) \<and>
    (\<forall>k. k \<noteq> ''wrapped_key'' \<longrightarrow> fld (fld v' ''wrap'') k = fld (fld v ''wrap'') k) \<and>
    v2_fields v' = v2_fields v \<and> (w \<noteq> [] \<longrightarrow> validateVaultSchemaV2 v' = Inr ())"
proof -
  obtain w where w: "v' = with_wrapped_key v w" and wf: "wf_vault_v2 v"
    using assms rewrap_Inr [OF assms(1)] by (auto simp: rewrapped_as_def)
  show ?thesis unfolding w
    by (intro exI [of _ w]) (simp add: with_wrapped_key_fields [OF wf] with_wrapped_key_v2_fields [OF wf]
        validate_ok with_wrapped_key_wf [OF wf])
qed

theorem rewrap_frame_witness:
  "\<exists>v v'. rewrapVaultV2 toy_sodium v (JStr (lit ''pw'')) (JStr (lit ''qx'')) = Inr v' \<and> v2_fields v' = v2_fields v"
proof -
  obtain v where v: "wf_val v" "decryptVaultV2 toy_sodium v (JStr (lit ''pw'')) = Inr (lit ''hi'')" by (rule sample_unlock)
  obtain v' where "rewrapVaultV2 toy_sodium v (JStr (lit ''pw'')) (JStr (lit ''qx'')) = Inr v'"
    using rewrap_total [OF toy_works v, of "JStr (lit ''qx'')"] by (auto simp: nonempty_str_def)
  with rewrap_frame [OF v(1) this] show ?thesis by blast
qed

text \<open>
  Rewrapping to a new phrase and back to the old one restores the wrapped key byte for
  byte: only the spelling of its base64url text can differ from the original vault.
\<close>

theorem rewrap_back:
  assumes "kdf_works so" and "aead_works so" and "aead_exact so" and "wf_val v"
    and "decode_parts v = Inr p" and "rewrapVaultV2 so v old new = Inr v'"
  shows "rewrapVaultV2 so v' new old = Inr (with_wrapped_key v (p_wrappedKey p))"
proof -
  obtain salt nonce wk aad ok vk nk w where r: "rewrapped_as so v old new salt nonce wk aad ok vk nk w"
    and v': "v' = with_wrapped_key v w" using assms(6) unfolding rewrap_Inr [OF assms(4)] by blast
  have wf: "wf_vault_v2 v" using r by (simp add: rewrapped_as_def)
  note m = decode_parts_members [OF assms(5)] and l = decode_parts_lengths [OF assms(5)]
  have eq: "salt = p_salt p" "nonce = p_wrapNonce p" "wk = p_wrappedKey p"
    using r m by (auto simp: rewrapped_as_def)
  have nk: "length nk = 32" using wrap_key_length [OF assms(1) wf, of salt "str_of new" nk] r l eq
    by (simp add: rewrapped_as_def)
  have w: "aead_decrypt so w aad nonce nk = Inr vk" "length w = 48"
    using aead_encrypt_opens [OF assms(2) _ nk, of nonce vk aad w] r l eq by (auto simp: rewrapped_as_def)
  have ne: "w \<noteq> []" using w(2) by auto
  have "rewrapped_as so v' new old salt nonce w aad nk vk ok wk"
    using r w aead_exactD [OF assms(3)] with_wrapped_key_members [OF wf, of w]
    by (auto simp: rewrapped_as_def v' with_wrapped_key_wf [OF wf ne] with_wrapped_key_aad [OF wf ne]
        with_wrapped_key_wrap_key [OF wf ne])
  moreover have "wf_val v'" unfolding v' by (rule with_wrapped_key_wf_val [OF wf assms(4)])
  ultimately have "rewrapVaultV2 so v' new old = Inr (with_wrapped_key v' wk)" using rewrap_Inr by blast
  then show ?thesis by (simp add: v' with_wrapped_key_twice [OF wf] eq)
qed

theorem rewrap_back_witness:
  "\<exists>v v' (p :: sealed_parts). rewrapVaultV2 toy_sodium v (JStr (lit ''pw'')) (JStr (lit ''qx'')) = Inr v' \<and>
     rewrapVaultV2 toy_sodium v' (JStr (lit ''qx'')) (JStr (lit ''pw'')) = Inr (with_wrapped_key v (p_wrappedKey p))"
proof -
  obtain v where v: "wf_val v" "decryptVaultV2 toy_sodium v (JStr (lit ''pw'')) = Inr (lit ''hi'')" by (rule sample_unlock)
  obtain v' where r: "rewrapVaultV2 toy_sodium v (JStr (lit ''pw'')) (JStr (lit ''qx'')) = Inr v'"
    using rewrap_total [OF toy_works v, of "JStr (lit ''qx'')"] by (auto simp: nonempty_str_def)
  obtain p where "decode_parts v = Inr p" using v(2) by (auto simp: decrypt_Inr opened_as_def)
  from rewrap_back [OF toy_works sodium_okD(3) [OF toy_sodium_ok] v(1) this r] r show ?thesis by blast
qed




end
