(* ===== verification/Prompt.thy ===== *)
theory Prompt
  imports Utf8
begin

text \<open>
  \<open>qev-cli/lib/prompt.js\<close>: the phrase prompt on a raw terminal, the confirmed prompt and the
  reading of the plaintext. Standard input is the list of the chunks that will come in; a
  listener gets them as \<open>Buffer\<close>s, or as strings once \<open>setEncoding\<close> has put a decoder on the
  stream; after the last one it is called no more. A promise that is never settled is \<open>None\<close>.
\<close>

section \<open>Definitions\<close>

definition ETX :: byte where "ETX = 0x03"
definition EOT :: byte where "EOT = 0x04"
definition LF :: byte where "LF = 0x0A"
definition CR :: byte where "CR = 0x0D"
definition BS :: byte where "BS = 0x08"
definition DEL :: byte where "DEL = 0x7F"

lemmas key_defs = ETX_def EOT_def LF_def CR_def BS_def DEL_def

datatype chunk = Buffer bytes | Text jstr

text \<open>
  \<open>for (const byte of chunk)\<close> walks over numbers in a \<open>Buffer\<close> and over one-character strings
  in a string.
\<close>

datatype item = Num byte | Chr nat

fun items :: "chunk \<Rightarrow> item list" where
  "items (Buffer bs) = map Num bs"
| "items (Text s) = map Chr (code_points s)"

datatype outcome = Resolved jstr | Rejected jstr

definition msg_aborted :: jstr where "msg_aborted = lit ''aborted''"
definition msg_aborted_eof :: jstr where "msg_aborted_eof = lit ''aborted (Ctrl-D)''"

text \<open>One byte: \<open>Inl\<close> is the new buffer, \<open>Inr\<close> settles the promise.\<close>

definition on_byte :: "jstr \<Rightarrow> byte \<Rightarrow> jstr + outcome" where
  "on_byte buf b =
     (if b = CR \<or> b = LF then Inr (Resolved buf)
      else if b = ETX then Inr (Rejected msg_aborted)
      else if b = EOT then Inr (if buf = [] then Rejected msg_aborted_eof else Resolved buf)
      else if b = BS \<or> b = DEL then Inl (if buf \<noteq> [] then butlast buf else buf)
      else if 0x20 \<le> b then Inl (buf @ [ucast b])
      else Inl buf)"

text \<open>
  A one-character string is never strictly equal to a number, and as a number it is a digit,
  zero or NaN, none of which is at least 32.
\<close>

fun on_item :: "jstr \<Rightarrow> item \<Rightarrow> jstr + outcome" where
  "on_item buf (Num b) = on_byte buf b"
| "on_item buf (Chr c) = Inl buf"

text \<open>\<open>onData\<close>: what follows the settling byte in its chunk is not looked at.\<close>

fun on_data :: "jstr \<Rightarrow> item list \<Rightarrow> jstr + outcome" where
  "on_data buf [] = Inl buf"
| "on_data buf (i # is) = (case on_item buf i of Inl buf' \<Rightarrow> on_data buf' is | Inr out \<Rightarrow> Inr out)"

fun feed :: "jstr \<Rightarrow> chunk list \<Rightarrow> (outcome \<times> chunk list) option" where
  "feed buf [] = None"
| "feed buf (c # cs) =
     (case on_data buf (items c) of Inl buf' \<Rightarrow> feed buf' cs | Inr out \<Rightarrow> Some (out, cs))"

record terminal =
  isTTY :: bool
  isRaw :: bool
  listening :: bool
  flowing :: bool
  pending_chunks :: "chunk list"
  err_text :: jstr

text \<open>The decoder of a stream keeps a byte order mark.\<close>

definition stream_decode :: "bytes \<Rightarrow> jstr" where
  "stream_decode bs = units_of (map (\<lambda>u. case u of None \<Rightarrow> 0xFFFD | Some c \<Rightarrow> c) (decode_units (map unat bs)))"

lemma stream_decode_utf8: "wf16 s \<Longrightarrow> stream_decode (utf8 s) = s"
  by (simp add: stream_decode_def decode_utf8 comp_def units_of_code_points)

text \<open>
  \<open>setEncoding(undefined)\<close> is \<open>setEncoding("utf8")\<close>: the \<open>StringDecoder\<close> it installs keeps
  back the bytes of a sequence that the next chunk may complete, and a chunk of which nothing
  remains is not delivered.
\<close>

definition lead_length :: "byte \<Rightarrow> nat" where
  "lead_length b =
     (if 0xC0 \<le> b \<and> b < 0xE0 then 2 else if 0xE0 \<le> b \<and> b < 0xF0 then 3
      else if 0xF0 \<le> b \<and> b < 0xF8 then 4 else 0)"

fun kept_back :: "nat \<Rightarrow> bytes \<Rightarrow> nat" where
  "kept_back n [] = 0"
| "kept_back n (b # bs) =
     (if 0x80 \<le> b \<and> b < 0xC0 then (if n < 3 then kept_back (n + 1) bs else 0)
      else if n + 1 < lead_length b then n + 1 else 0)"

definition decoded :: "jstr \<Rightarrow> chunk list" where
  "decoded s = (if s = [] then [] else [Text s])"

fun decoding :: "bytes \<Rightarrow> chunk list \<Rightarrow> chunk list" where
  "decoding old [] = decoded (stream_decode old)"
| "decoding old (Text s # cs) = Text s # decoding old cs"
| "decoding old (Buffer bs # cs) =
     (let whole = old @ bs; n = length whole - kept_back 0 (rev whole)
      in decoded (stream_decode (take n whole)) @ decoding (drop n whole) cs)"

definition setEncoding_utf8 :: "terminal \<Rightarrow> terminal" where
  "setEncoding_utf8 t = t\<lparr>pending_chunks := decoding [] (pending_chunks t)\<rparr>"

definition msg_non_tty :: jstr where
  "msg_non_tty = lit ''refusing to read a phrase from a non-TTY stdin '' @ [0x2014] @ lit '' phrases must be typed interactively''"

definition promptPhrase :: "jstr \<Rightarrow> terminal \<Rightarrow> outcome option \<times> terminal" where
  "promptPhrase label t =
     (if \<not> isTTY t then (Some (Rejected msg_non_tty), t)
      else
        (let wasRaw = isRaw t;
             t1 = setEncoding_utf8 (t\<lparr>err_text := err_text t @ label @ lit '': '', isRaw := True, flowing := True\<rparr>)\<lparr>listening := True\<rparr>
         in case feed [] (pending_chunks t1) of
              None \<Rightarrow> (None, t1\<lparr>pending_chunks := []\<rparr>)
            | Some (out, rest) \<Rightarrow>
                (Some out, t1\<lparr>err_text := err_text t1 @ [10], listening := False, isRaw := wasRaw,
                              flowing := False, pending_chunks := rest\<rparr>)))"

definition msg_mismatch :: jstr where
  "msg_mismatch = lit ''Phrases do not match '' @ [0x2014] @ lit '' nothing was written. Try again.''"

definition promptPhraseConfirmed :: "jstr \<Rightarrow> jstr \<Rightarrow> terminal \<Rightarrow> outcome option \<times> terminal" where
  "promptPhraseConfirmed label1 label2 t =
     (case promptPhrase label1 t of
        (Some (Resolved a), t1) \<Rightarrow>
          (case promptPhrase label2 t1 of
             (Some (Resolved b), t2) \<Rightarrow> (Some (if a \<noteq> b then Rejected msg_mismatch else Resolved a), t2)
           | r \<Rightarrow> r)
      | r \<Rightarrow> r)"

fun chunk_bytes :: "chunk \<Rightarrow> bytes" where
  "chunk_bytes (Buffer bs) = bs"
| "chunk_bytes (Text s) = utf8 s"

definition readStdinAll :: "terminal \<Rightarrow> bytes \<times> terminal" where
  "readStdinAll t = (concat (map chunk_bytes (pending_chunks t)), t\<lparr>pending_chunks := []\<rparr>)"

definition drop_final_newline :: "jstr \<Rightarrow> jstr" where
  "drop_final_newline s = (if s \<noteq> [] \<and> last s = 10 then butlast s else s)"

definition promptPlaintext :: "terminal \<Rightarrow> jstr \<times> terminal" where
  "promptPlaintext t =
     (let (bs, t') = readStdinAll t
      in if \<not> isTTY t then (from_utf8_lossy bs, t')
         else (drop_final_newline (stream_decode bs),
               t'\<lparr>err_text := err_text t' @ lit ''Type or paste your message. Press Ctrl-D on a new line when done.'' @ [10],
                  flowing := True\<rparr>))"

section \<open>Specification: editing a line\<close>

text \<open>
  The line a sequence of keys spells: printable bytes append, the two erase keys drop the
  last one, other controls do nothing.
\<close>

definition is_erase :: "byte \<Rightarrow> bool" where "is_erase b = (b = BS \<or> b = DEL)"
definition is_printable :: "byte \<Rightarrow> bool" where "is_printable b = (0x20 \<le> b \<and> b \<noteq> DEL)"
definition is_end :: "byte \<Rightarrow> bool" where "is_end b = (b = CR \<or> b = LF \<or> b = ETX \<or> b = EOT)"

fun erase_last :: "bytes \<Rightarrow> bytes \<Rightarrow> bytes" where
  "erase_last line [] = line"
| "erase_last line (b # bs) =
     erase_last (if is_erase b then butlast line else if is_printable b then line @ [b] else line) bs"

definition line_of :: "bytes \<Rightarrow> jstr" where
  "line_of bs = map ucast (erase_last [] bs)"

lemma on_byte_edit:
  "\<not> is_end b \<Longrightarrow> on_byte (map ucast line) b =
     Inl (map ucast (if is_erase b then butlast line else if is_printable b then line @ [b] else line))"
  by (auto simp: on_byte_def is_end_def is_erase_def is_printable_def map_butlast)

lemma on_data_edit:
  "list_all (\<lambda>b. \<not> is_end b) bs \<Longrightarrow> on_data (map ucast line) (map Num bs) = Inl (map ucast (erase_last line bs))"
  by (induction line bs rule: erase_last.induct) (simp_all add: on_byte_edit)

lemma on_data_append:
  "on_data buf (xs @ ys) = (case on_data buf xs of Inl buf' \<Rightarrow> on_data buf' ys | Inr out \<Rightarrow> Inr out)"
  by (induction buf xs rule: on_data.induct) (auto split: sum.splits)

lemma feed_buffers:
  assumes "\<forall>bs \<in> set bss. list_all (\<lambda>b. \<not> is_end b) bs"
  shows "feed (map ucast line) (map Buffer bss @ cs) = feed (map ucast (erase_last line (concat bss))) cs"
proof -
  have app: "erase_last l (xs @ ys) = erase_last (erase_last l xs) ys" for l xs ys
    by (induction l xs rule: erase_last.induct) simp_all
  show ?thesis using assms
    by (induction bss arbitrary: line) (simp_all add: on_data_edit app)
qed

lemma feed_text: "\<forall>c \<in> set cs. \<exists>s. c = Text s \<Longrightarrow> feed buf cs = None"
proof (induction cs)
  case (Cons c cs)
  have "on_data buf (map Chr ps) = Inl buf" for ps by (induction ps) auto
  then show ?case using Cons by auto
qed simp

section \<open>Phrases that are not ASCII\<close>

definition ascii :: "jstr \<Rightarrow> bool" where
  "ascii s = (\<forall>u \<in> set s. unat u < 128)"

lemma length_enc_cp_pos: "0 < length (enc_cp c)" "128 \<le> c \<Longrightarrow> 2 \<le> length (enc_cp c)" "65536 \<le> c \<Longrightarrow> length (enc_cp c) = 4"
  by (auto simp: enc_cp_def)

lemma length_enc_cp_unit:
  "unat u < 128 \<Longrightarrow> length (enc_cp (cp_or_replacement u)) = 1"
  "\<not> unat u < 128 \<Longrightarrow> 2 \<le> length (enc_cp (cp_or_replacement u))"
  by (auto simp: cp_or_replacement_def is_surrogate_def is_lead_def is_trail_def enc_cp_def)

lemma utf8_length_ge: "length s \<le> length (utf8 s) \<and> (length (utf8 s) = length s \<longrightarrow> ascii s)"
proof (induction s rule: code_points.induct)
  case (2 u)
  have "length (utf8 [u]) = length (enc_cp (cp_or_replacement u))" by (simp add: utf8_def enc_cps_def)
  then show ?case using length_enc_cp_unit [of u] by (cases "unat u < 128") (simp_all add: ascii_def)
next
  case (3 u v us)
  show ?case
  proof (cases "is_lead (unat u) \<and> is_trail (unat v)")
    case True
    then have p: "65536 \<le> pair_cp (unat u) (unat v)" by (simp add: pair_cp_def is_lead_def is_trail_def)
    have "length (utf8 (u # v # us)) = 4 + length (utf8 us)"
      using True length_enc_cp_pos(3) [OF p] by (simp add: utf8_def length_enc_cps_Cons)
    then show ?thesis using 3(1) [OF True] by simp
  next
    case False
    then have "code_points (u # v # us) = cp_or_replacement u # code_points (v # us)"
      by (simp only: code_points.simps if_False)
    then have "length (utf8 (u # v # us)) = length (enc_cp (cp_or_replacement u)) + length (utf8 (v # us))"
      by (simp only: utf8_def length_enc_cps_Cons)
    then show ?thesis using 3(2) [OF False] length_enc_cp_unit [of u]
      by (cases "unat u < 128") (auto simp: ascii_def)
  qed
qed (simp add: ascii_def)

lemma utf8_ascii: "ascii s \<Longrightarrow> utf8 s = map ucast s"
proof (induction s)
  case (Cons u s)
  then have u: "unat u < 128" "ascii s" by (simp_all add: ascii_def)
  then have "\<not> is_surrogate (unat u)" by (simp add: is_surrogate_def is_lead_def is_trail_def)
  then have "code_points (u # s) = unat u # code_points s" by (rule code_points_Cons_plain)
  then show ?case using Cons.IH [OF u(2)] u(1) by (simp add: utf8_def enc_cps_def enc_cp_def unsigned_ucast_eq)
qed simp

lemma erase_last_plain: "list_all (\<lambda>b. is_printable b \<and> \<not> is_erase b) bs \<Longrightarrow> erase_last line bs = line @ bs"
  by (induction line bs rule: erase_last.induct) auto

section \<open>Properties\<close>

text \<open>What an ending key makes of the line.\<close>

definition ended_by :: "byte \<Rightarrow> jstr \<Rightarrow> outcome" where
  "ended_by e line =
     (if e = ETX then Rejected msg_aborted
      else if e = EOT \<and> line = [] then Rejected msg_aborted_eof
      else Resolved line)"

lemma on_byte_end: "is_end e \<Longrightarrow> on_byte line e = Inr (ended_by e line)"
  by (auto simp: is_end_def on_byte_def ended_by_def key_defs)

text \<open>
  What the listener is written for: given \<open>Buffer\<close>s, it edits a line, and the first ending key
  settles the prompt, however the bytes are split into chunks.
\<close>

lemma feed_line:
  assumes "\<forall>xs \<in> set bss. list_all (\<lambda>b. \<not> is_end b) xs" and "list_all (\<lambda>b. \<not> is_end b) bs" and "is_end e"
  shows "feed [] (map Buffer bss @ Buffer (bs @ e # rest) # cs) =
    Some (ended_by e (line_of (concat bss @ bs)), cs)"
proof -
  have app: "erase_last l (xs @ ys) = erase_last (erase_last l xs) ys" for l xs ys
    by (induction l xs rule: erase_last.induct) simp_all
  have "feed [] (map Buffer bss @ Buffer (bs @ e # rest) # cs) =
      feed (map ucast (erase_last [] (concat bss))) (Buffer (bs @ e # rest) # cs)"
    using feed_buffers [OF assms(1), of "[]" "Buffer (bs @ e # rest) # cs"] by simp
  then show ?thesis
    by (simp add: on_data_append on_data_edit [OF assms(2)] on_byte_end [OF assms(3)] line_of_def app)
qed

lemma decoding_text: "c \<in> set (decoding old cs) \<Longrightarrow> \<exists>s. c = Text s"
  by (induction old cs rule: decoding.induct) (auto simp: decoded_def Let_def split: if_splits)

lemma phrase_prompt_settled: "fst (promptPhrase label t) = (if isTTY t then None else Some (Rejected msg_non_tty))"
  "\<not> isTTY t \<Longrightarrow> snd (promptPhrase label t) = t"
  "isTTY t \<Longrightarrow> isRaw (snd (promptPhrase label t)) \<and> listening (snd (promptPhrase label t))"
  using feed_text [of "decoding [] (pending_chunks t)" "[]"] decoding_text
  by (simp_all add: promptPhrase_def setEncoding_utf8_def)

text \<open>
  C12: As written, the phrase prompt never settles. On a terminal, whatever is typed and
  however it is split into chunks, the promise stays pending, with the terminal in raw mode,
  the listener attached and nothing written but the label: the decoder that
  \<open>setEncoding(undefined)\<close> installs hands the listener strings, whose characters are compared
  with numbers, so not even Enter or Ctrl-C is recognised. Off a terminal the prompt is
  refused at once and nothing is touched.
\<close>

theorem phrase_prompt_never_settles:
  "promptPhrase label t =
     (if isTTY t then
        (None, t\<lparr>err_text := err_text t @ label @ lit '': '', isRaw := True, flowing := True, listening := True, pending_chunks := []\<rparr>)
      else (Some (Rejected msg_non_tty), t))"
  using feed_text [of "decoding [] (pending_chunks t)" "[]"] decoding_text
  by (simp add: promptPhrase_def setEncoding_utf8_def)

text \<open>
  So a confirmed phrase is never obtained either, and its second prompt is never shown.
\<close>

lemma confirmed_never_settles: "promptPhraseConfirmed l1 l2 t = promptPhrase l1 t"
  by (auto simp: promptPhraseConfirmed_def phrase_prompt_settled prod_eq_iff split: prod.splits outcome.splits option.splits dest: arg_cong [where f = fst])

text \<open>
  Given \<open>Buffer\<close>s, a phrase typed as UTF-8 without control keys would become the string of its bytes, so it would be
  the phrase that was typed exactly when that is ASCII: any other phrase is another one in
  every other implementation.
\<close>

theorem prompt_phrase_is_bytes:
  assumes "list_all (\<lambda>b. is_printable b \<and> \<not> is_erase b) (utf8 s)"
  shows "line_of (utf8 s) = map ucast (utf8 s) \<and> (line_of (utf8 s) = s \<longleftrightarrow> ascii s)"
proof -
  have l: "line_of (utf8 s) = map ucast (utf8 s)" using erase_last_plain [OF assms] by (simp add: line_of_def)
  have "line_of (utf8 s) = s" if "ascii s"
  proof -
    have "(ucast (ucast u :: byte) :: 16 word) = u" if "u \<in> set s" for u
    proof -
      have "unat u < 128" using that \<open>ascii s\<close> by (simp add: ascii_def)
      then show ?thesis by (simp add: word_unat_eq_iff unsigned_ucast_eq unsigned_take_bit_eq take_bit_nat_eq_self)
    qed
    then have "map ((ucast :: byte \<Rightarrow> 16 word) \<circ> ucast) s = s" by (intro map_idI) simp
    then show ?thesis using l utf8_ascii [OF that] by simp
  qed
  moreover have "ascii s" if "line_of (utf8 s) = s"
    using utf8_length_ge [of s] that l by (metis length_map)
  ultimately show ?thesis using l by blast
qed

theorem prompt_phrase_is_bytes_witness: "line_of (utf8 [0xE9]) \<noteq> [0xE9]"
proof -
  have u: "utf8 [0xE9] = [0xC3, 0xA9]"
    by (simp add: utf8_def enc_cps_def enc_cp_def cp_or_replacement_def is_surrogate_def is_lead_def is_trail_def)
  then have "list_all (\<lambda>b. is_printable b \<and> \<not> is_erase b) (utf8 [0xE9])"
    by (simp add: is_printable_def is_erase_def key_defs)
  from conjunct2 [OF prompt_phrase_is_bytes [OF this]] show ?thesis by (simp add: ascii_def)
qed

end
