(* ===== verification/Self_Test.thy ===== *)
theory Self_Test
  imports Rewrap
begin

text \<open>
  The known-answer and tamper tests: \<open>runSelfTest\<close> of \<open>qev-cli/lib/vault.js\<close> and the tests of
  the \<open>self-test\<close> command of \<open>qev-cli/bin/qev.js\<close>, as the checks they run on vaults they lock.
\<close>

definition flip_first :: "bytes \<Rightarrow> bytes" where
  "flip_first bs = (case bs of [] \<Rightarrow> [] | b # cs \<Rightarrow> xor b 1 # cs)"

text \<open>A copy of the vault with one bit of its content ciphertext flipped.\<close>

definition tampered_copy :: "jsval \<Rightarrow> jsval res" where
  "tampered_copy v =
     bind_res (json_clone v) (\<lambda>t.
     bind_res (b64_member t ''content'' ''ciphertext'') (\<lambda>ct.
     Inr (set2 t ''content'' ''ciphertext'' (JStr (b64urlEncode (flip_first ct))))))"

definition quick_opts :: "jstr \<Rightarrow> jstr \<Rightarrow> encrypt_opts" where
  "quick_opts text phrase = \<lparr>o_plaintext = PtString text, o_password = JStr phrase, o_mode = JStr (lit ''self''),
     o_opslimit = Some (preset_opslimit quick_preset), o_memlimit = Some (preset_memlimit quick_preset),
     o_salt = None, o_wrapNonce = None, o_contentNonce = None, o_vaultKey = None, o_createdAt = None,
     o_version = None\<rparr>"

definition test_plain :: jstr where "test_plain = lit ''self-test: hello world''"
definition test_phrase :: jstr where "test_phrase = lit ''self-test-phrase-only''"

definition msg_st_schema :: jstr where "msg_st_schema = lit ''Self-test: V2 encrypt produced wrong schema''"
definition msg_st_round :: jstr where "msg_st_round = lit ''Self-test: V2 round-trip mismatch''"
definition msg_st_wrong :: jstr where "msg_st_wrong = lit ''Self-test: V2 wrong-phrase check failed''"
definition msg_st_tamper :: jstr where "msg_st_tamper = lit ''Self-test: V2 tamper check failed''"

definition self_checks :: "sodium \<Rightarrow> jsval \<Rightarrow> unit res" where
  "self_checks so v2 =
     bind_res (get v2 (lit ''schema'')) (\<lambda>schema.
     throw_if (schema \<noteq> JStr SCHEMA_V2) msg_st_schema
     (bind_res (decryptVaultV2 so v2 (JStr test_phrase)) (\<lambda>round.
      throw_if (round \<noteq> test_plain) msg_st_round
      (throw_if (is_ok (decryptVaultV2 so v2 (JStr (lit ''wrong-phrase'')))) msg_st_wrong
      (bind_res (tampered_copy v2) (\<lambda>tampered.
       throw_if (is_ok (decryptVaultV2 so tampered (JStr test_phrase))) msg_st_tamper
       (Inr ())))))))"

definition runSelfTest :: "sodium \<Rightarrow> jstr \<Rightarrow> rng \<Rightarrow> unit res \<times> rng" where
  "runSelfTest so now r =
     (case encryptVaultV2 so now (quick_opts test_plain test_phrase) r of
        (Inl e, r') \<Rightarrow> (Inl e, r')
      | (Inr v2, r') \<Rightarrow> (self_checks so v2, r'))"

section \<open>The self-test command\<close>

definition cli_plain :: jstr where "cli_plain = lit ''self-test: explicit failure UX''"
definition cli_new_phrase :: jstr where "cli_new_phrase = lit ''self-test-new-phrase-only''"

text \<open>\<open>{ ...vault, schema: s }\<close>\<close>

definition with_schema :: "jsval \<Rightarrow> jstr \<Rightarrow> jsval" where
  "with_schema v s = (case v of JObj kvs \<Rightarrow> JObj (put kvs (lit ''schema'') (JStr s)) | _ \<Rightarrow> JObj [(lit ''schema'', JStr s)])"

definition msg_round :: jstr where "msg_round = lit ''explicit round-trip mismatch''"
definition msg_wrong :: jstr where "msg_wrong = lit ''wrong phrase was not rejected''"
definition msg_tamper :: jstr where "msg_tamper = lit ''tampered ciphertext was not rejected''"
definition msg_schema :: jstr where "msg_schema = lit ''unsupported schema was not rejected''"
definition msg_content_changed :: jstr where "msg_content_changed = lit ''rewrap changed content ciphertext''"
definition msg_new_phrase :: jstr where "msg_new_phrase = lit ''rewrap did not unlock with new phrase''"
definition msg_old_phrase :: jstr where "msg_old_phrase = lit ''old phrase still unlocked after rewrap''"

text \<open>The checks after the vault was locked; \<open>Inr\<close> of the number of lines reported.\<close>

definition cli_checks :: "sodium \<Rightarrow> jsval \<Rightarrow> unit res" where
  "cli_checks so vault =
     bind_res (decryptVaultV2 so vault (JStr test_phrase)) (\<lambda>roundTrip.
     throw_if (roundTrip \<noteq> cli_plain) msg_round
     (throw_if (is_ok (decryptVaultV2 so vault (JStr (lit ''definitely-wrong-phrase'')))) msg_wrong
     (bind_res (tampered_copy vault) (\<lambda>tampered.
      throw_if (is_ok (decryptVaultV2 so tampered (JStr test_phrase))) msg_tamper
      (throw_if (is_ok (decryptVaultV2 so (with_schema vault (lit ''BRY-NFET-SX-VAULT-V99'')) (JStr test_phrase))) msg_schema
      (bind_res (rewrapVaultV2 so vault (JStr test_phrase) (JStr cli_new_phrase)) (\<lambda>rewrapped.
       bind_res (get2 rewrapped ''content'' ''ciphertext'') (\<lambda>c1.
       bind_res (get2 vault ''content'' ''ciphertext'') (\<lambda>c2.
       throw_if (c1 \<noteq> c2) msg_content_changed
       (bind_res (decryptVaultV2 so rewrapped (JStr cli_new_phrase)) (\<lambda>afterRewrap.
        throw_if (afterRewrap \<noteq> cli_plain) msg_new_phrase
        (throw_if (is_ok (decryptVaultV2 so rewrapped (JStr test_phrase))) msg_old_phrase
        (Inr ())))))))))))))"

section \<open>The verdict\<close>

lemma with_schema_rejected:
  assumes "is_object v" and "s \<noteq> SCHEMA_V2"
  shows "\<not> is_ok (decryptVaultV2 so (with_schema v s) pw)"
proof -
  have "fld (with_schema v s) ''schema'' = JStr s"
    by (cases v) (simp_all add: with_schema_def map_of_put)
  then have "\<not> wf_vault_v2 (with_schema v s)" using assms(2) by (simp add: wf_vault_v2_def)
  then show ?thesis by (auto simp: is_ok_iff decrypt_Inr)
qed

lemma quick_checks:
  assumes "msg \<noteq> []" and "phrase \<noteq> []" and "length msg \<le> 1000"
  shows "encrypt_checks (quick_opts msg phrase) = Inr (utf8 msg)" and "overrides_ok (quick_opts msg phrase)"
proof -
  have "length (utf8 msg) \<le> MAX_PLAINTEXT_BYTES"
    using utf8_length [of msg] assms(3) by (simp add: MAX_PLAINTEXT_BYTES_def)
  then show "encrypt_checks (quick_opts msg phrase) = Inr (utf8 msg)" "overrides_ok (quick_opts msg phrase)"
    using assms(1,2)
    by (simp_all add: quick_opts_def encrypt_checks_def plaintext_bytes_def overrides_ok_def nonempty_str_def
        val_or_def is_mode_def num_or_def limit_defs throw_if_def quick_preset_def LOCK_PRESETS_def mib_def)
qed

lemma lit_hd: "s \<noteq> [] \<Longrightarrow> hd (lit s) = unit_of (hd s)" "lit (c # s) = unit_of c # lit s"
  by (cases s) (simp_all add: lit_def)

lemma plain_text_lit: "plain_text (lit s)"
proof (cases s)
  case (Cons c cs)
  have "unit_of c \<noteq> 0xFEFF"
  proof
    assume "unit_of c = 0xFEFF"
    then have "unat (unit_of c) = unat (0xFEFF :: 16 word)" by simp
    then show False using of_char_lt_256 [of c] by simp
  qed
  moreover have "wf16 (lit s)" by (rule wf16_lit)
  ultimately show ?thesis by (simp add: plain_text_def Cons lit_def)
qed (simp add: plain_text_def)

text \<open>A vault the tests locked, and what they know about it.\<close>

lemma locked_for_test:
  assumes ok: "kdf_works so" "aead_works so" and t: "s \<noteq> []" "length s \<le> 1000" and p: "phrase \<noteq> []"
  obtains v r' where "encryptVaultV2 so now (quick_opts (lit s) phrase) r = (Inr v, r')"
    and "decryptVaultV2 so v (JStr phrase) = Inr (lit s)" and "wf_vault_v2 v" and "wf_val v"
proof -
  have c: "encrypt_checks (quick_opts (lit s) phrase) = Inr (utf8 (lit s))" "overrides_ok (quick_opts (lit s) phrase)"
    using quick_checks [of "lit s" phrase] t p by simp_all
  obtain v r' where e: "encryptVaultV2 so now (quick_opts (lit s) phrase) r = (Inr v, r')"
    by (rule lock_total [OF ok c])
  obtain pt x k aad w ct where "encrypt_checks (quick_opts (lit s) phrase) = Inr pt"
    and se: "sealed_as so now (quick_opts (lit s) phrase) pt x k aad w ct v"
    by (rule encrypt_Inr [OF e])
  then have "pt = utf8 (lit s)" using c by simp
  with open_sealed [OF ok c(1), of now x k aad w ct v] se
  show thesis by (intro that [OF e _ _ lock_wf_val [OF e]])
      (simp_all add: fromUtf8_utf8_plain [OF plain_text_lit] rethrow_def quick_opts_def)
qed

lemma tampered_copy_ok: "wf_vault_v2 v \<Longrightarrow> wf_val v \<Longrightarrow> decode_parts v = Inr p \<Longrightarrow> \<exists>t. tampered_copy v = Inr t"
  using decode_parts_members [of v p] by (simp add: tampered_copy_def)

lemma decrypt_parts: "decryptVaultV2 so v pw = Inr m \<Longrightarrow> \<exists>p. decode_parts v = Inr p"
  by (auto simp: decrypt_Inr opened_as_def)

section \<open>Properties\<close>

lemma runSelfTest_locked:
  "encryptVaultV2 so now (quick_opts test_plain test_phrase) r = (Inr v, r') \<Longrightarrow>
   runSelfTest so now r = (self_checks so v, r')"
  by (simp add: runSelfTest_def)

lemma wf_schema: "wf_vault_v2 v \<Longrightarrow> get v (lit ''schema'') = Inr (JStr SCHEMA_V2)"
  using wf_vault_sections(1) [of v] by (simp add: wf_vault_v2_def)

text \<open>
  With a working KDF and AEAD the library self-test locks a vault, and its verdict is
  decided by the two negative checks alone: it passes exactly when the wrong phrase and the
  flipped ciphertext bit are both rejected, and otherwise names the check that failed.
\<close>

theorem selftest_verdict:
  assumes "kdf_works so" and "aead_works so"
  shows "\<exists>v r' t. encryptVaultV2 so now (quick_opts test_plain test_phrase) r = (Inr v, r') \<and>
    tampered_copy v = Inr t \<and>
    runSelfTest so now r =
      (if is_ok (decryptVaultV2 so v (JStr (lit ''wrong-phrase''))) then Inl msg_st_wrong
       else if is_ok (decryptVaultV2 so t (JStr test_phrase)) then Inl msg_st_tamper
       else Inr (), r')"
proof -
  obtain v r' where v: "encryptVaultV2 so now (quick_opts test_plain test_phrase) r = (Inr v, r')"
    "decryptVaultV2 so v (JStr test_phrase) = Inr test_plain" "wf_vault_v2 v" "wf_val v"
    using locked_for_test [OF assms, of "''self-test: hello world''" test_phrase now r]
    by (auto simp: test_plain_def test_phrase_def)
  obtain t where t: "tampered_copy v = Inr t" using tampered_copy_ok [OF v(3,4)] decrypt_parts [OF v(2)] by blast
  have "self_checks so v = (if is_ok (decryptVaultV2 so v (JStr (lit ''wrong-phrase''))) then Inl msg_st_wrong
       else if is_ok (decryptVaultV2 so t (JStr test_phrase)) then Inl msg_st_tamper else Inr ())"
    by (simp add: self_checks_def wf_schema [OF v(3)] v(2) t throw_if_def)
  with runSelfTest_locked [OF v(1)] v(1) t show ?thesis by (intro exI conjI) auto
qed

theorem selftest_verdict_witness:
  "fst (runSelfTest toy_sodium [] (\<lambda>_. 3)) \<in> {Inr (), Inl msg_st_wrong, Inl msg_st_tamper}"
  using selftest_verdict [OF toy_works, of "[]" "\<lambda>_. 3"] by (auto split: if_split_asm)

text \<open>
  The checks of the self-test command fail only if the cipher accepted something it must
  not: a wrong phrase, a flipped bit, or the old phrase after a rewrap. The schema, rewrap
  and round-trip checks always hold.
\<close>

theorem cli_selftest_verdict:
  assumes "kdf_works so" and "aead_works so"
  shows "\<exists>v r'. encryptVaultV2 so now (quick_opts cli_plain test_phrase) r = (Inr v, r') \<and>
    cli_checks so v \<in> {Inr (), Inl msg_wrong, Inl msg_tamper, Inl msg_old_phrase} \<and>
    (cli_checks so v = Inr () \<longrightarrow> \<not> is_ok (decryptVaultV2 so v (JStr (lit ''definitely-wrong-phrase''))))"
proof -
  obtain v r' where v: "encryptVaultV2 so now (quick_opts cli_plain test_phrase) r = (Inr v, r')"
    "decryptVaultV2 so v (JStr test_phrase) = Inr cli_plain" "wf_vault_v2 v" "wf_val v"
    using locked_for_test [OF assms, of "''self-test: explicit failure UX''" test_phrase now r]
    by (auto simp: cli_plain_def test_phrase_def)
  obtain t where t: "tampered_copy v = Inr t" using tampered_copy_ok [OF v(3,4)] decrypt_parts [OF v(2)] by blast
  have ne: "nonempty_str (JStr cli_new_phrase)" "JStr test_phrase \<noteq> JStr cli_new_phrase"
    by (simp_all add: nonempty_str_def cli_new_phrase_def test_phrase_def)
  obtain w where w: "rewrapVaultV2 so v (JStr test_phrase) (JStr cli_new_phrase) = Inr (with_wrapped_key v w)"
    "decryptVaultV2 so (with_wrapped_key v w) (JStr cli_new_phrase) = Inr cli_plain"
    by (rule rewrap_total [OF assms v(4,2) ne])
  have o: "is_object v" "is_object (fld v ''content'')" using wf_vault_sections [OF v(3)] by simp_all
  have c: "get2 (with_wrapped_key v w) ''content'' ''ciphertext'' = get2 v ''content'' ''ciphertext''"
    using o with_wrapped_key_fields [OF v(3)] by (simp add: get2_object)
  have s: "\<not> is_ok (decryptVaultV2 so (with_schema v (lit ''BRY-NFET-SX-VAULT-V99'')) (JStr test_phrase))"
    by (rule with_schema_rejected [OF o(1)]) (simp add: SCHEMA_V2_def)
  show ?thesis
    by (intro exI conjI; (rule v(1))?) (auto simp: cli_checks_def v(2) t s w c get2_object o throw_if_def)
qed

theorem cli_selftest_verdict_witness:
  "\<exists>v. cli_checks toy_sodium v \<in> {Inr (), Inl msg_wrong, Inl msg_tamper, Inl msg_old_phrase}"
  using cli_selftest_verdict [OF toy_works, of "[]" "\<lambda>_. 3"] by blast

end
