(* ===== verification/Parse_Args.thy ===== *)
theory Parse_Args
  imports Prelude
begin

text \<open>
  \<open>parseArgs\<close> of \<open>node:util\<close> as \<open>qev-cli/bin/qev.js\<close> uses it: strict, options of type string or
  boolean with one-letter aliases, positionals allowed or not. The wording of its errors is
  Node's own and stays a parameter of the commands; here an error is the fault it reports.
\<close>

datatype opt_type = OptString | OptBoolean

record opt_spec =
  opt_name :: jstr
  opt_type_of :: opt_type
  opt_short :: "16 word option"

definition spec_for :: "opt_spec list \<Rightarrow> jstr \<Rightarrow> opt_spec option" where
  "spec_for cfg name = find (\<lambda>o1. opt_name o1 = name) cfg"

definition long_for :: "opt_spec list \<Rightarrow> 16 word \<Rightarrow> jstr" where
  "long_for cfg c = (case find (\<lambda>o1. opt_short o1 = Some c) cfg of None \<Rightarrow> [c] | Some o1 \<Rightarrow> opt_name o1)"

definition takes_value :: "opt_spec list \<Rightarrow> jstr \<Rightarrow> bool" where
  "takes_value cfg name = (case spec_for cfg name of None \<Rightarrow> False | Some o1 \<Rightarrow> opt_type_of o1 = OptString)"

datatype token =
  OptTok jstr jstr "jstr option" bool
| PosTok jstr

text \<open>A token of an option holds its name, its spelling, its value and whether that was inline.\<close>

definition dash :: "16 word" where "dash = 45"
definition equals_sign :: "16 word" where "equals_sign = 61"

fun shorts :: "opt_spec list \<Rightarrow> jstr \<Rightarrow> jstr list \<Rightarrow> token list \<times> jstr list" where
  "shorts cfg [] rest = ([], rest)"
| "shorts cfg (c # cs) rest =
     (let name = long_for cfg c
      in if takes_value cfg name then
           (if cs = [] then
              (case rest of [] \<Rightarrow> ([OptTok name [dash, c] None False], [])
               | r # rs \<Rightarrow> ([OptTok name [dash, c] (Some r) False], rs))
            else ([OptTok name [dash, c] (Some cs) True], rest))
         else (let (ts, rest') = shorts cfg cs rest in (OptTok name [dash, c] None False # ts, rest')))"

lemma shorts_rest: "length (snd (shorts cfg cs rest)) \<le> length rest"
  by (induction cfg cs rest rule: shorts.induct) (auto simp: Let_def split: list.splits prod.splits)

definition long_name :: "jstr \<Rightarrow> jstr" where
  "long_name a = takeWhile (\<lambda>c. c \<noteq> equals_sign) (drop 2 a)"

function tokens :: "opt_spec list \<Rightarrow> jstr list \<Rightarrow> token list" where
  "tokens cfg [] = []"
| "tokens cfg (a # rest) =
     (if a = [dash, dash] then map PosTok rest
      else if length a \<ge> 2 \<and> a ! 0 = dash \<and> a ! 1 \<noteq> dash then
        (let (ts, rest') = shorts cfg (tl a) rest in ts @ tokens cfg rest')
      else if length a > 2 \<and> a ! 0 = dash \<and> a ! 1 = dash then
        (if equals_sign \<in> set (drop 3 a) then
           OptTok (long_name a) (dash # dash # long_name a)
             (Some (drop (length (long_name a) + 3) a)) True # tokens cfg rest
         else if takes_value cfg (drop 2 a) then
           (case rest of
              [] \<Rightarrow> [OptTok (drop 2 a) a None False]
            | r # rs \<Rightarrow> OptTok (drop 2 a) a (Some r) False # tokens cfg rs)
         else OptTok (drop 2 a) a None False # tokens cfg rest)
      else PosTok a # tokens cfg rest)"
  by pat_completeness auto

termination
proof (relation "measure (\<lambda>(cfg, args). length args)", goal_cases)
  case (2 cfg a rest x ts rest')
  then show ?case using shorts_rest [of cfg "tl a" rest] by (metis (no_types, lifting) case_prod_conv in_measure
    le_imp_less_Suc length_Cons snd_conv)
qed auto

datatype fault =
  Unknown_option jstr
| Missing_argument jstr
| Ambiguous_argument jstr
| No_argument_expected jstr
| Unexpected_positional jstr

definition option_like :: "jstr \<Rightarrow> bool" where
  "option_like v = (length v > 1 \<and> v ! 0 = dash)"

record parsed =
  opt_values :: "(jstr \<times> jstr option) list"
  positionals :: "jstr list"

fun check_tokens :: "opt_spec list \<Rightarrow> bool \<Rightarrow> token list \<Rightarrow> fault + parsed" where
  "check_tokens cfg allowPos [] = Inr \<lparr>opt_values = [], positionals = []\<rparr>"
| "check_tokens cfg allowPos (PosTok p # ts) =
     (if \<not> allowPos then Inl (Unexpected_positional p)
      else (case check_tokens cfg allowPos ts of
              Inl f \<Rightarrow> Inl f
            | Inr r \<Rightarrow> Inr (r\<lparr>positionals := p # positionals r\<rparr>)))"
| "check_tokens cfg allowPos (OptTok name raw v inline # ts) =
     (case spec_for cfg name of
        None \<Rightarrow> Inl (Unknown_option raw)
      | Some o1 \<Rightarrow>
          if opt_type_of o1 = OptString \<and> v = None then Inl (Missing_argument raw)
          else if opt_type_of o1 = OptBoolean \<and> v \<noteq> None then Inl (No_argument_expected raw)
          else if \<not> inline \<and> (case v of None \<Rightarrow> False | Some x \<Rightarrow> option_like x) then Inl (Ambiguous_argument raw)
          else (case check_tokens cfg allowPos ts of
                  Inl f \<Rightarrow> Inl f
                | Inr r \<Rightarrow> Inr (r\<lparr>opt_values := (name, v) # opt_values r\<rparr>)))"

definition parseArgs :: "opt_spec list \<Rightarrow> bool \<Rightarrow> jstr list \<Rightarrow> fault + parsed" where
  "parseArgs cfg allowPos args = check_tokens cfg allowPos (tokens cfg args)"

text \<open>A later occurrence of an option replaces an earlier one.\<close>

definition string_value :: "parsed \<Rightarrow> string \<Rightarrow> jstr option" where
  "string_value p name = (case map_of (rev (opt_values p)) (lit name) of Some v \<Rightarrow> v | None \<Rightarrow> None)"

definition flag :: "parsed \<Rightarrow> string \<Rightarrow> bool" where
  "flag p name = (lit name \<in> fst ` set (opt_values p))"

end
