(* ===== verification/Cli.thy ===== *)
theory Cli
  imports Parse_Args Prompt Self_Test
begin

text \<open>
  \<open>qev-cli/bin/qev.js\<close>: the command line front end. A command runs on the state of the
  process (terminal, standard output, files, random source) and either returns, exits with
  a code, throws, or waits for ever on a promise nothing settles. The wording of Node's own
  errors (files, JSON, \<open>parseArgs\<close>) is a field of that state.
\<close>

section \<open>The process\<close>

record world =
  tty :: terminal
  out_text :: jstr
  out_tty :: bool
  files :: "jstr \<Rightarrow> bytes option"
  writable :: "jstr \<Rightarrow> bool"
  fs_message :: "jstr \<Rightarrow> jstr"
  json_message :: "jstr \<Rightarrow> jstr"
  fault_message :: "fault \<Rightarrow> jstr"
  entropy :: rng
  clock :: jstr

datatype 'a run = Ret 'a | Exits nat | Throws jstr | Waits

type_synonym 'a cmd = "world \<Rightarrow> 'a run \<times> world"

definition return_cmd :: "'a \<Rightarrow> 'a cmd" where
  "return_cmd x w = (Ret x, w)"

definition bind_cmd :: "'a cmd \<Rightarrow> ('a \<Rightarrow> 'b cmd) \<Rightarrow> 'b cmd" where
  "bind_cmd m f w =
     (case m w of
        (Ret x, w') \<Rightarrow> f x w'
      | (Exits n, w') \<Rightarrow> (Exits n, w')
      | (Throws e, w') \<Rightarrow> (Throws e, w')
      | (Waits, w') \<Rightarrow> (Waits, w'))"

definition when_cmd :: "bool \<Rightarrow> unit cmd \<Rightarrow> unit cmd" where
  "when_cmd b m = (if b then m else return_cmd ())"

definition write_err :: "jstr \<Rightarrow> unit cmd" where
  "write_err s w = (Ret (), w\<lparr>tty := (tty w)\<lparr>err_text := err_text (tty w) @ s\<rparr>\<rparr>)"

definition write_out :: "jstr \<Rightarrow> unit cmd" where
  "write_out s w = (Ret (), w\<lparr>out_text := out_text w @ s\<rparr>)"

definition exit_with :: "nat \<Rightarrow> 'a cmd" where
  "exit_with n w = (Exits n, w)"

definition die :: "jstr \<Rightarrow> 'a cmd" where
  "die msg = bind_cmd (write_err (lit ''qev: error: '' @ msg @ [10])) (\<lambda>_. exit_with 1)"

definition bullet :: "jstr \<Rightarrow> unit cmd" where
  "bullet line = write_err (lit ''  - '' @ line @ [10])"

definition tick :: "jstr \<Rightarrow> unit cmd" where
  "tick line = write_err (lit ''  '' @ [0x2713] @ lit '' '' @ line @ [10])"

text \<open>\<open>err.message || "..."\<close>\<close>

definition die_or :: "jstr \<Rightarrow> jstr \<Rightarrow> 'a cmd" where
  "die_or e d = die (if e = [] then d else e)"

section \<open>Explaining a failed unlock\<close>

text \<open>
  \<open>String.prototype.toLowerCase\<close> as far as it can produce ASCII: A-Z, the Kelvin sign and the
  dotted capital I (which gives an i and a combining dot).
\<close>

definition lower1 :: "16 word \<Rightarrow> jstr" where
  "lower1 u =
     (if 0x41 \<le> u \<and> u \<le> 0x5A then [u + 32]
      else if u = 0x212A then [0x6B]
      else if u = 0x0130 then [0x69, 0x0307]
      else [u])"

definition toLowerCase :: "jstr \<Rightarrow> jstr" where
  "toLowerCase s = concat (map lower1 s)"

datatype category = Malformed_file | Unsupported_format | Damaged_vault | Authentication_failed | Not_utf8 | Unknown_error

definition includes_any :: "jstr \<Rightarrow> string list \<Rightarrow> bool" where
  "includes_any s ps = list_ex (\<lambda>p. str_includes s (lit p)) ps"

definition classify :: "jstr \<Rightarrow> category" where
  "classify detail =
     (let lower = toLowerCase detail
      in if includes_any lower [''not valid json'', ''json''] then Malformed_file
         else if includes_any lower [''unsupported vault schema'', ''unsupported schema'', ''unsupported kdf'',
             ''unsupported wrap'', ''unsupported content'', ''unsupported algorithm''] then Unsupported_format
         else if includes_any lower [''vault malformed'', ''missing'', ''length'', ''too large'',
             ''invalid character'', ''out of range''] then Damaged_vault
         else if includes_any lower [''wrong phrase'', ''tampered vault'', ''could not decrypt'', ''authentication'',
             ''old phrase''] then Authentication_failed
         else if includes_any lower [''utf-8''] then Not_utf8
         else Unknown_error)"

fun category_text :: "category \<Rightarrow> string" where
  "category_text Malformed_file = ''malformed vault file''"
| "category_text Unsupported_format = ''unsupported vault format''"
| "category_text Damaged_vault = ''malformed or damaged vault''"
| "category_text Authentication_failed = ''authentication check failed''"
| "category_text Not_utf8 = ''decoded plaintext is not valid UTF-8''"
| "category_text Unknown_error = ''unknown unlock error''"

fun category_bullets :: "category \<Rightarrow> string list" where
  "category_bullets Malformed_file =
     [''The file could not be parsed as JSON.'',
      ''Check that you selected the full .vault file and did not copy a partial snippet.'']"
| "category_bullets Unsupported_format =
     [''This CLI only opens supported QEV V2 vaults.'',
      ''Open the file in inspect mode or update qev if the vault came from a newer release.'']"
| "category_bullets Damaged_vault =
     [''The vault JSON is present, but one or more required fields are missing, invalid, or outside safety limits.'',
      ''Most likely causes: partial copy, damaged file, manual edit, unsupported generator, or transport corruption.'']"
| "category_bullets Authentication_failed =
     [''Most likely causes: wrong phrase, edited vault metadata, damaged wrapped key, or tampered ciphertext.'',
      ''For safety, QEV cannot always distinguish wrong phrase from tampering because authenticated encryption rejects both the same way.'',
      ''Try the phrase again; if it still fails, treat the vault as damaged or modified.'']"
| "category_bullets Not_utf8 =
     [''The cryptographic unlock passed, but the plaintext bytes were not text.'',
      ''This CLI path currently writes UTF-8 plaintext to stdout.'']"
| "category_bullets Unknown_error =
     [''The CLI did not recognize this failure mode. The technical detail below may help file a bug.'']"

fun write_bullets :: "string list \<Rightarrow> unit cmd" where
  "write_bullets [] = return_cmd ()"
| "write_bullets (b # bs) = bind_cmd (bullet (lit b)) (\<lambda>_. write_bullets bs)"

definition explainUnlockFailure :: "jstr \<Rightarrow> jstr \<Rightarrow> 'a cmd" where
  "explainUnlockFailure vaultPath message =
     (let detail = (if message = [] then lit ''Error'' else message);
          cat = classify detail
      in bind_cmd (write_err (lit ''qev: unlock failed: '' @ vaultPath @ [10])) (\<lambda>_.
         bind_cmd (write_err (lit ''category: '' @ lit (category_text cat) @ [10])) (\<lambda>_.
         bind_cmd (write_bullets (category_bullets cat)) (\<lambda>_.
         bind_cmd (write_err (lit ''technical detail: '' @ detail @ [10])) (\<lambda>_.
         exit_with 1)))))"

section \<open>Usage\<close>

definition usage_lines :: "(jstr \<times> jstr) list" where
  "usage_lines =
     [(lit ''lock'', lit ''qev lock [--out FILE] [--mode self|share] [--strength quick|strong|vault]''),
      (lit ''unlock'', lit ''qev unlock VAULT_FILE''),
      (lit ''rewrap'', lit ''qev rewrap VAULT_FILE [--out FILE]''),
      (lit ''gen-phrase'', lit ''qev gen-phrase''),
      (lit ''self-test'', lit ''qev self-test''),
      (lit ''version'', lit ''qev version'')]"

definition general_usage :: jstr where
  "general_usage = join [10]
     [lit ''qev '' @ [0x2014] @ lit '' offline encrypted vault CLI (v'' @ VERSION @ lit '')'', [],
      lit ''usage:'',
      lit ''  qev lock    [--out FILE] [--mode self|share] [--strength quick|strong|vault]'',
      lit ''  qev unlock  VAULT_FILE'',
      lit ''  qev rewrap  VAULT_FILE [--out FILE]'',
      lit ''  qev gen-phrase'',
      lit ''  qev self-test'',
      lit ''  qev version'', [],
      lit ''Phrases are always prompted interactively. There is no --phrase flag'',
      lit ''because the shell would leak it via history and /proc.'', [],
      lit ''rewrap rotates the phrase by updating only wrap.wrapped_key. It does not'',
      lit ''re-encrypt the content ciphertext.'', [],
      lit ''vault format:  BRY-NFET-SX-VAULT-V2 (XChaCha20-Poly1305 + Argon2id)'',
      lit ''compat:        desktop QEV (Mac/Windows) and secure.imagineqira.com/vault'', []]"

definition usage :: "jstr option \<Rightarrow> 'a cmd" where
  "usage subcmd =
     (case Option.bind subcmd (map_of usage_lines) of
        Some line \<Rightarrow> bind_cmd (write_err (lit ''usage: '' @ line @ [10])) (\<lambda>_. exit_with 1)
      | None \<Rightarrow> bind_cmd (write_err general_usage) (\<lambda>_. exit_with 1))"

section \<open>What the commands call\<close>

definition args_cmd :: "opt_spec list \<Rightarrow> bool \<Rightarrow> jstr list \<Rightarrow> parsed cmd" where
  "args_cmd cfg allowPos argv w =
     (case parseArgs cfg allowPos argv of Inl f \<Rightarrow> (Throws (fault_message w f), w) | Inr p \<Rightarrow> (Ret p, w))"

definition prompt_cmd :: "(terminal \<Rightarrow> outcome option \<times> terminal) \<Rightarrow> jstr cmd" where
  "prompt_cmd prompt w =
     (case prompt (tty w) of
        (None, t) \<Rightarrow> (Waits, w\<lparr>tty := t\<rparr>)
      | (Some (Rejected e), t) \<Rightarrow> (Throws e, w\<lparr>tty := t\<rparr>)
      | (Some (Resolved p), t) \<Rightarrow> (Ret p, w\<lparr>tty := t\<rparr>))"

definition plaintext_cmd :: "jstr cmd" where
  "plaintext_cmd w = (let (s, t) = promptPlaintext (tty w) in (Ret s, w\<lparr>tty := t\<rparr>))"

definition catch_cmd :: "'a cmd \<Rightarrow> (jstr \<Rightarrow> 'a cmd) \<Rightarrow> 'a cmd" where
  "catch_cmd m h w = (case m w of (Throws e, w') \<Rightarrow> h e w' | r \<Rightarrow> r)"

text \<open>\<open>readFile\<close> decodes leniently and keeps a byte order mark.\<close>

definition read_file :: "jstr \<Rightarrow> jstr cmd" where
  "read_file path w =
     (case files w path of None \<Rightarrow> (Throws (fs_message w path), w) | Some bs \<Rightarrow> (Ret (stream_decode bs), w))"

definition write_file :: "jstr \<Rightarrow> jstr \<Rightarrow> unit cmd" where
  "write_file path s w =
     (if writable w path then (Ret (), w\<lparr>files := (files w)(path \<mapsto> utf8 s)\<rparr>)
      else (Throws (fs_message w path), w))"

definition lift_res :: "'a res \<Rightarrow> 'a cmd" where
  "lift_res r w = (case r of Inl e \<Rightarrow> (Throws e, w) | Inr x \<Rightarrow> (Ret x, w))"

definition parse_json :: "jstr \<Rightarrow> jsval cmd" where
  "parse_json s w = (case JSON_parse s of None \<Rightarrow> (Throws (json_message w s), w) | Some v \<Rightarrow> (Ret v, w))"

definition encrypt_cmd :: "sodium \<Rightarrow> encrypt_opts \<Rightarrow> jsval cmd" where
  "encrypt_cmd so opts w =
     (let (r, e) = encryptVaultV2 so (clock w) opts (entropy w) in lift_res r (w\<lparr>entropy := e\<rparr>))"

definition vault_text :: "jsval \<Rightarrow> jstr" where
  "vault_text v = text_or_undefined (JSON_stringify2 v) @ [10]"

section \<open>lock\<close>

definition help_spec :: opt_spec where
  "help_spec = \<lparr>opt_name = lit ''help'', opt_type_of = OptBoolean, opt_short = Some 0x68\<rparr>"
definition out_spec :: opt_spec where
  "out_spec = \<lparr>opt_name = lit ''out'', opt_type_of = OptString, opt_short = Some 0x6F\<rparr>"
definition mode_spec :: opt_spec where
  "mode_spec = \<lparr>opt_name = lit ''mode'', opt_type_of = OptString, opt_short = None\<rparr>"
definition strength_spec :: opt_spec where
  "strength_spec = \<lparr>opt_name = lit ''strength'', opt_type_of = OptString, opt_short = Some 0x73\<rparr>"

text \<open>
  \<open>LOCK_PRESETS[key]\<close> also finds what every object inherits, none of which has the members of
  a preset.
\<close>

definition object_prototype :: "jstr list" where
  "object_prototype = map lit [''constructor'', ''__defineGetter__'', ''__defineSetter__'', ''hasOwnProperty'',
     ''__lookupGetter__'', ''__lookupSetter__'', ''isPrototypeOf'', ''propertyIsEnumerable'', ''toString'',
     ''valueOf'', ''__proto__'', ''toLocaleString'']"

datatype preset_lookup = Own preset | Inherited | Absent

definition lookup_preset :: "jstr \<Rightarrow> preset_lookup" where
  "lookup_preset key =
     (case map_of LOCK_PRESETS key of
        Some p \<Rightarrow> Own p
      | None \<Rightarrow> if key \<in> set object_prototype then Inherited else Absent)"

fun preset_number :: "(preset \<Rightarrow> int) \<Rightarrow> preset_lookup \<Rightarrow> int option" where
  "preset_number f (Own p) = Some (f p)"
| "preset_number f _ = None"

fun preset_string :: "(preset \<Rightarrow> jstr) \<Rightarrow> preset_lookup \<Rightarrow> jstr" where
  "preset_string f (Own p) = f p"
| "preset_string f _ = lit ''undefined''"

definition lock_opts :: "jstr \<Rightarrow> jstr \<Rightarrow> jstr \<Rightarrow> preset_lookup \<Rightarrow> encrypt_opts" where
  "lock_opts plain phrase mode preset =
     \<lparr>o_plaintext = PtString plain, o_password = JStr phrase, o_mode = JStr mode,
      o_opslimit = preset_number preset_opslimit preset, o_memlimit = preset_number preset_memlimit preset,
      o_salt = None, o_wrapNonce = None, o_contentNonce = None, o_vaultKey = None,
      o_createdAt = None, o_version = None\<rparr>"

definition quoted :: "jstr \<Rightarrow> jstr" where "quoted s = lit squote @ s @ lit squote"

definition lock_output :: "jstr option \<Rightarrow> jsval \<Rightarrow> unit cmd" where
  "lock_output out vault =
     (case out of
        Some path \<Rightarrow>
          bind_cmd (catch_cmd (write_file path (vault_text vault))
            (\<lambda>e. die (lit ''lock: could not write '' @ path @ lit '': '' @ e))) (\<lambda>_.
          write_err (lit ''wrote '' @ path @ [10]))
      | None \<Rightarrow> write_out (vault_text vault))"

text \<open>\<open>values.x || d\<close> and \<open>if (values.out)\<close>: an empty value counts as missing.\<close>

definition nonempty_value :: "jstr option \<Rightarrow> jstr option" where
  "nonempty_value x = (case x of Some [] \<Rightarrow> None | _ \<Rightarrow> x)"

definition cmdLock :: "sodium \<Rightarrow> jstr list \<Rightarrow> unit cmd" where
  "cmdLock so argv =
     bind_cmd (args_cmd [out_spec, mode_spec, strength_spec, help_spec] True argv) (\<lambda>p.
     bind_cmd (when_cmd (flag p ''help'') (usage (Some (lit ''lock'')))) (\<lambda>_.
     bind_cmd (when_cmd (positionals p \<noteq> [])
       (die (lit ''lock: unexpected positional argument '' @ quoted (hd (positionals p))))) (\<lambda>_.
     let mode = str_or (string_value p ''mode'') (lit ''self'');
         strengthKey = str_or (string_value p ''strength'') (lit ''strong'');
         preset = lookup_preset strengthKey
     in
     bind_cmd (when_cmd (mode \<noteq> lit ''self'' \<and> mode \<noteq> lit ''share'')
       (die (lit ''lock: --mode must be '' @ quoted (lit ''self'') @ lit '' or '' @ quoted (lit ''share'')
             @ lit '' (got '' @ quoted mode @ lit '')''))) (\<lambda>_.
     bind_cmd (when_cmd (preset = Absent)
       (die (lit ''lock: --strength must be one of '' @ join (lit '', '') (map fst LOCK_PRESETS)))) (\<lambda>_.
     bind_cmd plaintext_cmd (\<lambda>plaintext.
     bind_cmd (when_cmd (plaintext = [])
       (die (lit ''lock: empty plaintext '' @ [0x2014] @ lit '' nothing to encrypt''))) (\<lambda>_.
     bind_cmd (catch_cmd (prompt_cmd (promptPhraseConfirmed (lit ''Phrase'') (lit ''Phrase (confirm)'')))
       (\<lambda>e. die_or e (lit ''phrase prompt failed''))) (\<lambda>phrase.
     bind_cmd (write_err (lit ''locking with '' @ preset_string preset_label preset @ lit '' preset (''
       @ preset_string preset_hint preset @ lit '') ...'' @ [10])) (\<lambda>_.
     bind_cmd (catch_cmd (encrypt_cmd so (lock_opts plaintext phrase mode preset))
       (\<lambda>e. die_or e (lit ''encryption failed''))) (\<lambda>vault.
     lock_output (nonempty_value (string_value p ''out'')) vault))))))))))"

section \<open>unlock\<close>

definition ends_with_newline :: "jstr \<Rightarrow> bool" where
  "ends_with_newline s = (s \<noteq> [] \<and> last s = 10)"

text \<open>What follows the phrase prompt, here and in \<open>rewrap\<close>, is a definition of its own.\<close>

definition unlock_given :: "sodium \<Rightarrow> jstr \<Rightarrow> jsval \<Rightarrow> jstr \<Rightarrow> unit cmd" where
  "unlock_given so vaultPath vault phrase =
     bind_cmd (catch_cmd (lift_res (decryptVaultV2 so vault (JStr phrase)))
       (explainUnlockFailure vaultPath)) (\<lambda>plaintext.
     bind_cmd (write_out plaintext) (\<lambda>_ w.
     when_cmd (\<not> ends_with_newline plaintext \<and> out_tty w) (write_out [10]) w))"

definition cmdUnlock :: "sodium \<Rightarrow> jstr list \<Rightarrow> unit cmd" where
  "cmdUnlock so argv =
     bind_cmd (args_cmd [help_spec] True argv) (\<lambda>p.
     bind_cmd (when_cmd (flag p ''help'') (usage (Some (lit ''unlock'')))) (\<lambda>_.
     bind_cmd (when_cmd (length (positionals p) \<noteq> 1)
       (die (lit ''unlock: expected exactly one VAULT_FILE argument''))) (\<lambda>_.
     let vaultPath = hd (positionals p) in
     bind_cmd (catch_cmd (read_file vaultPath)
       (\<lambda>e. die (lit ''unlock: could not read '' @ vaultPath @ lit '': '' @ e))) (\<lambda>vaultText.
     bind_cmd (catch_cmd (parse_json vaultText)
       (\<lambda>e. explainUnlockFailure vaultPath (lit ''not valid JSON: '' @ e))) (\<lambda>vault.
     bind_cmd (catch_cmd (prompt_cmd (promptPhrase (lit ''Phrase'')))
       (\<lambda>e. die_or e (lit ''phrase prompt failed''))) (\<lambda>phrase.
     unlock_given so vaultPath vault phrase))))))"

section \<open>rewrap\<close>

definition rewrap_given :: "sodium \<Rightarrow> jstr \<Rightarrow> jstr \<Rightarrow> jsval \<Rightarrow> jstr \<Rightarrow> jstr \<Rightarrow> unit cmd" where
  "rewrap_given so vaultPath outPath vault oldPhrase newPhrase =
     bind_cmd (catch_cmd (lift_res (rewrapVaultV2 so vault (JStr oldPhrase) (JStr newPhrase)))
       (explainUnlockFailure vaultPath)) (\<lambda>rewrapped.
     bind_cmd (catch_cmd (write_file outPath (vault_text rewrapped))
       (\<lambda>e. die (lit ''rewrap: could not write '' @ outPath @ lit '': '' @ e))) (\<lambda>_.
     write_err (lit ''rewrapped phrase; wrote '' @ outPath @ [10])))"

definition cmdRewrap :: "sodium \<Rightarrow> jstr list \<Rightarrow> unit cmd" where
  "cmdRewrap so argv =
     bind_cmd (args_cmd [out_spec, help_spec] True argv) (\<lambda>p.
     bind_cmd (when_cmd (flag p ''help'') (usage (Some (lit ''rewrap'')))) (\<lambda>_.
     bind_cmd (when_cmd (length (positionals p) \<noteq> 1)
       (die (lit ''rewrap: expected exactly one VAULT_FILE argument''))) (\<lambda>_.
     let vaultPath = hd (positionals p);
         outPath = str_or (string_value p ''out'') vaultPath in
     bind_cmd (catch_cmd (read_file vaultPath)
       (\<lambda>e. die (lit ''rewrap: could not read '' @ vaultPath @ lit '': '' @ e))) (\<lambda>vaultText.
     bind_cmd (catch_cmd (parse_json vaultText)
       (\<lambda>e. die (lit ''rewrap: '' @ vaultPath @ lit '' is not valid JSON: '' @ e))) (\<lambda>vault.
     bind_cmd (write_err (lit ''Rewrap rotates the phrase by updating only wrap.wrapped_key.'' @ [10])) (\<lambda>_.
     bind_cmd (write_err (lit ''The content ciphertext is not decrypted or re-encrypted.'' @ [10])) (\<lambda>_.
     bind_cmd (catch_cmd
       (bind_cmd (prompt_cmd (promptPhrase (lit ''Old phrase''))) (\<lambda>old.
        bind_cmd (prompt_cmd (promptPhraseConfirmed (lit ''New phrase'') (lit ''New phrase (confirm)''))) (\<lambda>new.
        return_cmd (old, new))))
       (\<lambda>e. die_or e (lit ''phrase prompt failed''))) (\<lambda>(oldPhrase, newPhrase).
     rewrap_given so vaultPath outPath vault oldPhrase newPhrase))))))))"

section \<open>gen-phrase and self-test\<close>

definition cmdGenPhrase :: "sodium \<Rightarrow> jstr list \<Rightarrow> unit cmd" where
  "cmdGenPhrase so argv =
     bind_cmd (args_cmd [help_spec] False argv) (\<lambda>p.
     bind_cmd (when_cmd (flag p ''help'') (usage (Some (lit ''gen-phrase'')))) (\<lambda>_ w.
     let (phrase, e) = generatePassphrase so (entropy w)
     in write_out (phrase @ [10]) (w\<lparr>entropy := e\<rparr>)))"

definition require :: "bool \<Rightarrow> jstr \<Rightarrow> unit cmd" where
  "require b e w = (if b then (Ret (), w) else (Throws e, w))"

definition library_test :: "sodium \<Rightarrow> unit cmd" where
  "library_test so w = (let (r, e) = runSelfTest so (clock w) (entropy w) in lift_res r (w\<lparr>entropy := e\<rparr>))"

definition vault_steps :: "sodium \<Rightarrow> jsval \<Rightarrow> unit cmd" where
  "vault_steps so vault =
     bind_cmd (lift_res (decryptVaultV2 so vault (JStr test_phrase))) (\<lambda>roundTrip.
     bind_cmd (require (roundTrip = cli_plain) msg_round) (\<lambda>_.
     bind_cmd (tick (lit ''decrypted with the correct phrase'')) (\<lambda>_.
     bind_cmd (require (\<not> is_ok (decryptVaultV2 so vault (JStr (lit ''definitely-wrong-phrase'')))) msg_wrong) (\<lambda>_.
     bind_cmd (tick (lit ''rejected wrong phrase / authentication failure'')) (\<lambda>_.
     bind_cmd (lift_res (tampered_copy vault)) (\<lambda>tampered.
     bind_cmd (require (\<not> is_ok (decryptVaultV2 so tampered (JStr test_phrase))) msg_tamper) (\<lambda>_.
     bind_cmd (tick (lit ''rejected damaged/tampered ciphertext'')) (\<lambda>_.
     bind_cmd (require (\<not> is_ok (decryptVaultV2 so (with_schema vault (lit ''BRY-NFET-SX-VAULT-V99'')) (JStr test_phrase))) msg_schema) (\<lambda>_.
     bind_cmd (tick (lit ''rejected unsupported schema'')) (\<lambda>_.
     bind_cmd (lift_res (rewrapVaultV2 so vault (JStr test_phrase) (JStr cli_new_phrase))) (\<lambda>rewrapped.
     bind_cmd (lift_res (get2 rewrapped ''content'' ''ciphertext'')) (\<lambda>c1.
     bind_cmd (lift_res (get2 vault ''content'' ''ciphertext'')) (\<lambda>c2.
     bind_cmd (require (c1 = c2) msg_content_changed) (\<lambda>_.
     bind_cmd (lift_res (decryptVaultV2 so rewrapped (JStr cli_new_phrase))) (\<lambda>afterRewrap.
     bind_cmd (require (afterRewrap = cli_plain) msg_new_phrase) (\<lambda>_.
     bind_cmd (require (\<not> is_ok (decryptVaultV2 so rewrapped (JStr test_phrase))) msg_old_phrase) (\<lambda>_.
     tick (lit ''rewrapped phrase without changing content ciphertext''))))))))))))))))))"

definition cmdSelfTest :: "sodium \<Rightarrow> jstr list \<Rightarrow> unit cmd" where
  "cmdSelfTest so argv =
     bind_cmd (args_cmd [help_spec] False argv) (\<lambda>p.
     bind_cmd (when_cmd (flag p ''help'') (usage (Some (lit ''self-test'')))) (\<lambda>_.
     bind_cmd (write_err (lit ''qev self-test'' @ [10])) (\<lambda>_.
     catch_cmd
       (bind_cmd (library_test so) (\<lambda>_.
        bind_cmd (tick (lit ''library round-trip, wrong-phrase, and tamper checks passed'')) (\<lambda>_.
        bind_cmd (encrypt_cmd so (quick_opts cli_plain test_phrase)) (\<lambda>vault.
        bind_cmd (lift_res (get vault (lit ''schema''))) (\<lambda>schema.
        bind_cmd (lift_res (to_str schema)) (\<lambda>s.
        bind_cmd (tick (lit ''created '' @ s @ lit '' vault with quick preset'')) (\<lambda>_.
        bind_cmd (vault_steps so vault) (\<lambda>_.
        bind_cmd (write_err (lit ''result: ok'' @ [10])) (\<lambda>_. exit_with 0)))))))))
       (\<lambda>e. bind_cmd (write_err (lit ''result: FAILED'' @ [10])) (\<lambda>_.
             bind_cmd (write_err (lit ''qev: error: '' @ e @ [10])) (\<lambda>_. exit_with 1))))))"

section \<open>The entry point\<close>

text \<open>\<open>/^--(phrase|password|pw)(=|$)/\<close>\<close>

definition phrase_flag :: "jstr \<Rightarrow> bool" where
  "phrase_flag a = list_ex (\<lambda>n. a = lit (''--'' @ n) \<or> starts_with (lit (''--'' @ n @ ''='')) a) [''phrase'', ''password'', ''pw'']"

definition msg_phrase_flag :: jstr where
  "msg_phrase_flag = lit ''phrases are never accepted on the command line '' @ [0x2014]
     @ lit '' they leak to /proc and shell history. Run without --phrase and enter it at the prompt.''"

definition dispatch :: "sodium \<Rightarrow> jstr \<Rightarrow> jstr list \<Rightarrow> unit cmd" where
  "dispatch so subcmd rest =
     (if subcmd = lit ''lock'' then cmdLock so rest
      else if subcmd = lit ''unlock'' then cmdUnlock so rest
      else if subcmd \<in> {lit ''rewrap'', lit ''change-phrase'', lit ''rotate-phrase''} then cmdRewrap so rest
      else if subcmd \<in> {lit ''gen-phrase'', lit ''genphrase''} then cmdGenPhrase so rest
      else if subcmd \<in> {lit ''self-test'', lit ''selftest''} then cmdSelfTest so rest
      else if subcmd \<in> {lit ''version'', lit ''--version'', lit ''-v''} then write_out (lit ''qev '' @ VERSION @ [10])
      else die (lit ''unknown subcommand '' @ quoted subcmd @ lit '' (try '' @ quoted (lit ''qev --help'') @ lit '')''))"

definition qev_main :: "sodium \<Rightarrow> jstr list \<Rightarrow> unit cmd" where
  "qev_main so args =
     bind_cmd (when_cmd (args = [] \<or> hd args = lit ''--help'' \<or> hd args = lit ''-h'') (usage None)) (\<lambda>_.
     bind_cmd (when_cmd (list_ex phrase_flag (tl args)) (die msg_phrase_flag)) (\<lambda>_.
     dispatch so (hd args) (tl args)))"

text \<open>\<open>main().catch(...)\<close>\<close>

definition run_qev :: "sodium \<Rightarrow> jstr list \<Rightarrow> unit cmd" where
  "run_qev so args = catch_cmd (qev_main so args) (\<lambda>e.
     bind_cmd (write_err (lit ''qev: error: '' @ (if e = [] then lit ''Error'' else e) @ [10])) (\<lambda>_. exit_with 1))"

section \<open>Frames\<close>

named_theorems quiet_intros "commands that leave files and standard output alone"

text \<open>Files and standard output are left alone, and the only exit code is 1.\<close>

definition leaves :: "world \<Rightarrow> 'a run \<times> world \<Rightarrow> bool" where
  "leaves w r = (files (snd r) = files w \<and> out_text (snd r) = out_text w \<and> (\<forall>n. fst r = Exits n \<longrightarrow> n = 1))"

definition quiet :: "'a cmd \<Rightarrow> bool" where
  "quiet m = (\<forall>w. leaves w (m w))"

lemma quietD: "quiet m \<Longrightarrow> m w = (r, w') \<Longrightarrow> files w' = files w \<and> out_text w' = out_text w"
  unfolding quiet_def leaves_def by (metis snd_conv)

lemma leaves_after:
  assumes "leaves w (r, w')"
  shows "leaves w' r' \<Longrightarrow> leaves w r'" and "leaves w (Throws e, w')" and "leaves w (Waits, w')"
    and "r = Exits n \<Longrightarrow> leaves w (Exits n, w')"
  using assms by (simp_all add: leaves_def)

lemma quiet_bind [quiet_intros]:
  assumes "quiet m" and "\<And>x. quiet (f x)"
  shows "quiet (bind_cmd m f)"
  unfolding quiet_def
proof
  fix w
  obtain r w' where m: "m w = (r, w')" by (cases "m w")
  then have "leaves w (r, w')" using assms(1) by (metis quiet_def)
  with assms(2) show "leaves w (bind_cmd m f w)"
    by (cases r) (simp_all add: bind_cmd_def m quiet_def leaves_after)
qed

lemma quiet_catch [quiet_intros]:
  assumes "quiet m" and "\<And>e. quiet (h e)"
  shows "quiet (catch_cmd m h)"
  unfolding quiet_def
proof
  fix w
  obtain r w' where m: "m w = (r, w')" by (cases "m w")
  then have "leaves w (r, w')" using assms(1) by (metis quiet_def)
  with assms(2) show "leaves w (catch_cmd m h w)"
    by (cases r) (simp_all add: catch_cmd_def m quiet_def leaves_after)
qed

lemma quiet_basic [quiet_intros]:
  "quiet (return_cmd x)" "quiet (write_err s)" "quiet (exit_with 1)" "quiet (exit_with (Suc 0))" "quiet (args_cmd cfg b argv)"
  "quiet (prompt_cmd pr)" "quiet plaintext_cmd" "quiet (read_file path)" "quiet (lift_res r)"
  "quiet (parse_json s)" "quiet (encrypt_cmd so opts)" "quiet (require b e)" "quiet (library_test so)"
  by (auto simp: quiet_def leaves_def return_cmd_def write_err_def exit_with_def args_cmd_def prompt_cmd_def plaintext_cmd_def
      read_file_def lift_res_def parse_json_def encrypt_cmd_def require_def library_test_def Let_def
      split: sum.splits prod.splits option.splits outcome.splits)

lemma quiet_when [quiet_intros]: "quiet m \<Longrightarrow> quiet (when_cmd b m)"
  by (simp add: when_cmd_def quiet_intros)

lemma quiet_die [quiet_intros]: "quiet (die s)" "quiet (die_or e d)" "quiet (bullet s)" "quiet (tick s)"
  by (simp_all add: die_def die_or_def bullet_def tick_def quiet_intros)

lemma quiet_usage [quiet_intros]: "quiet (usage c)"
  unfolding usage_def by (cases "Option.bind c (map_of usage_lines)") (simp_all add: quiet_intros)

lemma quiet_bullets [quiet_intros]: "quiet (write_bullets bs)"
  by (induction bs) (simp_all add: quiet_intros)

lemma quiet_explain [quiet_intros]: "quiet (explainUnlockFailure path e)"
  unfolding explainUnlockFailure_def Let_def by (intro quiet_intros)

text \<open>A command no run of which returns: it exits with code 1, throws or waits, and is quiet.\<close>

definition never_completes :: "'a cmd \<Rightarrow> bool" where
  "never_completes m = (quiet m \<and> (\<forall>w x. fst (m w) \<noteq> Ret x))"

lemma never_completes_now:
  assumes "never_completes m"
  shows "never_completes (bind_cmd m f)"
proof -
  have "fst (bind_cmd m f w) \<noteq> Ret x \<and> leaves w (bind_cmd m f w)" for w x
  proof -
    obtain r w' where m: "m w = (r, w')" by (cases "m w")
    then have "leaves w (r, w')" "\<forall>x. r \<noteq> Ret x" using assms by (metis never_completes_def quiet_def, metis never_completes_def fst_conv)
    then show ?thesis by (cases r) (auto simp: bind_cmd_def m leaves_after)
  qed
  then show ?thesis by (simp add: never_completes_def quiet_def)
qed

lemma never_completes_later:
  assumes "quiet m" and "\<And>x. never_completes (f x)"
  shows "never_completes (bind_cmd m f)"
proof -
  have "fst (bind_cmd m f w) \<noteq> Ret x" for w x
    using assms(2) by (auto simp: bind_cmd_def never_completes_def split: prod.splits run.splits)
  moreover have "quiet (bind_cmd m f)" using assms by (intro quiet_intros) (simp_all add: never_completes_def)
  ultimately show ?thesis by (simp add: never_completes_def)
qed

section \<open>Locking from the command line\<close>

text \<open>No phrase prompt of a command returns: it is refused on a pipe and waits on a terminal.\<close>

lemma prompt_cmd_run:
  "prompt_cmd (promptPhrase label) w =
     (if isTTY (tty w) then (Waits, w\<lparr>tty := snd (promptPhrase label (tty w))\<rparr>) else (Throws msg_non_tty, w))"
  using phrase_prompt_settled(1) [where label = label and t = "tty w"] phrase_prompt_settled(2) [of "tty w" label]
  by (cases "promptPhrase label (tty w)") (simp add: prompt_cmd_def)

lemma prompt_never:
  "never_completes (catch_cmd (prompt_cmd (promptPhrase label)) (\<lambda>e. die_or e d))"
  "never_completes (catch_cmd (bind_cmd (prompt_cmd (promptPhrase label)) f) (\<lambda>e. die_or e d))"
  by (auto simp: never_completes_def quiet_def leaves_def catch_cmd_def bind_cmd_def prompt_cmd_run die_or_def die_def
      write_err_def exit_with_def split: if_splits)

lemma lock_never: "never_completes (cmdLock so argv)"
  unfolding cmdLock_def Let_def confirmed_never_settles [abs_def]
  by (intro never_completes_later never_completes_now [OF prompt_never(1)] quiet_intros)

lemma unlock_never: "never_completes (cmdUnlock so argv)"
  unfolding cmdUnlock_def Let_def by (intro never_completes_later never_completes_now [OF prompt_never(1)] quiet_intros)

lemma rewrap_never: "never_completes (cmdRewrap so argv)"
  unfolding cmdRewrap_def Let_def
  by (intro never_completes_later never_completes_now [OF prompt_never(2)] quiet_intros)

section \<open>Reading back what was written\<close>

lemma vault_text_file: "wf_val v \<Longrightarrow> vault_text v = json_file v"
  unfolding vault_text_def json_file_def JSON_stringify2_def text_or_undefined_def text_of_def
  using json_str_Some [of v "[0x20, 0x20]" "[]"] by auto

lemma wf16_vault_text: "wf_val v \<Longrightarrow> wf16 (vault_text v)"
  by (simp add: vault_text_file json_file_def wf16_snoc wf16_indented wf16_Cons)

lemma vault_text_read: "wf_val v \<Longrightarrow> JSON_parse (stream_decode (utf8 (vault_text v))) = Some v"
  using wf16_vault_text [of v] by (simp add: stream_decode_utf8) (simp add: vault_text_file JSON_parse_json_file)

interpretation vault_files: codec wf_val "\<lambda>v. utf8 (vault_text v)" "\<lambda>bs. parse_text (stream_decode bs)"
  by unfold_locales (simp add: parse_text_def vault_text_read)

definition operand :: "jstr \<Rightarrow> bool" where
  "operand a = (case a of [] \<Rightarrow> True | c # cs \<Rightarrow> c \<noteq> dash \<or> cs = [])"

lemma parse_operand: "operand a \<Longrightarrow> parseArgs cfg True [a] = Inr \<lparr>opt_values = [], positionals = [a]\<rparr>"
  by (cases a) (auto simp: operand_def parseArgs_def split: list.splits)

text \<open>Running a sequence whose first part returns.\<close>

lemma bind_Ret: "m w = (Ret x, w') \<Longrightarrow> bind_cmd m f w = f x w'"
  by (simp add: bind_cmd_def)

lemma bind_Exits: "m w = (Exits n, w') \<Longrightarrow> bind_cmd m f w = (Exits n, w')"
  by (simp add: bind_cmd_def)

lemma catch_Ret: "m w = (Ret x, w') \<Longrightarrow> catch_cmd m h w = (Ret x, w')"
  by (simp add: catch_cmd_def)

lemma catch_Throws: "m w = (Throws e, w') \<Longrightarrow> catch_cmd m h w = h e w'"
  by (simp add: catch_cmd_def)

lemma when_False [simp]: "when_cmd False m w = (Ret (), w)"
  by (simp add: when_cmd_def return_cmd_def)

lemma when_True [simp]: "when_cmd True m = m"
  by (simp add: when_cmd_def)

lemma step_simps:
  "write_out s w = (Ret (), w\<lparr>out_text := out_text w @ s\<rparr>)"
  "write_err s w = (Ret (), w\<lparr>tty := (tty w)\<lparr>err_text := err_text (tty w) @ s\<rparr>\<rparr>)"
  "exit_with n w = (Exits n, w)"
  by (simp_all add: write_out_def write_err_def exit_with_def)

lemma run_die: "die msg w = (Exits 1, w\<lparr>tty := (tty w)\<lparr>err_text := err_text (tty w) @ lit ''qev: error: '' @ msg @ [10]\<rparr>\<rparr>)"
  by (simp add: die_def bind_cmd_def step_simps)

lemma unlock_run:
  assumes "operand path" and "files w path = Some (utf8 (vault_text v))" and "wf_val v"
  shows "cmdUnlock so [path] w =
    bind_cmd (catch_cmd (prompt_cmd (promptPhrase (lit ''Phrase''))) (\<lambda>e. die_or e (lit ''phrase prompt failed'')))
      (unlock_given so path v) w"
proof -
  have a: "args_cmd [help_spec] True [path] w = (Ret \<lparr>opt_values = [], positionals = [path]\<rparr>, w)"
    by (simp add: args_cmd_def parse_operand [OF assms(1)])
  have r: "catch_cmd (read_file path) h w = (Ret (stream_decode (utf8 (vault_text v))), w)" for h
    by (rule catch_Ret) (simp add: read_file_def assms(2))
  have j: "catch_cmd (parse_json (stream_decode (utf8 (vault_text v)))) h w = (Ret v, w)" for h
    by (rule catch_Ret) (simp add: parse_json_def vault_text_read [OF assms(3)])
  show ?thesis
    unfolding cmdUnlock_def Let_def
    by (simp add: bind_cmd_def a flag_def r j)
qed

section \<open>Properties\<close>

definition sample_terminal :: "chunk list \<Rightarrow> terminal" where
  "sample_terminal cs = \<lparr>isTTY = True, isRaw = False, listening = False, flowing = False, pending_chunks = cs, err_text = []\<rparr>"

definition sample_world :: "terminal \<Rightarrow> (jstr \<Rightarrow> bytes option) \<Rightarrow> world" where
  "sample_world t fs = \<lparr>tty = t, out_text = [], out_tty = False, files = fs, writable = (\<lambda>_. True),
     fs_message = (\<lambda>_. []), json_message = (\<lambda>_. []), fault_message = (\<lambda>_. []), entropy = (\<lambda>_. 0), clock = []\<rparr>"

text \<open>
  A phrase on the command line (\<open>--phrase\<close>, \<open>--password\<close> or \<open>--pw\<close>, with or without a
  value, after any subcommand) stops the program with exit code 1 before anything else
  happens: no prompt, no file, no output, and the flag's value is not repeated.
\<close>

theorem phrase_flag_refused:
  assumes "args \<noteq> []" and "hd args \<notin> {lit ''--help'', lit ''-h''}" and "list_ex phrase_flag (tl args)"
  shows "run_qev so args w =
    (Exits 1, w\<lparr>tty := (tty w)\<lparr>err_text := err_text (tty w) @ lit ''qev: error: '' @ msg_phrase_flag @ [10]\<rparr>\<rparr>)"
  using assms by (simp add: run_qev_def qev_main_def bind_cmd_def catch_cmd_def run_die)

theorem phrase_flag_refused_witness:
  "\<forall>w. fst (run_qev toy_sodium [lit ''unlock'', lit ''f'', lit ''--phrase=pw''] w) = Exits 1"
proof -
  have "phrase_flag (lit ''--phrase=pw'')" by (simp add: phrase_flag_def lit_def)
  then show ?thesis using phrase_flag_refused [of "[lit ''unlock'', lit ''f'', lit ''--phrase=pw'']" toy_sodium] by simp
qed


text \<open>The commands that ask for a phrase.\<close>

definition phrase_commands :: "jstr set" where
  "phrase_commands = lit ` {''lock'', ''unlock'', ''rewrap'', ''change-phrase'', ''rotate-phrase''}"

lemma dispatch_never:
  assumes "subcmd \<in> phrase_commands"
  shows "never_completes (dispatch so subcmd argv)"
proof -
  have "dispatch so subcmd argv \<in> {cmdLock so argv, cmdUnlock so argv, cmdRewrap so argv}"
    using assms by (auto simp: phrase_commands_def dispatch_def)
  then show ?thesis using lock_never unlock_never rewrap_never by auto
qed

lemma phrase_command_runs:
  assumes "subcmd \<in> phrase_commands"
  shows "fst (run_qev so (subcmd # argv) w) \<in> {Exits 1, Waits} \<and> leaves w (run_qev so (subcmd # argv) w)"
proof -
  have "subcmd \<notin> {lit ''--help'', lit ''-h''}" using assms by (auto simp: phrase_commands_def)
  then have q: "never_completes (qev_main so (subcmd # argv))"
    unfolding qev_main_def by (simp, intro never_completes_later dispatch_never [OF assms] quiet_intros)
  obtain r w' where m: "qev_main so (subcmd # argv) w = (r, w')" by (cases "qev_main so (subcmd # argv) w")
  then have "leaves w (r, w')" "\<forall>x. r \<noteq> Ret x"
    using q by (metis never_completes_def quiet_def, metis never_completes_def fst_conv)
  then show ?thesis by (cases r) (auto simp: run_qev_def catch_cmd_def m bind_cmd_def step_simps leaves_def)
qed

text \<open>
  C39: No command that asks for a phrase ever succeeds. However \<open>lock\<close>, \<open>unlock\<close> and \<open>rewrap\<close>
  (under any of its names) are called, on whatever input, the program exits with code 1 or
  waits for ever; it writes no file and prints nothing on standard output. In particular
  \<open>qev unlock\<close> of a readable vault file waits at the prompt of a terminal, in raw mode, and
  elsewhere exits with the message of the refused prompt.
\<close>

theorem phrase_commands_never_complete:
  assumes "subcmd \<in> phrase_commands"
  shows "fst (run_qev so (subcmd # argv) w) \<in> {Exits 1, Waits} \<and>
    files (snd (run_qev so (subcmd # argv) w)) = files w \<and> out_text (snd (run_qev so (subcmd # argv) w)) = out_text w \<and>
    (operand path \<longrightarrow> files w path = Some (utf8 (vault_text v)) \<longrightarrow> wf_val v \<longrightarrow>
      (case cmdUnlock so [path] w of (r, w') \<Rightarrow>
        if isTTY (tty w) then r = Waits \<and> isRaw (tty w') \<and> listening (tty w')
        else r = Exits 1 \<and> err_text (tty w') = err_text (tty w) @ lit ''qev: error: '' @ msg_non_tty @ [10]))"
proof -
  have "case cmdUnlock so [path] w of (r, w') \<Rightarrow>
      if isTTY (tty w) then r = Waits \<and> isRaw (tty w') \<and> listening (tty w')
      else r = Exits 1 \<and> err_text (tty w') = err_text (tty w) @ lit ''qev: error: '' @ msg_non_tty @ [10]"
    if "operand path" and "files w path = Some (utf8 (vault_text v))" and "wf_val v"
    unfolding unlock_run [OF that] using phrase_prompt_settled(3) [of "tty w" "lit ''Phrase''"]
    by (simp add: bind_cmd_def catch_cmd_def prompt_cmd_run die_or_def run_die msg_non_tty_def lit_hd)
  with phrase_command_runs [OF assms, of so argv w] show ?thesis by (auto simp: leaves_def)
qed

theorem phrase_commands_never_complete_witness:
  "\<exists>v. fst (cmdUnlock toy_sodium [lit ''f''] (sample_world (sample_terminal [Buffer [0x70, 0x77, 0x0D]]) (\<lambda>_. Some (utf8 (vault_text v))))) = Waits \<and>
     decryptVaultV2 toy_sodium v (JStr (lit ''pw'')) = Inr (lit ''hi'')"
proof -
  obtain v where v: "wf_val v" "decryptVaultV2 toy_sodium v (JStr (lit ''pw'')) = Inr (lit ''hi'')" by (rule sample_unlock)
  let ?w = "sample_world (sample_terminal [Buffer [0x70, 0x77, 0x0D]]) (\<lambda>_. Some (utf8 (vault_text v)))"
  have "lit ''unlock'' \<in> phrase_commands" "operand (lit ''f'')" by (simp_all add: phrase_commands_def operand_def lit_def)
  moreover have "files ?w (lit ''f'') = Some (utf8 (vault_text v))" "isTTY (tty ?w)" by (simp_all add: sample_world_def sample_terminal_def)
  ultimately show ?thesis
    using phrase_commands_never_complete [of "lit ''unlock''" toy_sodium "[lit ''f'']" ?w "lit ''f''" v] v
    by (intro exI [of _ v]) (simp split: prod.splits)
qed

section \<open>Every unlock error is explained\<close>

definition lower_char :: "char \<Rightarrow> char" where
  "lower_char c = (if 65 \<le> (of_char c :: nat) \<and> of_char c \<le> (90 :: nat) then char_of (of_char c + (32 :: nat)) else c)"

lemma lower1_lit: "(of_char c :: nat) < 128 \<Longrightarrow> lower1 (unit_of c) = lit [lower_char c]"
proof -
  assume c: "(of_char c :: nat) < 128"
  have u: "unit_of c = of_nat (of_char c)" by (simp add: unit_of_def)
  have le: "0x41 \<le> unit_of c \<longleftrightarrow> 65 \<le> (of_char c :: nat)" "unit_of c \<le> 0x5A \<longleftrightarrow> (of_char c :: nat) \<le> 90"
    by (simp_all add: word_le_nat_alt)
  have ne: "unit_of c \<noteq> 0x212A" "unit_of c \<noteq> 0x0130"
    using c by (auto simp: word_unat_eq_iff)
  show ?thesis
  proof (cases "65 \<le> (of_char c :: nat) \<and> (of_char c :: nat) \<le> 90")
    case True
    then have "(of_char (char_of (of_char c + (32 :: nat)) :: char) :: nat) = of_char c + 32"
      by (simp add: of_char_of)
    then have "unit_of (char_of (of_char c + (32 :: nat))) = unit_of c + 32"
      by (simp only: unit_of_def of_nat_add of_nat_numeral)
    then show ?thesis using True by (simp add: lower1_def le lower_char_def lit_def)
  next
    case False
    then have "\<not> (0x41 \<le> unit_of c \<and> unit_of c \<le> 0x5A)" by (simp add: le)
    then show ?thesis using False ne by (auto simp: lower1_def lower_char_def lit_def)
  qed
qed

lemma toLowerCase_lit: "list_all (\<lambda>c. (of_char c :: nat) < 128) s \<Longrightarrow> toLowerCase (lit s) = lit (map lower_char s)"
proof (induction s)
  case (Cons c s)
  have "toLowerCase (lit (c # s)) = lower1 (unit_of c) @ toLowerCase (lit s)"
    by (simp add: toLowerCase_def lit_def)
  then show ?case using Cons by (simp add: lower1_lit) (simp add: lit_def)
qed (simp add: toLowerCase_def)

lemma toLowerCase_append: "toLowerCase (s @ t) = toLowerCase s @ toLowerCase t"
  by (simp add: toLowerCase_def)

definition all_patterns :: "string list" where
  "all_patterns = [''not valid json'', ''json'', ''unsupported vault schema'', ''unsupported schema'', ''unsupported kdf'',
     ''unsupported wrap'', ''unsupported content'', ''unsupported algorithm'', ''vault malformed'', ''missing'', ''length'',
     ''too large'', ''invalid character'', ''out of range'', ''wrong phrase'', ''tampered vault'', ''could not decrypt'',
     ''authentication'', ''old phrase'', ''utf-8'']"

lemma classify_unknown: "classify e = Unknown_error \<longleftrightarrow> \<not> includes_any (toLowerCase e) all_patterns"
  by (simp add: classify_def Let_def includes_any_def all_patterns_def)

lemma recognised:
  assumes "p \<in> set all_patterns" and "list_all (\<lambda>c. (of_char c :: nat) < 128) m" and "str_includes (map lower_char m) p"
  shows "classify (lit m @ t) \<noteq> Unknown_error"
proof -
  have "str_includes (toLowerCase (lit m @ t)) (lit p)"
    using assms(2,3) by (simp add: toLowerCase_append toLowerCase_lit includes_append str_includes_lits)
  then show ?thesis using assms(1) by (auto simp: classify_unknown includes_any_def list_ex_iff)
qed

definition explained :: "jstr \<Rightarrow> bool" where
  "explained e = (classify e \<noteq> Unknown_error \<or> e = msg_to_primitive)"

lemma str_includes_code [simp]:
  "str_includes [] p = (p = [])"
  "str_includes (c # cs) p = (starts_with p (c # cs) \<or> str_includes cs p)"
  by (auto simp: str_includes_def)

lemma malformed_explained: "explained (malformed m)" "explained (lit (''Vault malformed: '' @ m) @ t)"
proof -
  have "classify (lit ''Vault malformed: '' @ u) \<noteq> Unknown_error" for u
    by (rule recognised [of "''vault malformed''"]) (simp_all add: all_patterns_def, code_simp)
  then show "explained (malformed m)" "explained (lit (''Vault malformed: '' @ m) @ t)"
    unfolding explained_def malformed_def lit_append append_assoc by blast+
qed

lemma unsupported_explained:
  "classify (lit ''Unsupported vault schema: '' @ t) \<noteq> Unknown_error"
  "classify (lit ''Unsupported KDF algorithm: '' @ t) \<noteq> Unknown_error"
  "classify (lit ''Unsupported wrap AEAD algorithm: '' @ t) \<noteq> Unknown_error"
  "classify (lit ''Unsupported content AEAD algorithm: '' @ t) \<noteq> Unknown_error"
  by (rule recognised [of "''unsupported vault schema''"] recognised [of "''unsupported kdf''"]
      recognised [of "''unsupported wrap''"] recognised [of "''unsupported content''"];
    (simp add: all_patterns_def; fail)?; (code_simp; fail)?)+

lemma range_explained:
  "classify (lit ''KDF opslimit out of range ('' @ t) \<noteq> Unknown_error"
  "classify (lit ''KDF memlimit out of range ('' @ t) \<noteq> Unknown_error"
  "classify (lit ''Vault too large (max '' @ t) \<noteq> Unknown_error"
  by (rule recognised [of "''out of range''"] recognised [of "''too large''"];
    (simp add: all_patterns_def; fail)?; (code_simp; fail)?)+

lemma classify_lits:
  "list_all (\<lambda>c. (of_char c :: nat) < 128) m \<Longrightarrow>
   classify (lit m) =
     (let lower = map lower_char m; inc = (\<lambda>ps. list_ex (str_includes lower) ps)
      in if inc [''not valid json'', ''json''] then Malformed_file
         else if inc [''unsupported vault schema'', ''unsupported schema'', ''unsupported kdf'',
             ''unsupported wrap'', ''unsupported content'', ''unsupported algorithm''] then Unsupported_format
         else if inc [''vault malformed'', ''missing'', ''length'', ''too large'',
             ''invalid character'', ''out of range''] then Damaged_vault
         else if inc [''wrong phrase'', ''tampered vault'', ''could not decrypt'', ''authentication'',
             ''old phrase''] then Authentication_failed
         else if inc [''utf-8''] then Not_utf8
         else Unknown_error)"
  unfolding classify_def Let_def includes_any_def by (simp add: toLowerCase_lit str_includes_lits)

lemma classify_messages:
  "classify msg_wrong_phrase = Authentication_failed" "classify msg_content_tampered = Authentication_failed"
  "classify msg_not_utf8 = Not_utf8" "classify msg_b64_invalid = Damaged_vault"
  "classify msg_rewrap_wrong = Authentication_failed" "classify msg_rewrap_same = Authentication_failed"
  "classify (lit ''Unsupported vault schema: json'') = Malformed_file"
  unfolding msg_wrong_phrase_def msg_content_tampered_def msg_not_utf8_def msg_b64_invalid_def
    msg_rewrap_wrong_def msg_rewrap_same_def
  by (subst classify_lits; (code_simp; fail)?)+

lemma throw_explained:
  assumes "throw_with (lit p) v suf = Inl e" and "\<And>t. classify (lit p @ t) \<noteq> Unknown_error"
  shows "explained e"
  using throw_with_error [OF assms(1)] assms(2) by (auto simp: explained_def)

lemma kdf_explained: "enforceKdfCaps kdf = Inl e \<Longrightarrow> explained e"
  unfolding enforceKdfCaps_def throw_if_Inl_iff
  by (elim disjE conjE; (simp add: malformed_explained)?)
    (auto simp: throw_if_Inl_iff malformed_explained msg_opslimit_range_def msg_memlimit_range_def
      explained_def [of "lit ''KDF opslimit out of range ('' @ t" for t]
      explained_def [of "lit ''KDF memlimit out of range ('' @ t" for t] range_explained
      intro: throw_explained [OF _ unsupported_explained(2)] split: if_splits)

lemma section_explained:
  assumes "check_section name payload s = Inl e" and "name = ''wrap'' \<or> name = ''content''"
  shows "explained e"
proof -
  have m: "throw_with (lit (''Unsupported '' @ name @ '' AEAD algorithm: '')) v [] = Inl e \<Longrightarrow> explained e" for v
    using assms(2) throw_explained [OF _ unsupported_explained(3)] throw_explained [OF _ unsupported_explained(4)] by auto
  show ?thesis using assms(1) unfolding check_section_def throw_if_Inl_iff
    by (elim disjE conjE; (simp add: malformed_explained)?)
      (auto simp: throw_if_Inl_iff malformed_explained intro: m split: if_splits)
qed

lemma schema_prefix: "lit (''Unsupported vault schema: '' @ dquote) = lit ''Unsupported vault schema: '' @ lit dquote"
  by (rule lit_append)

lemma schema_explained:
  "throw_with (lit (''Unsupported vault schema: '' @ dquote)) v suf = Inl e \<Longrightarrow> explained e"
  unfolding schema_prefix
  using throw_with_error [of "lit ''Unsupported vault schema: '' @ lit dquote" v suf e] unsupported_explained(1)
  by (auto simp: explained_def)

lemma validate_explained: "validateVaultSchemaV2 v = Inl e \<Longrightarrow> explained e"
  unfolding validateVaultSchemaV2_def throw_if_Inl_iff
  by (elim disjE conjE; (simp add: malformed_explained)?)
    (auto simp: throw_if_Inl_iff bind_res_Inl_iff malformed_explained msg_mode_CLI_def
      intro: schema_explained kdf_explained section_explained split: if_splits)

lemma parts_explained: "wf_vault_v2 v \<Longrightarrow> decode_parts v = Inl e \<Longrightarrow> explained e"
proof -
  assume wf: "wf_vault_v2 v" and e: "decode_parts v = Inl e"
  have b: "b64_member v a k = Inl f \<Longrightarrow> f = msg_b64_invalid"
    if "is_object (fld v a)" "nonempty_str (fld (fld v a) k)" for a k f
    using that wf_vault_sections(1) [OF wf]
    by (auto simp: b64_member_def get2_object b64urlDecode_Inl_iff elim: nonempty_strE)
  have "b64_member v ''kdf'' ''salt'' = Inl f \<Longrightarrow> f = msg_b64_invalid"
    "b64_member v ''wrap'' ''nonce'' = Inl f \<Longrightarrow> f = msg_b64_invalid"
    "b64_member v ''wrap'' ''wrapped_key'' = Inl f \<Longrightarrow> f = msg_b64_invalid"
    "b64_member v ''content'' ''nonce'' = Inl f \<Longrightarrow> f = msg_b64_invalid"
    "b64_member v ''content'' ''ciphertext'' = Inl f \<Longrightarrow> f = msg_b64_invalid" for f
    using wf b [of "''kdf''" "''salt''" f] b [of "''wrap''" "''nonce''" f] b [of "''wrap''" "''wrapped_key''" f]
      b [of "''content''" "''nonce''" f] b [of "''content''" "''ciphertext''" f]
    by (simp_all add: wf_vault_v2_def wf_kdf_def wf_section_def)
  moreover have "explained (msg_wrapped_key_length x)" for x
    using malformed_explained(2) [of "''wrapped_key length (got ''"] by (simp add: msg_wrapped_key_length_def malformed_def)
  moreover have "explained msg_b64_invalid" "explained msg_too_large"
    using range_explained(3) by (simp_all add: explained_def classify_messages msg_too_large_def)
  ultimately show ?thesis using e
    by (auto simp: decode_parts_def bind_res_Inl_iff throw_if_Inl_iff malformed_explained)
qed

text \<open>
  For every way a non-empty phrase can fail to open a vault, \<open>explainUnlockFailure\<close> knows
  the category: "unknown unlock error" is only printed when a field that cannot be turned
  into a string broke the error message itself.
\<close>

lemma decrypt_explained:
  assumes "kdf_works so" and "nonempty_str pw" and "decryptVaultV2 so v pw = Inl e"
  shows "explained e"
  using assms(1,3)
proof (cases rule: decrypt_errorE)
  case Invalid
  then obtain f where "validateVaultSchemaV2 v = Inl f"
    using validate_ok [of v "()"] by (cases "validateVaultSchemaV2 v") auto
  moreover have "f = e" using assms(3) calculation by (simp add: decryptVaultV2_def)
  ultimately show ?thesis using validate_explained by simp
next
  case Bad_parts
  then show ?thesis using parts_explained by blast
next
  case (Opening p k aad)
  have "explained msg_vault_key_size"
    using malformed_explained(2) [of "''unwrapped vault_key is not ''"] by (simp add: msg_vault_key_size_def malformed_def)
  with Opening(6) show ?thesis by (auto simp: explained_def classify_messages)
qed (use assms(2) in simp)

section \<open>What a given phrase makes of a vault\<close>

text \<open>The report \<open>explainUnlockFailure\<close> prints, as one text.\<close>

definition failure_report :: "jstr \<Rightarrow> jstr \<Rightarrow> category \<Rightarrow> jstr" where
  "failure_report path detail cat = lit ''qev: unlock failed: '' @ path @ [10] @ lit ''category: '' @ lit (category_text cat) @ [10]
     @ concat (map (\<lambda>b. lit ''  - '' @ lit b @ [10]) (category_bullets cat)) @ lit ''technical detail: '' @ detail @ [10]"

definition complaining :: "world \<Rightarrow> jstr \<Rightarrow> world" where
  "complaining w s = w\<lparr>tty := (tty w)\<lparr>err_text := err_text (tty w) @ s\<rparr>\<rparr>"

lemma complaining_simps:
  "write_err s w = (Ret (), complaining w s)" "complaining (complaining w s) t = complaining w (s @ t)"
  "files (complaining w s) = files w" "out_text (complaining w s) = out_text w"
  "die m w = (Exits 1, complaining w (lit ''qev: error: '' @ m @ [10]))" "complaining w [] = w"
  by (simp_all add: complaining_def step_simps run_die)

lemma write_bullets_run:
  "write_bullets bs w = (Ret (), complaining w (concat (map (\<lambda>b. lit ''  - '' @ lit b @ [10]) bs)))"
  by (induction bs arbitrary: w) (simp_all add: return_cmd_def bullet_def bind_cmd_def complaining_simps)

lemma explain_run:
  "e \<noteq> [] \<Longrightarrow> explainUnlockFailure path e w = (Exits 1, complaining w (failure_report path e (classify e)))"
  by (simp add: explainUnlockFailure_def Let_def bind_cmd_def complaining_simps write_bullets_run failure_report_def step_simps(3))

lemma decrypt_error_text:
  assumes "kdf_works so" and "nonempty_str pw" and "decryptVaultV2 so v pw = Inl e"
  shows "e \<noteq> []"
proof
  assume "e = []"
  moreover have "explained e" by (rule decrypt_explained [OF assms])
  ultimately show False
    by (simp add: explained_def classify_def toLowerCase_def includes_any_def msg_to_primitive_def lit_hd lit_def)
qed

text \<open>
  C10: What \<open>qev unlock\<close> does once it has a phrase. If the vault opens, exactly the message is
  printed, with a newline after it when standard output is a terminal and the message does
  not end in one, and the command returns; otherwise it exits with code 1, prints nothing on
  standard output and reports the error in full on standard error under its category, which
  is known for every error but a field that cannot be turned into a string, and is the
  failed authentication for a wrong phrase and for a broken seal. Nothing else changes.
\<close>

theorem unlock_given_outcome:
  assumes "kdf_works so" and "phrase \<noteq> []"
  shows "case decryptVaultV2 so v (JStr phrase) of
      Inr m \<Rightarrow> unlock_given so path v phrase w =
        (Ret (), w\<lparr>out_text := out_text w @ m @ (if out_tty w \<and> (m = [] \<or> last m \<noteq> 10) then [10] else [])\<rparr>)
    | Inl e \<Rightarrow> \<exists>cat. unlock_given so path v phrase w = (Exits 1, complaining w (failure_report path e cat)) \<and>
        (cat = Unknown_error \<longrightarrow> e = msg_to_primitive) \<and>
        (e \<in> {msg_wrong_phrase, msg_content_tampered} \<longrightarrow> cat = Authentication_failed) \<and>
        (e = msg_not_utf8 \<longrightarrow> cat = Not_utf8)"
proof (cases "decryptVaultV2 so v (JStr phrase)")
  case (Inl e)
  have n: "nonempty_str (JStr phrase)" using assms(2) by (simp add: nonempty_str_def)
  have "unlock_given so path v phrase w = (Exits 1, complaining w (failure_report path e (classify e)))"
    by (simp add: unlock_given_def bind_cmd_def catch_cmd_def lift_res_def Inl explain_run decrypt_error_text [OF assms(1) n Inl])
  then show ?thesis
    using decrypt_explained [OF assms(1) n Inl] classify_messages
    by (auto simp: Inl explained_def intro!: exI [of _ "classify e"])
next
  case (Inr m)
  then show ?thesis
    by (simp add: unlock_given_def bind_cmd_def catch_cmd_def lift_res_def step_simps when_cmd_def return_cmd_def
        ends_with_newline_def)
qed

theorem unlock_given_outcome_witness:
  "\<exists>v w. unlock_given toy_sodium (lit ''f'') v (lit ''pw'') w = (Ret (), w\<lparr>out_text := out_text w @ lit ''hi''\<rparr>) \<and>
     decryptVaultV2 toy_sodium v (JStr (lit ''pw'')) = Inr (lit ''hi'')"
proof -
  obtain v where v: "decryptVaultV2 toy_sodium v (JStr (lit ''pw'')) = Inr (lit ''hi'')" by (rule sample_unlock)
  let ?w = "sample_world (sample_terminal []) (\<lambda>_. None)"
  have "lit ''pw'' \<noteq> []" "\<not> out_tty ?w" by (simp_all add: lit_def sample_world_def)
  with unlock_given_outcome [OF sodium_okD(1) [OF toy_sodium_ok], where phrase = "lit ''pw''" and v = v and path = "lit ''f''" and w = ?w] v show ?thesis
    by (intro exI [of _ v] exI [of _ ?w]) simp
qed

end
