(* ===== verification/Cli_Rewrap.thy ===== *)
theory Cli_Rewrap
  imports Cli
begin

text \<open>What \<open>qev rewrap\<close> does to the vault file, and what its option lookup accepts.\<close>

lemma explain_any:
  "explainUnlockFailure path e w =
    (Exits 1, complaining w (failure_report path (if e = [] then lit ''Error'' else e) (classify (if e = [] then lit ''Error'' else e))))"
  by (simp add: explainUnlockFailure_def Let_def bind_cmd_def complaining_simps write_bullets_run failure_report_def step_simps(3))

text \<open>
  C11: What \<open>qev rewrap\<close> does once it has the phrases of a vault that opens under the old one.
  Under another non-empty phrase the output file is replaced by a vault, and by nothing else,
  which the command line reads back and \<open>unlock\<close> opens to the same message under the new phrase
  (a file that cannot be written makes it exit with code 1). For whatever vault and phrases,
  an error of the rewrap is reported in full with exit code 1, no file is touched, and
  standard output stays empty in every case.
\<close>

theorem rewrap_given_outcome:
  assumes "kdf_works so" and "aead_works so" and "wf_val v" and "decryptVaultV2 so v (JStr old) = Inr m"
  shows "(new \<noteq> [] \<longrightarrow> new \<noteq> old \<longrightarrow> writable w out \<longrightarrow>
      (\<exists>v'. rewrap_given so path out v old new w =
          (Ret (), complaining (w\<lparr>files := (files w)(out \<mapsto> utf8 (vault_text v'))\<rparr>) (lit ''rewrapped phrase; wrote '' @ out @ [10])) \<and>
        JSON_parse (stream_decode (utf8 (vault_text v'))) = Some v' \<and> decryptVaultV2 so v' (JStr new) = Inr m)) \<and>
    (new \<noteq> [] \<longrightarrow> new \<noteq> old \<longrightarrow> \<not> writable w out \<longrightarrow>
      rewrap_given so path out v old new w =
        (Exits 1, complaining w (lit ''qev: error: rewrap: could not write '' @ out @ lit '': '' @ fs_message w out @ [10]))) \<and>
    (\<forall>u o' n' e. rewrapVaultV2 so u (JStr o') (JStr n') = Inl e \<longrightarrow>
      rewrap_given so path out u o' n' w =
        (Exits 1, complaining w (failure_report path (if e = [] then lit ''Error'' else e) (classify (if e = [] then lit ''Error'' else e)))))"
proof (intro conjI impI allI)
  fix u o' n' e assume "rewrapVaultV2 so u (JStr o') (JStr n') = Inl e"
  then show "rewrap_given so path out u o' n' w =
      (Exits 1, complaining w (failure_report path (if e = [] then lit ''Error'' else e) (classify (if e = [] then lit ''Error'' else e))))"
    by (simp add: rewrap_given_def bind_cmd_def catch_cmd_def lift_res_def explain_any)
next
  assume n: "new \<noteq> []" "new \<noteq> old"
  have ne: "nonempty_str (JStr new)" "JStr old \<noteq> JStr new" using n by (simp_all add: nonempty_str_def)
  obtain wk where r: "rewrapVaultV2 so v (JStr old) (JStr new) = Inr (with_wrapped_key v wk)"
    "decryptVaultV2 so (with_wrapped_key v wk) (JStr new) = Inr m"
    by (rule rewrap_total [OF assms ne])
  have "wf_vault_v2 v" using assms(4) by (simp add: decrypt_Inr)
  then have wf: "wf_val (with_wrapped_key v wk)" by (rule with_wrapped_key_wf_val [OF _ assms(3)])
  show "\<exists>v'. rewrap_given so path out v old new w =
        (Ret (), complaining (w\<lparr>files := (files w)(out \<mapsto> utf8 (vault_text v'))\<rparr>) (lit ''rewrapped phrase; wrote '' @ out @ [10])) \<and>
      JSON_parse (stream_decode (utf8 (vault_text v'))) = Some v' \<and> decryptVaultV2 so v' (JStr new) = Inr m"
    if "writable w out"
    using that r vault_text_read [OF wf]
    by (intro exI [of _ "with_wrapped_key v wk"])
      (simp add: rewrap_given_def bind_cmd_def catch_cmd_def lift_res_def write_file_def complaining_simps)
  show "rewrap_given so path out v old new w =
      (Exits 1, complaining w (lit ''qev: error: rewrap: could not write '' @ out @ lit '': '' @ fs_message w out @ [10]))"
    if "\<not> writable w out"
    using that r(1)
    by (simp add: rewrap_given_def bind_cmd_def catch_cmd_def lift_res_def write_file_def complaining_simps)
      (simp add: lit_def)
qed

theorem rewrap_given_outcome_witness:
  "\<exists>v w v'. files (snd (rewrap_given toy_sodium (lit ''f'') (lit ''g'') v (lit ''pw'') (lit ''qx'') w)) (lit ''g'') =
      Some (utf8 (vault_text v')) \<and> decryptVaultV2 toy_sodium v' (JStr (lit ''qx'')) = Inr (lit ''hi'')"
proof -
  obtain v where v: "wf_val v" "decryptVaultV2 toy_sodium v (JStr (lit ''pw'')) = Inr (lit ''hi'')" by (rule sample_unlock)
  let ?w = "sample_world (sample_terminal []) (\<lambda>_. Some (utf8 (vault_text v)))"
  have "lit ''qx'' \<noteq> []" "lit ''qx'' \<noteq> lit ''pw''" "writable ?w (lit ''g'')" by (simp_all add: lit_def sample_world_def unit_of_def)
  with rewrap_given_outcome [OF toy_works v, where new = "lit ''qx''" and w = ?w and out = "lit ''g''" and path = "lit ''f''"]
  obtain v' where "rewrap_given toy_sodium (lit ''f'') (lit ''g'') v (lit ''pw'') (lit ''qx'') ?w =
      (Ret (), complaining (?w\<lparr>files := (files ?w)(lit ''g'' \<mapsto> utf8 (vault_text v'))\<rparr>) (lit ''rewrapped phrase; wrote '' @ lit ''g'' @ [10]))"
    "decryptVaultV2 toy_sodium v' (JStr (lit ''qx'')) = Inr (lit ''hi'')" by blast
  then show ?thesis by (intro exI [of _ v] exI [of _ ?w] exI [of _ v']) (simp add: complaining_simps)
qed

section \<open>Option values that name inherited properties\<close>

text \<open>
  \<open>--strength toString\<close> is not refused: the lookup finds an inherited function, whose missing
  limits fall back to the default preset's.
\<close>

lemma inherited_strength_accepted:
  "lookup_preset (lit ''toString'') = Inherited" "lookup_preset (lit ''__proto__'') = Inherited"
  "lookup_preset (lit ''weak'') = Absent"
  "num_or (o_opslimit (lock_opts plain phrase mode Inherited)) DEFAULT_OPSLIMIT = 4"
  by (simp_all add: lookup_preset_def LOCK_PRESETS_def object_prototype_def lock_opts_def num_or_def limit_defs)

end
