(* ===== verification/Web_Format.thy ===== *)
theory Web_Format
  imports Self_Test
begin

text \<open>
  The vault formats of the web page (\<open>landing/vault/chat.js\<close>): the constants that differ from the
  command line tool's, the V1 additional data, and the validators of the three envelopes the page
  opens - vaults V1 and V2, and Qira Notify envelopes. A validator is the list of its tests in
  the order of the code; the first that throws decides. Each validator is compared with a
  declarative format, and the page's V2 format with the command line tool's.
\<close>

section \<open>Constants\<close>

definition SCHEMA_QIRA_NOTIFY_V1 :: jstr where "SCHEMA_QIRA_NOTIFY_V1 = lit ''QIRA-NOTIFY-V1''"
definition VERSION_web :: jstr where "VERSION_web = lit ''0.28.1''"
definition NOTIFY_AEAD_ALG :: jstr where "NOTIFY_AEAD_ALG = lit ''xchacha20poly1305-ietf''"

definition LOCK_PRESETS_web :: "(jstr \<times> preset) list" where
  "LOCK_PRESETS_web =
     [(lit ''quick'', \<lparr>preset_opslimit = 1, preset_memlimit = mib 32, preset_label = lit ''Quick lock'', preset_hint = lit ''about 1 second''\<rparr>),
      (lit ''strong'', \<lparr>preset_opslimit = 4, preset_memlimit = mib 96, preset_label = lit ''Strong lock'', preset_hint = lit ''about 4 seconds''\<rparr>),
      (lit ''vault'', \<lparr>preset_opslimit = 6, preset_memlimit = mib 128, preset_label = lit ''Vault lock'', preset_hint = lit ''about 7 seconds''\<rparr>)]"

section \<open>Additional data of V1\<close>

definition aad_object_v1 :: "jsval \<Rightarrow> jsval res" where
  "aad_object_v1 vault =
     bind_res (get2 vault ''aead'' ''algorithm'') (\<lambda>aa.
     bind_res (get2 vault ''aead'' ''nonce'') (\<lambda>an.
     bind_res (get vault (lit ''created_at'')) (\<lambda>at.
     bind_res (get2 vault ''kdf'' ''algorithm'') (\<lambda>ka.
     bind_res (get2 vault ''kdf'' ''memlimit'') (\<lambda>km.
     bind_res (get2 vault ''kdf'' ''opslimit'') (\<lambda>ko.
     bind_res (get2 vault ''kdf'' ''salt'') (\<lambda>ks.
     bind_res (get vault (lit ''mode'')) (\<lambda>md.
     bind_res (get vault (lit ''schema'')) (\<lambda>sc.
     bind_res (get vault (lit ''version'')) (\<lambda>vn.
     Inr (JObj [(lit ''aead'', JObj [(lit ''algorithm'', aa), (lit ''nonce'', an)]),
                (lit ''created_at'', at),
                (lit ''kdf'', JObj [(lit ''algorithm'', ka), (lit ''memlimit'', km),
                                   (lit ''opslimit'', ko), (lit ''salt'', ks)]),
                (lit ''mode'', md), (lit ''schema'', sc), (lit ''version'', vn)])))))))))))"

definition buildAADV1 :: "jsval \<Rightarrow> bytes res" where
  "buildAADV1 vault =
     bind_res (aad_object_v1 vault) (\<lambda>obj. Inr (utf8 (text_or_empty (canonicalJSON obj))))"

section \<open>Validators\<close>

text \<open>Statements that only throw, one after the other.\<close>

fun all_checks :: "unit res list \<Rightarrow> unit res" where
  "all_checks [] = Inr ()"
| "all_checks (c # cs) = bind_res c (\<lambda>_. all_checks cs)"

lemma all_checks_ok: "all_checks cs = Inr u \<longleftrightarrow> list_all (\<lambda>c. c = Inr ()) cs"
  by (induction cs) auto

definition enforceKdfCaps_web :: "jsval \<Rightarrow> unit res" where
  "enforceKdfCaps_web kdf =
     throw_if (\<not> is_object kdf) (malformed ''missing kdf section'')
     (bind_res (get kdf (lit ''algorithm'')) (\<lambda>alg.
      if alg \<noteq> JStr KDF_ALG then throw_with (lit ''Unsupported KDF algorithm: '') alg []
      else
     bind_res (get kdf (lit ''opslimit'')) (\<lambda>ops.
     throw_if (\<not> int_between MIN_OPSLIMIT MAX_OPSLIMIT ops) msg_opslimit_range
     (bind_res (get kdf (lit ''memlimit'')) (\<lambda>mem.
     throw_if (\<not> int_between MIN_MEMLIMIT MAX_MEMLIMIT mem) msg_memlimit_range
     (bind_res (get kdf (lit ''salt'')) (\<lambda>salt.
     throw_if (\<not> is_str salt) (malformed ''kdf.salt must be a string'')
     (Inr ()))))))))"

text \<open>\<open>if (typeof vault.k !== "string") throw\<close>, and the same one level down.\<close>

definition need_str :: "jsval \<Rightarrow> string \<Rightarrow> jstr \<Rightarrow> unit res" where
  "need_str vault k m = bind_res (get vault (lit k)) (\<lambda>x. throw_if (\<not> is_str x) m (Inr ()))"

definition need_str2 :: "jsval \<Rightarrow> string \<Rightarrow> string \<Rightarrow> jstr \<Rightarrow> unit res" where
  "need_str2 vault a b m = bind_res (get2 vault a b) (\<lambda>x. throw_if (\<not> is_str x) m (Inr ()))"

definition need_mode :: "jsval \<Rightarrow> unit res" where
  "need_mode vault = bind_res (get vault (lit ''mode'')) (\<lambda>mode.
     throw_if (\<not> is_mode mode)
       (malformed (''mode must be '' @ dquote @ ''self'' @ dquote @ '' or '' @ dquote @ ''share'' @ dquote)) (Inr ()))"

definition need_schema :: "jsval \<Rightarrow> jstr \<Rightarrow> unit res" where
  "need_schema vault schema = bind_res (get vault (lit ''schema'')) (\<lambda>x.
     if x \<noteq> JStr schema
     then throw_with (lit (''Unsupported vault schema: '' @ dquote)) x (lit (dquote @ '' (expected '') @ schema @ lit '')'')
     else Inr ())"

text \<open>
  \<open>if (!vault.a || vault.a.algorithm !== alg) throw\<close>, whose message shows
  \<open>vault.a && vault.a.algorithm\<close>.
\<close>

definition need_alg :: "jsval \<Rightarrow> string \<Rightarrow> string \<Rightarrow> jstr \<Rightarrow> unit res" where
  "need_alg vault a shown alg = bind_res (get vault (lit a)) (\<lambda>s.
     if \<not> truthy s then throw_with (lit (''Unsupported '' @ shown @ '' algorithm: '')) s []
     else bind_res (get s (lit ''algorithm'')) (\<lambda>x.
       if x \<noteq> JStr alg then throw_with (lit (''Unsupported '' @ shown @ '' algorithm: '')) x [] else Inr ()))"

definition need_object :: "jsval \<Rightarrow> unit res" where
  "need_object vault = throw_if (\<not> is_object vault) (malformed ''not an object'') (Inr ())"

definition validateCommonVaultFields :: "jsval \<Rightarrow> unit res" where
  "validateCommonVaultFields vault = all_checks
     [need_object vault,
      need_str vault ''version'' (malformed ''missing version''),
      need_str vault ''created_at'' (malformed ''missing created_at''),
      need_mode vault,
      bind_res (get vault (lit ''kdf'')) enforceKdfCaps_web]"

definition validateVaultSchemaV1_web :: "jsval \<Rightarrow> unit res" where
  "validateVaultSchemaV1_web vault = all_checks
     [validateCommonVaultFields vault,
      need_schema vault SCHEMA_V1,
      need_alg vault ''aead'' ''AEAD'' AEAD_ALG,
      need_str2 vault ''aead'' ''nonce'' (malformed ''missing aead.nonce''),
      need_str2 vault ''aead'' ''ciphertext'' (malformed ''missing aead.ciphertext'')]"

definition validateVaultSchemaV2_web :: "jsval \<Rightarrow> unit res" where
  "validateVaultSchemaV2_web vault = all_checks
     [validateCommonVaultFields vault,
      need_schema vault SCHEMA_V2,
      need_alg vault ''wrap'' ''wrap'' AEAD_ALG,
      need_str2 vault ''wrap'' ''nonce'' (malformed ''missing wrap.nonce''),
      need_str2 vault ''wrap'' ''wrapped_key'' (malformed ''missing wrap.wrapped_key''),
      need_alg vault ''content'' ''content'' AEAD_ALG,
      need_str2 vault ''content'' ''nonce'' (malformed ''missing content.nonce''),
      need_str2 vault ''content'' ''ciphertext'' (malformed ''missing content.ciphertext'')]"

definition malformed_notify :: "string \<Rightarrow> jstr" where
  "malformed_notify s = lit (''Notify envelope malformed: '' @ s)"

definition validateVaultSchemaQiraNotifyV1 :: "jsval \<Rightarrow> unit res" where
  "validateVaultSchemaQiraNotifyV1 vault = all_checks
     [need_object vault,
      need_schema vault SCHEMA_QIRA_NOTIFY_V1,
      need_str vault ''created_at'' (malformed_notify ''missing created_at''),
      bind_res (get vault (lit ''kdf'')) enforceKdfCaps_web,
      need_alg vault ''wrap'' ''wrap'' NOTIFY_AEAD_ALG,
      need_str2 vault ''wrap'' ''aad'' (malformed_notify ''missing wrap.aad''),
      need_str2 vault ''wrap'' ''nonce'' (malformed_notify ''missing wrap.nonce''),
      need_str2 vault ''wrap'' ''wrapped_key'' (malformed_notify ''missing wrap.wrapped_key''),
      need_alg vault ''content'' ''content'' NOTIFY_AEAD_ALG,
      need_str2 vault ''content'' ''aad'' (malformed_notify ''missing content.aad''),
      need_str2 vault ''content'' ''nonce'' (malformed_notify ''missing content.nonce''),
      need_str2 vault ''content'' ''ciphertext'' (malformed_notify ''missing content.ciphertext'')]"

text \<open>The dispatch on the schema, for the validators here and for the openers.\<close>

definition unsupported_schema :: "jsval \<Rightarrow> 'a res" where
  "unsupported_schema schema =
     throw_with (lit (''Unsupported vault schema: '' @ dquote)) schema
       (lit (dquote @ '' (expected '') @ SCHEMA_V2 @ lit '', '' @ SCHEMA_V1 @ lit '', or '' @ SCHEMA_QIRA_NOTIFY_V1 @ lit '')'')"

definition validateVaultSchema :: "jsval \<Rightarrow> unit res" where
  "validateVaultSchema vault =
     throw_if (\<not> is_object vault) (malformed ''not an object'')
     (bind_res (get vault (lit ''schema'')) (\<lambda>schema.
      if schema = JStr SCHEMA_V2 then validateVaultSchemaV2_web vault
      else if schema = JStr SCHEMA_V1 then validateVaultSchemaV1_web vault
      else if schema = JStr SCHEMA_QIRA_NOTIFY_V1 then validateVaultSchemaQiraNotifyV1 vault
      else unsupported_schema schema))"

section \<open>The formats, declaratively\<close>

definition wf_kdf_web :: "jsval \<Rightarrow> bool" where
  "wf_kdf_web kdf =
     (is_object kdf \<and> fld kdf ''algorithm'' = JStr KDF_ALG \<and>
      int_between MIN_OPSLIMIT MAX_OPSLIMIT (fld kdf ''opslimit'') \<and>
      int_between MIN_MEMLIMIT MAX_MEMLIMIT (fld kdf ''memlimit'') \<and> is_str (fld kdf ''salt''))"

definition wf_section_web :: "jstr \<Rightarrow> string list \<Rightarrow> jsval \<Rightarrow> bool" where
  "wf_section_web alg ks s =
     (is_object s \<and> fld s ''algorithm'' = JStr alg \<and> list_all (\<lambda>k. is_str (fld s k)) ks)"

definition wf_common :: "jsval \<Rightarrow> bool" where
  "wf_common v =
     (is_object v \<and> is_str (fld v ''version'') \<and> is_str (fld v ''created_at'') \<and>
      is_mode (fld v ''mode'') \<and> wf_kdf_web (fld v ''kdf''))"

definition wf_web_v2 :: "jsval \<Rightarrow> bool" where
  "wf_web_v2 v =
     (wf_common v \<and> fld v ''schema'' = JStr SCHEMA_V2 \<and>
      wf_section_web AEAD_ALG [''nonce'', ''wrapped_key''] (fld v ''wrap'') \<and>
      wf_section_web AEAD_ALG [''nonce'', ''ciphertext''] (fld v ''content''))"

definition wf_web_v1 :: "jsval \<Rightarrow> bool" where
  "wf_web_v1 v =
     (wf_common v \<and> fld v ''schema'' = JStr SCHEMA_V1 \<and>
      wf_section_web AEAD_ALG [''nonce'', ''ciphertext''] (fld v ''aead''))"

definition wf_notify_v1 :: "jsval \<Rightarrow> bool" where
  "wf_notify_v1 v =
     (is_object v \<and> fld v ''schema'' = JStr SCHEMA_QIRA_NOTIFY_V1 \<and> is_str (fld v ''created_at'') \<and>
      wf_kdf_web (fld v ''kdf'') \<and>
      wf_section_web NOTIFY_AEAD_ALG [''aad'', ''nonce'', ''wrapped_key''] (fld v ''wrap'') \<and>
      wf_section_web NOTIFY_AEAD_ALG [''aad'', ''nonce'', ''ciphertext''] (fld v ''content''))"

text \<open>The strings the command line tool requires to be non-empty.\<close>

definition sealed_fields :: "jsval \<Rightarrow> jsval list" where
  "sealed_fields v =
     [fld (fld v ''kdf'') ''salt'', fld (fld v ''wrap'') ''nonce'', fld (fld v ''wrap'') ''wrapped_key'',
      fld (fld v ''content'') ''nonce'', fld (fld v ''content'') ''ciphertext'']"

lemma enforceKdfCaps_web_ok: "enforceKdfCaps_web kdf = Inr u \<longleftrightarrow> wf_kdf_web kdf"
  by (cases "is_object kdf") (auto simp: enforceKdfCaps_web_def wf_kdf_web_def)

lemma need_str_ok: "is_object v \<Longrightarrow> need_str v k m = Inr u \<longleftrightarrow> is_str (fld v k)"
  by (simp add: need_str_def)

lemma need_mode_ok: "is_object v \<Longrightarrow> need_mode v = Inr u \<longleftrightarrow> is_mode (fld v ''mode'')"
  by (simp add: need_mode_def)

lemma need_schema_ok: "is_object v \<Longrightarrow> need_schema v s = Inr u \<longleftrightarrow> fld v ''schema'' = JStr s"
  by (simp add: need_schema_def)

lemma need_object_ok: "need_object v = Inr u \<longleftrightarrow> is_object v"
  by (simp add: need_object_def)

text \<open>A value with a string member \<open>algorithm\<close> is an object.\<close>

lemma fld_str_object: "fld s k = JStr a \<Longrightarrow> is_object s"
  by (cases s) (auto simp: fld_def)

lemma need_alg_ok:
  assumes "is_object v"
  shows "need_alg v a shown alg = Inr u \<longleftrightarrow> is_object (fld v a) \<and> fld (fld v a) ''algorithm'' = JStr alg"
proof (cases "truthy (fld v a)")
  case True
  then show ?thesis using assms fld_str_object [of "fld v a" "''algorithm''" alg]
    by (auto simp: need_alg_def truthy_get)
next
  case False
  then have "\<not> is_object (fld v a)" by (simp add: is_object_def)
  then show ?thesis using assms False by (simp add: need_alg_def)
qed

lemma need_str2_ok:
  "is_object v \<Longrightarrow> is_object (fld v a) \<Longrightarrow> need_str2 v a b m = Inr u \<longleftrightarrow> is_str (fld (fld v a) b)"
  by (simp add: need_str2_def get2_object)

lemmas checks_ok = all_checks_ok need_object_ok need_str_ok need_mode_ok need_schema_ok need_alg_ok
  need_str2_ok enforceKdfCaps_web_ok

lemma validateCommon_ok: "validateCommonVaultFields v = Inr u \<longleftrightarrow> wf_common v"
  by (cases "is_object v") (simp_all add: validateCommonVaultFields_def wf_common_def checks_ok)

lemma wf_common_object: "wf_common v \<Longrightarrow> is_object v"
  by (simp add: wf_common_def)

lemma validate_v2_web_ok: "validateVaultSchemaV2_web v = Inr u \<longleftrightarrow> wf_web_v2 v"
  using wf_common_object [of v]
  by (auto simp: validateVaultSchemaV2_web_def wf_web_v2_def wf_section_web_def checks_ok validateCommon_ok)

lemma validate_v1_web_ok: "validateVaultSchemaV1_web v = Inr u \<longleftrightarrow> wf_web_v1 v"
  using wf_common_object [of v]
  by (auto simp: validateVaultSchemaV1_web_def wf_web_v1_def wf_section_web_def checks_ok validateCommon_ok)

lemma validate_notify_ok: "validateVaultSchemaQiraNotifyV1 v = Inr u \<longleftrightarrow> wf_notify_v1 v"
  by (cases "is_object v")
    (auto simp: validateVaultSchemaQiraNotifyV1_def wf_notify_v1_def wf_section_web_def checks_ok)

lemma schemas_distinct:
  "SCHEMA_V1 \<noteq> SCHEMA_V2" "SCHEMA_V1 \<noteq> SCHEMA_QIRA_NOTIFY_V1" "SCHEMA_V2 \<noteq> SCHEMA_QIRA_NOTIFY_V1"
  by (simp_all add: SCHEMA_V1_def SCHEMA_V2_def SCHEMA_QIRA_NOTIFY_V1_def)

lemma unsupported_schema_throws [simp]: "unsupported_schema s \<noteq> Inr x"
  by (simp add: unsupported_schema_def)

lemma validateVaultSchema_ok:
  "validateVaultSchema v = Inr u \<longleftrightarrow> wf_web_v2 v \<or> wf_web_v1 v \<or> wf_notify_v1 v"
proof -
  have "wf_web_v2 v \<or> wf_web_v1 v \<or> wf_notify_v1 v \<Longrightarrow> is_object v"
    by (auto simp: wf_web_v2_def wf_web_v1_def wf_notify_v1_def wf_common_def)
  then show ?thesis
    using schemas_distinct
    by (cases "is_object v")
      (auto simp: validateVaultSchema_def validate_v2_web_ok validate_v1_web_ok validate_notify_ok
        wf_web_v2_def wf_web_v1_def wf_notify_v1_def)
qed

section \<open>The two V2 formats\<close>

lemma wf_section_web_cli:
  "wf_section p s \<longleftrightarrow> wf_section_web AEAD_ALG [''nonce'', p] s \<and> fld s ''nonce'' \<noteq> JStr [] \<and> fld s p \<noteq> JStr []"
  by (auto simp: wf_section_def wf_section_web_def nonempty_str_def is_str_cases)

lemma wf_kdf_web_cli: "wf_kdf kdf \<longleftrightarrow> wf_kdf_web kdf \<and> fld kdf ''salt'' \<noteq> JStr []"
  by (auto simp: wf_kdf_def wf_kdf_web_def nonempty_str_def is_str_cases)

lemma wf_vault_v2_web: "wf_vault_v2 v \<longleftrightarrow> wf_web_v2 v \<and> JStr [] \<notin> set (sealed_fields v)"
  by (auto simp: wf_vault_v2_def wf_web_v2_def wf_common_def wf_section_web_cli wf_kdf_web_cli sealed_fields_def)

text \<open>
  The page's validator and the command line tool's accept the same V2 vaults, except that
  the page also accepts vaults with an empty salt, nonce, wrapped key or ciphertext, and the
  page's dispatching validator accepts exactly the three formats.
\<close>

theorem web_validator_vs_cli:
  "(validateVaultSchemaV2 v = Inr () \<longleftrightarrow> validateVaultSchemaV2_web v = Inr () \<and> JStr [] \<notin> set (sealed_fields v)) \<and>
   (validateVaultSchema v = Inr () \<longleftrightarrow>
      validateVaultSchemaV2_web v = Inr () \<or> validateVaultSchemaV1_web v = Inr () \<or>
      validateVaultSchemaQiraNotifyV1 v = Inr ())"
  by (simp add: validate_ok validate_v2_web_ok validate_v1_web_ok validate_notify_ok validateVaultSchema_ok
      wf_vault_v2_web)

end
