(* ===== verification/Web_Vault.thy ===== *)
theory Web_Vault
  imports Web_Format
begin

text \<open>
  Locking and unlocking in the web page (\<open>landing/vault/chat.js\<close>): V1 and V2 vaults, Qira Notify
  envelopes, the dispatch on the schema and the page's self-test. base64url is libsodium's here,
  a field of the \<open>sodium\<close> record. The arguments of the encryption are the record of the command
  line tool's; \<open>o_createdAt\<close> and \<open>o_version\<close> are not read by the page.
\<close>

section \<open>Locking\<close>

definition msg_Invalid :: "string \<Rightarrow> nat \<Rightarrow> jstr" where
  "msg_Invalid what n = lit (''Invalid '' @ what @ '' (must be '') @ num_str (int n) @ lit '' bytes)''"

definition msg_too_large_web :: jstr where
  "msg_too_large_web = lit ''Message too large (max '' @ num_str (int MAX_PLAINTEXT_BYTES div 1024) @ lit '' KiB)''"

text \<open>The tests on the message, the phrase and the mode, which both versions start with.\<close>

definition form_checks :: "encrypt_opts \<Rightarrow> unit res" where
  "form_checks opts = all_checks
     [throw_if (case o_plaintext opts of PtString s \<Rightarrow> s = [] | _ \<Rightarrow> True) (lit ''Type a message before encrypting'') (Inr ()),
      throw_if (\<not> nonempty_str (o_password opts)) (lit ''Type a phrase before encrypting'') (Inr ()),
      throw_if (\<not> is_mode (o_mode opts)) (lit ''Pick a mode first'') (Inr ())]"

definition limit_checks :: "encrypt_opts \<Rightarrow> unit res" where
  "limit_checks opts = all_checks
     [throw_if (num_or (o_opslimit opts) DEFAULT_OPSLIMIT < MIN_OPSLIMIT \<or>
                num_or (o_opslimit opts) DEFAULT_OPSLIMIT > MAX_OPSLIMIT) (lit ''opslimit out of range'') (Inr ()),
      throw_if (num_or (o_memlimit opts) DEFAULT_MEMLIMIT < MIN_MEMLIMIT \<or>
                num_or (o_memlimit opts) DEFAULT_MEMLIMIT > MAX_MEMLIMIT) (lit ''memlimit out of range'') (Inr ())]"

definition message_bytes :: "encrypt_opts \<Rightarrow> bytes" where
  "message_bytes opts = (case o_plaintext opts of PtString s \<Rightarrow> utf8 s | _ \<Rightarrow> [])"

definition size_check :: "encrypt_opts \<Rightarrow> unit res" where
  "size_check opts = throw_if (length (message_bytes opts) > MAX_PLAINTEXT_BYTES) msg_too_large_web (Inr ())"

definition randomness_checks_web :: "randomness \<Rightarrow> unit res" where
  "randomness_checks_web x = all_checks
     [throw_if (length (r_salt x) \<noteq> SALT_BYTES) (msg_Invalid ''salt'' SALT_BYTES) (Inr ()),
      throw_if (length (r_wrapNonce x) \<noteq> NONCE_BYTES) (msg_Invalid ''wrap nonce'' NONCE_BYTES) (Inr ()),
      throw_if (length (r_contentNonce x) \<noteq> NONCE_BYTES) (msg_Invalid ''content nonce'' NONCE_BYTES) (Inr ()),
      throw_if (length (r_vaultKey x) \<noteq> KEY_BYTES) (msg_Invalid ''vault_key'' KEY_BYTES) (Inr ())]"

definition vault_literal_web ::
  "sodium \<Rightarrow> jstr \<Rightarrow> encrypt_opts \<Rightarrow> randomness \<Rightarrow> jsval"
where
  "vault_literal_web so now opts x =
     JObj [(lit ''schema'', JStr SCHEMA_V2), (lit ''version'', JStr VERSION_web),
           (lit ''created_at'', JStr now), (lit ''mode'', o_mode opts),
           (lit ''kdf'', JObj [(lit ''algorithm'', JStr KDF_ALG),
                              (lit ''opslimit'', JNum (num_or (o_opslimit opts) DEFAULT_OPSLIMIT)),
                              (lit ''memlimit'', JNum (num_or (o_memlimit opts) DEFAULT_MEMLIMIT)),
                              (lit ''salt'', JStr (to_base64 so (r_salt x)))]),
           (lit ''wrap'', JObj [(lit ''algorithm'', JStr AEAD_ALG),
                               (lit ''nonce'', JStr (to_base64 so (r_wrapNonce x))),
                               (lit ''wrapped_key'', JStr [])]),
           (lit ''content'', JObj [(lit ''algorithm'', JStr AEAD_ALG),
                                  (lit ''nonce'', JStr (to_base64 so (r_contentNonce x))),
                                  (lit ''ciphertext'', JStr [])])]"

definition seal_vault_web :: "sodium \<Rightarrow> jstr \<Rightarrow> encrypt_opts \<Rightarrow> randomness \<Rightarrow> jsval res" where
  "seal_vault_web so now opts x =
     bind_res (crypto_pwhash so KEY_BYTES (utf8 (str_of (o_password opts))) (r_salt x)
         (num_or (o_opslimit opts) DEFAULT_OPSLIMIT) (num_or (o_memlimit opts) DEFAULT_MEMLIMIT)) (\<lambda>wrapKey.
     let vault = vault_literal_web so now opts x
     in bind_res (buildAADV2 vault) (\<lambda>aad.
        bind_res (aead_encrypt so (r_vaultKey x) aad (r_wrapNonce x) wrapKey) (\<lambda>wrappedKey.
        let vault1 = set2 vault ''wrap'' ''wrapped_key'' (JStr (to_base64 so wrappedKey))
        in bind_res (aead_encrypt so (message_bytes opts) aad (r_contentNonce x) (r_vaultKey x)) (\<lambda>contentCt.
           Inr (set2 vault1 ''content'' ''ciphertext'' (JStr (to_base64 so contentCt)))))))"

text \<open>The randomness is drawn before the arguments are tested.\<close>

definition encryptVaultV2_web :: "sodium \<Rightarrow> jstr \<Rightarrow> encrypt_opts \<Rightarrow> rng \<Rightarrow> jsval res \<times> rng" where
  "encryptVaultV2_web so now opts r =
     (let (x, r') = draw_randomness opts r
      in (bind_res (all_checks [form_checks opts, randomness_checks_web x, limit_checks opts, size_check opts])
            (\<lambda>_. seal_vault_web so now opts x), r'))"

text \<open>V1: \<open>o_wrapNonce\<close> is its only nonce.\<close>

definition vault_literal_v1 :: "sodium \<Rightarrow> jstr \<Rightarrow> encrypt_opts \<Rightarrow> bytes \<Rightarrow> bytes \<Rightarrow> jsval" where
  "vault_literal_v1 so now opts salt nonce =
     JObj [(lit ''schema'', JStr SCHEMA_V1), (lit ''version'', JStr VERSION_web),
           (lit ''created_at'', JStr now), (lit ''mode'', o_mode opts),
           (lit ''kdf'', JObj [(lit ''algorithm'', JStr KDF_ALG),
                              (lit ''opslimit'', JNum (num_or (o_opslimit opts) DEFAULT_OPSLIMIT)),
                              (lit ''memlimit'', JNum (num_or (o_memlimit opts) DEFAULT_MEMLIMIT)),
                              (lit ''salt'', JStr (to_base64 so salt))]),
           (lit ''aead'', JObj [(lit ''algorithm'', JStr AEAD_ALG), (lit ''nonce'', JStr (to_base64 so nonce)),
                               (lit ''ciphertext'', JStr [])])]"

definition encryptVaultV1 :: "sodium \<Rightarrow> jstr \<Rightarrow> encrypt_opts \<Rightarrow> rng \<Rightarrow> jsval res \<times> rng" where
  "encryptVaultV1 so now opts r =
     (let (salt, r1) = draw_or (o_salt opts) SALT_BYTES r;
          (nonce, r2) = draw_or (o_wrapNonce opts) NONCE_BYTES r1
      in (bind_res (all_checks
            [form_checks opts,
             throw_if (length salt \<noteq> SALT_BYTES) (msg_Invalid ''salt'' SALT_BYTES) (Inr ()),
             throw_if (length nonce \<noteq> NONCE_BYTES) (msg_Invalid ''nonce'' NONCE_BYTES) (Inr ()),
             limit_checks opts, size_check opts]) (\<lambda>_.
          bind_res (crypto_pwhash so KEY_BYTES (utf8 (str_of (o_password opts))) salt
              (num_or (o_opslimit opts) DEFAULT_OPSLIMIT) (num_or (o_memlimit opts) DEFAULT_MEMLIMIT)) (\<lambda>key.
          let vault = vault_literal_v1 so now opts salt nonce
          in bind_res (buildAADV1 vault) (\<lambda>aad.
             bind_res (aead_encrypt so (message_bytes opts) aad nonce key) (\<lambda>ct.
             Inr (set2 vault ''aead'' ''ciphertext'' (JStr (to_base64 so ct))))))), r2))"

section \<open>Unlocking\<close>

definition b64_member_web :: "sodium \<Rightarrow> jsval \<Rightarrow> string \<Rightarrow> string \<Rightarrow> bytes res" where
  "b64_member_web so v a b = bind_res (get2 v a b) (\<lambda>x.
     case x of JStr s \<Rightarrow> from_base64 so s | _ \<Rightarrow> Inl (lit ''unsupported input type for input''))"

definition msg_too_large_box :: "string \<Rightarrow> jstr" where
  "msg_too_large_box what = lit (what @ '' too large (max '') @ num_str (int MAX_CIPHERTEXT_BYTES div 1024) @ lit '' KiB)''"

definition msg_Type_phrase :: jstr where "msg_Type_phrase = lit ''Type the phrase''"

text \<open>The decoding steps of V2 vaults and Notify envelopes; \<open>what\<close> is the word their messages start with.\<close>

definition decode_parts_web :: "sodium \<Rightarrow> string \<Rightarrow> jsval \<Rightarrow> sealed_parts res" where
  "decode_parts_web so what vault =
     bind_res (b64_member_web so vault ''kdf'' ''salt'') (\<lambda>salt.
     bind_res (b64_member_web so vault ''wrap'' ''nonce'') (\<lambda>wrapNonce.
     bind_res (b64_member_web so vault ''wrap'' ''wrapped_key'') (\<lambda>wrappedKey.
     bind_res (b64_member_web so vault ''content'' ''nonce'') (\<lambda>contentNonce.
     bind_res (b64_member_web so vault ''content'' ''ciphertext'') (\<lambda>contentCt.
     throw_if (length salt \<noteq> SALT_BYTES) (lit (what @ '' malformed: salt length''))
     (throw_if (length wrapNonce \<noteq> NONCE_BYTES) (lit (what @ '' malformed: wrap nonce length''))
     (throw_if (length contentNonce \<noteq> NONCE_BYTES) (lit (what @ '' malformed: content nonce length''))
     (throw_if (length wrappedKey \<noteq> KEY_BYTES + TAG_BYTES)
        (lit (what @ '' malformed: wrapped_key length (got '') @ num_str (int (length wrappedKey)) @ lit '')'')
     (throw_if (contentCt = []) (lit (what @ '' malformed: empty ciphertext''))
     (throw_if (length contentCt > MAX_CIPHERTEXT_BYTES) (msg_too_large_box what)
     (Inr \<lparr>p_salt = salt, p_wrapNonce = wrapNonce, p_wrappedKey = wrappedKey,
           p_contentNonce = contentNonce, p_contentCt = contentCt\<rparr>)))))))))))"

text \<open>The two AEAD steps, with the additional data of each and the messages of the four failures.\<close>

definition unseal :: "sodium \<Rightarrow> sealed_parts \<Rightarrow> bytes \<Rightarrow> bytes \<Rightarrow> bytes \<Rightarrow> jstr list \<Rightarrow> jstr res" where
  "unseal so p wrapKey wrapAad contentAad msgs =
     bind_res (rethrow (msgs ! 0) (aead_decrypt so (p_wrappedKey p) wrapAad (p_wrapNonce p) wrapKey)) (\<lambda>vaultKey.
     throw_if (length vaultKey \<noteq> KEY_BYTES) (msgs ! 1)
     (bind_res (rethrow (msgs ! 2) (aead_decrypt so (p_contentCt p) contentAad (p_contentNonce p) vaultKey))
       (\<lambda>plaintextBytes. rethrow (msgs ! 3) (fromUtf8 plaintextBytes))))"

definition open_msgs_v2 :: "jstr list" where
  "open_msgs_v2 = [msg_wrong_phrase, malformed ''unwrapped vault_key is not '' @ num_str (int KEY_BYTES) @ lit '' bytes'',
     lit ''Could not decrypt: vault content was tampered with'', msg_not_utf8]"

definition decryptVaultV2_web :: "sodium \<Rightarrow> jsval \<Rightarrow> jsval \<Rightarrow> jstr res" where
  "decryptVaultV2_web so vault password =
     bind_res (validateVaultSchemaV2_web vault) (\<lambda>_.
     throw_if (\<not> nonempty_str password) msg_Type_phrase
     (bind_res (decode_parts_web so ''Vault'' vault) (\<lambda>p.
      bind_res (wrap_key so vault (p_salt p) (str_of password)) (\<lambda>wrapKey.
      bind_res (buildAADV2 vault) (\<lambda>aad. unseal so p wrapKey aad aad open_msgs_v2)))))"

definition open_msgs_notify :: "jstr list" where
  "open_msgs_notify = [lit ''Could not decrypt: wrong phrase or tampered envelope'',
     malformed_notify ''unwrapped vault_key is not '' @ num_str (int KEY_BYTES) @ lit '' bytes'',
     lit ''Could not decrypt: Notify envelope content was tampered with'', lit ''Decrypted bytes are not valid UTF-8'']"

definition aad_text :: "jsval \<Rightarrow> string \<Rightarrow> bytes res" where
  "aad_text vault a = bind_res (get2 vault a ''aad'') (\<lambda>x. Inr (utf8 (str_of x)))"

definition decryptVaultQiraNotifyV1 :: "sodium \<Rightarrow> jsval \<Rightarrow> jsval \<Rightarrow> jstr res" where
  "decryptVaultQiraNotifyV1 so vault password =
     bind_res (validateVaultSchemaQiraNotifyV1 vault) (\<lambda>_.
     throw_if (\<not> nonempty_str password) msg_Type_phrase
     (bind_res (decode_parts_web so ''Notify envelope'' vault) (\<lambda>p.
      bind_res (wrap_key so vault (p_salt p) (str_of password)) (\<lambda>wrapKey.
      bind_res (aad_text vault ''wrap'') (\<lambda>wrapAad.
      bind_res (aad_text vault ''content'') (\<lambda>contentAad.
      unseal so p wrapKey wrapAad contentAad open_msgs_notify))))))"

definition decryptVaultV1 :: "sodium \<Rightarrow> jsval \<Rightarrow> jsval \<Rightarrow> jstr res" where
  "decryptVaultV1 so vault password =
     bind_res (validateVaultSchemaV1_web vault) (\<lambda>_.
     throw_if (\<not> nonempty_str password) msg_Type_phrase
     (bind_res (b64_member_web so vault ''kdf'' ''salt'') (\<lambda>salt.
      bind_res (b64_member_web so vault ''aead'' ''nonce'') (\<lambda>nonce.
      bind_res (b64_member_web so vault ''aead'' ''ciphertext'') (\<lambda>ct.
      throw_if (length salt \<noteq> SALT_BYTES) (malformed ''salt length'')
      (throw_if (length nonce \<noteq> NONCE_BYTES) (malformed ''nonce length'')
      (throw_if (ct = []) (malformed ''empty ciphertext'')
      (throw_if (length ct > MAX_CIPHERTEXT_BYTES) (msg_too_large_box ''Vault'')
      (bind_res (wrap_key so vault salt (str_of password)) (\<lambda>key.
       bind_res (buildAADV1 vault) (\<lambda>aad.
       bind_res (rethrow msg_wrong_phrase (aead_decrypt so ct aad nonce key)) (\<lambda>plaintextBytes.
       rethrow msg_not_utf8 (fromUtf8 plaintextBytes)))))))))))))"

section \<open>Dispatch\<close>

definition encryptVault :: "sodium \<Rightarrow> jstr \<Rightarrow> encrypt_opts \<Rightarrow> rng \<Rightarrow> jsval res \<times> rng" where
  "encryptVault so now opts r = encryptVaultV2_web so now opts r"

definition decryptVault :: "sodium \<Rightarrow> jsval \<Rightarrow> jsval \<Rightarrow> jstr res" where
  "decryptVault so vault password =
     throw_if (\<not> is_object vault) (malformed ''not an object'')
     (bind_res (get vault (lit ''schema'')) (\<lambda>schema.
      if schema = JStr SCHEMA_V2 then decryptVaultV2_web so vault password
      else if schema = JStr SCHEMA_V1 then decryptVaultV1 so vault password
      else if schema = JStr SCHEMA_QIRA_NOTIFY_V1 then decryptVaultQiraNotifyV1 so vault password
      else unsupported_schema schema))"

lemma is_object_get': "is_object v \<Longrightarrow> get v (lit k) = Inr (fld v k)"
  by simp

interpretation web_v2: opener wf_web_v2 validateVaultSchemaV2_web "decryptVaultV2_web so" for so
  by unfold_locales (simp_all add: validate_v2_web_ok decryptVaultV2_web_def)

interpretation web_v1: opener wf_web_v1 validateVaultSchemaV1_web "decryptVaultV1 so" for so
  by unfold_locales (simp_all add: validate_v1_web_ok decryptVaultV1_def)

interpretation notify_v1: opener wf_notify_v1 validateVaultSchemaQiraNotifyV1 "decryptVaultQiraNotifyV1 so" for so
  by unfold_locales (simp_all add: validate_notify_ok decryptVaultQiraNotifyV1_def)

lemma decryptVault_dispatch:
  assumes "validateVaultSchema v = Inl e"
  shows "decryptVault so v pw = Inl e"
proof (cases "is_object v")
  case True
  then show ?thesis using assms
    by (auto simp: validateVaultSchema_def decryptVault_def web_v2.check_first web_v1.check_first
        notify_v1.check_first unsupported_schema_def throw_with_def bind_res_Inl_iff split: if_splits)
qed (use assms in \<open>simp add: validateVaultSchema_def decryptVault_def\<close>)

interpretation web_any: opener "\<lambda>v. wf_web_v2 v \<or> wf_web_v1 v \<or> wf_notify_v1 v" validateVaultSchema "decryptVault so" for so
  by unfold_locales (simp_all add: validateVaultSchema_ok decryptVault_dispatch)

section \<open>The page and the command line tool make the same vaults\<close>

text \<open>What the command line tool must be told for it to do what the page does.\<close>

definition cli_opts :: "encrypt_opts \<Rightarrow> encrypt_opts" where
  "cli_opts opts = opts\<lparr>o_version := Some VERSION_web, o_createdAt := None\<rparr>"

lemma cli_opts_fields [simp]:
  "o_plaintext (cli_opts opts) = o_plaintext opts" "o_password (cli_opts opts) = o_password opts"
  "o_mode (cli_opts opts) = o_mode opts" "o_opslimit (cli_opts opts) = o_opslimit opts"
  "o_memlimit (cli_opts opts) = o_memlimit opts" "str_or (o_version (cli_opts opts)) d = VERSION_web"
  "str_or (o_createdAt (cli_opts opts)) d = d" "draw_randomness (cli_opts opts) r = draw_randomness opts r"
  by (simp_all add: cli_opts_def str_or_def VERSION_web_def draw_randomness_def)

lemma is_mode_val_or [simp]: "is_mode m \<Longrightarrow> val_or m d = m"
  by (auto simp: is_mode_def val_or_def)

definition web_checks :: "encrypt_opts \<Rightarrow> bool" where
  "web_checks opts = (form_checks opts = Inr () \<and> limit_checks opts = Inr () \<and> size_check opts = Inr ())"

lemma form_checks_ok:
  "form_checks opts = Inr () \<longleftrightarrow>
     (\<exists>s. o_plaintext opts = PtString s \<and> s \<noteq> []) \<and> nonempty_str (o_password opts) \<and> is_mode (o_mode opts)"
  by (auto simp: form_checks_def all_checks_ok split: plaintext_arg.splits)

lemma web_checks_cli:
  "web_checks opts \<and> pt = message_bytes opts \<longleftrightarrow>
     encrypt_checks (cli_opts opts) = Inr pt \<and> (\<exists>s. o_plaintext opts = PtString s) \<and> is_mode (o_mode opts)"
  by (auto simp: web_checks_def form_checks_ok limit_checks_def size_check_def all_checks_ok message_bytes_def
      encrypt_checks_def plaintext_bytes_def not_less split: plaintext_arg.splits)

lemma randomness_checks_web_ok: "randomness_checks_web x = Inr () \<longleftrightarrow> check_randomness x = Inr ()"
  by (simp add: randomness_checks_web_def check_randomness_def all_checks_ok)

lemma vault_literal_same:
  "base64_works so \<Longrightarrow> vault_literal_web so now opts x =
     vault_literal VERSION_web now (o_mode opts) (num_or (o_opslimit opts) DEFAULT_OPSLIMIT)
       (num_or (o_memlimit opts) DEFAULT_MEMLIMIT) x [] []"
  by (simp add: vault_literal_web_def vault_literal_def base64_worksD)

lemma seal_same:
  assumes "base64_works so" and "is_mode (o_mode opts)" and "check_randomness x = Inr ()"
  shows "seal_vault so now (cli_opts opts) (message_bytes opts) x = seal_vault_web so now opts x"
  using assms by (simp add: seal_vault_def seal_vault_web_def Let_def vault_literal_same base64_worksD)

lemma encrypt_web_Inr:
  "encryptVaultV2_web so now opts r = (Inr v, r') \<longleftrightarrow>
     web_checks opts \<and> (\<exists>x. draw_randomness opts r = (x, r') \<and> check_randomness x = Inr () \<and>
       seal_vault_web so now opts x = Inr v)"
  by (auto simp: encryptVaultV2_web_def all_checks_ok web_checks_def randomness_checks_web_ok split: prod.splits)

lemma seal_vault_checked: "seal_vault so now opts pt x = Inr v \<Longrightarrow> check_randomness x = Inr ()"
  by (auto simp: seal_vault_Inr sealed_as_def)

lemma encrypt_cli_Inr:
  "encryptVaultV2 so now opts r = (Inr v, r') \<longleftrightarrow>
     (\<exists>pt x. encrypt_checks opts = Inr pt \<and> draw_randomness opts r = (x, r') \<and> seal_vault so now opts pt x = Inr v)"
  by (auto simp: encryptVaultV2_def split: sum.splits prod.splits)

lemma lock_same:
  assumes "base64_works so"
  shows "encryptVaultV2_web so now opts r = (Inr v, r') \<longleftrightarrow>
    (\<exists>s. o_plaintext opts = PtString s) \<and> is_mode (o_mode opts) \<and>
    encryptVaultV2 so now (cli_opts opts) r = (Inr v, r')" (is "?web \<longleftrightarrow> ?text \<and> ?mode \<and> ?cli")
proof
  assume ?web
  then obtain x where c: "web_checks opts" and x: "draw_randomness opts r = (x, r')"
    "check_randomness x = Inr ()" "seal_vault_web so now opts x = Inr v"
    by (auto simp: encrypt_web_Inr)
  moreover from c have "encrypt_checks (cli_opts opts) = Inr (message_bytes opts)" ?text ?mode
    using web_checks_cli [of opts "message_bytes opts"] by auto
  ultimately show "?text \<and> ?mode \<and> ?cli" using seal_same [OF assms, of opts x]
    by (auto simp: encrypt_cli_Inr)
next
  assume a: "?text \<and> ?mode \<and> ?cli"
  then obtain pt x where "encrypt_checks (cli_opts opts) = Inr pt" and x: "draw_randomness opts r = (x, r')"
    "seal_vault so now (cli_opts opts) pt x = Inr v" by (auto simp: encrypt_cli_Inr)
  then have "web_checks opts" "pt = message_bytes opts" using a web_checks_cli [of opts pt] by auto
  then show ?web using x a seal_same [OF assms, of opts x] seal_vault_checked [OF x(2)] by (auto simp: encrypt_web_Inr)
qed

section \<open>The page and the command line tool open the same vaults\<close>

text \<open>The fields are what the encoder writes: no padding, no stray bits, no missing digit.\<close>

definition strict_b64 :: "jsval \<Rightarrow> bool" where
  "strict_b64 v = list_all (\<lambda>x. \<exists>bs. x = JStr (b64urlEncode bs)) (sealed_fields v)"

lemma b64_member_web_Inr:
  "base64_works so \<Longrightarrow> b64_member_web so v a b = Inr bs \<longleftrightarrow> get2 v a b = Inr (JStr (b64urlEncode bs))"
proof (cases "get2 v a b")
  case (Inr x)
  then show "base64_works so \<Longrightarrow> ?thesis" by (cases x) (auto simp: b64_member_web_def base64_worksD)
qed (simp add: b64_member_web_def)

lemma b64_member_strict:
  assumes "is_object v" and "is_object (fld v a)" and "fld (fld v a) b = JStr (b64urlEncode cs)"
  shows "b64_member v a b = Inr bs \<longleftrightarrow> bs = cs"
  using assms by (auto simp: b64_member_object b64urlDecode_encode)

definition sections_are_objects :: "jsval \<Rightarrow> bool" where
  "sections_are_objects v =
     (is_object v \<and> is_object (fld v ''kdf'') \<and> is_object (fld v ''wrap'') \<and> is_object (fld v ''content''))"

lemma parts_same:
  assumes "base64_works so" and "sections_are_objects v"
  shows "decode_parts_web so what v = Inr p \<longleftrightarrow> decode_parts v = Inr p \<and> strict_b64 v"
proof -
  let ?enc = "\<lambda>a b bs. fld (fld v a) b = JStr (b64urlEncode bs)"
  note o = assms(2) [unfolded sections_are_objects_def]
  have web: "b64_member_web so v a b = Inr bs \<longleftrightarrow> ?enc a b bs" if "is_object (fld v a)" for a b bs
    using that o assms(1) by (simp add: b64_member_web_Inr get2_object)
  have cli: "b64_member v a b = Inr bs" if "is_object (fld v a)" "?enc a b bs" for a b bs
    using that o by (simp add: b64_member_strict)
  have strict: "strict_b64 v \<longleftrightarrow> (\<exists>a b c d e. ?enc ''kdf'' ''salt'' a \<and> ?enc ''wrap'' ''nonce'' b \<and>
      ?enc ''wrap'' ''wrapped_key'' c \<and> ?enc ''content'' ''nonce'' d \<and> ?enc ''content'' ''ciphertext'' e)"
    by (simp add: strict_b64_def sealed_fields_def)
  show ?thesis
  proof
    assume "decode_parts_web so what v = Inr p"
    then show "decode_parts v = Inr p \<and> strict_b64 v"
      using o cli by (auto simp: decode_parts_web_def decode_parts_def web strict)
  next
    assume a: "decode_parts v = Inr p \<and> strict_b64 v"
    then obtain ka wn wk cn cc where e: "?enc ''kdf'' ''salt'' ka" "?enc ''wrap'' ''nonce'' wn"
      "?enc ''wrap'' ''wrapped_key'' wk" "?enc ''content'' ''nonce'' cn" "?enc ''content'' ''ciphertext'' cc"
      unfolding strict by blast
    with a o show "decode_parts_web so what v = Inr p"
      by (auto simp: decode_parts_web_def decode_parts_def web b64_member_strict)
  qed
qed

lemma decode_parts_nonempty:
  assumes "sections_are_objects v" and "decode_parts v = Inr p"
  shows "JStr [] \<notin> set (sealed_fields v)"
proof -
  note o = assms(1) [unfolded sections_are_objects_def] and m = decode_parts_members [OF assms(2)]
    and l = decode_parts_lengths [OF assms(2)]
  have "b64urlEncode [] = []" by simp
  then have d: "b64urlDecode [] = Inr []" using b64urlDecode_encode [of "[]"] by (simp only:)
  have e: "b64_member v a b = Inr []" if "is_object (fld v a)" "fld (fld v a) b = JStr []" for a b
    using that o d by (simp add: b64_member_object)
  show ?thesis using m l o e [of "''kdf''" "''salt''"] e [of "''wrap''" "''nonce''"] e [of "''wrap''" "''wrapped_key''"]
      e [of "''content''" "''nonce''"] e [of "''content''" "''ciphertext''"]
    by (auto simp: sealed_fields_def)
qed

lemma wf_web_v2_sections: "wf_web_v2 v \<Longrightarrow> sections_are_objects v"
  by (simp add: wf_web_v2_def sections_are_objects_def wf_common_def wf_section_web_def wf_kdf_web_def)

lemma unseal_Inr:
  "unseal so p wrapKey aad1 aad2 msgs = Inr m \<longleftrightarrow>
     (\<exists>vaultKey pt. aead_decrypt so (p_wrappedKey p) aad1 (p_wrapNonce p) wrapKey = Inr vaultKey \<and>
        length vaultKey = 32 \<and> aead_decrypt so (p_contentCt p) aad2 (p_contentNonce p) vaultKey = Inr pt \<and>
        fromUtf8 pt = Inr m)"
  by (auto simp: unseal_def KEY_BYTES_def)

lemma open_same:
  assumes "base64_works so"
  shows "decryptVaultV2_web so v pw = Inr m \<longleftrightarrow> decryptVaultV2 so v pw = Inr m \<and> strict_b64 v"
proof (cases "wf_web_v2 v")
  case True
  note o = wf_web_v2_sections [OF True]
  have "decryptVaultV2_web so v pw = Inr m \<longleftrightarrow> nonempty_str pw \<and> (\<exists>p wrapKey aad vaultKey pt.
      opened_as so v (str_of pw) p wrapKey aad vaultKey pt \<and> fromUtf8 pt = Inr m) \<and> strict_b64 v"
    using True
    by (auto simp: decryptVaultV2_web_def validate_v2_web_ok parts_same [OF assms o] unseal_Inr opened_as_def)
  moreover have "wf_vault_v2 v" if "opened_as so v (str_of pw) p wrapKey aad vaultKey pt" for p wrapKey aad vaultKey pt
    using that True decode_parts_nonempty [OF o] by (simp add: opened_as_def wf_vault_v2_web)
  ultimately show ?thesis unfolding decrypt_Inr by metis
next
  case False
  then have "\<not> wf_vault_v2 v" by (simp add: wf_vault_v2_web)
  then show ?thesis using False web_v2.opened_valid [of so v pw m] by (auto simp: decrypt_Inr)
qed

section \<open>V1\<close>

lemma is_object_val [simp]: "\<not> is_object JUndef"
  by (simp add: is_object_def)

definition v1_with :: "sodium \<Rightarrow> jstr \<Rightarrow> encrypt_opts \<Rightarrow> bytes \<Rightarrow> bytes \<Rightarrow> jstr \<Rightarrow> jsval" where
  "v1_with so now opts salt nonce c = set2 (vault_literal_v1 so now opts salt nonce) ''aead'' ''ciphertext'' (JStr c)"

lemma v1_with_fields:
  fixes so now opts salt nonce c
  defines "v \<equiv> v1_with so now opts salt nonce c"
  shows "is_object v" "fld v ''schema'' = JStr SCHEMA_V1" "fld v ''version'' = JStr VERSION_web"
    "fld v ''created_at'' = JStr now" "fld v ''mode'' = o_mode opts" "is_object (fld v ''kdf'')"
    "fld (fld v ''kdf'') ''algorithm'' = JStr KDF_ALG"
    "fld (fld v ''kdf'') ''opslimit'' = JNum (num_or (o_opslimit opts) DEFAULT_OPSLIMIT)"
    "fld (fld v ''kdf'') ''memlimit'' = JNum (num_or (o_memlimit opts) DEFAULT_MEMLIMIT)"
    "fld (fld v ''kdf'') ''salt'' = JStr (to_base64 so salt)"
    "is_object (fld v ''aead'')" "fld (fld v ''aead'') ''algorithm'' = JStr AEAD_ALG"
    "fld (fld v ''aead'') ''nonce'' = JStr (to_base64 so nonce)" "fld (fld v ''aead'') ''ciphertext'' = JStr c"
  by (simp_all add: v_def v1_with_def vault_literal_v1_def set2_def)

lemma v1_literal: "vault_literal_v1 so now opts salt nonce = v1_with so now opts salt nonce []"
  by (simp add: v1_with_def vault_literal_v1_def set2_def)

lemma v1_with_set: "set2 (v1_with so now opts salt nonce []) ''aead'' ''ciphertext'' (JStr c) = v1_with so now opts salt nonce c"
  by (simp add: v1_with_def vault_literal_v1_def set2_def)

lemma v1_aad_same: "buildAADV1 (v1_with so now opts salt nonce c) = buildAADV1 (v1_with so now opts salt nonce [])"
  by (simp add: buildAADV1_def aad_object_v1_def get2_object v1_with_fields del: fld_JObj)

lemma v1_with_wf:
  assumes "is_mode (o_mode opts)" and "limit_checks opts = Inr ()"
  shows "wf_web_v1 (v1_with so now opts salt nonce c)"
  using assms
  by (simp add: wf_web_v1_def wf_common_def wf_kdf_web_def wf_section_web_def v1_with_fields limit_checks_def
      all_checks_ok int_between_def not_less del: fld_JObj)

lemma v1_aad_total: "\<exists>aad. buildAADV1 (v1_with so now opts salt nonce c) = Inr aad"
  by (simp add: buildAADV1_def aad_object_v1_def get2_object v1_with_fields del: fld_JObj)

lemma b64_member_web_encoded:
  "base64_works so \<Longrightarrow> is_object v \<Longrightarrow> is_object (fld v a) \<Longrightarrow> fld (fld v a) b = JStr (to_base64 so bs) \<Longrightarrow>
   b64_member_web so v a b = Inr bs"
  by (simp add: b64_member_web_def get2_object base64_worksD)

text \<open>The steps of a V1 lock that succeeded.\<close>

lemma encrypt_v1_Inr:
  assumes "encryptVaultV1 so now opts r = (Inr v, r')"
  obtains salt nonce key aad ct where "web_checks opts" and "length salt = 16" and "length nonce = 24"
    and "crypto_pwhash so 32 (utf8 (str_of (o_password opts))) salt (num_or (o_opslimit opts) DEFAULT_OPSLIMIT)
      (num_or (o_memlimit opts) DEFAULT_MEMLIMIT) = Inr key"
    and "buildAADV1 (v1_with so now opts salt nonce []) = Inr aad"
    and "aead_encrypt so (message_bytes opts) aad nonce key = Inr ct"
    and "v = v1_with so now opts salt nonce (to_base64 so ct)"
  using assms
  by (auto simp: encryptVaultV1_def all_checks_ok web_checks_def v1_literal v1_with_set size_defs Let_def split: prod.splits)

lemma web_checks_limits:
  "web_checks opts \<Longrightarrow> is_mode (o_mode opts) \<and> nonempty_str (o_password opts) \<and>
     1 \<le> num_or (o_opslimit opts) DEFAULT_OPSLIMIT \<and> num_or (o_opslimit opts) DEFAULT_OPSLIMIT \<le> 10 \<and>
     8388608 \<le> num_or (o_memlimit opts) DEFAULT_MEMLIMIT \<and> num_or (o_memlimit opts) DEFAULT_MEMLIMIT \<le> 268435456 \<and>
     message_bytes opts \<noteq> [] \<and> length (message_bytes opts) \<le> 262144"
  by (auto simp: web_checks_def form_checks_ok limit_checks_def size_check_def all_checks_ok limit_defs size_defs
      message_bytes_def not_less)

lemma v1_opens:
  assumes ok: "kdf_works so" "aead_works so" "base64_works so"
    and lock: "encryptVaultV1 so now opts r = (Inr v, r')"
  shows "decryptVaultV1 so v (o_password opts) = rethrow msg_not_utf8 (fromUtf8 (message_bytes opts))" and "wf_web_v1 v"
proof -
  obtain salt nonce key aad ct where c: "web_checks opts" and l: "length salt = 16" "length nonce = 24"
    and k: "crypto_pwhash so 32 (utf8 (str_of (o_password opts))) salt (num_or (o_opslimit opts) DEFAULT_OPSLIMIT)
      (num_or (o_memlimit opts) DEFAULT_MEMLIMIT) = Inr key"
    and a: "buildAADV1 (v1_with so now opts salt nonce []) = Inr aad"
    and e: "aead_encrypt so (message_bytes opts) aad nonce key = Inr ct"
    and v: "v = v1_with so now opts salt nonce (to_base64 so ct)"
    by (rule encrypt_v1_Inr [OF lock])
  note w = web_checks_limits [OF c]
  have "length key = 32" using k kdf_worksE [OF ok(1) l(1), of "num_or (o_opslimit opts) DEFAULT_OPSLIMIT"
      "num_or (o_memlimit opts) DEFAULT_MEMLIMIT" "utf8 (str_of (o_password opts))"] w by auto
  then have d: "aead_decrypt so ct aad nonce key = Inr (message_bytes opts)" "length ct = length (message_bytes opts) + 16"
    using aead_encrypt_opens [OF ok(2) l(2) _ e] by auto
  have ne: "ct \<noteq> []" "length ct \<le> MAX_CIPHERTEXT_BYTES" using d(2) w by (auto simp: size_defs)
  show wf: "wf_web_v1 v" using c unfolding v by (intro v1_with_wf) (simp_all add: web_checks_def form_checks_ok)
  have b: "b64_member_web so v ''kdf'' ''salt'' = Inr salt" "b64_member_web so v ''aead'' ''nonce'' = Inr nonce"
    "b64_member_web so v ''aead'' ''ciphertext'' = Inr ct"
    unfolding v by (rule b64_member_web_encoded [OF ok(3)]; simp add: v1_with_fields del: fld_JObj)+
  have wk: "wrap_key so v salt (str_of (o_password opts)) = Inr key"
    using k unfolding v by (simp add: wrap_key_def get2_object v1_with_fields KEY_BYTES_def del: fld_JObj)
  have va: "validateVaultSchemaV1_web v = Inr ()" using wf by (simp add: validate_v1_web_ok)
  have "buildAADV1 v = Inr aad" using a v1_aad_same [of so now opts salt nonce "to_base64 so ct"] unfolding v by metis
  then show "decryptVaultV1 so v (o_password opts) = rethrow msg_not_utf8 (fromUtf8 (message_bytes opts))"
    using w ne by (simp add: decryptVaultV1_def va b wk d l size_defs throw_if_def) (simp add: rethrow_def)
qed

lemma v1_lock_total:
  assumes ok: "kdf_works so" "aead_works so" and c: "web_checks opts"
    and o: "pred_option (\<lambda>b. length b = SALT_BYTES) (o_salt opts)" "pred_option (\<lambda>b. length b = NONCE_BYTES) (o_wrapNonce opts)"
  obtains v r' where "encryptVaultV1 so now opts r = (Inr v, r')"
proof -
  obtain salt r1 where s: "draw_or (o_salt opts) SALT_BYTES r = (salt, r1)" by fastforce
  obtain nonce r2 where n: "draw_or (o_wrapNonce opts) NONCE_BYTES r1 = (nonce, r2)" by fastforce
  have l: "length salt = 16" "length nonce = 24"
    using draw_or_len [OF s] draw_or_len [OF n] o by (simp_all add: size_defs)
  note w = web_checks_limits [OF c]
  obtain k where k: "crypto_pwhash so 32 (utf8 (str_of (o_password opts))) salt (num_or (o_opslimit opts) DEFAULT_OPSLIMIT)
      (num_or (o_memlimit opts) DEFAULT_MEMLIMIT) = Inr k" "length k = 32"
    using kdf_worksE [OF ok(1) l(1), of "num_or (o_opslimit opts) DEFAULT_OPSLIMIT"
      "num_or (o_memlimit opts) DEFAULT_MEMLIMIT" "utf8 (str_of (o_password opts))"] w by auto
  obtain aad where a: "buildAADV1 (v1_with so now opts salt nonce []) = Inr aad" using v1_aad_total by blast
  obtain ct where "aead_encrypt so (message_bytes opts) aad nonce k = Inr ct"
    using aead_worksE [OF ok(2) l(2) k(2)] by metis
  then have "encryptVaultV1 so now opts r = (Inr (v1_with so now opts salt nonce (to_base64 so ct)), r2)"
    using c l k a s n by (simp add: encryptVaultV1_def all_checks_ok web_checks_def v1_literal v1_with_set size_defs)
  then show thesis by (rule that)
qed

lemma message_bytes_text: "web_checks opts \<Longrightarrow> \<exists>s. o_plaintext opts = PtString s \<and> s \<noteq> [] \<and> message_bytes opts = utf8 s"
  by (auto simp: web_checks_def form_checks_ok message_bytes_def)

section \<open>Web locks open everywhere\<close>

lemma encrypt_cli_strict:
  assumes "encryptVaultV2 so now opts r = (Inr v, r')"
  shows "strict_b64 v"
proof -
  obtain pt x k aad w c where "sealed_as so now opts pt x k aad w c v" by (rule encrypt_Inr [OF assms])
  then show ?thesis by (auto simp: sealed_as_def strict_b64_def sealed_fields_def vault_literal_fields simp del: fld_JObj)
qed

lemma wf_v2_dispatch:
  "wf_web_v2 v \<Longrightarrow> decryptVault so v pw = decryptVaultV2_web so v pw"
  "wf_web_v1 v \<Longrightarrow> decryptVault so v pw = decryptVaultV1 so v pw"
  "wf_notify_v1 v \<Longrightarrow> decryptVault so v pw = decryptVaultQiraNotifyV1 so v pw"
  using schemas_distinct
  by (auto simp: decryptVault_def wf_web_v2_def wf_web_v1_def wf_notify_v1_def wf_common_def)

lemma page_opens_cli:
  assumes "kdf_works so" and "aead_works so" and "base64_works so"
    and "encryptVaultV2 so now opts r = (Inr v, r')" and "o_plaintext opts = PtString s"
  shows "decryptVault so v (o_password opts) = Inr (units_of (drop_bom (code_points s)))"
proof -
  note l = lock_opens [OF assms(1,2,4,5)]
  then have "wf_web_v2 v" by (simp add: wf_vault_v2_web)
  then show ?thesis using l(2) encrypt_cli_strict [OF assms(4)] by (simp add: wf_v2_dispatch open_same [OF assms(3)])
qed

lemma page_lock_opens:
  assumes "kdf_works so" and "aead_works so" and "base64_works so"
    and "encryptVault so now opts r = (Inr v, r')"
  obtains s where "o_plaintext opts = PtString s" and "s \<noteq> []" and "wf_vault_v2 v"
    and "decryptVault so v (o_password opts) = Inr (units_of (drop_bom (code_points s)))"
    and "decryptVaultV2 so v (o_password opts) = Inr (units_of (drop_bom (code_points s)))"
proof -
  have w: "encryptVaultV2_web so now opts r = (Inr v, r')" using assms(4) by (simp add: encryptVault_def)
  then obtain s where s: "o_plaintext opts = PtString s" "s \<noteq> []"
    using message_bytes_text by (auto simp: encrypt_web_Inr)
  have c: "encryptVaultV2 so now (cli_opts opts) r = (Inr v, r')" using w by (simp add: lock_same [OF assms(3)])
  show thesis
    using that [OF s] lock_opens [OF assms(1,2) c] page_opens_cli [OF assms(1-3) c] s by simp
qed

lemma page_lock_total:
  assumes "kdf_works so" and "aead_works so" and "base64_works so" and "web_checks opts" and "overrides_ok opts"
  obtains v r' where "encryptVault so now opts r = (Inr v, r')"
proof -
  have c: "encrypt_checks (cli_opts opts) = Inr (message_bytes opts)" "\<exists>s. o_plaintext opts = PtString s" "is_mode (o_mode opts)"
    using web_checks_cli [of opts "message_bytes opts"] assms(4) by auto
  have "overrides_ok (cli_opts opts)" using assms(5) by (simp add: overrides_ok_def cli_opts_def)
  then obtain v r' where "encryptVaultV2 so now (cli_opts opts) r = (Inr v, r')"
    using lock_total [OF assms(1,2) c(1)] by metis
  then have "encryptVaultV2_web so now opts r = (Inr v, r')" using c(2,3) by (simp add: lock_same [OF assms(3)])
  then show thesis using that by (simp add: encryptVault_def)
qed

section \<open>The page's self-test\<close>

definition quick_opts_web :: "jstr \<Rightarrow> jstr \<Rightarrow> encrypt_opts" where
  "quick_opts_web plain phrase =
     (let quick = the (map_of LOCK_PRESETS_web (lit ''quick''))
      in \<lparr>o_plaintext = PtString plain, o_password = JStr phrase, o_mode = JStr (lit ''self''),
          o_opslimit = Some (preset_opslimit quick), o_memlimit = Some (preset_memlimit quick),
          o_salt = None, o_wrapNonce = None, o_contentNonce = None, o_vaultKey = None, o_createdAt = None,
          o_version = None\<rparr>)"

definition tampered_copy_web :: "sodium \<Rightarrow> jsval \<Rightarrow> jsval res" where
  "tampered_copy_web so v =
     bind_res (json_clone v) (\<lambda>t.
     bind_res (b64_member_web so t ''content'' ''ciphertext'') (\<lambda>ct.
     Inr (set2 t ''content'' ''ciphertext'' (JStr (to_base64 so (flip_first ct))))))"

definition msg_st_v1_schema :: jstr where "msg_st_v1_schema = lit ''Self-test: V1 encrypt produced wrong schema''"
definition msg_st_v1_round :: jstr where "msg_st_v1_round = lit ''Self-test: V1 legacy round-trip mismatch''"

definition self_checks_v2 :: "sodium \<Rightarrow> jsval \<Rightarrow> unit res" where
  "self_checks_v2 so v2 =
     bind_res (get v2 (lit ''schema'')) (\<lambda>schema.
     throw_if (schema \<noteq> JStr SCHEMA_V2) msg_st_schema
     (bind_res (decryptVault so v2 (JStr test_phrase)) (\<lambda>v2Round.
      throw_if (v2Round \<noteq> test_plain) msg_st_round
      (throw_if (is_ok (decryptVault so v2 (JStr (lit ''wrong-phrase'')))) msg_st_wrong
      (bind_res (tampered_copy_web so v2) (\<lambda>tampered.
       throw_if (is_ok (decryptVault so tampered (JStr test_phrase))) msg_st_tamper (Inr ())))))))"

definition self_checks_v1 :: "sodium \<Rightarrow> jsval \<Rightarrow> unit res" where
  "self_checks_v1 so v1 =
     bind_res (get v1 (lit ''schema'')) (\<lambda>schema.
     throw_if (schema \<noteq> JStr SCHEMA_V1) msg_st_v1_schema
     (bind_res (decryptVault so v1 (JStr test_phrase)) (\<lambda>v1Round.
      throw_if (v1Round \<noteq> test_plain) msg_st_v1_round (Inr ()))))"

definition runSelfTest_web :: "sodium \<Rightarrow> jstr \<Rightarrow> rng \<Rightarrow> unit res \<times> rng" where
  "runSelfTest_web so now r =
     (case encryptVaultV2_web so now (quick_opts_web test_plain test_phrase) r of
        (Inl e, r1) \<Rightarrow> (Inl e, r1)
      | (Inr v2, r1) \<Rightarrow>
          (case self_checks_v2 so v2 of
             Inl e \<Rightarrow> (Inl e, r1)
           | Inr _ \<Rightarrow>
               (case encryptVaultV1 so now (quick_opts_web test_plain test_phrase) r1 of
                  (Inl e, r2) \<Rightarrow> (Inl e, r2)
                | (Inr v1, r2) \<Rightarrow> (self_checks_v1 so v1, r2))))"

lemma quick_opts_web_checks:
  assumes "msg \<noteq> []" and "phrase \<noteq> []" and "length msg \<le> 1000"
  shows "web_checks (quick_opts_web msg phrase)" and "overrides_ok (quick_opts_web msg phrase)"
proof -
  have "length (utf8 msg) \<le> MAX_PLAINTEXT_BYTES"
    using utf8_length [of msg] assms(3) by (simp add: MAX_PLAINTEXT_BYTES_def)
  then show "web_checks (quick_opts_web msg phrase)" "overrides_ok (quick_opts_web msg phrase)"
    using assms(1,2)
    by (simp_all add: quick_opts_web_def web_checks_def form_checks_ok limit_checks_def size_check_def all_checks_ok
        message_bytes_def overrides_ok_def nonempty_str_def is_mode_def num_or_def limit_defs LOCK_PRESETS_web_def mib_def)
qed

lemma page_lock_wf_val: "base64_works so \<Longrightarrow> encryptVault so now opts r = (Inr v, r') \<Longrightarrow> wf_val v"
  using lock_wf_val by (auto simp: encryptVault_def lock_same)

lemma tampered_copy_web_ok:
  assumes "base64_works so" and "wf_vault_v2 v" and "wf_val v" and "strict_b64 v"
  shows "\<exists>t. tampered_copy_web so v = Inr t"
proof -
  note o = wf_vault_sections [OF assms(2)]
  obtain bs where "fld (fld v ''content'') ''ciphertext'' = JStr (b64urlEncode bs)"
    using assms(4) by (auto simp: strict_b64_def sealed_fields_def)
  then have "b64_member_web so v ''content'' ''ciphertext'' = Inr bs"
    using o assms(1) by (simp add: b64_member_web_Inr get2_object)
  then show ?thesis using assms(3) by (simp add: tampered_copy_web_def)
qed

lemma plain_units: "plain_text s \<Longrightarrow> units_of (drop_bom (code_points s)) = s"
  using drop_bom_plain [of s] units_of_code_points [of s] by (simp add: plain_text_def)

lemma plain_lit_units: "units_of (drop_bom (code_points (lit s))) = lit s"
  by (rule plain_units [OF plain_text_lit])

lemma quick_fields [simp]:
  "o_plaintext (quick_opts_web msg phrase) = PtString msg" "o_password (quick_opts_web msg phrase) = JStr phrase"
  "o_salt (quick_opts_web msg phrase) = None" "o_wrapNonce (quick_opts_web msg phrase) = None"
  by (simp_all add: quick_opts_web_def Let_def)

lemma page_self_test_v2:
  assumes "kdf_works so" and "aead_works so" and "base64_works so"
  obtains v r1 t where "encryptVaultV2_web so now (quick_opts_web test_plain test_phrase) r = (Inr v, r1)"
    and "tampered_copy_web so v = Inr t"
    and "self_checks_v2 so v = (if is_ok (decryptVault so v (JStr (lit ''wrong-phrase''))) then Inl msg_st_wrong
       else if is_ok (decryptVault so t (JStr test_phrase)) then Inl msg_st_tamper else Inr ())"
proof -
  have q: "web_checks (quick_opts_web test_plain test_phrase)" "overrides_ok (quick_opts_web test_plain test_phrase)"
    using quick_opts_web_checks [of test_plain test_phrase] by (simp_all add: test_plain_def test_phrase_def)
  obtain v r1 where v: "encryptVault so now (quick_opts_web test_plain test_phrase) r = (Inr v, r1)"
    by (rule page_lock_total [OF assms q])
  obtain s where s: "o_plaintext (quick_opts_web test_plain test_phrase) = PtString s" and wf: "wf_vault_v2 v"
    and d: "decryptVault so v (o_password (quick_opts_web test_plain test_phrase)) = Inr (units_of (drop_bom (code_points s)))"
    by (rule page_lock_opens [OF assms v])
  have st: "strict_b64 v" using v encrypt_cli_strict by (auto simp: encryptVault_def lock_same [OF assms(3)])
  obtain t where t: "tampered_copy_web so v = Inr t"
    using tampered_copy_web_ok [OF assms(3) wf page_lock_wf_val [OF assms(3) v] st] by blast
  have "s = test_plain" using s by simp
  then have "decryptVault so v (JStr test_phrase) = Inr test_plain"
    using d plain_lit_units [of "''self-test: hello world''"] by (simp add: test_plain_def)
  then have "self_checks_v2 so v = (if is_ok (decryptVault so v (JStr (lit ''wrong-phrase''))) then Inl msg_st_wrong
       else if is_ok (decryptVault so t (JStr test_phrase)) then Inl msg_st_tamper else Inr ())"
    by (simp add: self_checks_v2_def wf_schema [OF wf] t throw_if_def)
  then show thesis using that v t by (simp add: encryptVault_def)
qed

lemma page_self_test_v1:
  assumes "kdf_works so" and "aead_works so" and "base64_works so"
  obtains v r' where "encryptVaultV1 so now (quick_opts_web test_plain test_phrase) r = (Inr v, r')"
    and "self_checks_v1 so v = Inr ()"
proof -
  let ?o = "quick_opts_web test_plain test_phrase"
  have q: "web_checks ?o" using quick_opts_web_checks [of test_plain test_phrase]
    by (simp_all add: test_plain_def test_phrase_def)
  obtain v r' where v: "encryptVaultV1 so now ?o r = (Inr v, r')"
    by (rule v1_lock_total [OF assms(1,2) q, of now r]) simp_all
  note w = v1_opens [OF assms v]
  have "message_bytes ?o = utf8 test_plain" by (simp add: message_bytes_def)
  then have "decryptVaultV1 so v (JStr test_phrase) = Inr test_plain"
    using w(1) fromUtf8_utf8_plain [OF plain_text_lit] by (simp add: test_plain_def rethrow_def)
  moreover have "get v (lit ''schema'') = Inr (JStr SCHEMA_V1)"
    using w(2) by (auto simp: wf_web_v1_def wf_common_def)
  ultimately have "self_checks_v1 so v = Inr ()"
    using w(2) by (simp add: self_checks_v1_def wf_v2_dispatch(2))
  then show thesis using that v by blast
qed

section \<open>Notify envelopes\<close>

definition with_created_at :: "jsval \<Rightarrow> jstr \<Rightarrow> jsval" where
  "with_created_at v t = (case v of JObj kvs \<Rightarrow> JObj (put kvs (lit ''created_at'') (JStr t)) | _ \<Rightarrow> v)"

lemma with_created_at_fld: "k \<noteq> ''created_at'' \<Longrightarrow> fld (with_created_at v t) k = fld v k"
  by (cases v) (auto simp: with_created_at_def map_of_put fld_def)

lemma with_created_at_object: "is_object (with_created_at v t) = is_object v"
  by (cases v) (auto simp: with_created_at_def is_object_def)

lemma with_created_at_str: "is_str (fld v ''created_at'') \<Longrightarrow> fld (with_created_at v t) ''created_at'' = JStr t"
  by (cases v) (auto simp: with_created_at_def map_of_put fld_def)

lemma with_created_at_get2:
  "is_object v \<Longrightarrow> is_object (fld v a) \<Longrightarrow> a \<noteq> ''created_at'' \<Longrightarrow> get2 (with_created_at v t) a b = get2 v a b"
  by (simp add: get2_object with_created_at_object with_created_at_fld)

lemma with_created_at_notify: "wf_notify_v1 v \<Longrightarrow> wf_notify_v1 (with_created_at v t)"
  by (simp add: wf_notify_v1_def with_created_at_object with_created_at_fld with_created_at_str)

lemma notify_reads:
  assumes "wf_notify_v1 v"
  shows "decryptVaultQiraNotifyV1 so (with_created_at v t) pw = decryptVaultQiraNotifyV1 so v pw"
proof -
  have o: "is_object v" "is_object (fld v ''kdf'')" "is_object (fld v ''wrap'')" "is_object (fld v ''content'')"
    using assms by (simp_all add: wf_notify_v1_def wf_kdf_web_def wf_section_web_def)
  note g = with_created_at_get2 [OF o(1)]
  have va: "validateVaultSchemaQiraNotifyV1 v = Inr ()" "validateVaultSchemaQiraNotifyV1 (with_created_at v t) = Inr ()"
    using assms with_created_at_notify by (simp_all add: validate_notify_ok)
  show ?thesis
    by (simp add: decryptVaultQiraNotifyV1_def va decode_parts_web_def b64_member_web_def wrap_key_def aad_text_def g o)
qed

lemma with_created_at_v2: "wf_vault_v2 v \<Longrightarrow> wf_vault_v2 (with_created_at v t)"
  by (simp add: wf_vault_v2_def with_created_at_object with_created_at_fld with_created_at_str)

section \<open>Properties\<close>

lemmas toy_all = toy_works sodium_okD(5) [OF toy_sodium_ok]

lemma sample_page_lock:
  obtains v r' where "encryptVault toy_sodium [] (quick_opts_web (lit ''hi'') (lit ''pw'')) (\<lambda>_. 7) = (Inr v, r')"
  using page_lock_total [OF toy_all, of "quick_opts_web (lit ''hi'') (lit ''pw'')" "[]" "\<lambda>_. 7"]
    quick_opts_web_checks [of "lit ''hi''" "lit ''pw''"] by auto

text \<open>
  From the same arguments and the same random bytes, the page and the command line tool
  (told the page's version string) make the very same vault and leave the random source in
  the same state; the page only refuses more: a message that is not a string or a mode that
  was not picked.
\<close>

theorem same_vaults:
  assumes "base64_works so"
  shows "encryptVaultV2_web so now opts r = (Inr v, r') \<longleftrightarrow>
    (\<exists>s. o_plaintext opts = PtString s) \<and> is_mode (o_mode opts) \<and>
    encryptVaultV2 so now (opts\<lparr>o_version := Some VERSION_web, o_createdAt := None\<rparr>) r = (Inr v, r')"
  using lock_same [OF assms] by (simp add: cli_opts_def)

theorem same_vaults_witness:
  "\<exists>v r'. encryptVaultV2_web toy_sodium [] (quick_opts_web (lit ''hi'') (lit ''pw'')) (\<lambda>_. 7) = (Inr v, r') \<and>
     encryptVaultV2 toy_sodium [] ((quick_opts_web (lit ''hi'') (lit ''pw''))\<lparr>o_version := Some VERSION_web, o_createdAt := None\<rparr>)
       (\<lambda>_. 7) = (Inr v, r')"
proof -
  obtain v r' where v: "encryptVault toy_sodium [] (quick_opts_web (lit ''hi'') (lit ''pw'')) (\<lambda>_. 7) = (Inr v, r')"
    by (rule sample_page_lock)
  then show ?thesis using same_vaults [OF toy_all(3), of "[]" "quick_opts_web (lit ''hi'') (lit ''pw'')" "\<lambda>_. 7" v r']
    by (auto simp: encryptVault_def)
qed

text \<open>
  The page and the command line tool open a V2 vault to the same message, except that the
  page insists on exactly the base64url text its own encoder writes.
\<close>

theorem same_opening:
  assumes "base64_works so"
  shows "decryptVaultV2_web so v pw = Inr m \<longleftrightarrow> decryptVaultV2 so v pw = Inr m \<and> strict_b64 v"
  by (rule open_same [OF assms])

theorem same_opening_witness:
  "\<exists>v. decryptVaultV2_web toy_sodium v (JStr (lit ''pw'')) = Inr (lit ''hi'')"
proof -
  obtain v r' where v: "encryptVault toy_sodium [] (quick_opts_web (lit ''hi'') (lit ''pw'')) (\<lambda>_. 7) = (Inr v, r')"
    by (rule sample_page_lock)
  then have c: "encryptVaultV2 toy_sodium [] (cli_opts (quick_opts_web (lit ''hi'') (lit ''pw''))) (\<lambda>_. 7) = (Inr v, r')"
    using lock_same [OF toy_all(3)] by (simp add: encryptVault_def)
  have "decryptVaultV2 toy_sodium v (JStr (lit ''pw'')) = Inr (lit ''hi'')"
    using lock_opens(2) [OF toy_all(1,2) c] plain_lit_units by simp
  then show ?thesis using same_opening [OF toy_all(3), of v "JStr (lit ''pw'')" "lit ''hi''"] encrypt_cli_strict [OF c] by blast
qed

text \<open>
  C13: A vault locked in the page opens, under its phrase, to its message both in the page and
  with the command line tool; a vault the command line tool locked opens in the page.
\<close>

theorem interoperable:
  assumes "kdf_works so" and "aead_works so" and "base64_works so" and "o_plaintext opts = PtString s"
    and "encryptVault so now opts r = (Inr v, r') \<or> encryptVaultV2 so now opts r = (Inr v, r')"
    and "plain_text s"
  shows "decryptVault so v (o_password opts) = Inr s \<and> decryptVaultV2 so v (o_password opts) = Inr s"
  using assms(5)
proof
  assume "encryptVault so now opts r = (Inr v, r')"
  then show ?thesis by (rule page_lock_opens [OF assms(1-3)]) (use assms(4,6) plain_units in auto)
next
  assume v: "encryptVaultV2 so now opts r = (Inr v, r')"
  note l = lock_opens [OF assms(1,2) v assms(4)]
  then show ?thesis using page_opens_cli [OF assms(1-3) v assms(4)] assms(6) by simp
qed

theorem interoperable_witness:
  "\<exists>v. decryptVault toy_sodium v (JStr (lit ''pw'')) = Inr (lit ''hi'') \<and>
     decryptVaultV2 toy_sodium v (JStr (lit ''pw'')) = Inr (lit ''hi'')"
proof -
  obtain v r' where v: "encryptVault toy_sodium [] (quick_opts_web (lit ''hi'') (lit ''pw'')) (\<lambda>_. 7) = (Inr v, r')"
    by (rule sample_page_lock)
  show ?thesis
    using interoperable [OF toy_all, of "quick_opts_web (lit ''hi'') (lit ''pw'')" "lit ''hi''" "[]" "\<lambda>_. 7" v r'] v
      sample_plain by auto
qed

text \<open>
  A legacy V1 vault, as the page still makes for its self-test, opens to the message that
  was locked, and the dispatch finds the V1 opener.
\<close>

theorem v1_roundtrip:
  assumes "kdf_works so" and "aead_works so" and "base64_works so"
    and "encryptVaultV1 so now opts r = (Inr v, r')" and "o_plaintext opts = PtString s" and "plain_text s"
  shows "decryptVault so v (o_password opts) = Inr s \<and> validateVaultSchema v = Inr () \<and>
    validateVaultSchemaV2 v \<noteq> Inr ()"
proof -
  note o = v1_opens [OF assms(1-4)]
  have "message_bytes opts = utf8 s" using assms(5) by (simp add: message_bytes_def)
  then have "decryptVaultV1 so v (o_password opts) = Inr s"
    using o(1) fromUtf8_utf8_plain [OF assms(6)] by (simp add: rethrow_def)
  moreover have "\<not> wf_vault_v2 v" using o(2) schemas_distinct by (auto simp: wf_web_v1_def wf_vault_v2_def)
  ultimately show ?thesis using o(2) by (simp add: wf_v2_dispatch(2) validateVaultSchema_ok validate_ok)
qed

theorem v1_roundtrip_witness:
  "\<exists>v. decryptVault toy_sodium v (JStr (lit ''pw'')) = Inr (lit ''hi'') \<and> fld v ''schema'' = JStr SCHEMA_V1"
proof -
  let ?o = "quick_opts_web (lit ''hi'') (lit ''pw'')"
  have q: "web_checks ?o" using quick_opts_web_checks [of "lit ''hi''" "lit ''pw''"] by simp
  obtain v r' where v: "encryptVaultV1 toy_sodium [] ?o (\<lambda>_. 7) = (Inr v, r')"
    by (rule v1_lock_total [OF toy_all(1,2) q, of "[]" "\<lambda>_. 7"]) simp_all
  have "fld v ''schema'' = JStr SCHEMA_V1" using v1_opens(2) [OF toy_all v] by (simp add: wf_web_v1_def)
  then show ?thesis using v1_roundtrip [OF toy_all v, of "lit ''hi''"] sample_plain by auto
qed

text \<open>
  Opening dispatches on the schema alone: whatever opens is a well-formed envelope of the
  schema it names, opened by that schema's procedure, under a non-empty phrase.
\<close>

theorem dispatch_sound:
  assumes "decryptVault so v pw = Inr m"
  shows "nonempty_str pw \<and>
    (fld v ''schema'' = JStr SCHEMA_V2 \<and> wf_web_v2 v \<and> decryptVaultV2_web so v pw = Inr m \<or>
     fld v ''schema'' = JStr SCHEMA_V1 \<and> wf_web_v1 v \<and> decryptVaultV1 so v pw = Inr m \<or>
     fld v ''schema'' = JStr SCHEMA_QIRA_NOTIFY_V1 \<and> wf_notify_v1 v \<and> decryptVaultQiraNotifyV1 so v pw = Inr m)"
proof -
  have "wf_web_v2 v \<or> wf_web_v1 v \<or> wf_notify_v1 v" by (rule web_any.opened_valid [OF assms])
  moreover have "decryptVaultV2_web so v pw = Inr m \<Longrightarrow> nonempty_str pw" "decryptVaultV1 so v pw = Inr m \<Longrightarrow> nonempty_str pw"
    "decryptVaultQiraNotifyV1 so v pw = Inr m \<Longrightarrow> nonempty_str pw"
    by (auto simp: decryptVaultV2_web_def decryptVaultV1_def decryptVaultQiraNotifyV1_def)
  ultimately show ?thesis using assms wf_v2_dispatch [of v so pw]
    by (auto simp: wf_web_v2_def wf_web_v1_def wf_notify_v1_def)
qed

theorem dispatch_sound_witness:
  "\<exists>v. decryptVaultV2_web toy_sodium v (JStr (lit ''pw'')) = Inr (lit ''hi'')"
proof -
  obtain v r' where v: "encryptVault toy_sodium [] (quick_opts_web (lit ''hi'') (lit ''pw'')) (\<lambda>_. 7) = (Inr v, r')"
    by (rule sample_page_lock)
  obtain s where s: "o_plaintext (quick_opts_web (lit ''hi'') (lit ''pw'')) = PtString s" and wf: "wf_vault_v2 v"
    and d: "decryptVault toy_sodium v (o_password (quick_opts_web (lit ''hi'') (lit ''pw''))) = Inr (units_of (drop_bom (code_points s)))"
    by (rule page_lock_opens [OF toy_all v])
  have "decryptVault toy_sodium v (JStr (lit ''pw'')) = Inr (lit ''hi'')" using d s plain_lit_units by (metis quick_fields(1,2) plaintext_arg.inject(1))
  moreover have "fld v ''schema'' = JStr SCHEMA_V2" using wf by (simp add: wf_vault_v2_def)
  ultimately show ?thesis using dispatch_sound [of toy_sodium v "JStr (lit ''pw'')" "lit ''hi''"] schemas_distinct by auto
qed

text \<open>
  The creation date of a Notify envelope is bound to nothing: replacing it changes no
  outcome of opening the envelope, while the same change to a V2 vault changes the additional
  data both its seals are checked against.
\<close>

theorem notify_date_unbound:
  assumes "wf_notify_v1 v" and "wf_vault_v2 w" and "fld w ''created_at'' \<noteq> JStr t"
  shows "decryptVaultQiraNotifyV1 so (with_created_at v t) pw = decryptVaultQiraNotifyV1 so v pw \<and>
    buildAADV2 (with_created_at w t) \<noteq> buildAADV2 w"
proof -
  have "is_str (fld w ''created_at'')" using assms(2) by (simp add: wf_vault_v2_def)
  then have "v2_fields (with_created_at w t) \<noteq> v2_fields w"
    using assms(3) with_created_at_str [of w t] by (auto simp: v2_fields_def)
  then show ?thesis
    using notify_reads [OF assms(1)] buildAADV2_wf_inj [OF with_created_at_v2 [OF assms(2)] assms(2)] by blast
qed

definition sample_notify :: jsval where
  "sample_notify =
     JObj [(lit ''schema'', JStr SCHEMA_QIRA_NOTIFY_V1), (lit ''created_at'', JStr []),
           (lit ''kdf'', JObj [(lit ''algorithm'', JStr KDF_ALG), (lit ''opslimit'', JNum 1),
                              (lit ''memlimit'', JNum 8388608), (lit ''salt'', JStr [])]),
           (lit ''wrap'', JObj [(lit ''algorithm'', JStr NOTIFY_AEAD_ALG), (lit ''aad'', JStr []), (lit ''nonce'', JStr []),
                               (lit ''wrapped_key'', JStr [])]),
           (lit ''content'', JObj [(lit ''algorithm'', JStr NOTIFY_AEAD_ALG), (lit ''aad'', JStr []), (lit ''nonce'', JStr []),
                                  (lit ''ciphertext'', JStr [])])]"

lemma sample_notify_wf: "wf_notify_v1 sample_notify"
  by (simp add: wf_notify_v1_def sample_notify_def wf_kdf_web_def wf_section_web_def int_between_def limit_defs)

theorem notify_date_unbound_witness:
  "wf_notify_v1 sample_notify \<and>
   buildAADV2 (with_created_at (sample_vault (lit ''self'')) (lit ''x'')) \<noteq> buildAADV2 (sample_vault (lit ''self''))"
proof -
  have "fld (sample_vault (lit ''self'')) ''created_at'' \<noteq> JStr (lit ''x'')" by (simp add: sample_vault_def)
  then show ?thesis
    using notify_date_unbound [OF sample_notify_wf sample_vault_wf(1), of "lit ''x''"] sample_notify_wf by blast
qed

text \<open>
  With working primitives the page's self-test makes its two vaults and reads them back;
  it blocks the page exactly when the cipher accepted a wrong phrase or a flipped bit.
\<close>

theorem page_selftest_verdict:
  assumes "kdf_works so" and "aead_works so" and "base64_works so"
  shows "\<exists>v r1 t. encryptVaultV2_web so now (quick_opts_web test_plain test_phrase) r = (Inr v, r1) \<and>
    tampered_copy_web so v = Inr t \<and>
    fst (runSelfTest_web so now r) =
      (if is_ok (decryptVault so v (JStr (lit ''wrong-phrase''))) then Inl msg_st_wrong
       else if is_ok (decryptVault so t (JStr test_phrase)) then Inl msg_st_tamper
       else Inr ())"
proof -
  obtain v r1 t where v: "encryptVaultV2_web so now (quick_opts_web test_plain test_phrase) r = (Inr v, r1)"
    and t: "tampered_copy_web so v = Inr t"
    and c: "self_checks_v2 so v = (if is_ok (decryptVault so v (JStr (lit ''wrong-phrase''))) then Inl msg_st_wrong
       else if is_ok (decryptVault so t (JStr test_phrase)) then Inl msg_st_tamper else Inr ())"
    by (rule page_self_test_v2 [OF assms])
  obtain v1 r2 where "encryptVaultV1 so now (quick_opts_web test_plain test_phrase) r1 = (Inr v1, r2)"
    "self_checks_v1 so v1 = Inr ()" by (rule page_self_test_v1 [OF assms])
  then have "fst (runSelfTest_web so now r) = self_checks_v2 so v"
    by (auto simp: runSelfTest_web_def v split: sum.splits)
  then show ?thesis using v t c by auto
qed

theorem page_selftest_verdict_witness:
  "fst (runSelfTest_web toy_sodium [] (\<lambda>_. 3)) \<in> {Inr (), Inl msg_st_wrong, Inl msg_st_tamper}"
  using page_selftest_verdict [OF toy_all, of "[]" "\<lambda>_. 3"] by (auto split: if_split_asm)

end
