(* ===== verification/Web_Text.thy ===== *)
theory Web_Text
  imports Web_Vault
begin

text \<open>
  The texts of the web page (\<open>landing/vault/chat.js\<close>): the strength meter, the envelope ID, the
  recovery sheet, the single-line form, and \<open>parseVaultInput\<close>, which reads all of them back.
\<close>

section \<open>Strings\<close>

text \<open>White space of \<open>trim\<close> and of \<open>\s\<close> in regular expressions.\<close>

definition js_space :: "16 word \<Rightarrow> bool" where
  "js_space u =
     (let c = unat u
      in 9 \<le> c \<and> c \<le> 13 \<or> c = 0x20 \<or> c = 0xA0 \<or> c = 0x1680 \<or> 0x2000 \<le> c \<and> c \<le> 0x200A \<or>
         c = 0x2028 \<or> c = 0x2029 \<or> c = 0x202F \<or> c = 0x205F \<or> c = 0x3000 \<or> c = 0xFEFF)"

definition trim :: "jstr \<Rightarrow> jstr" where
  "trim s = rev (dropWhile js_space (rev (dropWhile js_space s)))"

text \<open>\<open>s.split("\n")\<close>\<close>

fun split_lines :: "jstr \<Rightarrow> jstr list" where
  "split_lines [] = [[]]"
| "split_lines (c # s) =
     (if c = 10 then [] # split_lines s
      else (case split_lines s of [] \<Rightarrow> [[c]] | l # ls \<Rightarrow> (c # l) # ls))"

text \<open>\<open>for (i = 0; i < s.length; i += 64) ... s.slice(i, i + 64)\<close>\<close>

function chunks64 :: "jstr \<Rightarrow> jstr list" where
  "chunks64 s = (if s = [] then [] else take 64 s # chunks64 (drop 64 s))"
  by pat_completeness auto
termination by (relation "measure length") auto

declare chunks64.simps [simp del]

section \<open>The strength of a phrase\<close>

definition MIN_STRENGTH_SCORE :: int where "MIN_STRENGTH_SCORE = 3"

definition is_lower_az :: "16 word \<Rightarrow> bool" where "is_lower_az u = (97 \<le> unat u \<and> unat u \<le> 122)"
definition is_upper_az :: "16 word \<Rightarrow> bool" where "is_upper_az u = (65 \<le> unat u \<and> unat u \<le> 90)"
definition is_09 :: "16 word \<Rightarrow> bool" where "is_09 u = (48 \<le> unat u \<and> unat u \<le> 57)"

definition class_count :: "jstr \<Rightarrow> int" where
  "class_count pw =
     of_bool (list_ex is_lower_az pw) + of_bool (list_ex is_upper_az pw) + of_bool (list_ex is_09 pw) +
     of_bool (list_ex (\<lambda>u. \<not> is_lower_az u \<and> \<not> is_upper_az u \<and> \<not> is_09 u) pw)"

text \<open>The number of matches of \<open>/[\s\-_.]+/g\<close>; the flag says whether a match is under way.\<close>

definition is_separator :: "16 word \<Rightarrow> bool" where
  "is_separator u = (js_space u \<or> u = 45 \<or> u = 95 \<or> u = 46)"

fun separator_runs :: "bool \<Rightarrow> jstr \<Rightarrow> nat" where
  "separator_runs inside [] = 0"
| "separator_runs inside (c # s) =
     (if is_separator c then (if inside then 0 else 1) + separator_runs True s else separator_runs False s)"

text \<open>\<open>/(.)\1\1/\<close>: the dot matches no line terminator.\<close>

definition line_terminator :: "16 word \<Rightarrow> bool" where
  "line_terminator u = (u = 10 \<or> u = 13 \<or> u = 0x2028 \<or> u = 0x2029)"

fun triple_repeat :: "jstr \<Rightarrow> bool" where
  "triple_repeat (a # b # c # s) = (a = b \<and> b = c \<and> \<not> line_terminator a \<or> triple_repeat (b # c # s))"
| "triple_repeat _ = False"

text \<open>
  The case-insensitive test for a common start; under the flag \<open>i\<close> an ASCII letter only matches
  ASCII.
\<close>

definition fold_case :: "16 word \<Rightarrow> 16 word" where
  "fold_case u = (if is_upper_az u then u + 32 else u)"

definition common_starts :: "jstr list" where
  "common_starts = map lit [''password'', ''qwerty'', ''123'', ''letmein'', ''admin'', ''secret'', ''welcome'']"

definition common_start :: "jstr \<Rightarrow> bool" where
  "common_start pw = list_ex (\<lambda>p. starts_with p (map fold_case pw)) common_starts"

definition raw_score :: "jstr \<Rightarrow> int" where
  "raw_score pw =
     of_bool (length pw \<ge> 8) + of_bool (length pw \<ge> 12) + of_bool (length pw \<ge> 16) + of_bool (length pw \<ge> 24) +
     min (class_count pw) 2 +
     of_bool (separator_runs False pw \<ge> 3) + of_bool (separator_runs False pw \<ge> 4) -
     (if triple_repeat pw then 2 else 0) - (if common_start pw then 4 else 0)"

definition capped_score :: "jstr \<Rightarrow> int" where
  "capped_score pw =
     (let s1 = raw_score pw;
          s2 = (if length pw < 8 then min s1 1 else s1);
          s3 = (if length pw < 12 \<and> separator_runs False pw = 0 then min s2 2 else s2);
          s4 = (if s3 < 0 then 0 else s3)
      in if s4 > 7 then 7 else s4)"

definition strength_bucket :: "int \<Rightarrow> string \<times> string" where
  "strength_bucket score =
     (if score \<le> 1 then (''too weak'', ''A single word is crackable in hours. Use 4+ random words or the generator below.'')
      else if score \<le> 2 then (''weak'', ''Still guessable offline. Try 4+ random words.'')
      else if score \<le> 4 then (''okay'', ''Usable. Longer or more words would be safer.'')
      else if score \<le> 6 then (''strong'', ''Good. Hard to guess.'')
      else (''very strong'', ''Excellent. This is very hard to crack.''))"

record strength =
  s_score :: int
  s_label :: jstr
  s_hint :: jstr

definition passwordStrength :: "jstr \<Rightarrow> strength" where
  "passwordStrength pw =
     (if pw = [] then \<lparr>s_score = 0, s_label = lit ''(empty)'', s_hint = lit ''Type a phrase''\<rparr>
      else (let score = capped_score pw
            in \<lparr>s_score = score, s_label = lit (fst (strength_bucket score)), s_hint = lit (snd (strength_bucket score))\<rparr>))"

section \<open>The envelope ID\<close>

definition computeEnvelopeId :: "sodium \<Rightarrow> jsval \<Rightarrow> jstr" where
  "computeEnvelopeId so vault =
     to_hex so (crypto_hash_sha256 so (utf8 (text_or_empty (canonicalJSON vault))))"

section \<open>The recovery sheet\<close>

text \<open>One line: text, or text around a member of the vault that is turned into a string.\<close>

definition line :: "string \<Rightarrow> jstr res" where
  "line s = Inr (lit s)"

definition line_with :: "string \<Rightarrow> jsval res \<Rightarrow> string \<Rightarrow> jstr res" where
  "line_with pre v suf = bind_res v (\<lambda>x. bind_res (to_str x) (\<lambda>s. Inr (lit pre @ s @ lit suf)))"

definition HR :: "jstr res" where "HR = Inr (replicate 54 61)"
definition HR2 :: "jstr res" where "HR2 = Inr (replicate 54 45)"

definition msg_no_length :: jstr where "msg_no_length = lit ''Cannot read properties of undefined''"

text \<open>
  The lines of a long string. The page only prints sheets of vaults it has just locked, whose
  wrapped key and ciphertext are strings; other values are an error here.
\<close>

definition wrapped_lines :: "jsval res \<Rightarrow> jstr res list" where
  "wrapped_lines v =
     (case v of Inr (JStr s) \<Rightarrow> map (\<lambda>c. Inr (lit ''      '' @ c)) (chunks64 s)
      | Inr _ \<Rightarrow> [Inl msg_no_length] | Inl e \<Rightarrow> [Inl e])"

text \<open>\<open>Math.round(m / 1024 / 1024)\<close> rounds halves up.\<close>

definition round_mib :: "jsval \<Rightarrow> jsval" where
  "round_mib m = (case m of JNum n \<Rightarrow> JNum ((n + 524288) div 1048576) | _ \<Rightarrow> JStr (lit ''NaN''))"

definition mix_line :: "jsval \<Rightarrow> jstr res" where
  "mix_line vault =
     bind_res (line_with ''      Phrase mix:    '' (get2 vault ''kdf'' ''algorithm'') '' (work units '') (\<lambda>a.
     bind_res (line_with '''' (get2 vault ''kdf'' ''opslimit'') '', memory '') (\<lambda>b.
     bind_res (line_with '''' (bind_res (get2 vault ''kdf'' ''memlimit'') (\<lambda>m. Inr (round_mib m))) '' MiB)'') (\<lambda>c.
     Inr (a @ b @ c))))"

definition BEGIN_MARKER :: jstr where "BEGIN_MARKER = lit ''----- BEGIN BRY-NFET-SX VAULT -----''"
definition END_MARKER :: jstr where "END_MARKER = lit ''----- END BRY-NFET-SX VAULT -----''"

definition lock_lines :: "jsval \<Rightarrow> jstr res list" where
  "lock_lines vault =
     [line ''  Lock recipe:''] @
     (if get vault (lit ''schema'') = Inr (JStr SCHEMA_V2) then
        [line_with ''      Wrap (vault key): '' (get2 vault ''wrap'' ''algorithm'') '' (24-byte nonce, 16-byte tag)'',
         line_with ''      Content:          '' (get2 vault ''content'' ''algorithm'') '' (24-byte nonce, 16-byte tag)'']
      else [line_with ''      Encryption:    '' (get2 vault ''aead'' ''algorithm'') '' (24-byte nonce, 16-byte tag)'']) @
     [mix_line vault, line '''',
      line ''  Your scramble code (salt, base64url):'', line_with ''      '' (get2 vault ''kdf'' ''salt'') '''', line ''''] @
     (if get vault (lit ''schema'') = Inr (JStr SCHEMA_V2) then
        [line ''  Wrap nonce (base64url):'', line_with ''      '' (get2 vault ''wrap'' ''nonce'') '''', line '''',
         line ''  Wrapped vault key (base64url):''] @ wrapped_lines (get2 vault ''wrap'' ''wrapped_key'') @
        [line '''', line ''  Content nonce (base64url):'', line_with ''      '' (get2 vault ''content'' ''nonce'') '''', line '''',
         line ''  Encrypted message (ciphertext, base64url):''] @ wrapped_lines (get2 vault ''content'' ''ciphertext'')
      else
        [line ''  Your secret number (nonce, base64url):'', line_with ''      '' (get2 vault ''aead'' ''nonce'') '''', line '''',
         line ''  Encrypted message (ciphertext, base64url):''] @ wrapped_lines (get2 vault ''aead'' ''ciphertext''))"

text \<open>\<open>vault.mode === "share" ? ... : ...\<close>\<close>

definition mode_words :: "jsval \<Rightarrow> jsval" where
  "mode_words m = JStr (if m = JStr (lit ''share'') then lit ''share with someone'' else lit ''just for yourself'')"

definition head_lines :: "jsval \<Rightarrow> jstr \<Rightarrow> jstr \<Rightarrow> jstr res list" where
  "head_lines vault downloadFilename envelopeId =
     [HR, line ''BRY-NFET-SX VAULT  RECOVERY SHEET'', HR, line '''',
      line_with ''Locked at: '' (get vault (lit ''created_at'')) '''',
      line ''Made on:   secure.imagineqira.com/chat'', line '''',
      HR2, line ''TO OPEN THIS LATER, YOU NEED TWO THINGS:'', HR2, line '''',
      line ''  1. THE LOCKED BOX FILE'',
      line_with ''     File name:  '' (Inr (JStr downloadFilename)) '''',
      line ''     Save this file. Email it to yourself. Put it on a USB drive.'',
      line ''     The file is in your downloads folder.'', line '''',
      line ''  2. YOUR SECRET PHRASE'',
      line ''     This is the phrase you typed.'',
      line ''     We do not know it. We do not store it.'',
      line ''     If you forget it, the box CANNOT be opened. There is no recovery.'', line '''',
      HR2, line ''EVERYTHING BELOW IS ALREADY INSIDE THE BOX.'',
      line ''You do NOT need to save it separately.'',
      line ''It is here only for your records.'', HR2, line '''',
      line ''  Box name (envelope ID):'', line_with ''      '' (Inr (JStr envelopeId)) '''', line '''',
      line_with ''  Box style:         '' (get vault (lit ''schema'')) '''',
      line_with ''  Made by version:   '' (get vault (lit ''version'')) '''',
      line_with ''  Mode:              '' (bind_res (get vault (lit ''mode'')) (\<lambda>m. Inr (mode_words m))) '''', line '''']"

definition how_to_lines :: "jstr res list" where
  "how_to_lines =
     [line '''', HR2, line ''HOW TO OPEN THIS BOX AGAIN:'', HR2, line '''',
      line ''  1. Go to:    https://secure.imagineqira.com/chat'',
      line ''  2. Drop EITHER the .vault.json file OR this recovery sheet onto'',
      line ''     the page. (This sheet contains the full box at the bottom.)'',
      line ''  3. Type your secret phrase.'',
      line (''  4. Click '' @ dquote @ ''Open it!'' @ dquote), line '''',
      HR2, line ''THE LOCKED BOX (machine-readable copy)'', HR2, line '''',
      line ''If you lost the .vault.json file, you can paste this entire recovery'',
      line ''sheet into the Open box on the page. The page will find the box'',
      line ''content between the markers below automatically.'', line '''']"

definition verify_lines :: "jstr res list" where
  "verify_lines =
     [line '''', HR2, line ''HOW TO VERIFY THIS PAGE IS HONEST:'', HR2, line '''',
      line ''  1. Go to:    https://secure.imagineqira.com/verify'',
      line ''  2. Compare the SHA-256 of /chat/chat.js and /chat/sodium.js'',
      line ''     against the signed integrity record.'',
      line ''  3. If they match, the JavaScript is the published, signed version.'', line '''', HR]"

definition buildRecoverySheet :: "jsval \<Rightarrow> jstr \<Rightarrow> jstr \<Rightarrow> jstr res" where
  "buildRecoverySheet vault downloadFilename envelopeId =
     bind_res (res_list
       (head_lines vault downloadFilename envelopeId @ lock_lines vault @ how_to_lines @
        [Inr BEGIN_MARKER] @ map Inr (split_lines (text_or_undefined (JSON_stringify2 vault))) @ [Inr END_MARKER] @
        verify_lines))
     (\<lambda>lines. Inr (join [10] lines @ [10]))"

section \<open>The single-line form\<close>

definition VAULT_TEXT_PREFIX_V1 :: jstr where "VAULT_TEXT_PREFIX_V1 = lit ''BRY-VAULT-V1.''"
definition VAULT_TEXT_PREFIX_V2 :: jstr where "VAULT_TEXT_PREFIX_V2 = lit ''BRY-VAULT-V2.''"

text \<open>The text \<open>copyVaultText\<close> writes to the clipboard.\<close>

definition copyVaultText :: "sodium \<Rightarrow> jsval \<Rightarrow> jstr res" where
  "copyVaultText so vault =
     bind_res (get vault (lit ''schema'')) (\<lambda>schema.
     Inr ((if schema = JStr SCHEMA_V1 then VAULT_TEXT_PREFIX_V1 else VAULT_TEXT_PREFIX_V2) @
          to_base64 so (utf8 (text_or_undefined (canonicalJSON vault)))))"

section \<open>Reading a vault back\<close>

definition msg_paste_first :: jstr where "msg_paste_first = lit ''Paste a vault first''"
definition msg_sheet_malformed :: jstr where
  "msg_sheet_malformed = lit ''Recovery sheet found but the embedded vault JSON is malformed''"
definition msg_text_invalid :: jstr where "msg_text_invalid = lit ''Vault text format is invalid''"
definition msg_not_parsed :: jstr where
  "msg_not_parsed = lit ''Could not parse vault. Drop the .vault.json file or the recovery sheet .txt file.''"

definition text_prefix :: "jstr \<Rightarrow> jstr option" where
  "text_prefix trimmed =
     (if index_of VAULT_TEXT_PREFIX_V2 trimmed = Some 0 then Some VAULT_TEXT_PREFIX_V2
      else if index_of VAULT_TEXT_PREFIX_V1 trimmed = Some 0 then Some VAULT_TEXT_PREFIX_V1 else None)"

text \<open>\<open>trimmed.slice(beginIdx + beginMarker.length, endIdx)\<close> when both markers are there in order.\<close>

definition between_markers :: "jstr \<Rightarrow> jstr option" where
  "between_markers s =
     (case (index_of BEGIN_MARKER s, index_of END_MARKER s) of
        (Some b, Some e) \<Rightarrow>
          if e > b then Some (drop (b + length BEGIN_MARKER) (take e s)) else None
      | _ \<Rightarrow> None)"

definition parseVaultInput :: "sodium \<Rightarrow> jstr \<Rightarrow> jsval res" where
  "parseVaultInput so raw =
     (let trimmed = trim raw
      in throw_if (trimmed = []) msg_paste_first
         (case between_markers trimmed of
            Some inner \<Rightarrow> or_throw msg_sheet_malformed (JSON_parse (trim inner))
          | None \<Rightarrow>
              (case text_prefix trimmed of
                 Some p \<Rightarrow>
                   bind_res (rethrow msg_text_invalid (from_base64 so (drop (length p) trimmed))) (\<lambda>bytes.
                   bind_res (fromUtf8 bytes) parse_text)
               | None \<Rightarrow> or_throw msg_not_parsed (JSON_parse trimmed))))"

section \<open>Scores\<close>

lemma class_count_bounds: "0 \<le> class_count pw" "class_count pw \<le> 4"
  by (auto simp: class_count_def)

lemma capped_range: "0 \<le> capped_score pw \<and> capped_score pw \<le> 7"
  by (auto simp: capped_score_def Let_def)

lemma capped_gate:
  assumes "3 \<le> capped_score pw"
  shows "8 \<le> length pw" and "12 \<le> length pw \<or> 0 < separator_runs False pw"
  using assms by (auto simp: capped_score_def Let_def split: if_splits)

lemma score_eq: "s_score (passwordStrength pw) = (if pw = [] then 0 else capped_score pw)"
  by (simp add: passwordStrength_def Let_def)

lemma strength_range: "0 \<le> s_score (passwordStrength pw) \<and> s_score (passwordStrength pw) \<le> 7"
  using capped_range [of pw] by (simp add: score_eq)

section \<open>Generated passphrases\<close>

definition word_chars :: "string \<Rightarrow> bool" where
  "word_chars w = (3 \<le> length w \<and> list_all (\<lambda>c. 97 \<le> (of_char c :: nat) \<and> (of_char c :: nat) \<le> 122) w)"

definition uncommon :: "string \<Rightarrow> bool" where
  "uncommon w = list_all (\<lambda>p. \<not> starts_with p w)
     [''password'', ''qwerty'', ''123'', ''letmein'', ''admin'', ''secret'', ''welcome'']"

lemma mapped_words: "w \<in> set (map lit ws) \<Longrightarrow> list_all P ws \<Longrightarrow> \<exists>s. w = lit s \<and> P s"
  by (auto simp: list_all_iff)

lemma words_checked: "w \<in> set PASSPHRASE_WORDS \<Longrightarrow> \<exists>s. w = lit s \<and> (word_chars s \<and> uncommon s)"
  unfolding PASSPHRASE_WORDS_def by (erule mapped_words) code_simp

lemma lower_unit: "97 \<le> (of_char c :: nat) \<Longrightarrow> (of_char c :: nat) \<le> 122 \<Longrightarrow>
    is_lower_az (unit_of c) \<and> \<not> is_separator (unit_of c) \<and> fold_case (unit_of c) = unit_of c"
  by (auto simp: is_lower_az_def is_separator_def js_space_def fold_case_def is_upper_az_def word_unat_eq_iff Let_def)

lemma word_units: "word_chars s \<Longrightarrow> list_all (\<lambda>u. is_lower_az u \<and> \<not> is_separator u \<and> fold_case u = u) (lit s)"
  using lower_unit by (auto simp: word_chars_def lit_def list_all_iff)

lemma separator_runs_word:
  "list_all (\<lambda>u. \<not> is_separator u) w \<Longrightarrow> w \<noteq> [] \<Longrightarrow> is_separator c \<Longrightarrow>
   separator_runs b (w @ c # r) = Suc (separator_runs True r)"
proof (induction w arbitrary: b)
  case (Cons u w)
  then show ?case by (cases w) auto
qed simp

lemma starts_with_before: "starts_with p (w @ c # r) \<Longrightarrow> c \<notin> set p \<Longrightarrow> starts_with p w"
  by (induction p w rule: starts_with.induct) auto

lemma dash_separator: "is_separator 45"
  by (simp add: is_separator_def)

lemma fold_case_word: "list_all (\<lambda>u. fold_case u = u) w \<Longrightarrow> map fold_case w = w"
  by (induction w) auto

lemma not_common:
  assumes "word_chars s" and "uncommon s"
  shows "\<not> common_start (lit s @ 45 # r)"
proof
  assume "common_start (lit s @ 45 # r)"
  then obtain p where p: "p \<in> set [''password'', ''qwerty'', ''123'', ''letmein'', ''admin'', ''secret'', ''welcome'']"
    and "starts_with (lit p) (map fold_case (lit s @ 45 # r))"
    by (auto simp: common_start_def common_starts_def)
  moreover have "map fold_case (lit s @ 45 # r) = lit s @ 45 # map fold_case r"
    using fold_case_word word_units [OF assms(1)] by (auto simp: list_all_iff fold_case_def is_upper_az_def)
  moreover have "45 \<notin> set (lit p)" using p by (auto simp: lit_def word_unat_eq_iff)
  ultimately have "starts_with (lit p) (lit s)" using starts_with_before by metis
  then have "starts_with p s" by (simp add: starts_with_lits)
  then show False using p assms(2) by (auto simp: uncommon_def)
qed

lemma lit_dash: "lit ''-'' = [45]"
  by (simp add: lit_def unit_of_def)

lemma raw_score_generated:
  assumes "16 \<le> length pw" and "4 \<le> separator_runs False pw" and "\<not> common_start pw"
    and "list_ex is_lower_az pw" and "45 \<in> set pw"
  shows "5 \<le> raw_score pw"
proof -
  have "list_ex (\<lambda>u. \<not> is_lower_az u \<and> \<not> is_upper_az u \<and> \<not> is_09 u) pw"
    unfolding list_ex_iff
    by (rule bexI [OF _ assms(5)]) (simp add: is_lower_az_def is_upper_az_def is_09_def)
  then have "2 \<le> class_count pw" using assms(4) by (simp add: class_count_def)
  then show ?thesis using assms(1-3) by (simp add: raw_score_def)
qed

lemma digs_nonempty: "0 < length (num_str n)"
  using num_str_hd [of n] by auto

lemma generated_score:
  assumes "set [a, b, c, d] \<subseteq> set PASSPHRASE_WORDS"
  shows "5 \<le> raw_score (join (lit ''-'') [a, b, c, d] @ lit ''-'' @ num_str x @ num_str y)"
    and "12 \<le> length (join (lit ''-'') [a, b, c, d] @ lit ''-'' @ num_str x @ num_str y)"
proof -
  let ?p = "join (lit ''-'') [a, b, c, d] @ lit ''-'' @ num_str x @ num_str y"
  have w: "\<exists>s. w = lit s \<and> (word_chars s \<and> uncommon s)" if "w \<in> {a, b, c, d}" for w
    using that assms words_checked by auto
  have u: "list_all (\<lambda>u. \<not> is_separator u) w" "w \<noteq> []" "3 \<le> length w" "list_ex is_lower_az w" if "w \<in> {a, b, c, d}" for w
  proof -
    from w [OF that] obtain s where s: "w = lit s" "word_chars s" by blast
    then show "3 \<le> length w" by (simp add: word_chars_def)
    then show "w \<noteq> []" by auto
    with s word_units [OF s(2)] show "list_all (\<lambda>u. \<not> is_separator u) w" "list_ex is_lower_az w"
      by (auto simp: list_all_iff list_ex_iff ex_in_conv)
  qed
  obtain r where p: "?p = a @ 45 # b @ 45 # c @ 45 # d @ 45 # r" and r: "2 \<le> length r"
    using digs_nonempty [of x] digs_nonempty [of y] by (simp add: lit_dash)
  have "4 \<le> separator_runs False ?p" unfolding p using u by (simp add: separator_runs_word dash_separator)
  moreover have l: "18 \<le> length ?p" unfolding p using u(3) [of a] u(3) [of b] u(3) [of c] u(3) [of d] r by simp
  moreover have "\<not> common_start ?p" unfolding p using w [of a] not_common by auto
  moreover have "list_ex is_lower_az ?p" "45 \<in> set ?p" unfolding p using u(4) [of a] by (auto simp: list_ex_iff)
  ultimately show "5 \<le> raw_score ?p" by (intro raw_score_generated) simp_all
  show "12 \<le> length ?p" using l by linarith
qed

section \<open>No marker where none was put\<close>

text \<open>
  Both markers contain a dash followed by a blank. A text is tidy when that pair does not occur
  in it and cannot arise by appending to it.
\<close>

fun dash_blank :: "jstr \<Rightarrow> bool" where
  "dash_blank (a # b # s) = (a = 45 \<and> b = 32 \<or> dash_blank (b # s))"
| "dash_blank _ = False"

definition tidy :: "jstr \<Rightarrow> bool" where
  "tidy s = (\<not> dash_blank s \<and> (s = [] \<or> last s \<noteq> 45))"

lemma dash_blank_append:
  "dash_blank (a @ b) \<longleftrightarrow> dash_blank a \<or> dash_blank b \<or> a \<noteq> [] \<and> b \<noteq> [] \<and> last a = 45 \<and> hd b = 32"
proof (induction a)
  case (Cons x a)
  then show ?case by (cases a; cases b) auto
qed simp

lemma dash_blank_includes: "str_includes s p \<Longrightarrow> dash_blank p \<Longrightarrow> dash_blank s"
  by (auto simp: str_includes_iff dash_blank_append)

lemma blankless: "32 \<notin> set s \<Longrightarrow> \<not> dash_blank s"
  by (induction s rule: dash_blank.induct) auto

lemma tidy_append: "tidy a \<Longrightarrow> tidy b \<Longrightarrow> tidy (a @ b)"
  by (auto simp: tidy_def dash_blank_append last_append)

lemma dashless: "45 \<notin> set s \<Longrightarrow> tidy s"
  by (induction s rule: dash_blank.induct) (auto simp: tidy_def)

lemma tidy_ended: "\<not> dash_blank s \<Longrightarrow> c \<noteq> 45 \<Longrightarrow> c \<noteq> 32 \<Longrightarrow> tidy (s @ [c])"
  by (simp add: tidy_def dash_blank_append)

lemma digits_in_num_str: "last (num_str n) \<noteq> 45 \<and> 32 \<notin> set (num_str n)"
proof -
  have n: "\<not> is_digit 45" "\<not> is_digit 32" by (simp_all add: is_digit_def)
  have d: "digs m \<noteq> [] \<and> last (digs m) \<noteq> 45 \<and> 32 \<notin> set (digs m)" for m
    using digs_hd [of m] digs_digits [of m] n last_in_set [of "digs m"] by fastforce
  show ?thesis
  proof (cases "n < 0")
    case True
    then show ?thesis using d [of "nat (- n)"] by (simp add: num_str_def)
  next
    case False
    then show ?thesis using d [of "nat n"] by (simp add: num_str_def)
  qed
qed

lemma hex_digit_not_blank: "d < 16 \<Longrightarrow> hex_digit d \<noteq> 32"
  by (auto simp: word_unat_eq_iff unat_hex_digit)

lemma blankless_esc1: "u \<noteq> 32 \<Longrightarrow> 32 \<notin> set (esc1 u)"
  using hex_digit_not_blank by (auto simp: esc1_def hex4_def)

lemma blankless_quote_body: "32 \<notin> set s \<Longrightarrow> 32 \<notin> set (quote_body s)"
  by (induction s rule: quote_body.induct) (auto dest: blankless_esc1)

lemma tidy_quote:
  assumes "32 \<notin> set s"
  shows "tidy (quote s)"
proof -
  have "\<not> dash_blank (0x22 # quote_body s)" using blankless_quote_body [OF assms] by (intro blankless) simp
  then show ?thesis using tidy_ended [of "0x22 # quote_body s" "0x22"] by (simp add: quote_def)
qed

interpretation tidy_text: closed_text tidy "\<lambda>s. 32 \<notin> set s"
proof
  show "tidy (num_str n)" for n using digits_in_num_str [of n] blankless [of "num_str n"] by (auto simp: tidy_def)
  show "w \<in> {''null'', ''true'', ''false''} \<Longrightarrow> tidy (lit w)" for w
    by (rule dashless) (auto simp: lit_def word_unat_eq_iff)
qed (auto simp: tidy_append tidy_quote intro!: dashless)

section \<open>The sheet of a vault\<close>

lemma join_split: "join [10] (split_lines s) = s"
proof (induction s)
  case (Cons c s)
  show ?case
  proof (cases "split_lines s")
    case Nil
    then show ?thesis using Cons by simp
  next
    case (Cons l ls)
    then show ?thesis using \<open>join [10] (split_lines s) = s\<close> by (cases ls) auto
  qed
qed simp

lemma join_append: "xs \<noteq> [] \<Longrightarrow> ys \<noteq> [] \<Longrightarrow> join sep (xs @ ys) = join sep xs @ sep @ join sep ys"
proof (induction xs)
  case (Cons x xs)
  then show ?case by (cases "xs = []") (auto simp: join_Cons)
qed simp

lemma res_list_append: "res_list (xs @ ys) = bind_res (res_list xs) (\<lambda>a. bind_res (res_list ys) (\<lambda>b. Inr (a @ b)))"
proof (induction xs)
  case Nil
  then show ?case by (cases "res_list ys") simp_all
next
  case (Cons x xs)
  then show ?case by (cases x; cases "res_list xs"; cases "res_list ys") simp_all
qed

lemma res_list_Inr: "res_list (map Inr xs) = Inr xs"
  by (induction xs) simp_all

text \<open>The lines before the markers, each of them without a dash before a blank.\<close>

definition calm :: "jstr res \<Rightarrow> bool" where
  "calm r = (\<exists>s. r = Inr s \<and> \<not> dash_blank s)"

lemma calm_lines: "list_all calm rs \<Longrightarrow> \<exists>ls. res_list rs = Inr ls \<and> length ls = length rs \<and> list_all (\<lambda>l. \<not> dash_blank l) ls"
  by (induction rs) (auto simp: calm_def)

lemma dash_blank_Cons: "dash_blank (c # s) \<longleftrightarrow> dash_blank s \<or> c = 45 \<and> s \<noteq> [] \<and> hd s = 32"
  by (cases s) auto

lemma calm_join: "list_all (\<lambda>l. \<not> dash_blank l) ls \<Longrightarrow> \<not> dash_blank (join [10] ls)"
proof (induction ls)
  case (Cons l ls)
  then show ?case by (cases ls) (simp_all add: dash_blank_append dash_blank_Cons)
qed simp

fun dash_blank_chars :: "string \<Rightarrow> bool" where
  "dash_blank_chars (a # b # s) = (a = CHR 0x2D \<and> b = CHR 0x20 \<or> dash_blank_chars (b # s))"
| "dash_blank_chars _ = False"

lemma unit_of_codes [simp]: "unit_of c = 45 \<longleftrightarrow> c = CHR 0x2D" "unit_of c = 32 \<longleftrightarrow> c = CHR 0x20"
  using unit_of_eq [of c "CHR 0x2D"] unit_of_eq [of c "CHR 0x20"] by (simp_all only: unit_of_def of_char_def) simp_all

lemma dash_blank_lit: "dash_blank (lit s) = dash_blank_chars s"
  by (induction s rule: dash_blank_chars.induct) (simp_all add: lit_def)

lemma calm_line: "\<not> dash_blank_chars s \<Longrightarrow> calm (line s)"
  by (simp add: calm_def line_def dash_blank_lit)

lemma calm_HR: "calm HR" "calm HR2"
  by (simp_all add: calm_def HR_def HR2_def blankless)

lemma calm_with:
  assumes "\<not> dash_blank_chars pre" and "32 \<notin> set s"
  shows "calm (line_with pre (Inr (JStr s)) [])"
proof -
  have "s \<noteq> [] \<Longrightarrow> hd s \<noteq> 32" using assms(2) by (metis hd_in_set)
  then have "\<not> dash_blank (lit pre @ s)" using assms by (auto simp: dash_blank_append dash_blank_lit blankless)
  then show ?thesis by (simp add: calm_def line_with_def)
qed

lemma calm_tidy:
  assumes "to_str v = Inr s" and "tidy s" and "\<not> dash_blank_chars pre" and "s \<noteq> [] \<Longrightarrow> hd s \<noteq> 32" and "\<not> dash_blank_chars suf"
    and "s \<noteq> []"
  shows "calm (line_with pre (Inr v) suf)"
  using assms by (auto simp: calm_def line_with_def dash_blank_append dash_blank_lit tidy_def)

lemma concat_chunks64: "concat (chunks64 s) = s"
proof (induction s rule: chunks64.induct)
  case (1 s)
  then show ?case by (cases "s = []") (simp_all add: chunks64.simps [of s] chunks64.simps [of "[]"])
qed

lemma calm_wrapped:
  assumes "32 \<notin> set s"
  shows "list_all calm (wrapped_lines (Inr (JStr s)))"
proof -
  have "32 \<notin> set c" if "c \<in> set (chunks64 s)" for c
    using that assms concat_chunks64 [of s] by (metis UN_I set_concat)
  then have "\<not> dash_blank (lit ''      '' @ c)" if "c \<in> set (chunks64 s)" for c
    using that blankless by (auto simp: dash_blank_append dash_blank_lit) (metis list.set_sel(1))+
  then show ?thesis by (auto simp: wrapped_lines_def list_all_iff calm_def)
qed

lemma how_to_calm: "list_all calm how_to_lines"
  by (simp add: how_to_lines_def calm_HR calm_line dquote_def)

section \<open>Finding the markers\<close>

lemma index_of_line:
  assumes "\<not> str_includes a p" and "10 \<notin> set p"
  shows "index_of p (a @ 10 # t) = map_option (\<lambda>n. n + length a + 1) (index_of p t)"
  using assms(1)
proof (induction a)
  case Nil
  then have "p \<noteq> []" by (auto simp: str_includes_def)
  then have "\<not> starts_with p (10 # t)" using assms(2) by (cases p) auto
  then show ?case by simp
next
  case (Cons x a)
  have "\<not> starts_with p (x # a @ 10 # t)"
  proof
    assume "starts_with p (x # a @ 10 # t)"
    then have "starts_with p (x # a)" using starts_with_before [of p "x # a" 10 t] assms(2) by simp
    then show False using Cons.prems by (auto simp: str_includes_def)
  qed
  moreover have "\<not> str_includes a p" using Cons.prems by (auto simp: str_includes_def split: if_splits)
  ultimately show ?case using Cons.IH by (simp add: option.map_comp comp_def)
qed

lemma index_of_here: "index_of p (p @ t) = Some 0"
proof -
  have "starts_with p (p @ t)" by simp
  then show ?thesis by (cases "p @ t") auto
qed

lemma markers:
  "10 \<notin> set BEGIN_MARKER" "10 \<notin> set END_MARKER" "dash_blank BEGIN_MARKER" "dash_blank END_MARKER"
  "\<not> str_includes BEGIN_MARKER END_MARKER"
  unfolding BEGIN_MARKER_def END_MARKER_def dash_blank_lit str_includes_lits
  by (simp_all add: lit_def word_unat_eq_iff) code_simp+

lemma drop_take_mid: "drop (length a) (take (length a + length b) (a @ b @ c)) = b"
  by simp

lemma between_found:
  assumes "\<not> dash_blank pre" and "\<not> dash_blank json"
  shows "between_markers (pre @ 10 # BEGIN_MARKER @ 10 # json @ 10 # END_MARKER @ 10 # rest) = Some (10 # json @ [10])"
proof -
  let ?s = "pre @ 10 # BEGIN_MARKER @ 10 # json @ 10 # END_MARKER @ 10 # rest"
  have n: "\<not> str_includes pre BEGIN_MARKER" "\<not> str_includes pre END_MARKER" "\<not> str_includes json END_MARKER"
    using assms markers dash_blank_includes by blast+
  have b: "index_of BEGIN_MARKER ?s = Some (length pre + 1)"
    using index_of_line [OF n(1) markers(1)] index_of_here by simp
  have e: "index_of END_MARKER ?s = Some (length json + 1 + length BEGIN_MARKER + 1 + length pre + 1)"
    using index_of_line [OF n(2) markers(2)] index_of_line [OF markers(5,2)] index_of_line [OF n(3) markers(2)]
      index_of_here by simp
  let ?a = "pre @ 10 # BEGIN_MARKER" and ?b = "10 # json @ [10]"
  have n: "length pre + 1 + length BEGIN_MARKER = length ?a"
    "length json + 1 + length BEGIN_MARKER + 1 + length pre + 1 = length ?a + length ?b" by simp_all
  have s: "?s = ?a @ ?b @ END_MARKER @ 10 # rest" by simp
  have "drop (length ?a) (take (length ?a + length ?b) ?s) = ?b" unfolding s by (rule drop_take_mid)
  then show ?thesis unfolding between_markers_def b e option.case prod.case n by simp
qed

lemma trim_core:
  assumes "list_all js_space w" and "list_all js_space w'" and "s \<noteq> []" and "\<not> js_space (hd s)" and "\<not> js_space (last s)"
  shows "trim (w @ s @ w') = s"
proof -
  have "dropWhile js_space (w @ s @ w') = s @ w'"
    using assms(1,3,4) by (cases s) (simp_all add: list_all_iff dropWhile_append2)
  moreover have "dropWhile js_space (rev w' @ rev s) = rev s"
    using assms(2,3,5) dropWhile_all [of js_space "rev w'" "rev s"]
    by (cases s rule: rev_cases) (simp_all add: list_all_iff)
  ultimately show ?thesis by (simp add: trim_def)
qed

lemma js_space_codes: "js_space 10" "\<not> js_space 0x7B" "\<not> js_space 0x7D" "\<not> js_space 61" "\<not> js_space 66"
  by (simp_all add: js_space_def)

lemma blankless_b64: "32 \<notin> set (b64urlEncode bs)"
proof -
  have "\<forall>n \<in> set (to_sextets (map unat bs)). n < 64" by (rule to_sextets_lt_64) (use unat8_lt in auto)
  then have "\<forall>u \<in> set (b64urlEncode bs). url_char u" unfolding b64urlEncode_eq using b64url_of_props by auto
  moreover have "\<not> url_char 32" by (simp add: url_char_def Let_def)
  ultimately show ?thesis by blast
qed

lemma blankless_consts:
  "32 \<notin> set SCHEMA_V2" "32 \<notin> set VERSION_web" "32 \<notin> set KDF_ALG" "32 \<notin> set AEAD_ALG"
  "is_mode (JStr m) \<Longrightarrow> 32 \<notin> set m"
  by (auto simp: SCHEMA_V2_def VERSION_web_def KDF_ALG_def AEAD_ALG_def is_mode_def lit_def)

lemma page_lock_shape:
  assumes "base64_works so" and "encryptVault so now opts r = (Inr v, r')"
  obtains m x w c where "is_mode (JStr m)" and "v = vault_literal VERSION_web now (JStr m)
      (num_or (o_opslimit opts) DEFAULT_OPSLIMIT) (num_or (o_memlimit opts) DEFAULT_MEMLIMIT) x (b64urlEncode w) (b64urlEncode c)"
proof -
  have e: "encryptVaultV2 so now (cli_opts opts) r = (Inr v, r')" and m: "is_mode (o_mode opts)"
    using assms by (simp_all add: encryptVault_def lock_same)
  obtain pt x k aad w c where "sealed_as so now (cli_opts opts) pt x k aad w c v" by (rule encrypt_Inr [OF e])
  then have "v = vault_literal VERSION_web now (o_mode opts)
      (num_or (o_opslimit opts) DEFAULT_OPSLIMIT) (num_or (o_memlimit opts) DEFAULT_MEMLIMIT) x (b64urlEncode w) (b64urlEncode c)"
    using m by (simp add: sealed_as_def)
  moreover obtain n where "o_mode opts = JStr n" using m by (auto simp: is_mode_def)
  ultimately show thesis using m that [of n x w c] by simp
qed

lemma vault_literal_blankless:
  "is_mode (JStr m) \<Longrightarrow> 32 \<notin> set now \<Longrightarrow>
   all_strings (\<lambda>s. 32 \<notin> set s) (vault_literal VERSION_web now (JStr m) ops mem x (b64urlEncode w) (b64urlEncode c))"
  by (simp add: vault_literal_def blankless_consts blankless_b64) (simp add: lit_def)

lemma text_of_JObj_ends:
  assumes "wf_val (JObj kvs)" and "kvs \<noteq> []"
  shows "\<exists>t. text_of gap ind (JObj kvs) = 0x7B # t @ [0x7D]"
  unfolding text_of_obj [OF assms] Let_def by (metis append_assoc)

lemma calm_get: "v = JObj kvs \<Longrightarrow> fld v k = JStr s \<Longrightarrow> \<not> dash_blank_chars pre \<Longrightarrow> 32 \<notin> set s \<Longrightarrow>
    calm (line_with pre (get v (lit k)) [])"
  using calm_with [of pre s] by (simp add: fld_def)

lemma head_calm:
  assumes v: "v = vault_literal VERSION_web now (JStr m) ops mem x (b64urlEncode w) (b64urlEncode c)"
    and b: "32 \<notin> set now" "32 \<notin> set f" "32 \<notin> set eid"
  shows "list_all calm (head_lines v f eid)"
proof -
  note flds = vault_literal_fields [of VERSION_web now "JStr m" ops mem x "b64urlEncode w" "b64urlEncode c", folded v]
  have "calm (line_with ''  Mode:              '' (Inr (JStr (lit q))) [])" if "q \<in> {''share with someone'', ''just for yourself''}" for q
    using that by (auto simp: calm_def line_with_def dash_blank_lit simp flip: lit_append)
  then have m: "calm (line_with ''  Mode:              '' (Inr (mode_words y)) [])" for y by (simp add: mode_words_def)
  have g: "get v (lit k) = Inr (fld v k)" for k using flds(1) by simp
  show ?thesis unfolding head_lines_def
    by (simp add: calm_line calm_HR calm_with m b g flds blankless_consts del: fld_JObj)
qed

lemma calm_number: "\<not> dash_blank_chars pre \<Longrightarrow> \<not> dash_blank_chars suf \<Longrightarrow> calm (line_with pre (Inr (JNum n)) suf)"
proof (rule calm_tidy [of _ "num_str n"])
  have n: "num_str n \<noteq> []" using num_str_hd [of n] by auto
  then show "hd (num_str n) \<noteq> 32" using digits_in_num_str [of n] by (metis hd_in_set)
qed (use tidy_text.number num_str_hd [of n] in auto)

lemma last_lit: "t \<noteq> [] \<Longrightarrow> last (lit t) = unit_of (last t)"
  by (simp add: lit_def last_map)

lemma tidy_lit: "tidy (lit s) \<longleftrightarrow> \<not> dash_blank_chars s \<and> (s = [] \<or> last s \<noteq> CHR 0x2D)"
  using unit_of_codes(1) by (auto simp: tidy_def dash_blank_lit last_lit)

lemma calm_const:
  "\<not> dash_blank_chars pre \<Longrightarrow> \<not> dash_blank_chars suf \<Longrightarrow> s = lit t \<Longrightarrow> t \<noteq> [] \<Longrightarrow> hd t \<noteq> CHR 0x20 \<Longrightarrow>
   last t \<noteq> CHR 0x2D \<Longrightarrow> \<not> dash_blank_chars t \<Longrightarrow> calm (line_with pre (Inr (JStr s)) suf)"
  by (rule calm_tidy [of _ s]) (auto simp: tidy_def dash_blank_lit lit_hd(1) last_lit)

lemma calm_append: "calm (Inr a) \<Longrightarrow> calm (Inr b) \<Longrightarrow> a = [] \<or> b = [] \<or> last a \<noteq> 45 \<or> hd b \<noteq> 32 \<Longrightarrow> calm (Inr (a @ b))"
  by (auto simp: calm_def dash_blank_append)

lemma mix_calm:
  assumes v: "v = vault_literal VERSION_web now (JStr m) ops mem x (b64urlEncode w) (b64urlEncode c)"
  shows "calm (mix_line v)"
proof -
  note flds = vault_literal_fields [of VERSION_web now "JStr m" ops mem x "b64urlEncode w" "b64urlEncode c", folded v]
  let ?n = "num_str ops @ lit '', memory ''" and ?k = "num_str ((mem + 524288) div 1048576) @ lit '' MiB)''"
  have "mix_line v = Inr ((lit ''      Phrase mix:    '' @ KDF_ALG @ lit '' (work units '') @ ?n @ ?k)"
    using flds by (simp add: mix_line_def get2_object round_mib_def line_with_def del: fld_JObj)
  moreover have "tidy ((lit ''      Phrase mix:    '' @ KDF_ALG @ lit '' (work units '') @ ?n @ ?k)"
    by (intro tidy_append tidy_text.number) (simp_all add: tidy_lit KDF_ALG_def)
  ultimately show ?thesis by (simp add: calm_def tidy_def)
qed

lemma lock_calm:
  assumes v: "v = vault_literal VERSION_web now (JStr m) ops mem x (b64urlEncode w) (b64urlEncode c)"
  shows "list_all calm (lock_lines v)"
proof -
  note flds = vault_literal_fields [of VERSION_web now "JStr m" ops mem x "b64urlEncode w" "b64urlEncode c", folded v]
  have g: "get v (lit k) = Inr (fld v k)" "a \<in> {''kdf'', ''wrap'', ''content''} \<Longrightarrow> get2 v a b = Inr (fld (fld v a) b)" for k a b
    using flds by (auto simp: get2_object simp del: fld_JObj)
  have alg: "\<not> dash_blank_chars p \<Longrightarrow> calm (line_with p (Inr (JStr AEAD_ALG)) '' (24-byte nonce, 16-byte tag)'')" for p
    by (rule calm_const [of _ _ _ "''XChaCha20-Poly1305''"]) (simp_all add: AEAD_ALG_def)
  show ?thesis unfolding lock_lines_def
    by (simp add: g flds alg calm_line calm_with calm_wrapped blankless_b64 mix_calm [OF v] del: fld_JObj)
qed

lemma HR_ends: "hd (replicate 54 (61 :: 16 word)) = 61" "last (replicate 54 (61 :: 16 word)) = 61"
  by simp_all

text \<open>The whole sheet.\<close>

lemma sheet_shape:
  assumes v: "v = vault_literal VERSION_web now (JStr m) ops mem x (b64urlEncode w) (b64urlEncode c)"
    and b: "32 \<notin> set now" "32 \<notin> set f" "32 \<notin> set eid"
  obtains pre post where "buildRecoverySheet v f eid =
      Inr ((61 # pre @ 10 # BEGIN_MARKER @ 10 # text_or_undefined (JSON_stringify2 v) @ 10 # END_MARKER @ 10 # post @ [61]) @ [10])"
    and "\<not> dash_blank (61 # pre)"
proof -
  let ?before = "head_lines v f eid @ lock_lines v @ how_to_lines"
  have "list_all calm ?before" using head_calm [OF v b] lock_calm [OF v] how_to_calm by simp
  then obtain ls where ls: "res_list ?before = Inr ls" "length ls = length ?before" "\<not> dash_blank (join [10] ls)"
    using calm_lines calm_join by blast
  have ne: "ls \<noteq> []" using ls(2) by (auto simp: head_lines_def)
  obtain rest where "?before = Inr (replicate 54 61) # rest" by (simp add: head_lines_def HR_def)
  then have "\<exists>ks. ls = replicate 54 61 # ks" using ls(1) by auto
  then obtain p where p: "join [10] ls = 61 # p" by (cases "tl ls") (auto simp: numeral_eq_Suc)
  obtain vs where vs: "verify_lines = map Inr (vs @ [replicate 54 61])"
    by (auto simp: verify_lines_def line_def HR2_def HR_def intro: that [of "map (\<lambda>x. case x of Inr s \<Rightarrow> s) (butlast verify_lines)"])
  let ?j = "split_lines (text_or_undefined (JSON_stringify2 v))"
  obtain q where q: "join [10] (vs @ [replicate 54 61]) = q @ [61]"
    by (cases "vs = []") (auto simp: join_append numeral_eq_Suc replicate_append_same [symmetric])
  have "?j \<noteq> []" by (cases "text_or_undefined (JSON_stringify2 v)") (auto split: list.splits)
  then have "join [10] (ls @ [BEGIN_MARKER] @ ?j @ [END_MARKER] @ vs @ [replicate 54 61]) =
      61 # p @ 10 # BEGIN_MARKER @ 10 # text_or_undefined (JSON_stringify2 v) @ 10 # END_MARKER @ 10 # q @ [61]"
    using ne p q by (simp add: join_append join_split join_Cons)
  moreover have "res_list (?before @ [Inr BEGIN_MARKER] @ map Inr ?j @ [Inr END_MARKER] @ verify_lines) =
      Inr (ls @ [BEGIN_MARKER] @ ?j @ [END_MARKER] @ vs @ [replicate 54 61])"
    unfolding vs res_list_append [of ?before] ls(1) by (simp add: res_list_append res_list_Inr)
  ultimately show thesis using that ls(3) p by (simp add: buildRecoverySheet_def del: res_list.simps)
qed

section \<open>The single line\<close>

lemma fld_sort_keys: "wf_val v \<Longrightarrow> fld (sort_keys v) k = sort_keys (fld v k)"
proof (cases v)
  case (JObj kvs)
  assume "wf_val v"
  then have "distinct (map fst kvs)" by (simp add: JObj)
  then have "map_of (map (\<lambda>k. (k, sort_keys (the (map_of kvs k)))) (sort (map fst kvs))) q = map_option sort_keys (map_of kvs q)" for q
    by (rule map_of_sort_keys)
  moreover have "sort_keys JUndef = JUndef" by simp
  ultimately show ?thesis using sorted_members [OF \<open>distinct (map fst kvs)\<close>]
    by (auto simp: JObj simp del: sort_keys.simps split: option.split)
qed (simp_all add: fld_def)

lemma sort_keys_kind:
  "is_object (sort_keys v) = is_object v" "is_str (sort_keys v) = is_str v" "sort_keys v = JStr s \<longleftrightarrow> v = JStr s"
  "sort_keys v = JNum n \<longleftrightarrow> v = JNum n" "is_num (sort_keys v) = is_num v" "num_of (sort_keys v) = num_of v"
  "str_of (sort_keys v) = str_of v" "is_mode (sort_keys v) = is_mode v"
  by (cases v; simp add: is_object_def is_mode_def Let_def)+

lemma wf_val_fld: "wf_val v \<Longrightarrow> wf_val (fld v k) \<or> fld v k = JUndef"
  by (cases v) (auto simp: fld_def list_all_iff split: option.split dest!: map_of_SomeD)

lemma fld2_sort_keys: "wf_val v \<Longrightarrow> fld (sort_keys (fld v a)) b = sort_keys (fld (fld v a) b)"
  using wf_val_fld [of v a] by (auto simp: fld_sort_keys) (simp add: fld_def)

lemma wf_sort_keys_v2: "wf_val v \<Longrightarrow> wf_web_v2 (sort_keys v) = wf_web_v2 v"
  by (simp add: wf_web_v2_def wf_common_def wf_kdf_web_def wf_section_web_def fld2_sort_keys fld_sort_keys
      sort_keys_kind int_between_def)

lemma get2_sort_keys:
  assumes "wf_val v" and "is_object v" and "is_object (fld v a)"
  shows "get2 (sort_keys v) a b = bind_res (get2 v a b) (\<lambda>x. Inr (sort_keys x))"
  using assms by (simp add: get2_object fld2_sort_keys fld_sort_keys sort_keys_kind)

lemma open_sorted:
  assumes "wf_val v" and "wf_vault_v2 v"
  shows "decryptVaultV2_web so (sort_keys v) pw = decryptVaultV2_web so v pw"
proof -
  have w: "wf_web_v2 v" using assms(2) by (simp add: wf_vault_v2_web)
  note o = wf_web_v2_sections [OF w, unfolded sections_are_objects_def]
  have s: "sort_keys x = x" if "scalar_val x" for x using scalar_val_cases [OF that] by simp
  have "bound_fields (sort_keys v) = bound_fields v"
    unfolding bound_fields_def using o v2_fields_scalar [OF assms(2)] assms(1)
    by (simp add: get2_sort_keys get2_object fld_sort_keys fld2_sort_keys sort_keys_kind s v2_fields_def)
  then have a: "buildAADV2 (sort_keys v) = buildAADV2 v" by (simp add: buildAADV2_eq)
  have m: "b64_member_web so (sort_keys v) a b = b64_member_web so v a b" if "is_object (fld v a)" for a b
  proof -
    have "(case sort_keys x of JStr s \<Rightarrow> from_base64 so s | _ \<Rightarrow> Inl e) = (case x of JStr s \<Rightarrow> from_base64 so s | _ \<Rightarrow> Inl e)" for x e
      by (cases x) (simp_all add: Let_def)
    then show ?thesis using that o assms(1) by (simp add: b64_member_web_def get2_sort_keys get2_object)
  qed
  have k: "wrap_key so (sort_keys v) = wrap_key so v"
    using o assms(1) by (intro ext) (simp add: wrap_key_def get2_sort_keys get2_object sort_keys_kind)
  have va: "validateVaultSchemaV2_web v = Inr ()" "validateVaultSchemaV2_web (sort_keys v) = Inr ()"
    using w wf_sort_keys_v2 [OF assms(1)] by (simp_all add: validate_v2_web_ok)
  show ?thesis unfolding decryptVaultV2_web_def va a k by (simp add: decode_parts_web_def m o)
qed

lemma prefix_units:
  "32 \<notin> set VAULT_TEXT_PREFIX_V2" "hd VAULT_TEXT_PREFIX_V2 = 66" "VAULT_TEXT_PREFIX_V2 \<noteq> []" "last VAULT_TEXT_PREFIX_V2 = 46"
  by (simp_all add: VAULT_TEXT_PREFIX_V2_def lit_def unit_of_def)

lemma url_char_not_space: "url_char u \<Longrightarrow> \<not> js_space u"
  by (auto simp: url_char_def js_space_def Let_def)

lemma b64_url_chars: "u \<in> set (b64urlEncode bs) \<Longrightarrow> url_char u"
proof -
  have "\<forall>n \<in> set (to_sextets (map unat bs)). n < 64" by (rule to_sextets_lt_64) (use unat8_lt in auto)
  then show "u \<in> set (b64urlEncode bs) \<Longrightarrow> url_char u" unfolding b64urlEncode_eq using b64url_of_props by auto
qed

lemma parse_single_line:
  assumes "base64_works so"
  shows "parseVaultInput so (VAULT_TEXT_PREFIX_V2 @ to_base64 so bs) = bind_res (fromUtf8 bs) parse_text"
proof -
  let ?t = "VAULT_TEXT_PREFIX_V2 @ b64urlEncode bs"
  have "last ?t = 46 \<or> url_char (last ?t)" using b64_url_chars [OF last_in_set] prefix_units(4) by (auto simp: last_append)
  then have "\<not> js_space (last ?t)" using url_char_not_space by (auto simp: js_space_def)
  then have t: "trim ?t = ?t"
    using trim_core [of "[]" "[]" ?t] prefix_units by (simp add: js_space_codes)
  have "\<not> dash_blank ?t" using prefix_units blankless_b64 by (intro blankless) auto
  then have "\<not> str_includes ?t BEGIN_MARKER" using dash_blank_includes markers(3) by blast
  then have "index_of BEGIN_MARKER ?t = None" by (simp add: str_includes_def)
  then have b: "between_markers ?t = None" by (simp add: between_markers_def)
  have p: "text_prefix ?t = Some VAULT_TEXT_PREFIX_V2" by (simp add: text_prefix_def index_of_here)
  show ?thesis using assms prefix_units(3)
    by (simp add: parseVaultInput_def Let_def base64_worksD t b p rethrow_def throw_if_def)
qed

lemma canonical_plain: "wf_val v \<Longrightarrow> v = JObj kvs \<Longrightarrow> canonicalJSON v = Some t \<Longrightarrow> plain_text t"
proof -
  assume a: "wf_val v" "v = JObj kvs" "canonicalJSON v = Some t"
  then have t: "t = text_of [] [] (sort_keys v)" by (simp only: canonicalJSON_eq option.inject)
  have "\<exists>r. t = 0x7B # r" using a(2,3) by auto
  moreover have "wf16 t" unfolding t by (rule wf16_text_of [OF wf_sort_keys [OF a(1)]])
  ultimately show "plain_text t" by (auto simp: plain_text_def)
qed

lemma generated_strong:
  assumes "uniform_bound so" and "generatePassphrase so r = (p, r')"
  shows "MIN_STRENGTH_SCORE \<le> s_score (passwordStrength p)"
proof -
  obtain a b c d x y where w: "set [a, b, c, d] \<subseteq> set PASSPHRASE_WORDS" and xy: "x < 10" "y < 10"
    and p: "p = join (lit ''-'') [a, b, c, d] @ lit ''-'' @ num_str x @ num_str y"
    using passphrase_form [OF assms] by blast
  note g = generated_score [OF w, of x y, folded p]
  then have "5 \<le> capped_score p" "p \<noteq> []" by (auto simp: capped_score_def Let_def)
  then show ?thesis by (simp add: score_eq MIN_STRENGTH_SCORE_def)
qed

section \<open>Properties\<close>

text \<open>
  The strength score is always between 0 and 7, and a phrase that reaches the threshold of
  the lock button has at least 8 characters, and at least 12 unless it contains a separator.
\<close>

theorem strength_gate:
  "0 \<le> s_score (passwordStrength pw) \<and> s_score (passwordStrength pw) \<le> 7 \<and>
   (MIN_STRENGTH_SCORE \<le> s_score (passwordStrength pw) \<longrightarrow>
      8 \<le> length pw \<and> (12 \<le> length pw \<or> 0 < separator_runs False pw))"
  using strength_range [of pw] capped_gate [of pw] by (auto simp: score_eq MIN_STRENGTH_SCORE_def)

theorem strength_gate_witness:
  "s_score (passwordStrength (lit ''tr0ub4d'')) \<le> 7 \<and> s_score (passwordStrength (lit ''tr0ub4d'')) < MIN_STRENGTH_SCORE"
  using strength_gate [of "lit ''tr0ub4d''"] by simp

text \<open>
  Every generated passphrase - four words of the list of 180, hyphens and two digits -
  passes the strength gate, whatever the random source returns.
\<close>

theorem generated_phrase_accepted:
  assumes "uniform_bound so" and "generatePassphrase so r = (p, r')"
  shows "MIN_STRENGTH_SCORE \<le> s_score (passwordStrength p) \<and>
    (\<exists>a b c d x y. set [a, b, c, d] \<subseteq> set PASSPHRASE_WORDS \<and> x < 10 \<and> y < 10 \<and>
      p = join (lit ''-'') [a, b, c, d] @ lit ''-'' @ num_str x @ num_str y) \<and> length PASSPHRASE_WORDS = 180"
proof -
  obtain a b c d x y where w: "set [a, b, c, d] \<subseteq> set PASSPHRASE_WORDS" and xy: "x < 10" "y < 10"
    and p: "p = join (lit ''-'') [a, b, c, d] @ lit ''-'' @ num_str x @ num_str y"
    using passphrase_form [OF assms] by blast
  show ?thesis using generated_strong [OF assms] w xy p length_PASSPHRASE_WORDS by blast
qed

theorem generated_phrase_accepted_witness:
  "MIN_STRENGTH_SCORE \<le> s_score (passwordStrength (fst (generatePassphrase toy_sodium (\<lambda>_. 5))))"
  using generated_phrase_accepted [OF sodium_okD(4) [OF toy_sodium_ok] prod.collapse [symmetric]] by blast

text \<open>
  C14: The recovery sheet of a vault the page locked is itself a way to open it: pasting the
  whole sheet gives back exactly that vault, whatever file name and envelope ID it shows, as
  long as they and the date contain no blank.
\<close>

theorem recovery_sheet_opens:
  assumes "base64_works so" and "encryptVault so now opts r = (Inr v, r')"
    and "32 \<notin> set now" and "32 \<notin> set f" and "32 \<notin> set eid"
  shows "\<exists>sheet. buildRecoverySheet v f eid = Inr sheet \<and> parseVaultInput so sheet = Inr v"
proof -
  obtain m x w c where m: "is_mode (JStr m)" and v: "v = vault_literal VERSION_web now (JStr m)
      (num_or (o_opslimit opts) DEFAULT_OPSLIMIT) (num_or (o_memlimit opts) DEFAULT_MEMLIMIT) x (b64urlEncode w) (b64urlEncode c)"
    by (rule page_lock_shape [OF assms(1,2)])
  have wf: "wf_val v" by (rule page_lock_wf_val [OF assms(1,2)])
  let ?j = "text_of [0x20, 0x20] [] v"
  have j: "JSON_stringify2 v = Some ?j" unfolding JSON_stringify2_def by (rule json_str_text_of [OF wf])
  have "tidy ?j" unfolding v
    by (rule tidy_text.text_closed [OF wf [unfolded v] vault_literal_blankless [OF m assms(3)]]) (simp_all add: tidy_def)
  then have dj: "\<not> dash_blank ?j" by (simp add: tidy_def)
  have u: "text_or_undefined (JSON_stringify2 v) = ?j" using j by (simp add: text_or_undefined_def)
  obtain pre post where s: "buildRecoverySheet v f eid =
      Inr ((61 # pre @ 10 # BEGIN_MARKER @ 10 # ?j @ 10 # END_MARKER @ 10 # post @ [61]) @ [10])"
    and p: "\<not> dash_blank (61 # pre)" by (rule sheet_shape [OF v assms(3-5), unfolded u])
  let ?s = "61 # pre @ 10 # BEGIN_MARKER @ 10 # ?j @ 10 # END_MARKER @ 10 # post @ [61]"
  have t: "trim (?s @ [10]) = ?s" using trim_core [of "[]" "[10]" ?s] by (simp add: js_space_codes)
  have b: "between_markers ?s = Some (10 # ?j @ [10])" using between_found [OF p dj, of "post @ [61]"] by simp
  obtain kvs where o: "v = JObj kvs" "kvs \<noteq> []" unfolding v vault_literal_def by blast
  obtain body where e: "?j = 0x7B # body @ [0x7D]" using text_of_JObj_ends [OF wf [unfolded o(1)] o(2)] o(1) by blast
  have i: "trim (10 # ?j @ [10]) = ?j" using trim_core [of "[10]" "[10]" ?j] by (simp add: js_space_codes e)
  have "JSON_parse ?j = Some v" by (rule JSON_parse_stringify2(2) [OF wf j])
  then have "parseVaultInput so (?s @ [10]) = Inr v" unfolding parseVaultInput_def Let_def t b by (simp add: i)
  then show ?thesis using s by blast
qed

theorem recovery_sheet_opens_witness:
  "\<exists>v sheet. buildRecoverySheet v (lit ''f'') (lit ''id'') = Inr sheet \<and> parseVaultInput toy_sodium sheet = Inr v"
proof -
  obtain v r' where v: "encryptVault toy_sodium [] (quick_opts_web (lit ''hi'') (lit ''pw'')) (\<lambda>_. 7) = (Inr v, r')"
    by (rule sample_page_lock)
  have "32 \<notin> set ([] :: jstr)" "32 \<notin> set (lit ''f'')" "32 \<notin> set (lit ''id'')" by (simp_all add: lit_def)
  from recovery_sheet_opens [OF toy_all(3) v this] show ?thesis by blast
qed

text \<open>
  The single-line text the page copies to the clipboard parses back to the vault up to the
  order of its members, which makes no difference to opening it.
\<close>

theorem copied_text_opens:
  assumes "kdf_works so" and "aead_works so" and "base64_works so" and "encryptVault so now opts r = (Inr v, r')"
  shows "\<exists>t. copyVaultText so v = Inr t \<and> parseVaultInput so t = Inr (sort_keys v) \<and>
    (\<forall>pw. decryptVault so (sort_keys v) pw = decryptVault so v pw)"
proof -
  have wf: "wf_val v" by (rule page_lock_wf_val [OF assms(3,4)])
  obtain s where w: "wf_vault_v2 v" by (rule page_lock_opens [OF assms])
  obtain kvs where v: "v = JObj kvs" by (rule page_lock_shape [OF assms(3,4)]) (auto simp: vault_literal_def)
  obtain t where t: "canonicalJSON v = Some t" using canonicalJSON_eq [OF wf] by blast
  have "copyVaultText so v = Inr (VAULT_TEXT_PREFIX_V2 @ to_base64 so (utf8 t))"
    using schemas_distinct wf_schema [OF w] by (simp add: copyVaultText_def t text_or_undefined_def)
  moreover have "fromUtf8 (utf8 t) = Inr t" by (rule fromUtf8_utf8_plain [OF canonical_plain [OF wf v t]])
  then have "parseVaultInput so (VAULT_TEXT_PREFIX_V2 @ to_base64 so (utf8 t)) = Inr (sort_keys v)"
    using canonicalJSON_parse [OF wf t] by (simp add: parse_single_line [OF assms(3)] parse_text_def)
  moreover have "decryptVault so (sort_keys v) pw = decryptVault so v pw" for pw
    using w wf_v2_dispatch(1) [of v so pw] wf_v2_dispatch(1) [of "sort_keys v" so pw] open_sorted [OF wf w]
    by (simp add: wf_vault_v2_web wf_sort_keys_v2 [OF wf])
  ultimately show ?thesis by blast
qed

theorem copied_text_opens_witness:
  "\<exists>v t. copyVaultText toy_sodium v = Inr t \<and> parseVaultInput toy_sodium t = Inr (sort_keys v)"
proof -
  obtain v r' where v: "encryptVault toy_sodium [] (quick_opts_web (lit ''hi'') (lit ''pw'')) (\<lambda>_. 7) = (Inr v, r')"
    by (rule sample_page_lock)
  from copied_text_opens [OF toy_all v] show ?thesis by blast
qed

end
