(* ===== verification/Machines.thy ===== *)
theory Machines
  imports Prelude
begin

text \<open>
  State machines: the states reachable from an initial state by the steps of a transition
  relation, the induction principle for invariants, and the interface of a refinement, whose
  instances carry the invariants of an abstract machine over to a detailed one.
\<close>

inductive reachable :: "('s \<Rightarrow> bool) \<Rightarrow> ('s \<Rightarrow> 'e \<Rightarrow> 's \<Rightarrow> bool) \<Rightarrow> 's \<Rightarrow> bool"
  for init :: "'s \<Rightarrow> bool" and tr :: "'s \<Rightarrow> 'e \<Rightarrow> 's \<Rightarrow> bool"
where
  start: "init s \<Longrightarrow> reachable init tr s"
| step: "reachable init tr s \<Longrightarrow> tr s e s' \<Longrightarrow> reachable init tr s'"

lemma invariantI:
  assumes "reachable init tr s" and "\<And>s. init s \<Longrightarrow> P s"
    and "\<And>s e s'. reachable init tr s \<Longrightarrow> P s \<Longrightarrow> tr s e s' \<Longrightarrow> P s'"
  shows "P s"
  using assms(1) by induction (use assms(2,3) in blast)+

text \<open>A machine given by a function that runs one event, and its runs.\<close>

definition by_step :: "('e \<Rightarrow> 's \<Rightarrow> 's) \<Rightarrow> 's \<Rightarrow> 'e \<Rightarrow> 's \<Rightarrow> bool" where
  "by_step f s e s' = (s' = f e s)"

lemma by_step_iff: "by_step f s e s' \<longleftrightarrow> s' = f e s"
  by (simp add: by_step_def)

lemma reachable_run:
  "reachable init (by_step f) s \<Longrightarrow> reachable init (by_step f) (fold f es s)"
proof (induction es arbitrary: s)
  case (Cons e es)
  have "reachable init (by_step f) (f e s)"
    by (rule reachable.step [where e = e, OF Cons.prems]) (simp add: by_step_iff)
  then show ?case using Cons.IH by simp
qed simp

lemma step_invariantI:
  assumes "reachable init (by_step f) s" and "\<And>s. init s \<Longrightarrow> P s" and "\<And>s e. P s \<Longrightarrow> P (f e s)"
  shows "P s"
  using assms(1) by (rule invariantI) (use assms(2,3) in \<open>auto simp: by_step_iff\<close>)

text \<open>An invariant of a machine: it holds at the start, and every event keeps it.\<close>

locale kept =
  fixes init :: "'s \<Rightarrow> bool" and f :: "'e \<Rightarrow> 's \<Rightarrow> 's" and P :: "'s \<Rightarrow> bool"
  assumes kept_init: "init s \<Longrightarrow> P s" and kept_step: "P s \<Longrightarrow> P (f e s)"
begin

lemma holds: "reachable init (by_step f) s \<Longrightarrow> P s"
  by (erule step_invariantI) (rule kept_init kept_step, assumption)+

lemma kept_run: "P s \<Longrightarrow> P (fold f es s)"
  by (induction es arbitrary: s) (simp_all add: kept_step)

end

text \<open>
  Refinement: every step of the detailed machine is a step of the abstract one, or changes
  nothing it can see.
\<close>

locale refinement =
  fixes init :: "'s \<Rightarrow> bool" and tr :: "'s \<Rightarrow> 'e \<Rightarrow> 's \<Rightarrow> bool"
    and ainit :: "'a \<Rightarrow> bool" and atr :: "'a \<Rightarrow> 'b \<Rightarrow> 'a \<Rightarrow> bool"
    and view :: "'s \<Rightarrow> 'a"
  assumes init_abs: "init s \<Longrightarrow> ainit (view s)"
    and step_abs: "reachable init tr s \<Longrightarrow> tr s e s' \<Longrightarrow> view s' = view s \<or> (\<exists>b. atr (view s) b (view s'))"
begin

lemma reachable_abs: "reachable init tr s \<Longrightarrow> reachable ainit atr (view s)"
proof (induction rule: reachable.induct)
  case (start s)
  then show ?case by (intro reachable.start init_abs)
next
  case (step s e s')
  then show ?case using step_abs [OF step.hyps(1,2)] by (auto intro: reachable.step)
qed

lemma invariant_abs: "(\<And>a. reachable ainit atr a \<Longrightarrow> P a) \<Longrightarrow> reachable init tr s \<Longrightarrow> P (view s)"
  by (drule reachable_abs)

end

end
