(* ===== verification/Chat_Envelope.thy ===== *)
theory Chat_Envelope
  imports Web_Text
begin

text \<open>
  End-to-end encrypted chat: key derivation and the message cipher of the desktop application
  (\<open>tauri-app/ui/chat-ui.js\<close>), the portable envelope it copies from a locked conversation, and
  the reader of that envelope in the web page (\<open>tryDecryptChatEnvelope\<close> of
  \<open>landing/vault/chat.js\<close>). \<open>lower\<close> is \<open>String.prototype.toLowerCase\<close> on the identifiers.
\<close>

definition CHAT_SCHEMA :: jstr where "CHAT_SCHEMA = lit ''QEV-CHAT-ENVELOPE-V1''"

definition chat_context :: "jstr \<Rightarrow> jstr \<Rightarrow> jstr" where
  "chat_context a b = lit ''QEV-CHAT-V1:'' @ a @ lit '':'' @ b"

text \<open>\<open>[own.toLowerCase(), peer.toLowerCase()].sort()\<close>\<close>

definition id_pair :: "(jstr \<Rightarrow> jstr) \<Rightarrow> jstr \<Rightarrow> jstr \<Rightarrow> jstr list" where
  "id_pair lower own peer = sort [lower own, lower peer]"

definition msg_no_own_key :: jstr where
  "msg_no_own_key = lit ''Own public key not loaded yet. Try again in a moment.''"

definition chat_key :: "sodium \<Rightarrow> jstr \<Rightarrow> jstr list \<Rightarrow> bytes" where
  "chat_key so phrase ids = crypto_generichash so 32 (utf8 phrase @ utf8 (chat_context (ids ! 0) (ids ! 1)))"

definition deriveKey :: "sodium \<Rightarrow> (jstr \<Rightarrow> jstr) \<Rightarrow> jstr option \<Rightarrow> jstr \<Rightarrow> jstr \<Rightarrow> bytes res" where
  "deriveKey so lower own phrase peer =
     (case own of
        None \<Rightarrow> Inl msg_no_own_key
      | Some pk \<Rightarrow> throw_if (pk = []) msg_no_own_key (Inr (chat_key so phrase (id_pair lower pk peer))))"

record sealed_text =
  st_nonce :: jstr
  st_ct :: jstr

definition encryptMessage :: "sodium \<Rightarrow> jstr \<Rightarrow> bytes \<Rightarrow> rng \<Rightarrow> sealed_text res \<times> rng" where
  "encryptMessage so txt key r =
     (let (nonce, r') = randombytes_buf 24 r
      in (bind_res (aead_encrypt so (utf8 txt) [] nonce key) (\<lambda>ct.
            Inr \<lparr>st_nonce = to_base64 so nonce, st_ct = to_base64 so ct\<rparr>), r'))"

definition msg_cannot_decrypt :: jstr where
  "msg_cannot_decrypt =
     lit (''[can'' @ squote @ ''t decrypt '') @ [0x2014] @ lit '' wrong phrase or different device]''"

text \<open>\<open>sodium.from_base64\<close> on a value that may not be a string.\<close>

definition base64_value :: "sodium \<Rightarrow> jsval \<Rightarrow> bytes res" where
  "base64_value so v = (case v of JStr s \<Rightarrow> from_base64 so s | _ \<Rightarrow> Inl (lit ''unsupported input type for input''))"

definition decryptMessage :: "sodium \<Rightarrow> jsval \<Rightarrow> jsval \<Rightarrow> bytes \<Rightarrow> jstr" where
  "decryptMessage so nonceB64 ctB64 key =
     (case bind_res (base64_value so nonceB64) (\<lambda>nonce.
           bind_res (base64_value so ctB64) (\<lambda>ct.
           aead_decrypt so ct [] nonce key)) of
        Inl _ \<Rightarrow> msg_cannot_decrypt
      | Inr pt \<Rightarrow> from_utf8_lossy pt)"

text \<open>The text handed to \<open>chat_send\<close>, and the portable form copied from a locked bubble.\<close>

definition stored_envelope :: "sealed_text \<Rightarrow> jstr" where
  "stored_envelope e = text_or_undefined (JSON_stringify
     (JObj [(lit ''v'', JNum 1), (lit ''nonce'', JStr (st_nonce e)), (lit ''ct'', JStr (st_ct e))]))"

definition portable_envelope :: "(jstr \<Rightarrow> jstr) \<Rightarrow> jstr \<Rightarrow> jstr \<Rightarrow> jsval \<Rightarrow> jsval \<Rightarrow> jstr" where
  "portable_envelope lower own peer nonce ct = text_or_undefined (JSON_stringify
     (JObj [(lit ''schema'', JStr CHAT_SCHEMA), (lit ''ids'', JArr (map JStr (id_pair lower own peer))),
            (lit ''nonce'', nonce), (lit ''ct'', ct), (lit ''v'', JNum 1)]))"

section \<open>The page's reader\<close>

definition msg_ids_pair :: jstr where "msg_ids_pair = lit (''Chat envelope missing '' @ squote @ ''ids'' @ squote @ '' pair'')"
definition msg_nonce_ct :: jstr where
  "msg_nonce_ct = lit (''Chat envelope missing '' @ squote @ ''nonce'' @ squote @ '' or '' @ squote @ ''ct'' @ squote)"
definition msg_type_shared :: jstr where "msg_type_shared = lit ''Type the shared phrase to decrypt the chat message''"
definition msg_chat_base64 :: jstr where "msg_chat_base64 = lit ''Chat envelope base64 malformed''"
definition msg_chat_wrong :: jstr where "msg_chat_wrong = lit ''Wrong phrase (AEAD auth tag mismatch)''"

record chat_plain =
  cp_plaintext :: jstr
  cp_meta :: jstr

definition chat_meta :: "jstr list \<Rightarrow> jstr" where
  "chat_meta ids = lit ''Schema: QEV-CHAT-ENVELOPE-V1  |  Participants: '' @ take 8 (ids ! 0) @ [0x2026]
     @ lit '' '' @ [0x2194] @ lit '' '' @ take 8 (ids ! 1) @ [0x2026]"

text \<open>\<open>Inr None\<close> is the result \<open>null\<close>: not a chat envelope.\<close>

definition open_chat_envelope :: "sodium \<Rightarrow> (jstr \<Rightarrow> jstr) \<Rightarrow> jsval \<Rightarrow> jsval \<Rightarrow> chat_plain res" where
  "open_chat_envelope so lower parsed phrase =
     bind_res (get parsed (lit ''ids'')) (\<lambda>ids0.
     case ids0 of
       JArr vs \<Rightarrow>
         throw_if (length vs \<noteq> 2) msg_ids_pair
         (bind_res (get parsed (lit ''nonce'')) (\<lambda>nonce.
          bind_res (get parsed (lit ''ct'')) (\<lambda>ct.
          throw_if (\<not> is_str nonce \<or> \<not> is_str ct) msg_nonce_ct
          (throw_if (\<not> nonempty_str phrase) msg_type_shared
          (bind_res (res_list (map to_str vs)) (\<lambda>ss.
           let ids = sort (map lower ss); key = chat_key so (str_of phrase) ids
           in bind_res (rethrow msg_chat_base64
                (bind_res (base64_value so nonce) (\<lambda>n. bind_res (base64_value so ct) (\<lambda>c. Inr (n, c))))) (\<lambda>(nonceBytes, ctBytes).
              bind_res (rethrow msg_chat_wrong (aead_decrypt so ctBytes [] nonceBytes key)) (\<lambda>ptBytes.
              Inr \<lparr>cp_plaintext = from_utf8_lossy ptBytes, cp_meta = chat_meta ids\<rparr>))))))))
     | _ \<Rightarrow> Inl msg_ids_pair)"

definition tryDecryptChatEnvelope :: "sodium \<Rightarrow> (jstr \<Rightarrow> jstr) \<Rightarrow> jstr \<Rightarrow> jsval \<Rightarrow> chat_plain option res" where
  "tryDecryptChatEnvelope so lower raw phrase =
     (let trimmed = trim raw
      in if trimmed = [] \<or> hd trimmed \<noteq> 0x7B then Inr None
         else (case JSON_parse trimmed of
                 None \<Rightarrow> Inr None
               | Some parsed \<Rightarrow>
                   if \<not> truthy parsed \<or> get parsed (lit ''schema'') \<noteq> Inr (JStr CHAT_SCHEMA) then Inr None
                   else bind_res (open_chat_envelope so lower parsed phrase) (\<lambda>p. Inr (Some p))))"

section \<open>Both sides derive the same key\<close>

lemma id_pair_sym: "id_pair lower a b = id_pair lower b a"
  using linear [of "lower a" "lower b"] by (auto simp: id_pair_def)

lemma set_id_pair: "set (id_pair lower a b) = {lower a, lower b}"
  unfolding id_pair_def set_sort by simp

lemma length_id_pair: "length (id_pair lower a b) = 2"
  by (simp add: id_pair_def)

lemma deriveKey_Inr: "deriveKey so lower own phrase peer = Inr k \<longleftrightarrow>
    (\<exists>pk. own = Some pk \<and> pk \<noteq> [] \<and> k = chat_key so phrase (id_pair lower pk peer))"
  by (auto simp: deriveKey_def split: option.split)

text \<open>The hash gives keys of the length it is asked for.\<close>

definition hash_works :: "sodium \<Rightarrow> bool" where
  "hash_works so = (\<forall>n m. length (crypto_generichash so n m) = n)"

lemma length_chat_key: "hash_works so \<Longrightarrow> length (chat_key so phrase ids) = 32"
  by (simp add: hash_works_def chat_key_def)

lemma toy_hash_works: "hash_works toy_sodium"
  by (simp add: hash_works_def toy_sodium_def)

lemma encryptMessage_total:
  assumes "aead_works so" and "length key = 32"
  obtains e r' where "encryptMessage so txt key r = (Inr e, r')"
proof -
  obtain nonce r' where n: "randombytes_buf 24 r = (nonce, r')" "length nonce = 24"
    using length_randombytes_buf [of 24 r] by (cases "randombytes_buf 24 r") auto
  obtain c where "aead_encrypt so (utf8 txt) [] nonce key = Inr c" using aead_worksE [OF assms(1) n(2) assms(2)] by metis
  then show thesis using that n by (simp add: encryptMessage_def)
qed

lemma encryptMessage_parts:
  assumes "aead_works so" and "length key = 32" and "encryptMessage so txt key r = (Inr e, r')"
  obtains nonce ct where "st_nonce e = to_base64 so nonce" and "st_ct e = to_base64 so ct"
    and "aead_decrypt so ct [] nonce key = Inr (utf8 txt)" and "length ct = length (utf8 txt) + 16"
proof -
  obtain nonce where n: "randombytes_buf 24 r = (nonce, r')" "length nonce = 24"
    using assms(3) length_randombytes_buf [of 24 r] by (cases "randombytes_buf 24 r") (auto simp: encryptMessage_def)
  then obtain ct where c: "aead_encrypt so (utf8 txt) [] nonce key = Inr ct"
    and e: "e = \<lparr>st_nonce = to_base64 so nonce, st_ct = to_base64 so ct\<rparr>"
    using assms(3) by (auto simp: encryptMessage_def)
  show thesis using that [of nonce ct] e aead_encrypt_opens [OF assms(1) n(2) assms(2) c] by simp
qed

lemma decrypt_encrypted:
  assumes "aead_works so" and "base64_works so" and "length key = 32"
    and "encryptMessage so txt key r = (Inr e, r')"
  shows "decryptMessage so (JStr (st_nonce e)) (JStr (st_ct e)) key = units_of (drop_bom (code_points txt))"
proof -
  obtain nonce ct where "st_nonce e = to_base64 so nonce" "st_ct e = to_base64 so ct"
    "aead_decrypt so ct [] nonce key = Inr (utf8 txt)"
    by (rule encryptMessage_parts [OF assms(1,3,4)])
  then show ?thesis using assms(2)
    by (simp add: decryptMessage_def base64_value_def base64_worksD from_utf8_lossy_utf8)
qed

section \<open>The page reads what the application copies\<close>

definition envelope_val :: "(jstr \<Rightarrow> jstr) \<Rightarrow> jstr \<Rightarrow> jstr \<Rightarrow> jsval \<Rightarrow> jsval \<Rightarrow> jsval" where
  "envelope_val lower own peer nonce ct =
     JObj [(lit ''schema'', JStr CHAT_SCHEMA), (lit ''ids'', JArr (map JStr (id_pair lower own peer))),
           (lit ''nonce'', nonce), (lit ''ct'', ct), (lit ''v'', JNum 1)]"

lemma envelope_val_wf: "wf_val (envelope_val lower own peer (JStr n) (JStr c))"
  by (simp add: envelope_val_def list_all_iff)

lemma portable_text:
  "portable_envelope lower own peer (JStr n) (JStr c) = text_of [] [] (envelope_val lower own peer (JStr n) (JStr c))"
  using json_str_text_of [OF envelope_val_wf, of "[]" "[]" lower own peer n c]
  by (simp add: portable_envelope_def JSON_stringify_def envelope_val_def text_or_undefined_def del: json_str.simps)

lemma portable_parses:
  "trim (portable_envelope lower own peer (JStr n) (JStr c)) = portable_envelope lower own peer (JStr n) (JStr c)"
  "JSON_parse (portable_envelope lower own peer (JStr n) (JStr c)) = Some (envelope_val lower own peer (JStr n) (JStr c))"
  "\<exists>t. portable_envelope lower own peer (JStr n) (JStr c) = 0x7B # t"
proof -
  let ?v = "envelope_val lower own peer (JStr n) (JStr c)"
  obtain t where t: "text_of [] [] ?v = 0x7B # t @ [0x7D]"
    using text_of_JObj_ends envelope_val_wf [of lower own peer n c] unfolding envelope_val_def by blast
  show "trim (portable_envelope lower own peer (JStr n) (JStr c)) = portable_envelope lower own peer (JStr n) (JStr c)"
    unfolding portable_text using trim_core [of "[]" "[]" "text_of [] [] ?v"] by (simp add: t js_space_codes)
  show "JSON_parse (portable_envelope lower own peer (JStr n) (JStr c)) = Some ?v"
    unfolding portable_text using JSON_parse_text [OF envelope_val_wf, of "[]" "[]" "[]"] by simp
  show "\<exists>t. portable_envelope lower own peer (JStr n) (JStr c) = 0x7B # t" unfolding portable_text t by blast
qed

lemma ids_again:
  assumes "\<And>s. lower (lower s) = lower s"
  shows "res_list (map to_str (map JStr (id_pair lower a b))) = Inr (id_pair lower a b)"
    and "sort (map lower (id_pair lower a b)) = id_pair lower a b"
proof -
  have "map to_str (map JStr xs) = map Inr xs" for xs by (induction xs) simp_all
  then show "res_list (map to_str (map JStr (id_pair lower a b))) = Inr (id_pair lower a b)"
    by (simp only: res_list_Inr)
  have "map lower (id_pair lower a b) = id_pair lower a b"
    using assms by (intro map_idI) (auto simp: set_id_pair)
  moreover have "sort (id_pair lower a b) = id_pair lower a b" unfolding id_pair_def by (rule sort_key_id_if_sorted) (simp only: list.map_ident sorted_sort)
  ultimately show "sort (map lower (id_pair lower a b)) = id_pair lower a b" by simp
qed

lemma page_reads_portable:
  assumes "aead_works so" and "base64_works so" and "hash_works so" and l: "\<And>s. lower (lower s) = lower s"
    and "deriveKey so lower (Some own) phrase peer = Inr key" and "phrase \<noteq> []"
    and "encryptMessage so txt key r = (Inr e, r')"
  shows "tryDecryptChatEnvelope so lower (portable_envelope lower own peer (JStr (st_nonce e)) (JStr (st_ct e))) (JStr phrase) =
    Inr (Some \<lparr>cp_plaintext = units_of (drop_bom (code_points txt)), cp_meta = chat_meta (id_pair lower own peer)\<rparr>)"
proof -
  let ?v = "envelope_val lower own peer (JStr (st_nonce e)) (JStr (st_ct e))"
  have k: "key = chat_key so phrase (id_pair lower own peer)" using assms(5) by (simp add: deriveKey_Inr)
  then have "length key = 32" using length_chat_key [OF assms(3)] by simp
  then obtain nonce ct where e: "st_nonce e = to_base64 so nonce" "st_ct e = to_base64 so ct"
    "aead_decrypt so ct [] nonce key = Inr (utf8 txt)"
    using encryptMessage_parts [OF assms(1) _ assms(7)] by metis
  have "get ?v (lit ''ids'') = Inr (JArr (map JStr (id_pair lower own peer)))" "get ?v (lit ''nonce'') = Inr (JStr (st_nonce e))"
    "get ?v (lit ''ct'') = Inr (JStr (st_ct e))" and s: "get ?v (lit ''schema'') = Inr (JStr CHAT_SCHEMA)"
    by (simp_all add: envelope_val_def)
  then have "open_chat_envelope so lower ?v (JStr phrase) =
      Inr \<lparr>cp_plaintext = units_of (drop_bom (code_points txt)), cp_meta = chat_meta (id_pair lower own peer)\<rparr>"
    using e assms(2,6) ids_again [OF l] length_id_pair [of lower own peer]
    by (simp add: open_chat_envelope_def Let_def nonempty_str_def base64_value_def base64_worksD rethrow_def k
        from_utf8_lossy_utf8 throw_if_def del: list.map)
  moreover have "truthy ?v" by (simp add: envelope_val_def)
  ultimately show ?thesis
    using portable_parses [of lower own peer "st_nonce e" "st_ct e"] s
    by (auto simp: tryDecryptChatEnvelope_def Let_def)
qed

section \<open>Properties\<close>

text \<open>
  Two paired devices derive the same conversation key from the same phrase: the key does
  not depend on which of the two identifiers is one's own.
\<close>

theorem same_conversation_key:
  assumes "a \<noteq> []" and "b \<noteq> []"
  shows "deriveKey so lower (Some a) phrase b = deriveKey so lower (Some b) phrase a \<and>
    (\<exists>k. deriveKey so lower (Some a) phrase b = Inr k)"
  using assms by (simp add: deriveKey_def id_pair_sym)

theorem same_conversation_key_witness:
  "\<exists>k. deriveKey toy_sodium (\<lambda>s. s) (Some (lit ''aa'')) (lit ''p'') (lit ''bb'') = Inr k \<and>
     deriveKey toy_sodium (\<lambda>s. s) (Some (lit ''bb'')) (lit ''p'') (lit ''aa'') = Inr k"
  using same_conversation_key [of "lit ''aa''" "lit ''bb''" toy_sodium "\<lambda>s. s" "lit ''p''"] by fastforce

text \<open>
  C15: A message one device sealed is read by the other device under the same phrase, and the
  envelope copied from the locked conversation is read by the web page under that phrase.
\<close>

theorem chat_message_arrives:
  assumes "aead_works so" and "base64_works so" and "hash_works so" and "\<And>s. lower (lower s) = lower s"
    and "deriveKey so lower (Some a) phrase b = Inr key" and "b \<noteq> []" and "phrase \<noteq> []"
    and "encryptMessage so txt key r = (Inr e, r')" and "plain_text txt"
  shows "(\<exists>key'. deriveKey so lower (Some b) phrase a = Inr key' \<and>
      decryptMessage so (JStr (st_nonce e)) (JStr (st_ct e)) key' = txt) \<and>
    tryDecryptChatEnvelope so lower (portable_envelope lower a b (JStr (st_nonce e)) (JStr (st_ct e))) (JStr phrase) =
      Inr (Some \<lparr>cp_plaintext = txt, cp_meta = chat_meta (id_pair lower a b)\<rparr>)"
proof -
  have k: "key = chat_key so phrase (id_pair lower a b)" using assms(5) by (simp add: deriveKey_Inr)
  then have "deriveKey so lower (Some b) phrase a = Inr key" using assms(6) by (simp add: deriveKey_Inr id_pair_sym)
  moreover have "length key = 32" using k length_chat_key [OF assms(3)] by simp
  ultimately show ?thesis
    using decrypt_encrypted [OF assms(1,2) _ assms(8)] page_reads_portable [OF assms(1-5,7,8)] plain_units [OF assms(9)]
    by simp
qed

theorem chat_message_arrives_witness:
  "\<exists>e key. decryptMessage toy_sodium (JStr (st_nonce (e :: sealed_text))) (JStr (st_ct e)) key = lit ''hi'' \<and>
     (\<exists>raw meta. tryDecryptChatEnvelope toy_sodium (\<lambda>s. s) raw (JStr (lit ''p'')) =
        Inr (Some \<lparr>cp_plaintext = lit ''hi'', cp_meta = meta\<rparr>))"
proof -
  let ?k = "chat_key toy_sodium (lit ''p'') (id_pair (\<lambda>s. s) (lit ''aa'') (lit ''bb''))"
  have k: "deriveKey toy_sodium (\<lambda>s. s) (Some (lit ''aa'')) (lit ''p'') (lit ''bb'') = Inr ?k" by (simp add: deriveKey_Inr)
  obtain e r' where e: "encryptMessage toy_sodium (lit ''hi'') ?k (\<lambda>_. 7) = (Inr e, r')"
    by (rule encryptMessage_total [OF toy_all(2) length_chat_key [OF toy_hash_works]])
  from chat_message_arrives [OF toy_all(2,3) toy_hash_works _ k _ _ e sample_plain] show ?thesis by (simp add: sample_plain) blast
qed

text \<open>
  The page takes for a chat envelope only JSON that names the chat schema: every vault
  file, single line and recovery sheet falls through to the vault reader, and an envelope with
  its parts in place fails only for a missing phrase, broken base64url or a wrong phrase.
\<close>

theorem chat_envelope_errors:
  assumes "tryDecryptChatEnvelope so lower raw phrase = Inl e"
    and "JSON_parse (trim raw) = Some v" and "get v (lit ''ids'') = Inr (JArr [JStr a, JStr b])"
    and "get v (lit ''nonce'') = Inr (JStr n)" and "get v (lit ''ct'') = Inr (JStr c)"
  shows "get v (lit ''schema'') = Inr (JStr CHAT_SCHEMA) \<and>
    (e = msg_type_shared \<and> \<not> nonempty_str phrase \<or> e = msg_chat_base64 \<and> (\<not> is_ok (from_base64 so n) \<or> \<not> is_ok (from_base64 so c)) \<or>
     e = msg_chat_wrong \<and> (\<exists>nb cb. from_base64 so n = Inr nb \<and> from_base64 so c = Inr cb \<and>
       \<not> is_ok (aead_decrypt so cb [] nb (chat_key so (str_of phrase) (sort [lower a, lower b])))))"
proof -
  have s: "get v (lit ''schema'') = Inr (JStr CHAT_SCHEMA)" and o: "open_chat_envelope so lower v phrase = Inl e"
    using assms(1,2) by (auto simp: tryDecryptChatEnvelope_def Let_def bind_res_Inl_iff split: if_splits)
  show ?thesis
  proof (cases "nonempty_str phrase")
    case True
    note o = o [unfolded open_chat_envelope_def assms(3-5)]
    show ?thesis
    proof (cases "from_base64 so n"; cases "from_base64 so c")
      fix nb cb assume "from_base64 so n = Inr nb" "from_base64 so c = Inr cb"
      then show ?thesis using o s True
        by (cases "aead_decrypt so cb [] nb (chat_key so (str_of phrase) (sort [lower a, lower b]))")
          (auto simp: base64_value_def throw_if_def Let_def rethrow_def simp del: sort_key_simps)
    qed (use o s True in \<open>auto simp: base64_value_def throw_if_def Let_def rethrow_def\<close>)
  next
    case False
    then show ?thesis using o s by (simp add: open_chat_envelope_def assms(3-5))
  qed
qed

theorem chat_envelope_errors_witness:
  "tryDecryptChatEnvelope toy_sodium (\<lambda>s. s) (portable_envelope (\<lambda>s. s) (lit ''a'') (lit ''b'') (JStr []) (JStr [])) (JStr []) =
     Inl msg_type_shared"
proof -
  let ?raw = "portable_envelope (\<lambda>s. s) (lit ''a'') (lit ''b'') (JStr []) (JStr [])"
  let ?v = "envelope_val (\<lambda>s. s) (lit ''a'') (lit ''b'') (JStr []) (JStr [])"
  have i: "id_pair (\<lambda>s. s) (lit ''a'') (lit ''b'') = [lit ''a'', lit ''b''] \<or> id_pair (\<lambda>s. s) (lit ''a'') (lit ''b'') = [lit ''b'', lit ''a'']"
    by (auto simp: id_pair_def)
  note p = portable_parses [of "\<lambda>s. s" "lit ''a''" "lit ''b''" "[]" "[]"]
  have j: "JSON_parse (trim ?raw) = Some ?v" using p by simp
  have t: "tryDecryptChatEnvelope toy_sodium (\<lambda>s. s) ?raw (JStr []) = Inl msg_type_shared"
    using p length_id_pair [of "\<lambda>s. s" "lit ''a''" "lit ''b''"]
    by (auto simp: tryDecryptChatEnvelope_def Let_def envelope_val_def open_chat_envelope_def nonempty_str_def)
  from i show ?thesis
    using chat_envelope_errors [OF t j, of "lit ''a''" "lit ''b''" "[]" "[]"] chat_envelope_errors [OF t j, of "lit ''b''" "lit ''a''" "[]" "[]"] t
    by (auto simp: envelope_val_def)
qed

end
