(* ===== verification/Chat_Ui.thy ===== *)
theory Chat_Ui
  imports Chat_Envelope Machines
begin

text \<open>
  The chat tab of the desktop application (\<open>tauri-app/ui/chat-ui.js\<close>) as a state machine: the
  keys it holds in memory, the open conversation, the phrase dialog, the history requests under
  way, what the message list shows, and the envelopes it handed to the native side. A request's
  answer is an event of its own, so answers may arrive late and in any order. Peer identifiers
  are the hexadecimal strings of the native side; the elements of the page are assumed present.
\<close>

section \<open>Messages on screen\<close>

record stored_msg =
  m_direction :: jstr
  m_status :: jstr
  m_clock :: jstr
  m_text :: jstr

record bubble =
  b_out :: bool
  b_cipher :: bool
  b_html :: jstr
  b_clock :: jstr
  b_icon :: jstr
  b_copy :: "jstr option"

text \<open>\<open>esc\<close>: the three replacements, one after the other.\<close>

definition replace_with :: "16 word \<Rightarrow> jstr \<Rightarrow> jstr \<Rightarrow> jstr" where
  "replace_with c t s = concat (map (\<lambda>u. if u = c then t else [u]) s)"

definition esc_str :: "jstr \<Rightarrow> jstr" where
  "esc_str s = replace_with 0x3E (lit ''&gt;'') (replace_with 0x3C (lit ''&lt;'') (replace_with 0x26 (lit ''&amp;'') s))"

definition esc :: "jsval \<Rightarrow> jstr res" where
  "esc v = bind_res (to_str (if truthy v then v else JStr [])) (\<lambda>s. Inr (esc_str s))"

text \<open>The nonce and ciphertext of a stored text that is an envelope.\<close>

definition envelope_parts :: "jstr \<Rightarrow> (jsval \<times> jsval) option" where
  "envelope_parts rawText =
     (if rawText = [] \<or> hd rawText \<noteq> 0x7B then None
      else (case JSON_parse rawText of
              None \<Rightarrow> None
            | Some env \<Rightarrow>
                if fld env ''v'' = JNum 1 \<and> truthy (fld env ''nonce'') \<and> truthy (fld env ''ct'')
                then Some (fld env ''nonce'', fld env ''ct'') else None))"

definition status_icon :: "stored_msg \<Rightarrow> jstr" where
  "status_icon m =
     (if m_direction m \<noteq> lit ''outgoing'' then []
      else if m_status m = lit ''sending'' then lit ''...''
      else if m_status m = lit ''sent'' then [0x2713]
      else if m_status m = lit ''failed'' then lit ''Failed'' else [])"

text \<open>What copying a locked bubble puts on the clipboard.\<close>

definition copied_envelope ::
  "(jstr \<Rightarrow> jstr) \<Rightarrow> jstr option \<Rightarrow> jstr option \<Rightarrow> jstr \<Rightarrow> jsval \<Rightarrow> jsval \<Rightarrow> jstr"
where
  "copied_envelope lower own peer rawText nonce ct =
     (case (own, peer) of
        (Some pk, Some p) \<Rightarrow> if pk \<noteq> [] \<and> p \<noteq> [] then portable_envelope lower pk p nonce ct else rawText
      | _ \<Rightarrow> rawText)"

definition show_message ::
  "sodium \<Rightarrow> (jstr \<Rightarrow> jstr) \<Rightarrow> jstr option \<Rightarrow> bytes option \<Rightarrow> jstr option \<Rightarrow> stored_msg \<Rightarrow> bubble res"
where
  "show_message so lower own key peer m =
     (let rawText = m_text m;
          (displayText, isCipher, fullEnvelope) =
            (case envelope_parts rawText of
               None \<Rightarrow> (JStr rawText, False, None)
             | Some (nonce, ct) \<Rightarrow>
                 (case key of
                    Some k \<Rightarrow> (JStr (decryptMessage so nonce ct k), False, None)
                  | None \<Rightarrow> (ct, True, Some (copied_envelope lower own peer rawText nonce ct))))
      in bind_res (esc displayText) (\<lambda>html.
         Inr \<lparr>b_out = (m_direction m = lit ''outgoing''), b_cipher = isCipher, b_html = html,
              b_clock = m_clock m, b_icon = status_icon m, b_copy = fullEnvelope\<rparr>))"

text \<open>The thirty-six characters of a conversation's preview; they are never decrypted.\<close>

definition preview_text :: "stored_msg \<Rightarrow> jstr res" where
  "preview_text m =
     (let snippet = (case envelope_parts (m_text m) of
            Some (_, JStr ct) \<Rightarrow> Inr (take 36 ct, length (take 36 ct))
          | Some (_, JArr vs) \<Rightarrow> bind_res (to_str (JArr (take 36 vs))) (\<lambda>s. Inr (s, length (take 36 vs)))
          | _ \<Rightarrow> Inr (take 36 (m_text m), length (take 36 (m_text m))))
      in bind_res snippet (\<lambda>(s, n).
         Inr ((if m_direction m = lit ''outgoing'' then lit ''You: '' else []) @ s @ (if n \<ge> 36 then lit ''...'' else []))))"

section \<open>The state\<close>

record peer_rec =
  peer_id :: jstr
  peer_nm :: jstr

record peer_row =
  row_id :: jstr
  row_name :: jstr
  row_active :: bool
  row_locked :: bool

datatype pending = For_unlock | For_callback

record chat =
  own_pk :: "jstr option"
  phrase_keys :: "jstr \<Rightarrow> bytes option"
  active :: "(jstr \<times> jstr) option"
  peer_recs :: "peer_rec list"
  rows :: "peer_row list"
  threaded :: bool
  unlocked_shown :: bool
  dialog_shown :: bool
  dialog_title :: jstr
  waiting :: "pending option"
  callback_got :: "jstr option list"
  requests :: "jstr option list"
  bubbles :: "bubble list"
  draft :: jstr
  alerts :: nat
  outbox :: "(jstr \<times> jstr) list"
  send_disabled :: bool
  marked_read :: "jstr list"
  badges :: "(jstr \<times> jstr) list"
  total_badge :: jstr
  chat_rng :: rng

definition active_id :: "chat \<Rightarrow> jstr option" where
  "active_id s = (case active s of Some (p, _) \<Rightarrow> if p = [] then None else Some p | None \<Rightarrow> None)"

text \<open>\<open>phraseKeys[peerId]\<close>; the property of an absent peer is looked up under \<open>"null"\<close>.\<close>

definition key_of :: "chat \<Rightarrow> jstr option \<Rightarrow> bytes option" where
  "key_of s p = phrase_keys s (case p of Some q \<Rightarrow> q | None \<Rightarrow> lit ''null'')"

definition setPhraseKey :: "sodium \<Rightarrow> (jstr \<Rightarrow> jstr) \<Rightarrow> jstr \<Rightarrow> jstr \<Rightarrow> chat \<Rightarrow> bool \<times> chat" where
  "setPhraseKey so lower peer phrase s =
     (case deriveKey so lower (own_pk s) phrase peer of
        Inl _ \<Rightarrow> (False, s)
      | Inr k \<Rightarrow> (True, s\<lparr>phrase_keys := (phrase_keys s)(peer \<mapsto> k)\<rparr>))"

definition wipePhraseKey :: "jstr \<Rightarrow> chat \<Rightarrow> chat" where
  "wipePhraseKey peer s = s\<lparr>phrase_keys := (phrase_keys s)(peer := None)\<rparr>"

definition showPhraseDialog :: "jstr \<Rightarrow> pending \<Rightarrow> chat \<Rightarrow> chat" where
  "showPhraseDialog peerName k s =
     s\<lparr>waiting := Some k, dialog_title := lit ''Shared phrase with '' @ peerName, dialog_shown := True\<rparr>"

definition row_of :: "chat \<Rightarrow> peer_rec \<Rightarrow> peer_row" where
  "row_of s p = \<lparr>row_id = peer_id p, row_name = esc_str (peer_nm p),
     row_active = (map_option fst (active s) = Some (peer_id p)), row_locked = (phrase_keys s (peer_id p) = None)\<rparr>"

definition renderPeerList :: "chat \<Rightarrow> chat" where
  "renderPeerList s = s\<lparr>rows := map (row_of s) (peer_recs s)\<rparr>"

definition applyLockState :: "jstr \<Rightarrow> chat \<Rightarrow> chat" where
  "applyLockState peer s = s\<lparr>unlocked_shown := (phrase_keys s peer \<noteq> None)\<rparr>"

definition loadMessages :: "jstr option \<Rightarrow> chat \<Rightarrow> chat" where
  "loadMessages peer s = s\<lparr>requests := requests s @ [peer]\<rparr>"

definition openChat :: "jstr \<Rightarrow> jstr \<Rightarrow> chat \<Rightarrow> chat" where
  "openChat peerId peerName s =
     (let s1 = s\<lparr>active := Some (peerId, peerName), threaded := True\<rparr>;
          s2 = loadMessages (Some peerId) (applyLockState peerId s1);
          s3 = s2\<lparr>marked_read := marked_read s2 @ [peerId]\<rparr>
      in renderPeerList s3)"

definition threadBack :: "chat \<Rightarrow> chat" where
  "threadBack s = s\<lparr>active := None, threaded := False, rows := map (\<lambda>r. r\<lparr>row_active := False\<rparr>) (rows s)\<rparr>"

definition promptUnlock :: "chat \<Rightarrow> chat" where
  "promptUnlock s =
     (case active s of
        Some (p, n) \<Rightarrow> if p = [] \<or> n = [] then s else showPhraseDialog n For_unlock s
      | None \<Rightarrow> s)"

text \<open>The continuation of \<open>promptUnlock\<close>: it reads the active peer when the dialog closes.\<close>

definition unlock_with :: "sodium \<Rightarrow> (jstr \<Rightarrow> jstr) \<Rightarrow> jstr option \<Rightarrow> chat \<Rightarrow> chat" where
  "unlock_with so lower phrase s =
     (case (phrase, active s) of
        (Some w, Some (p, _)) \<Rightarrow>
          (case setPhraseKey so lower p w s of
             (False, s1) \<Rightarrow> s1
           | (True, s1) \<Rightarrow> loadMessages (Some p) (applyLockState p s1))
      | _ \<Rightarrow> s)"

definition close_dialog :: "sodium \<Rightarrow> (jstr \<Rightarrow> jstr) \<Rightarrow> jstr option \<Rightarrow> chat \<Rightarrow> chat" where
  "close_dialog so lower answer s =
     (let s1 = s\<lparr>dialog_shown := False, waiting := None\<rparr>
      in case waiting s of
           None \<Rightarrow> s1
         | Some For_unlock \<Rightarrow> unlock_with so lower answer s1
         | Some For_callback \<Rightarrow> s1\<lparr>callback_got := callback_got s1 @ [answer]\<rparr>)"

definition doLock :: "chat \<Rightarrow> chat" where
  "doLock s =
     (case active_id s of
        None \<Rightarrow> s
      | Some p \<Rightarrow> renderPeerList (loadMessages (Some p) (applyLockState p (wipePhraseKey p s))))"

definition press_lock :: "chat \<Rightarrow> chat" where
  "press_lock s =
     (case active_id s of
        None \<Rightarrow> s
      | Some p \<Rightarrow> if phrase_keys s p \<noteq> None then doLock s else promptUnlock s)"

text \<open>
  An answer to a history request; an exception while rendering ends in the \<open>catch\<close>, which shows
  the empty conversation.
\<close>

definition renderMessages ::
  "sodium \<Rightarrow> (jstr \<Rightarrow> jstr) \<Rightarrow> jstr option \<Rightarrow> stored_msg list \<Rightarrow> chat \<Rightarrow> chat"
where
  "renderMessages so lower peer msgs s =
     s\<lparr>bubbles := (case res_list (map (show_message so lower (own_pk s) (key_of s peer) peer) msgs) of
         Inl _ \<Rightarrow> [] | Inr bs \<Rightarrow> bs)\<rparr>"

definition doSend :: "sodium \<Rightarrow> chat \<Rightarrow> chat" where
  "doSend so s =
     (case active_id s of
        None \<Rightarrow> s
      | Some p \<Rightarrow>
          let plaintext = trim (draft s)
          in if plaintext = [] then s
             else (case phrase_keys s p of
                     None \<Rightarrow> s\<lparr>alerts := Suc (alerts s)\<rparr>
                   | Some key \<Rightarrow>
                       (case encryptMessage so plaintext key (chat_rng s) of
                          (Inl _, r) \<Rightarrow> s\<lparr>chat_rng := r\<rparr>
                        | (Inr e, r) \<Rightarrow>
                            s\<lparr>chat_rng := r, draft := [], send_disabled := True,
                              outbox := outbox s @ [(p, stored_envelope e)]\<rparr>)))"

definition send_done :: "chat \<Rightarrow> chat" where
  "send_done s = (loadMessages (map_option fst (active s)) s)\<lparr>send_disabled := False\<rparr>"

definition badge_text :: "nat \<Rightarrow> jstr" where
  "badge_text n = (if n > 0 then num_str (int n) else [])"

definition updateBadges :: "(jstr \<Rightarrow> nat) \<Rightarrow> chat \<Rightarrow> chat" where
  "updateBadges counts s =
     s\<lparr>badges := map (\<lambda>p. (peer_id p, badge_text (counts (peer_id p)))) (peer_recs s),
       total_badge := badge_text (sum_list (map (\<lambda>p. counts (peer_id p)) (peer_recs s)))\<rparr>"

definition loadPeers :: "peer_rec list option \<Rightarrow> chat \<Rightarrow> chat" where
  "loadPeers answer s = renderPeerList (s\<lparr>peer_recs := (case answer of None \<Rightarrow> [] | Some ps \<Rightarrow> ps)\<rparr>)"

definition fetchNewMessages :: "nat \<Rightarrow> chat \<Rightarrow> chat" where
  "fetchNewMessages count s =
     (if count > 0 then (case active_id s of Some p \<Rightarrow> loadMessages (Some p) s | None \<Rightarrow> s) else s)"

section \<open>Events\<close>

datatype chat_event =
  Own_key_loaded jstr
| Peers_loaded "peer_rec list option"
| Select_peer jstr jstr
| Press_back
| Press_lock
| Press_unlock
| Dialog_ok jstr
| Dialog_cancel
| Ask_phrase jstr
| Set_phrase jstr jstr
| Type_draft jstr
| Press_send
| Send_answered
| History_answered nat "stored_msg list option"
| Counts_loaded "jstr \<Rightarrow> nat"
| Relay_fetched nat

text \<open>An answer to the \<open>i\<close>-th outstanding request; a failed request shows no messages.\<close>

definition answer_history ::
  "sodium \<Rightarrow> (jstr \<Rightarrow> jstr) \<Rightarrow> nat \<Rightarrow> stored_msg list option \<Rightarrow> chat \<Rightarrow> chat"
where
  "answer_history so lower i answer s =
     (if i < length (requests s) then
        renderMessages so lower (requests s ! i) (case answer of None \<Rightarrow> [] | Some ms \<Rightarrow> ms)
          (s\<lparr>requests := take i (requests s) @ drop (Suc i) (requests s)\<rparr>)
      else s)"

fun chat_step :: "sodium \<Rightarrow> (jstr \<Rightarrow> jstr) \<Rightarrow> chat_event \<Rightarrow> chat \<Rightarrow> chat" where
  "chat_step so lower (Own_key_loaded h) s = s\<lparr>own_pk := Some h\<rparr>"
| "chat_step so lower (Peers_loaded a) s = loadPeers a s"
| "chat_step so lower (Select_peer p n) s = openChat p n s"
| "chat_step so lower Press_back s = threadBack s"
| "chat_step so lower Press_lock s = press_lock s"
| "chat_step so lower Press_unlock s = promptUnlock s"
| "chat_step so lower (Dialog_ok t) s = close_dialog so lower (if trim t = [] then None else Some (trim t)) s"
| "chat_step so lower Dialog_cancel s = close_dialog so lower None s"
| "chat_step so lower (Ask_phrase n) s = showPhraseDialog n For_callback s"
| "chat_step so lower (Set_phrase p w) s = snd (setPhraseKey so lower p w s)"
| "chat_step so lower (Type_draft t) s = s\<lparr>draft := t\<rparr>"
| "chat_step so lower Press_send s = doSend so s"
| "chat_step so lower Send_answered s = send_done s"
| "chat_step so lower (History_answered i a) s = answer_history so lower i a s"
| "chat_step so lower (Counts_loaded c) s = updateBadges c s"
| "chat_step so lower (Relay_fetched n) s = fetchNewMessages n s"

text \<open>A fresh session: no key, nothing open, nothing sent.\<close>

definition chat_start :: "chat \<Rightarrow> bool" where
  "chat_start s =
     (own_pk s = None \<and> phrase_keys s = Map.empty \<and> active s = None \<and> bubbles s = [] \<and> rows s = [] \<and>
      waiting s = None \<and> requests s = [] \<and> outbox s = [])"

definition chat_reachable :: "sodium \<Rightarrow> (jstr \<Rightarrow> jstr) \<Rightarrow> chat \<Rightarrow> bool" where
  "chat_reachable so lower = reachable chat_start (by_step (chat_step so lower))"

section \<open>The abstract lockbox\<close>

text \<open>
  What the chat promises about secrets: keys are learnt only by deriving them from a phrase, they
  can be forgotten, and what is posted to a peer is sealed under the key held for that peer.
\<close>

record lockbox =
  held :: "jstr \<Rightarrow> bytes option"
  posted :: "(jstr \<times> jstr) list"

definition derivable :: "sodium \<Rightarrow> (jstr \<Rightarrow> jstr) \<Rightarrow> jstr \<Rightarrow> bytes \<Rightarrow> bool" where
  "derivable so lower p k = (\<exists>own w. deriveKey so lower own w p = Inr k)"

definition sealed_under :: "sodium \<Rightarrow> bytes \<Rightarrow> jstr \<Rightarrow> bool" where
  "sealed_under so k t =
     (\<exists>m r e r'. m \<noteq> [] \<and> encryptMessage so m k r = (Inr e, r') \<and> t = stored_envelope e)"

datatype lock_move = Learn jstr bytes | Forget jstr | Post jstr jstr

inductive lock_trans :: "sodium \<Rightarrow> (jstr \<Rightarrow> jstr) \<Rightarrow> lockbox \<Rightarrow> lock_move \<Rightarrow> lockbox \<Rightarrow> bool"
  for so :: sodium and lower :: "jstr \<Rightarrow> jstr"
where
  learn: "derivable so lower p k \<Longrightarrow> lock_trans so lower a (Learn p k) (a\<lparr>held := (held a)(p \<mapsto> k)\<rparr>)"
| forget: "lock_trans so lower a (Forget p) (a\<lparr>held := (held a)(p := None)\<rparr>)"
| post: "held a p = Some k \<Longrightarrow> sealed_under so k t \<Longrightarrow>
    lock_trans so lower a (Post p t) (a\<lparr>posted := posted a @ [(p, t)]\<rparr>)"

inductive_cases lock_transE: "lock_trans so lower a m b"

definition lock_start :: "lockbox \<Rightarrow> bool" where
  "lock_start a = (held a = Map.empty \<and> posted a = [])"

definition secrets_kept :: "sodium \<Rightarrow> (jstr \<Rightarrow> jstr) \<Rightarrow> lockbox \<Rightarrow> bool" where
  "secrets_kept so lower a =
     ((\<forall>p k. held a p = Some k \<longrightarrow> derivable so lower p k) \<and>
      (\<forall>(p, t) \<in> set (posted a). \<exists>k. derivable so lower p k \<and> sealed_under so k t))"

lemma lockbox_keeps_secrets:
  assumes "reachable lock_start (lock_trans so lower) a"
  shows "secrets_kept so lower a"
  using assms
proof (rule invariantI)
  fix a m b
  assume k: "secrets_kept so lower a" and "lock_trans so lower a m b"
  from this(2) show "secrets_kept so lower b"
    by (rule lock_transE) (use k in \<open>auto simp: secrets_kept_def\<close>)
qed (simp add: lock_start_def secrets_kept_def)

section \<open>The chat implements it\<close>

definition lockbox_of :: "chat \<Rightarrow> lockbox" where
  "lockbox_of s = \<lparr>held = phrase_keys s, posted = outbox s\<rparr>"

lemmas quiet_defs =
  renderPeerList_def applyLockState_def loadMessages_def showPhraseDialog_def threadBack_def
  openChat_def renderMessages_def updateBadges_def loadPeers_def send_done_def Let_def

named_theorems quiet

lemma lockbox_quiet [quiet]:
  "lockbox_of (renderPeerList s) = lockbox_of s" "lockbox_of (applyLockState p s) = lockbox_of s"
  "lockbox_of (loadMessages q s) = lockbox_of s" "lockbox_of (openChat p n s) = lockbox_of s"
  "lockbox_of (threadBack s) = lockbox_of s" "lockbox_of (showPhraseDialog n w s) = lockbox_of s"
  "lockbox_of (promptUnlock s) = lockbox_of s" "lockbox_of (send_done s) = lockbox_of s"
  "lockbox_of (updateBadges c s) = lockbox_of s" "lockbox_of (loadPeers a s) = lockbox_of s"
  "lockbox_of (fetchNewMessages c' s) = lockbox_of s" "lockbox_of (answer_history so lower i ms s) = lockbox_of s"
  by (simp_all add: lockbox_of_def quiet_defs promptUnlock_def fetchNewMessages_def answer_history_def
      split: option.splits prod.splits)

lemma setPhraseKey_move:
  "snd (setPhraseKey so lower p w s) = s \<or>
   (\<exists>k. lock_trans so lower (lockbox_of s) (Learn p k) (lockbox_of (snd (setPhraseKey so lower p w s))))"
proof (cases "deriveKey so lower (own_pk s) w p")
  case (Inr k)
  then have "derivable so lower p k" unfolding derivable_def by blast
  from lock_trans.learn [OF this, of "lockbox_of s"] show ?thesis
    by (auto simp: setPhraseKey_def Inr lockbox_of_def)
qed (simp add: setPhraseKey_def)

lemma unlock_with_move:
  "lockbox_of (unlock_with so lower w s) = lockbox_of s \<or>
   (\<exists>m. lock_trans so lower (lockbox_of s) m (lockbox_of (unlock_with so lower w s)))"
proof (cases w; cases "active s")
  fix x pn assume w: "w = Some x" and a: "active s = Some pn"
  have "lockbox_of (unlock_with so lower w s) = lockbox_of (snd (setPhraseKey so lower (fst pn) x s))"
    by (simp add: unlock_with_def w a quiet split: prod.split bool.split)
  then show ?thesis using setPhraseKey_move [of so lower "fst pn" x s] by metis
qed (simp_all add: unlock_with_def)

lemma close_dialog_move:
  "lockbox_of (close_dialog so lower w s) = lockbox_of s \<or>
   (\<exists>m. lock_trans so lower (lockbox_of s) m (lockbox_of (close_dialog so lower w s)))"
proof -
  let ?s = "s\<lparr>dialog_shown := False, waiting := None\<rparr>"
  have "lockbox_of ?s = lockbox_of s" by (simp add: lockbox_of_def)
  moreover have "close_dialog so lower w s = unlock_with so lower w ?s \<or> lockbox_of (close_dialog so lower w s) = lockbox_of s"
    by (simp add: close_dialog_def Let_def lockbox_of_def split: option.split pending.split)
  ultimately show ?thesis using unlock_with_move [of so lower w ?s] by metis
qed

lemma doLock_move:
  "lockbox_of (doLock s) = lockbox_of s \<or> (\<exists>m. lock_trans so lower (lockbox_of s) m (lockbox_of (doLock s)))"
proof (cases "active_id s")
  case (Some p)
  have "lockbox_of (doLock s) = (lockbox_of s)\<lparr>held := (held (lockbox_of s))(p := None)\<rparr>"
    by (simp add: doLock_def Some quiet wipePhraseKey_def) (simp add: lockbox_of_def)
  then show ?thesis using lock_trans.forget [of so lower "lockbox_of s" p] by metis
qed (simp add: doLock_def)

lemma doSend_outbox:
  "outbox (doSend so s) = outbox s \<or>
   (\<exists>p key e r'. active_id s = Some p \<and> phrase_keys s p = Some key \<and> trim (draft s) \<noteq> [] \<and>
      encryptMessage so (trim (draft s)) key (chat_rng s) = (Inr e, r') \<and>
      outbox (doSend so s) = outbox s @ [(p, stored_envelope e)])"
proof (cases "active_id s")
  case (Some p)
  show ?thesis
  proof (cases "trim (draft s) = [] \<or> phrase_keys s p = None")
    case False
    then obtain key where k: "phrase_keys s p = Some key" by auto
    show ?thesis
      by (cases "encryptMessage so (trim (draft s)) key (chat_rng s)"; cases "fst (encryptMessage so (trim (draft s)) key (chat_rng s))")
        (use False in \<open>simp_all add: doSend_def Let_def Some k\<close>)
  qed (auto simp: doSend_def Some Let_def)
qed (simp add: doSend_def)

lemma doSend_keys [simp]: "phrase_keys (doSend so s) = phrase_keys s"
  by (auto simp: doSend_def Let_def split: option.splits prod.splits sum.splits)

lemma doSend_move:
  "lockbox_of (doSend so s) = lockbox_of s \<or> (\<exists>m. lock_trans so lower (lockbox_of s) m (lockbox_of (doSend so s)))"
proof -
  have k: "held (lockbox_of (doSend so s)) = held (lockbox_of s)" by (simp add: lockbox_of_def)
  from doSend_outbox [of so s] show ?thesis
  proof
    assume "outbox (doSend so s) = outbox s"
    then show ?thesis by (simp add: lockbox_of_def)
  next
    assume "\<exists>p key e r'. active_id s = Some p \<and> phrase_keys s p = Some key \<and> trim (draft s) \<noteq> [] \<and>
      encryptMessage so (trim (draft s)) key (chat_rng s) = (Inr e, r') \<and>
      outbox (doSend so s) = outbox s @ [(p, stored_envelope e)]"
    then obtain p key e r' where m: "phrase_keys s p = Some key" "trim (draft s) \<noteq> []"
      "encryptMessage so (trim (draft s)) key (chat_rng s) = (Inr e, r')" "outbox (doSend so s) = outbox s @ [(p, stored_envelope e)]"
      by blast
    then have "sealed_under so key (stored_envelope e)" unfolding sealed_under_def by blast
    with m(1) have "lock_trans so lower (lockbox_of s) (Post p (stored_envelope e))
        ((lockbox_of s)\<lparr>posted := posted (lockbox_of s) @ [(p, stored_envelope e)]\<rparr>)"
      by (intro lock_trans.post) (simp_all add: lockbox_of_def)
    moreover have "lockbox_of (doSend so s) = (lockbox_of s)\<lparr>posted := posted (lockbox_of s) @ [(p, stored_envelope e)]\<rparr>"
      using m(4) by (simp add: lockbox_of_def)
    ultimately show ?thesis by metis
  qed
qed

lemma chat_step_move:
  "lockbox_of (chat_step so lower ev s) = lockbox_of s \<or>
   (\<exists>m. lock_trans so lower (lockbox_of s) m (lockbox_of (chat_step so lower ev s)))"
proof (cases ev)
  case Press_lock
  then show ?thesis using doLock_move [of s so lower] by (auto simp: press_lock_def quiet split: option.split)
next
  case (Set_phrase p w)
  then show ?thesis using setPhraseKey_move [of so lower p w s] by auto
qed (use doSend_move close_dialog_move in \<open>simp_all add: quiet\<close>, simp_all add: lockbox_of_def)

interpretation chat: refinement chat_start "by_step (chat_step so lower)" lock_start "lock_trans so lower" lockbox_of
  for so lower
proof
  fix s assume "chat_start s"
  then show "lock_start (lockbox_of s)" by (simp add: chat_start_def lock_start_def lockbox_of_def)
next
  fix s ev s' assume "by_step (chat_step so lower) s ev s'"
  then show "lockbox_of s' = lockbox_of s \<or> (\<exists>m. lock_trans so lower (lockbox_of s) m (lockbox_of s'))"
    using chat_step_move [of so lower ev s] by (simp add: by_step_iff)
qed

section \<open>Messages shown\<close>

lemma set_replace_with: "c' \<notin> set (replace_with c t s) \<longleftrightarrow> (c' \<notin> set s \<or> c' = c) \<and> (c \<in> set s \<longrightarrow> c' \<notin> set t)"
  by (auto simp: replace_with_def)

definition tag_free :: "jstr \<Rightarrow> bool" where
  "tag_free h = (0x3C \<notin> set h \<and> 0x3E \<notin> set h)"

lemma tag_free_esc_str: "tag_free (esc_str s)"
  by (simp add: tag_free_def esc_str_def set_replace_with lit_def unit_of_def)

lemma tag_free_esc: "esc v = Inr h \<Longrightarrow> tag_free h"
  by (auto simp: esc_def tag_free_esc_str)

lemma show_message_key:
  "show_message so lower own None peer m = Inr b \<Longrightarrow> envelope_parts (m_text m) = Some (n, c) \<Longrightarrow>
     b_cipher b \<and> esc c = Inr (b_html b)"
  by (auto simp: show_message_def)

lemma show_message_tag_free: "show_message so lower own key peer m = Inr b \<Longrightarrow> tag_free (b_html b)"
  by (auto simp: show_message_def tag_free_esc Let_def split: option.splits prod.splits)

lemma res_list_Inr_iff: "res_list rs = Inr xs \<longleftrightarrow> list_all2 (\<lambda>r x. r = Inr x) rs xs"
  by (induction rs arbitrary: xs) (auto simp: list_all2_Cons1)

text \<open>What is drawn: the rows of the peer list and the messages.\<close>

definition drawn_safely :: "chat \<Rightarrow> bool" where
  "drawn_safely s = (list_all (\<lambda>b. tag_free (b_html b)) (bubbles s) \<and> list_all (\<lambda>r. tag_free (row_name r)) (rows s))"

lemma drawn_renderMessages:
  "list_all (\<lambda>b. tag_free (b_html b)) (bubbles (renderMessages so lower p ms s))"
proof (cases "res_list (map (show_message so lower (own_pk s) (key_of s p) p) ms)")
  case (Inr bs)
  then have "list_all2 (\<lambda>r x. r = Inr x) (map (show_message so lower (own_pk s) (key_of s p) p) ms) bs"
    by (simp only: res_list_Inr_iff)
  then show ?thesis unfolding renderMessages_def Inr
    by (auto simp: list_all_length list_all2_conv_all_nth intro: show_message_tag_free)
qed (simp add: renderMessages_def)

lemma bubbles_quiet [quiet]:
  "bubbles (doSend so s) = bubbles s" "bubbles (unlock_with so lower w s) = bubbles s"
  "bubbles (close_dialog so lower w s) = bubbles s" "bubbles (doLock s) = bubbles s"
  "bubbles (snd (setPhraseKey so lower p x s)) = bubbles s" "bubbles (openChat q nm s) = bubbles s"
  "bubbles (promptUnlock s) = bubbles s" "bubbles (fetchNewMessages n s) = bubbles s"
  by (auto simp: doSend_def unlock_with_def close_dialog_def doLock_def wipePhraseKey_def setPhraseKey_def
      promptUnlock_def fetchNewMessages_def quiet_defs
      split: option.splits prod.splits sum.splits if_splits bool.splits pending.splits)

lemma row_names:
  "list_all (\<lambda>r. tag_free (row_name r)) (rows (renderPeerList s))"
  "list_all (\<lambda>r. tag_free (row_name r)) (rows (doLock s)) \<or> rows (doLock s) = rows s"
  "list_all (\<lambda>r. tag_free (row_name r)) (rows (openChat q nm s))"
  "rows (doSend so s) = rows s" "rows (unlock_with so lower w s) = rows s"
  "rows (close_dialog so lower w s) = rows s" "rows (snd (setPhraseKey so lower p x s)) = rows s"
  "rows (promptUnlock s) = rows s" "rows (fetchNewMessages n s) = rows s" "rows (answer_history so lower i ms s) = rows s"
  by (auto simp: doSend_def unlock_with_def close_dialog_def doLock_def wipePhraseKey_def setPhraseKey_def
      promptUnlock_def fetchNewMessages_def answer_history_def quiet_defs list_all_iff row_of_def tag_free_esc_str
      split: option.splits prod.splits sum.splits if_splits bool.splits pending.splits)

lemma chat_step_draws_safely: "drawn_safely s \<Longrightarrow> drawn_safely (chat_step so lower ev s)"
proof (cases ev)
  case (History_answered i a)
  assume "drawn_safely s"
  then show ?thesis
    by (simp add: History_answered drawn_safely_def row_names answer_history_def drawn_renderMessages)
      (simp add: renderMessages_def)
next
  case Press_back
  assume "drawn_safely s"
  then show ?thesis by (simp add: Press_back drawn_safely_def threadBack_def list_all_iff)
next
  case Press_lock
  assume "drawn_safely s"
  then show ?thesis using row_names(2) [of s]
    by (cases "active_id s") (auto simp: Press_lock drawn_safely_def press_lock_def quiet row_names(8))
next
  case (Peers_loaded a)
  assume "drawn_safely s"
  then show ?thesis by (simp add: Peers_loaded drawn_safely_def loadPeers_def row_names) (simp add: renderPeerList_def)
qed (simp_all add: drawn_safely_def quiet row_names, simp_all add: quiet_defs)

section \<open>Locking\<close>

definition run_chat :: "sodium \<Rightarrow> (jstr \<Rightarrow> jstr) \<Rightarrow> chat_event list \<Rightarrow> chat \<Rightarrow> chat" where
  "run_chat so lower = fold (chat_step so lower)"

text \<open>The events that can give a key for a peer.\<close>

fun unlocking :: "jstr \<Rightarrow> chat_event \<Rightarrow> bool" where
  "unlocking p (Dialog_ok _) = True"
| "unlocking p (Set_phrase q _) = (q = p)"
| "unlocking p _ = False"

definition sent_to :: "jstr \<Rightarrow> chat \<Rightarrow> jstr list" where
  "sent_to p s = map snd (filter (\<lambda>m. fst m = p) (outbox s))"

lemma locked_step:
  assumes "phrase_keys s p = None" and "\<not> unlocking p ev"
  shows "phrase_keys (chat_step so lower ev s) p = None \<and> sent_to p (chat_step so lower ev s) = sent_to p s"
proof (cases ev)
  case Press_send
  then show ?thesis using assms(1) doSend_outbox [of so s] by (auto simp: sent_to_def)
next
  case Press_lock
  then show ?thesis using assms(1)
    by (auto simp: press_lock_def doLock_def wipePhraseKey_def sent_to_def promptUnlock_def quiet_defs split: option.split)
next
  case Dialog_cancel
  then show ?thesis using assms(1)
    by (auto simp: close_dialog_def unlock_with_def sent_to_def Let_def split: option.split pending.split)
qed (use assms in \<open>auto simp: sent_to_def setPhraseKey_def promptUnlock_def fetchNewMessages_def answer_history_def quiet_defs
    split: sum.split option.split prod.split\<close>)

lemma locked_run:
  assumes "phrase_keys s p = None" and "list_all (\<lambda>ev. \<not> unlocking p ev) evs"
  shows "phrase_keys (run_chat so lower evs s) p = None \<and> sent_to p (run_chat so lower evs s) = sent_to p s"
  using assms by (induction evs arbitrary: s) (auto simp: run_chat_def locked_step)

text \<open>What a locked conversation shows of a history: its envelopes, unopened (or nothing).\<close>

definition ciphertext_only :: "stored_msg list \<Rightarrow> bubble list \<Rightarrow> bool" where
  "ciphertext_only ms bs =
     (bs = [] \<or> length bs = length ms \<and>
      (\<forall>i < length ms. \<forall>n c. envelope_parts (m_text (ms ! i)) = Some (n, c) \<longrightarrow> b_cipher (bs ! i) \<and> esc c = Inr (b_html (bs ! i))))"

lemma answer_locked:
  assumes "i < length (requests s)" and "requests s ! i = Some p" and "phrase_keys s p = None"
  shows "ciphertext_only (case a of None \<Rightarrow> [] | Some ms \<Rightarrow> ms) (bubbles (answer_history so lower i a s))"
proof -
  let ?ms = "case a of None \<Rightarrow> [] | Some ms \<Rightarrow> ms"
  have b: "bubbles (answer_history so lower i a s) =
      (case res_list (map (show_message so lower (own_pk s) None (Some p)) ?ms) of Inl _ \<Rightarrow> [] | Inr bs \<Rightarrow> bs)"
    using assms by (simp add: answer_history_def renderMessages_def key_of_def)
  show ?thesis
  proof (cases "res_list (map (show_message so lower (own_pk s) None (Some p)) ?ms)")
    case (Inr bs)
    then have "list_all2 (\<lambda>r x. r = Inr x) (map (show_message so lower (own_pk s) None (Some p)) ?ms) bs"
      by (simp only: res_list_Inr_iff)
    then show ?thesis unfolding b Inr ciphertext_only_def
      by (auto simp: list_all2_conv_all_nth dest: show_message_key)
  qed (simp add: b ciphertext_only_def)
qed

lemma answer_keeps:
  "phrase_keys (answer_history so lower i a s) = phrase_keys s"
  "requests (answer_history so lower i a s) = take i (requests s) @ drop (Suc i) (requests s)"
  by (simp_all add: answer_history_def renderMessages_def)

lemma answers_any_order:
  assumes "set (requests s) \<subseteq> {Some p}" and "phrase_keys s p = None" and "requests s \<noteq> []"
    and "s1 = fold (\<lambda>(i, a). chat_step so lower (History_answered i a)) answers s" and "requests s1 = []"
  shows "\<exists>ms. (ms = [] \<or> Some ms \<in> snd ` set answers) \<and> ciphertext_only ms (bubbles s1)"
  using assms
proof (induction answers arbitrary: s)
  case (Cons x answers)
  obtain i a where x: "x = (i, a)" by (cases x)
  let ?s = "answer_history so lower i a s" 
  show ?case
  proof (cases "i < length (requests s)")
    case out: True
    then have q: "requests s ! i = Some p" using Cons.prems(1) nth_mem by blast
    have s: "set (requests ?s) \<subseteq> {Some p}" using Cons.prems(1) set_remove_nth [of i "requests s"] by (auto simp: answer_keeps)
    have c: "ciphertext_only (case a of None \<Rightarrow> [] | Some ms \<Rightarrow> ms) (bubbles ?s)"
      by (rule answer_locked [OF out q Cons.prems(2)])
    show ?thesis
    proof (cases "requests ?s = []")
      case True
      then have "answer_history so lower j b ?s = ?s" for j b by (simp add: answer_history_def)
      then have "fold (\<lambda>(i, a). answer_history so lower i a) answers ?s = ?s" by (induction answers) auto
      then have "s1 = ?s" using Cons.prems(4) by (simp add: x)
      with c show ?thesis by (intro exI [of _ "case a of None \<Rightarrow> [] | Some ms \<Rightarrow> ms"]) (auto simp: x split: option.split)
    next
      case False
      then show ?thesis using Cons.IH [of ?s] Cons.prems s by (auto simp: x answer_keeps)
    qed
  next
    case False
    then show ?thesis using Cons.IH [of s] Cons.prems by (auto simp: x answer_history_def)
  qed
qed simp

section \<open>A sent message comes back\<close>

lemma stored_envelope_parts:
  assumes "st_nonce e \<noteq> []" and "st_ct e \<noteq> []"
  shows "envelope_parts (stored_envelope e) = Some (JStr (st_nonce e), JStr (st_ct e))"
proof -
  let ?v = "JObj [(lit ''v'', JNum 1), (lit ''nonce'', JStr (st_nonce e)), (lit ''ct'', JStr (st_ct e))]"
  have wf: "wf_val ?v" by simp
  have t: "stored_envelope e = text_of [] [] ?v"
    using json_str_text_of [OF wf, of "[]" "[]"]
    by (simp add: stored_envelope_def JSON_stringify_def text_or_undefined_def del: json_str.simps)
  obtain u where u: "stored_envelope e = 0x7B # u" using text_of_JObj_ends [OF wf] unfolding t by blast
  have "JSON_parse (stored_envelope e) = Some ?v"
    using JSON_parse_text [OF wf, of "[]" "[]" "[]"] by (simp add: t)
  then show ?thesis using assms by (simp add: envelope_parts_def u fld_def)
qed

lemma sealed_parts_nonempty:
  assumes "aead_works so" and "base64_works so" and "length key = 32"
    and "encryptMessage so txt key r = (Inr e, r')"
  shows "st_nonce e \<noteq> [] \<and> st_ct e \<noteq> []"
proof -
  obtain nonce where n: "randombytes_buf 24 r = (nonce, r')" "st_nonce e = to_base64 so nonce"
    using assms(4) by (cases "randombytes_buf 24 r") (auto simp: encryptMessage_def)
  obtain nonce' ct where c: "st_ct e = to_base64 so ct" "length ct = length (utf8 txt) + 16"
    by (rule encryptMessage_parts [OF assms(1,3,4)])
  have "nonce \<noteq> []" "ct \<noteq> []" using n(1) length_randombytes_buf [of 24 r] c(2) by auto
  then show ?thesis using n(2) c(1) assms(2) by (simp add: base64_worksD)
qed

section \<open>Properties\<close>

text \<open>
  C16: In every state the chat can reach, the keys in memory were derived from a phrase, and
  everything handed to the native side for a peer is an envelope sealing a non-empty text under
  a key derived for that peer: no plaintext leaves the page. The chat refines the lockbox.
\<close>

theorem only_sealed_leaves:
  assumes "chat_reachable so lower s"
  shows "(\<forall>p k. phrase_keys s p = Some k \<longrightarrow> derivable so lower p k) \<and>
    (\<forall>(p, t) \<in> set (outbox s). \<exists>k. derivable so lower p k \<and> sealed_under so k t)"
proof -
  have "secrets_kept so lower (lockbox_of s)"
    using chat.invariant_abs [OF lockbox_keeps_secrets assms [unfolded chat_reachable_def]] .
  then show ?thesis by (simp add: secrets_kept_def lockbox_of_def)
qed

definition sample_chat :: chat where
  "sample_chat = \<lparr>own_pk = None, phrase_keys = Map.empty, active = None, peer_recs = [], rows = [], threaded = False,
     unlocked_shown = False, dialog_shown = False, dialog_title = [], waiting = None, callback_got = [], requests = [],
     bubbles = [], draft = [], alerts = 0, outbox = [], send_disabled = False, marked_read = [], badges = [],
     total_badge = [], chat_rng = (\<lambda>_. 7)\<rparr>"

definition sample_run :: "chat_event list" where
  "sample_run = [Own_key_loaded (lit ''aa''), Select_peer (lit ''bb'') (lit ''Bob''), Set_phrase (lit ''bb'') (lit ''p''),
     Type_draft (lit ''hi''), Press_send]"

definition sample_sent :: chat where
  "sample_sent = fold (chat_step toy_sodium (\<lambda>s. s)) sample_run sample_chat"

lemma sample_reachable: "chat_reachable toy_sodium (\<lambda>s. s) sample_sent"
  unfolding chat_reachable_def sample_sent_def
  by (intro reachable_run reachable.start) (simp add: chat_start_def sample_chat_def)

lemma trim_hi: "trim (lit ''hi'') = lit ''hi''"
  using trim_core [of "[]" "[]" "lit ''hi''"] by (simp add: js_space_def lit_def unit_of_def)

lemma sample_outbox: "\<exists>t. outbox sample_sent = [(lit ''bb'', t)]"
proof -
  let ?k = "chat_key toy_sodium (lit ''p'') (id_pair (\<lambda>s. s) (lit ''aa'') (lit ''bb''))"
  have k: "deriveKey toy_sodium (\<lambda>s. s) (Some (lit ''aa'')) (lit ''p'') (lit ''bb'') = Inr ?k" by (simp add: deriveKey_Inr)
  obtain e r' where e: "encryptMessage toy_sodium (lit ''hi'') ?k (\<lambda>_. 7) = (Inr e, r')"
    by (rule encryptMessage_total [OF toy_all(2) length_chat_key [OF toy_hash_works]])
  show ?thesis
    by (simp add: sample_sent_def sample_run_def sample_chat_def quiet_defs setPhraseKey_def k doSend_def active_id_def trim_hi e)
qed

theorem only_sealed_leaves_witness:
  "\<exists>p t k. outbox sample_sent = [(p, t)] \<and> derivable toy_sodium (\<lambda>s. s) p k \<and> sealed_under toy_sodium k t"
  using only_sealed_leaves [OF sample_reachable] sample_outbox by fastforce

text \<open>
  Once the key of a peer is gone, no event but a confirmed phrase brings one back, and
  until then nothing is sent to that peer.
\<close>

theorem locked_stays_locked:
  assumes "phrase_keys s p = None" and "list_all (\<lambda>ev. \<not> unlocking p ev) evs"
  shows "phrase_keys (fold (chat_step so lower) evs s) p = None \<and>
    sent_to p (fold (chat_step so lower) evs s) = sent_to p s"
  using locked_run [OF assms] by (simp add: run_chat_def)

theorem locked_stays_locked_witness:
  "sent_to (lit ''bb'') (fold (chat_step toy_sodium (\<lambda>s. s))
     [Own_key_loaded (lit ''aa''), Select_peer (lit ''bb'') (lit ''Bob''), Press_unlock, Type_draft (lit ''hi''), Press_send, Dialog_cancel, Press_send]
     sample_chat) = []"
  using locked_stays_locked [of sample_chat "lit ''bb''"
    "[Own_key_loaded (lit ''aa''), Select_peer (lit ''bb'') (lit ''Bob''), Press_unlock, Type_draft (lit ''hi''), Press_send, Dialog_cancel, Press_send]"
    toy_sodium "\<lambda>s. s"]
  by (simp add: sent_to_def sample_chat_def del: fold_simps chat_step.simps)

text \<open>
  C17: Pressing Lock on an open unlocked conversation wipes its key at once, leaves the messages
  on screen and asks for the history again. From then on, however events interleave, as long as
  nothing unlocks that peer, nothing is sent to it and any answer for it, in whatever order
  answers come, shows every stored envelope as ciphertext only. If the requests under way at
  that moment were all for that peer, the screen shows ciphertext only as soon as they and the
  new one are answered, in any order. (An answer for another, unlocked peer that arrives late
  would still be drawn, with that peer's messages in clear.)
\<close>

theorem lock_takes_effect:
  assumes "active_id s = Some p" and "phrase_keys s p \<noteq> None" and "l = chat_step so lower Press_lock s"
  shows "bubbles l = bubbles s \<and> phrase_keys l p = None \<and> requests l = requests s @ [Some p] \<and>
    (\<forall>evs s1 i ms. list_all (\<lambda>ev. \<not> unlocking p ev) evs \<longrightarrow> s1 = fold (chat_step so lower) evs l \<longrightarrow>
      phrase_keys s1 p = None \<and> sent_to p s1 = sent_to p s \<and>
      (i < length (requests s1) \<longrightarrow> requests s1 ! i = Some p \<longrightarrow>
        ciphertext_only ms (bubbles (chat_step so lower (History_answered i (Some ms)) s1)))) \<and>
    (\<forall>answers s1. set (requests s) \<subseteq> {Some p} \<longrightarrow>
      s1 = fold (\<lambda>(i, a). chat_step so lower (History_answered i a)) answers l \<longrightarrow> requests s1 = [] \<longrightarrow>
      (\<exists>ms. (ms = [] \<or> Some ms \<in> snd ` set answers) \<and> ciphertext_only ms (bubbles s1)))"
proof -
  have l: "l = doLock s" using assms by (auto simp: press_lock_def)
  have b: "bubbles l = bubbles s" "phrase_keys l p = None" "requests l = requests s @ [Some p]" "sent_to p l = sent_to p s"
    by (simp_all add: l quiet) (simp_all add: doLock_def assms(1) wipePhraseKey_def quiet_defs sent_to_def)
  have r: "phrase_keys s1 p = None \<and> sent_to p s1 = sent_to p s \<and>
      (i < length (requests s1) \<longrightarrow> requests s1 ! i = Some p \<longrightarrow>
        ciphertext_only ms (bubbles (chat_step so lower (History_answered i (Some ms)) s1)))"
    if "list_all (\<lambda>ev. \<not> unlocking p ev) evs" and "s1 = fold (chat_step so lower) evs l" for evs s1 i ms
  proof -
    have "phrase_keys s1 p = None" "sent_to p s1 = sent_to p s"
      using locked_run [OF b(2) that(1), of so lower] that(2) b(4) by (simp_all add: run_chat_def)
    then show ?thesis using answer_locked [where i = i and s = s1 and p = p and so = so and lower = lower and a = "Some ms"] by simp
  qed
  have t: "\<exists>ms. (ms = [] \<or> Some ms \<in> snd ` set answers) \<and> ciphertext_only ms (bubbles s1)"
    if "set (requests s) \<subseteq> {Some p}" and "s1 = fold (\<lambda>(i, a). chat_step so lower (History_answered i a)) answers l"
      and "requests s1 = []" for answers s1
  proof -
    have "set (requests l) \<subseteq> {Some p}" "requests l \<noteq> []" using that(1) b(3) by auto
    from answers_any_order [OF this(1) b(2) this(2) that(2,3)] show ?thesis .
  qed
  show ?thesis
    by (rule conjI [OF b(1) conjI [OF b(2) conjI [OF b(3) conjI]]]; (intro allI impI, rule r t; assumption)+)
qed

definition locked_sample :: chat where
  "locked_sample = sample_chat\<lparr>active := Some (lit ''bb'', lit ''Bob''), phrase_keys := [lit ''bb'' \<mapsto> [1]]\<rparr>"

definition locked_history :: "stored_msg list" where
  "locked_history = [\<lparr>m_direction = lit ''incoming'', m_status = lit ''sent'', m_clock = [],
     m_text = stored_envelope \<lparr>st_nonce = lit ''AA'', st_ct = lit ''BB''\<rparr>\<rparr>]"

theorem lock_takes_effect_witness:
  "\<exists>l. l = chat_step toy_sodium (\<lambda>s. s) Press_lock locked_sample \<and> phrase_keys l (lit ''bb'') = None \<and>
     ciphertext_only locked_history (bubbles (chat_step toy_sodium (\<lambda>s. s) (History_answered 0 (Some locked_history)) l))"
proof -
  have a: "active_id locked_sample = Some (lit ''bb'')" "phrase_keys locked_sample (lit ''bb'') \<noteq> None"
    "requests locked_sample = []"
    by (simp_all add: active_id_def sample_chat_def locked_sample_def)
  note f = lock_takes_effect [OF a(1,2) refl, of toy_sodium "\<lambda>s. s"]
  let ?l = "chat_step toy_sodium (\<lambda>s. s) Press_lock locked_sample"
  have k: "phrase_keys ?l (lit ''bb'') = None" and rq: "requests ?l = [Some (lit ''bb'')]" using f a(3) by simp_all
  have "list_all (\<lambda>ev. \<not> unlocking (lit ''bb'') ev) []" "?l = fold (chat_step toy_sodium (\<lambda>s. s)) [] ?l" by simp_all
  then have "0 < length (requests ?l) \<longrightarrow> requests ?l ! 0 = Some (lit ''bb'') \<longrightarrow>
      ciphertext_only locked_history (bubbles (chat_step toy_sodium (\<lambda>s. s) (History_answered 0 (Some locked_history)) ?l))"
    using f by blast
  with rq k show ?thesis by (metis length_0_conv list.discI neq0_conv nth_Cons_0)
qed

text \<open>
  A message sent in an unlocked conversation is shown, when the history with the envelope
  comes back, as the trimmed draft with its angle brackets and ampersands escaped, not as
  ciphertext: what is typed survives sealing, storing, parsing and opening.
\<close>

theorem sent_message_shown:
  assumes "aead_works so" and "base64_works so"
    and "active_id s = Some p" and "phrase_keys s p = Some key" and "length key = 32"
    and "trim (draft s) \<noteq> []" and "plain_text (trim (draft s))"
  shows "\<exists>t b. outbox (chat_step so lower Press_send s) = outbox s @ [(p, t)] \<and> draft (chat_step so lower Press_send s) = [] \<and>
    show_message so lower (own_pk s) (phrase_keys s p) (Some p)
      \<lparr>m_direction = lit ''outgoing'', m_status = lit ''sent'', m_clock = [], m_text = t\<rparr> = Inr b \<and>
    \<not> b_cipher b \<and> b_html b = esc_str (trim (draft s)) \<and> b_icon b = [0x2713]"
proof -
  obtain e r' where e: "encryptMessage so (trim (draft s)) key (chat_rng s) = (Inr e, r')"
    by (rule encryptMessage_total [OF assms(1,5)])
  have p: "envelope_parts (stored_envelope e) = Some (JStr (st_nonce e), JStr (st_ct e))"
    using sealed_parts_nonempty [OF assms(1,2,5) e] by (intro stored_envelope_parts) auto
  have d: "decryptMessage so (JStr (st_nonce e)) (JStr (st_ct e)) key = trim (draft s)"
    using decrypt_encrypted [OF assms(1,2,5) e] plain_units [OF assms(7)] by simp
  show ?thesis
    using assms(3,4,6) by (simp add: doSend_def Let_def e show_message_def p d esc_def status_icon_def)
qed

theorem sent_message_shown_witness:
  "\<exists>t b. outbox (chat_step toy_sodium (\<lambda>s. s) Press_send
        (sample_chat\<lparr>active := Some (lit ''bb'', lit ''Bob''), phrase_keys := [lit ''bb'' \<mapsto> replicate 32 1], draft := lit ''hi''\<rparr>)) = [(lit ''bb'', t)] \<and>
     show_message toy_sodium (\<lambda>s. s) None (Some (replicate 32 1)) (Some (lit ''bb''))
      \<lparr>m_direction = lit ''outgoing'', m_status = lit ''sent'', m_clock = [], m_text = t\<rparr> = Inr b \<and> b_html b = esc_str (lit ''hi'')"
  using sent_message_shown [OF toy_all(2,3), of "sample_chat\<lparr>active := Some (lit ''bb'', lit ''Bob''),
      phrase_keys := [lit ''bb'' \<mapsto> replicate 32 1], draft := lit ''hi''\<rparr>" "lit ''bb''" "replicate 32 1" "\<lambda>s. s"]
  by (auto simp: active_id_def sample_chat_def trim_hi sample_plain simp del: chat_step.simps)

text \<open>
  Nothing drawn in the chat can open a tag: in every reachable state the text of each
  message and each peer name on screen holds no angle bracket, whatever peers send.
\<close>

theorem drawn_text_is_inert:
  assumes "chat_reachable so lower s"
  shows "(\<forall>b \<in> set (bubbles s). 0x3C \<notin> set (b_html b) \<and> 0x3E \<notin> set (b_html b)) \<and>
    (\<forall>r \<in> set (rows s). 0x3C \<notin> set (row_name r) \<and> 0x3E \<notin> set (row_name r))"
proof -
  have "drawn_safely s"
    using assms(1) unfolding chat_reachable_def
    by (rule step_invariantI) (simp_all add: chat_step_draws_safely, simp add: chat_start_def drawn_safely_def)
  then show ?thesis by (auto simp: drawn_safely_def list_all_iff tag_free_def)
qed

theorem drawn_text_is_inert_witness:
  "\<exists>s r. s = chat_step toy_sodium (\<lambda>s. s) (Peers_loaded (Some [\<lparr>peer_id = lit ''bb'', peer_nm = lit ''<b>''\<rparr>])) sample_chat \<and>
     rows s = [r] \<and> 0x3C \<notin> set (row_name r)"
proof -
  let ?es = "[Peers_loaded (Some [\<lparr>peer_id = lit ''bb'', peer_nm = lit ''<b>''\<rparr>])]"
  have "chat_reachable toy_sodium (\<lambda>s. s) (fold (chat_step toy_sodium (\<lambda>s. s)) ?es sample_chat)"
    unfolding chat_reachable_def by (intro reachable_run reachable.start) (simp add: chat_start_def sample_chat_def)
  moreover have "\<exists>r. rows (fold (chat_step toy_sodium (\<lambda>s. s)) ?es sample_chat) = [r]"
    by (simp add: loadPeers_def renderPeerList_def)
  ultimately show ?thesis using drawn_text_is_inert by fastforce
qed

end
