(* ===== verification/Toy_Library.thy ===== *)
theory Toy_Library
  imports Web_Vault
begin

text \<open>
  The small library of \<open>Sodium\<close> rejects a wrong phrase and a flipped bit, so both self-tests
  pass on it: the states the page reaches only after its self-test are inhabited.
\<close>

lemma hd_pad_to: "0 < n \<Longrightarrow> a \<noteq> [] \<Longrightarrow> hd (pad_to n (a @ b)) = hd a"
  by (cases a; cases n) (auto simp: pad_to_def)

lemma toy_aead:
  "aead_decrypt toy_sodium c ad n k = Inr m \<longleftrightarrow> c = m @ toy_tag m ad k"
  "aead_encrypt toy_sodium m ad n k = Inr c \<longleftrightarrow> c = m @ toy_tag m ad k"
  "crypto_pwhash toy_sodium i pw salt ops mem = Inr k \<longleftrightarrow> k = pad_to i (pw @ salt)"
  by (auto simp: toy_sodium_def toy_open_iff)

lemma toy_tag_eq:
  assumes "m @ toy_tag m ad k = m' @ toy_tag m' ad' k'"
  shows "m = m'" and "k \<noteq> [] \<Longrightarrow> k' \<noteq> [] \<Longrightarrow> hd k = hd k'"
proof -
  show "m = m'" using assms by (simp add: append_eq_append_conv)
  have "toy_tag m ad k = toy_tag m' ad' k'" using assms by (metis append_eq_append_conv length_toy_tag)
  then show "k \<noteq> [] \<Longrightarrow> k' \<noteq> [] \<Longrightarrow> hd k = hd k'"
    using hd_pad_to [of 14 k "[]"] hd_pad_to [of 14 k' "[]"] by (auto simp: toy_tag_def)
qed

lemma toy_locked:
  assumes "encryptVaultV2 toy_sodium now opts r = (Inr v, r')"
  obtains ver at md ops mem pt x aad k where "k = pad_to 32 (utf8 (str_of (o_password opts)) @ r_salt x)"
    and "v = vault_literal ver at md ops mem x (b64urlEncode (r_vaultKey x @ toy_tag (r_vaultKey x) aad k))
               (b64urlEncode (pt @ toy_tag pt aad (r_vaultKey x)))"
    and "buildAADV2 v = Inr aad" and "pt \<noteq> []" and "length pt \<le> MAX_PLAINTEXT_BYTES" and "check_randomness x = Inr ()"
    and "wf_vault_v2 v"
proof -
  obtain pt x k aad w c where e: "encrypt_checks opts = Inr pt" and s: "sealed_as toy_sodium now opts pt x k aad w c v"
    by (rule encrypt_Inr [OF assms])
  have "wf_vault_v2 v" using open_sealed [OF toy_works e s] by blast
  moreover have "pt \<noteq> []" "length pt \<le> MAX_PLAINTEXT_BYTES" using encrypt_checks_Inr [OF e] by simp_all
  ultimately show thesis using that s unfolding sealed_as_def toy_aead by blast
qed

lemma toy_parts:
  assumes "check_randomness x = Inr ()" and "c \<noteq> []" and "length c \<le> MAX_CIPHERTEXT_BYTES"
  shows "decode_parts (vault_literal ver at md ops mem x (b64urlEncode (r_vaultKey x @ toy_tag (r_vaultKey x) aad k)) (b64urlEncode c)) =
    Inr \<lparr>p_salt = r_salt x, p_wrapNonce = r_wrapNonce x, p_wrappedKey = r_vaultKey x @ toy_tag (r_vaultKey x) aad k,
         p_contentNonce = r_contentNonce x, p_contentCt = c\<rparr>"
  using assms by (intro decode_parts_literal) (auto simp: check_randomness_ok size_defs)

lemma toy_wrong_phrase:
  assumes "encryptVaultV2 toy_sodium now opts r = (Inr v, r')"
    and "utf8 (str_of (o_password opts)) \<noteq> []" and "utf8 pw \<noteq> []" and "hd (utf8 (str_of (o_password opts))) \<noteq> hd (utf8 pw)"
  shows "\<not> is_ok (decryptVaultV2 toy_sodium v (JStr pw))"
proof
  assume "is_ok (decryptVaultV2 toy_sodium v (JStr pw))"
  then obtain p k' aad' vk pt' where o: "opened_as toy_sodium v pw p k' aad' vk pt'" and wf: "wf_vault_v2 v"
    by (auto simp: is_ok_iff decrypt_Inr)
  obtain ver at md ops mem pt x aad k where k: "k = pad_to 32 (utf8 (str_of (o_password opts)) @ r_salt x)"
    and v: "v = vault_literal ver at md ops mem x (b64urlEncode (r_vaultKey x @ toy_tag (r_vaultKey x) aad k))
               (b64urlEncode (pt @ toy_tag pt aad (r_vaultKey x)))"
    and c: "pt \<noteq> []" "length pt \<le> MAX_PLAINTEXT_BYTES" "check_randomness x = Inr ()" by (rule toy_locked [OF assms(1)])
  have "decode_parts v = Inr \<lparr>p_salt = r_salt x, p_wrapNonce = r_wrapNonce x, p_wrappedKey = r_vaultKey x @ toy_tag (r_vaultKey x) aad k,
         p_contentNonce = r_contentNonce x, p_contentCt = pt @ toy_tag pt aad (r_vaultKey x)\<rparr>"
    unfolding v using c by (intro toy_parts) (auto simp: size_defs)
  then have "k' = pad_to 32 (utf8 pw @ r_salt x)" and e: "r_vaultKey x @ toy_tag (r_vaultKey x) aad k = vk @ toy_tag vk aad' k'"
    using o by (auto simp: opened_as_def wrap_key_object [OF wf] toy_aead)
  moreover have "hd k = hd k'" using toy_tag_eq(2) [OF e] k calculation(1) by (metis length_pad_to list.size(3) zero_neq_numeral)
  ultimately show False using assms(2-4) k by (simp add: hd_pad_to)
qed

lemma length_flip_first: "length (flip_first bs) = length bs"
  by (simp add: flip_first_def split: list.split)

lemma toy_flipped:
  assumes "encryptVaultV2 toy_sodium now opts r = (Inr v, r')" and "tampered_copy v = Inr t" and "wf_val v"
  shows "\<not> is_ok (decryptVaultV2 toy_sodium t (JStr pw)) \<and> fld t ''schema'' = JStr SCHEMA_V2"
proof -
  obtain ver at md ops mem pt x aad k where
    v: "v = vault_literal ver at md ops mem x (b64urlEncode (r_vaultKey x @ toy_tag (r_vaultKey x) aad k))
               (b64urlEncode (pt @ toy_tag pt aad (r_vaultKey x)))"
    and c: "pt \<noteq> []" "length pt \<le> MAX_PLAINTEXT_BYTES" "check_randomness x = Inr ()" by (rule toy_locked [OF assms(1)])
  let ?c = "pt @ toy_tag pt aad (r_vaultKey x)"
  have l: "?c \<noteq> []" "length ?c \<le> MAX_CIPHERTEXT_BYTES" "length (flip_first ?c) = length ?c"
    using c by (simp_all add: size_defs length_flip_first)
  then have ne: "flip_first ?c \<noteq> []" by (metis length_0_conv)
  have "b64_member v ''content'' ''ciphertext'' = Inr ?c"
    unfolding v by (intro b64_member_encoded) (simp_all add: vault_literal_fields del: fld_JObj)
  then have t: "t = vault_literal ver at md ops mem x (b64urlEncode (r_vaultKey x @ toy_tag (r_vaultKey x) aad k)) (b64urlEncode (flip_first ?c))"
    using assms(2,3) by (simp add: tampered_copy_def) (simp add: v vault_literal_set)
  then have sc: "fld t ''schema'' = JStr SCHEMA_V2" by (simp add: vault_literal_fields del: fld_JObj)
  have False if ok: "is_ok (decryptVaultV2 toy_sodium t (JStr pw))"
  proof -
  obtain p k' aad' vk pt' where o: "opened_as toy_sodium t pw p k' aad' vk pt'"
    using ok by (auto simp: is_ok_iff decrypt_Inr)
  have "decode_parts t = Inr \<lparr>p_salt = r_salt x, p_wrapNonce = r_wrapNonce x, p_wrappedKey = r_vaultKey x @ toy_tag (r_vaultKey x) aad k,
         p_contentNonce = r_contentNonce x, p_contentCt = flip_first ?c\<rparr>"
    using c(3) l ne by (simp add: t toy_parts)
  then have w: "r_vaultKey x @ toy_tag (r_vaultKey x) aad k = vk @ toy_tag vk aad' k'" and f: "flip_first ?c = pt' @ toy_tag pt' aad' vk"
    using o by (auto simp: opened_as_def toy_aead)
  obtain b bs where b: "pt = b # bs" using c(1) by (cases pt) auto
  have f: "(xor b 1 # bs) @ toy_tag pt aad (r_vaultKey x) = pt' @ toy_tag pt' aad' vk" using f by (simp add: b flip_first_def)
  then have "xor b 1 # bs = pt'" "toy_tag pt aad (r_vaultKey x) = toy_tag pt' aad' vk" by (metis append_eq_append_conv length_toy_tag)+
  then have "xor b 1 + sum_list bs = b + sum_list bs" by (auto simp: toy_tag_def b)
  then have "xor b 1 = b" by simp
  then have "xor b (xor b 1) = xor b b" by simp
  then show False by (simp add: xor.assoc [symmetric])
qed
  then show ?thesis using sc by blast
qed

lemma utf8_heads: "utf8 (lit ''wrong-phrase'') \<noteq> []" "utf8 test_phrase \<noteq> []" "hd (utf8 test_phrase) \<noteq> hd (utf8 (lit ''wrong-phrase''))"
  by (simp_all add: test_phrase_def utf8_lit)

lemma page_opens_only_v2:
  assumes "fld v ''schema'' = JStr SCHEMA_V2" and "is_ok (decryptVault toy_sodium v pw)"
  shows "is_ok (decryptVaultV2 toy_sodium v pw)"
proof -
  obtain m where m: "decryptVault toy_sodium v pw = Inr m" using assms(2) by (auto simp: is_ok_iff)
  then have "wf_web_v2 v \<or> wf_web_v1 v \<or> wf_notify_v1 v" by (rule web_any.opened_valid)
  then have "wf_web_v2 v" using assms(1) schemas_distinct by (auto simp: wf_web_v1_def wf_notify_v1_def)
  then have "decryptVaultV2_web toy_sodium v pw = Inr m" using m by (simp add: wf_v2_dispatch)
  then show ?thesis by (simp add: open_same [OF toy_all(3)] is_ok_iff)
qed

lemma page_selftest_passes: "fst (runSelfTest_web toy_sodium now r) = Inr ()"
proof -
  obtain v r1 t where v: "encryptVaultV2_web toy_sodium now (quick_opts_web test_plain test_phrase) r = (Inr v, r1)"
    and t: "tampered_copy_web toy_sodium v = Inr t"
    and c: "self_checks_v2 toy_sodium v = (if is_ok (decryptVault toy_sodium v (JStr (lit ''wrong-phrase''))) then Inl msg_st_wrong
       else if is_ok (decryptVault toy_sodium t (JStr test_phrase)) then Inl msg_st_tamper else Inr ())"
    by (rule page_self_test_v2 [OF toy_all])
  have e: "encryptVaultV2 toy_sodium now (cli_opts (quick_opts_web test_plain test_phrase)) r = (Inr v, r1)"
    using v by (simp add: lock_same [OF toy_all(3)])
  have wf: "wf_val v" using v by (intro page_lock_wf_val [OF toy_all(3)]) (simp add: encryptVault_def)
  obtain bs where bs: "b64_member_web toy_sodium v ''content'' ''ciphertext'' = Inr bs" using t wf by (auto simp: tampered_copy_web_def)
  then have "b64_member v ''content'' ''ciphertext'' = Inr bs"
    by (simp add: b64_member_web_Inr [OF toy_all(3)] b64_member_def b64urlDecode_encode)
  then have "tampered_copy v = Inr t" using t wf bs
    by (auto simp: tampered_copy_web_def tampered_copy_def base64_worksD [OF toy_all(3)])
  note f = toy_flipped [OF e this wf, of test_phrase]
  have "\<not> is_ok (decryptVaultV2 toy_sodium v (JStr (lit ''wrong-phrase'')))"
    by (rule toy_wrong_phrase [OF e]) (use utf8_heads in simp_all)
  moreover have "fld v ''schema'' = JStr SCHEMA_V2"
    by (rule toy_locked [OF e]) (simp add: vault_literal_fields del: fld_JObj)
  ultimately have "self_checks_v2 toy_sodium v = Inr ()" using c f page_opens_only_v2 by auto
  moreover obtain v1 r2 where "encryptVaultV1 toy_sodium now (quick_opts_web test_plain test_phrase) r1 = (Inr v1, r2)"
    "self_checks_v1 toy_sodium v1 = Inr ()" by (rule page_self_test_v1 [OF toy_all])
  ultimately show ?thesis by (simp add: runSelfTest_web_def v)
qed

end
