(* ===== verification/Web_Page.thy ===== *)
theory Web_Page
  imports Chat_Envelope Machines Toy_Library
begin

text \<open>
  The wiring of the vault page (\<open>landing/vault/chat.js\<close>, from "DOM wiring" to the end): the two
  forms with their knobs, strength meter, result panels and buttons as a state machine. A click,
  a keystroke or a file that finished loading is an event; the work the forms defer with
  \<open>setTimeout(fn, 0)\<close> is a queue whose head runs as an event of its own. The elements the script
  looks up are assumed present. The clock readings of a deferred task come with its event.
\<close>

section \<open>State\<close>

datatype task = Encrypt_task | Decrypt_task

record page =
  currentMode :: jstr
  currentNonce :: "bytes option"
  currentSalt :: "bytes option"
  currentPresetKey :: jstr
  nonce_shown :: jstr
  salt_shown :: jstr
  preset_marked :: jstr
  formsEnabled :: bool
  wired :: bool
  headline :: jstr
  enc_message :: jstr
  enc_password :: jstr
  enc_visible :: bool
  enc_disabled :: bool
  enc_title :: jstr
  enc_status :: "jstr \<times> string"
  meter_width :: int
  meter_color :: string
  meter_label :: jstr
  pw_hint :: jstr
  pw_hint_ok :: bool
  result_json :: jstr
  result_id :: jstr
  result_for :: "(jsval \<times> jstr \<times> jstr) option"
  dec_input :: jstr
  dec_password :: jstr
  dec_visible :: bool
  dec_disabled :: bool
  dec_status :: "jstr \<times> string"
  dec_text :: jstr
  dec_meta :: jstr
  dec_shown :: bool
  load_status :: "jstr \<times> string"
  tasks :: "task list"
  downloads :: "(jstr \<times> jstr) list"
  clipboard :: "jstr option"
  page_rng :: rng

section \<open>Knobs\<close>

definition DEFAULT_PRESET_KEY :: jstr where "DEFAULT_PRESET_KEY = lit ''strong''"

definition getCurrentLockStrength :: "page \<Rightarrow> preset" where
  "getCurrentLockStrength s =
     (case map_of LOCK_PRESETS_web (currentPresetKey s) of
        Some p \<Rightarrow> p | None \<Rightarrow> the (map_of LOCK_PRESETS_web DEFAULT_PRESET_KEY))"

definition refreshNonceDisplay :: "sodium \<Rightarrow> page \<Rightarrow> page" where
  "refreshNonceDisplay so s = (case currentNonce s of None \<Rightarrow> s | Some n \<Rightarrow> s\<lparr>nonce_shown := to_base64 so n\<rparr>)"

definition refreshSaltDisplay :: "sodium \<Rightarrow> page \<Rightarrow> page" where
  "refreshSaltDisplay so s = (case currentSalt s of None \<Rightarrow> s | Some n \<Rightarrow> s\<lparr>salt_shown := to_base64 so n\<rparr>)"

definition regenerateNonce :: "sodium \<Rightarrow> page \<Rightarrow> page" where
  "regenerateNonce so s =
     (let (n, r) = randombytes_buf NONCE_BYTES (page_rng s)
      in refreshNonceDisplay so (s\<lparr>currentNonce := Some n, page_rng := r\<rparr>))"

definition regenerateSalt :: "sodium \<Rightarrow> page \<Rightarrow> page" where
  "regenerateSalt so s =
     (let (n, r) = randombytes_buf SALT_BYTES (page_rng s)
      in refreshSaltDisplay so (s\<lparr>currentSalt := Some n, page_rng := r\<rparr>))"

definition refreshLockStrengthButtons :: "page \<Rightarrow> page" where
  "refreshLockStrengthButtons s = s\<lparr>preset_marked := currentPresetKey s\<rparr>"

definition setLockStrength :: "jstr \<Rightarrow> page \<Rightarrow> page" where
  "setLockStrength key s =
     (case map_of LOCK_PRESETS_web key of
        None \<Rightarrow> s | Some _ \<Rightarrow> refreshLockStrengthButtons (s\<lparr>currentPresetKey := key\<rparr>))"

definition weak_title :: jstr where
  "weak_title = lit ''Phrase is too weak. Use 4+ random words or the generator button.''"

text \<open>\<open>Math.round((score / 7) * 100)\<close>; the submit button is only touched after the self-test.\<close>

definition meter_fill :: "int \<Rightarrow> int" where
  "meter_fill score = (200 * score + 7) div 14"

definition refreshPasswordStrength :: "page \<Rightarrow> page" where
  "refreshPasswordStrength s =
     (let result = passwordStrength (enc_password s); score = s_score result; weak = score < MIN_STRENGTH_SCORE;
          s1 = s\<lparr>meter_width := meter_fill score,
                 meter_color := (if score \<ge> 5 then ''#0d7a4f'' else if score \<ge> MIN_STRENGTH_SCORE then ''#d97706'' else ''#dc2626''),
                 meter_label := s_label result\<rparr>;
          s2 = (if formsEnabled s then s1\<lparr>enc_disabled := weak, enc_title := (if weak then weak_title else [])\<rparr> else s1)
      in s2\<lparr>pw_hint := (if enc_password s = [] then [] else s_hint result), pw_hint_ok := \<not> weak\<rparr>)"

definition type_password :: "jstr \<Rightarrow> page \<Rightarrow> page" where
  "type_password t s = refreshPasswordStrength (s\<lparr>enc_password := t\<rparr>)"

definition press_generate :: "sodium \<Rightarrow> page \<Rightarrow> page" where
  "press_generate so s =
     (let (p, r) = generatePassphrase so (page_rng s)
      in refreshPasswordStrength (s\<lparr>enc_visible := True, enc_password := p, page_rng := r\<rparr>))"

definition setMode :: "jstr \<Rightarrow> page \<Rightarrow> page" where
  "setMode m s = s\<lparr>currentMode := m,
     headline := (if m = lit ''self'' then lit ''Encrypt a note for yourself'' else lit ''Send a secret to someone'')\<rparr>"

section \<open>The lock form\<close>

definition submit_encrypt :: "page \<Rightarrow> page" where
  "submit_encrypt s =
     s\<lparr>enc_status := (lit ''Encrypting...'', ''info''), enc_disabled := True, tasks := tasks s @ [Encrypt_task]\<rparr>"

definition page_opts :: "page \<Rightarrow> encrypt_opts" where
  "page_opts s =
     \<lparr>o_plaintext = PtString (enc_message s), o_password = JStr (enc_password s), o_mode = JStr (currentMode s),
      o_opslimit = Some (preset_opslimit (getCurrentLockStrength s)),
      o_memlimit = Some (preset_memlimit (getCurrentLockStrength s)),
      o_salt = currentSalt s, o_wrapNonce = currentNonce s, o_contentNonce = None, o_vaultKey = None,
      o_createdAt = None, o_version = None\<rparr>"

definition msg_too_weak :: jstr where
  "msg_too_weak = lit ''Phrase is too weak to lock. Use 4+ random words or click the generator button.''"

definition msg_locked :: jstr where
  "msg_locked = lit ''Locked! Save the box file and remember your secret phrase.''"

definition show_locked :: "sodium \<Rightarrow> jstr \<Rightarrow> jsval \<Rightarrow> page \<Rightarrow> page" where
  "show_locked so today vault s =
     (let s1 = s\<lparr>enc_message := [], enc_password := []\<rparr>;
          envelopeId = computeEnvelopeId so vault;
          file = lit ''vault-'' @ take 10 today @ lit ''.vault.json'';
          s2 = refreshPasswordStrength (regenerateSalt so (regenerateNonce so s1))
      in s2\<lparr>result_json := text_or_undefined (JSON_stringify2 vault), result_id := envelopeId,
            result_for := Some (vault, file, envelopeId), enc_status := (msg_locked, ''ok'')\<rparr>)"

definition encrypt_body :: "sodium \<Rightarrow> jstr \<Rightarrow> jstr \<Rightarrow> page \<Rightarrow> page" where
  "encrypt_body so now today s =
     (if s_score (passwordStrength (enc_password s)) < MIN_STRENGTH_SCORE then s\<lparr>enc_status := (msg_too_weak, ''err'')\<rparr>
      else (case encryptVault so now (page_opts s) (page_rng s) of
              (Inl e, r) \<Rightarrow> s\<lparr>page_rng := r, enc_status := (e, ''err'')\<rparr>
            | (Inr vault, r) \<Rightarrow> show_locked so today vault (s\<lparr>page_rng := r\<rparr>)))"

text \<open>The \<open>finally\<close> block runs last.\<close>

definition encrypt_task :: "sodium \<Rightarrow> jstr \<Rightarrow> jstr \<Rightarrow> page \<Rightarrow> page" where
  "encrypt_task so now today s = (encrypt_body so now today s)\<lparr>enc_disabled := False\<rparr>"

text \<open>The file names made of the ISO date and time: a class of characters, then two first matches.\<close>

fun replace_first :: "16 word \<Rightarrow> jstr \<Rightarrow> jstr \<Rightarrow> jstr" where
  "replace_first c t [] = []"
| "replace_first c t (u # s) = (if u = c then t @ s else u # replace_first c t s)"

definition file_stamp :: "jstr \<Rightarrow> jstr" where
  "file_stamp clock =
     replace_first 0x5A [] (replace_first 0x54 [0x5F] (map (\<lambda>u. if u = 0x3A \<or> u = 0x2E then 0x2D else u) clock))"

definition downloadVault :: "jstr \<Rightarrow> jsval \<Rightarrow> jstr \<times> jstr" where
  "downloadVault clock vault =
     (lit ''vault-'' @ file_stamp clock @ lit ''.vault.json'', text_or_undefined (JSON_stringify2 vault))"

definition downloadRecoverySheet :: "jstr \<Rightarrow> jsval \<Rightarrow> jstr \<Rightarrow> jstr \<Rightarrow> (jstr \<times> jstr) res" where
  "downloadRecoverySheet clock vault file envelopeId =
     bind_res (buildRecoverySheet vault file envelopeId) (\<lambda>t.
     Inr (lit ''vault-recovery-'' @ file_stamp clock @ lit ''.txt'', t))"

text \<open>The buttons of the result panel act on the vault they were wired for.\<close>

definition press_download :: "jstr \<Rightarrow> page \<Rightarrow> page" where
  "press_download clock s =
     (case result_for s of None \<Rightarrow> s | Some (v, _, _) \<Rightarrow> s\<lparr>downloads := downloads s @ [downloadVault clock v]\<rparr>)"

definition press_recovery :: "jstr \<Rightarrow> page \<Rightarrow> page" where
  "press_recovery clock s =
     (case result_for s of
        None \<Rightarrow> s
      | Some (v, file, eid) \<Rightarrow>
          (case downloadRecoverySheet clock v file eid of Inl _ \<Rightarrow> s | Inr d \<Rightarrow> s\<lparr>downloads := downloads s @ [d]\<rparr>))"

text \<open>The clipboard either takes the text or refuses with a message.\<close>

definition press_copy :: "sodium \<Rightarrow> jstr option \<Rightarrow> page \<Rightarrow> page" where
  "press_copy so refusal s =
     (case result_for s of
        None \<Rightarrow> s
      | Some (v, _, _) \<Rightarrow>
          (case (copyVaultText so v, refusal) of
             (Inr t, None) \<Rightarrow> s\<lparr>clipboard := Some t, enc_status := (lit ''Copied vault text to clipboard'', ''ok'')\<rparr>
           | (Inr t, Some m) \<Rightarrow> s\<lparr>enc_status := (lit ''Could not copy: '' @ m, ''err'')\<rparr>
           | (Inl e, _) \<Rightarrow> s))"

section \<open>The open form\<close>

definition file_loaded :: "jstr \<Rightarrow> jstr \<Rightarrow> page \<Rightarrow> page" where
  "file_loaded name content s =
     s\<lparr>dec_input := content, dec_status := (lit ''Loaded '' @ name @ lit ''. Now type the password.'', ''info'')\<rparr>"

definition file_failed :: "page \<Rightarrow> page" where
  "file_failed s = s\<lparr>dec_status := (lit ''Could not read file'', ''err'')\<rparr>"

definition submit_decrypt :: "page \<Rightarrow> page" where
  "submit_decrypt s =
     s\<lparr>dec_status := (lit ''Decrypting...'', ''info''), dec_disabled := True, tasks := tasks s @ [Decrypt_task]\<rparr>"

text \<open>The line under an opened text: its three parts, each concatenated with what the vault holds.\<close>

definition meta_line :: "jsval \<Rightarrow> jstr res" where
  "meta_line vault =
     bind_res (get vault (lit ''schema'')) (\<lambda>schema.
     bind_res (get vault (lit ''mode'')) (\<lambda>mode.
     bind_res (get vault (lit ''created_at'')) (\<lambda>created.
     bind_res (get vault (lit ''version'')) (\<lambda>version.
     let source = (if schema = JStr SCHEMA_QIRA_NOTIFY_V1 then lit ''Source: Qira Notify encrypted notification''
                   else lit ''Mode: '' @ (if mode = JStr (lit ''share'') then lit ''shared with you'' else lit ''your own note''))
     in bind_res (to_str created) (\<lambda>c.
        bind_res (to_str schema) (\<lambda>sc.
        bind_res (if truthy version then bind_res (to_str version) (\<lambda>v. Inr (lit '' v'' @ v)) else Inr []) (\<lambda>v.
        Inr (join (lit ''  |  '') [source, lit ''Created: '' @ c, lit ''Schema: '' @ sc @ v]))))))))"

definition show_opened :: "jstr \<Rightarrow> page \<Rightarrow> page" where
  "show_opened txt s = s\<lparr>dec_password := [], dec_text := txt, dec_shown := True\<rparr>"

definition decrypt_body :: "sodium \<Rightarrow> (jstr \<Rightarrow> jstr) \<Rightarrow> page \<Rightarrow> page" where
  "decrypt_body so lower s =
     (case tryDecryptChatEnvelope so lower (dec_input s) (JStr (dec_password s)) of
        Inl e \<Rightarrow> s\<lparr>dec_status := (e, ''err'')\<rparr>
      | Inr (Some chat) \<Rightarrow>
          (show_opened (cp_plaintext chat) s)\<lparr>dec_meta := cp_meta chat, dec_status := (lit ''Chat message decrypted'', ''ok'')\<rparr>
      | Inr None \<Rightarrow>
          (case bind_res (parseVaultInput so (dec_input s)) (\<lambda>vault.
                  bind_res (decryptVault so vault (JStr (dec_password s))) (\<lambda>txt. Inr (vault, txt))) of
             Inl e \<Rightarrow> s\<lparr>dec_status := (e, ''err'')\<rparr>
           | Inr (vault, txt) \<Rightarrow>
               (case meta_line vault of
                  Inl e \<Rightarrow> (show_opened txt s)\<lparr>dec_status := (e, ''err'')\<rparr>
                | Inr meta \<Rightarrow> (show_opened txt s)\<lparr>dec_meta := meta, dec_status := (lit ''Decrypted successfully'', ''ok'')\<rparr>)))"

definition decrypt_task :: "sodium \<Rightarrow> (jstr \<Rightarrow> jstr) \<Rightarrow> page \<Rightarrow> page" where
  "decrypt_task so lower s = (decrypt_body so lower s)\<lparr>dec_disabled := False\<rparr>"

section \<open>Start\<close>

definition init_missing :: "page \<Rightarrow> page" where
  "init_missing s = s\<lparr>load_status := (lit ''Crypto library failed to load. Refresh and try again.'', ''err'')\<rparr>"

definition wireKnobControls :: "page \<Rightarrow> page" where
  "wireKnobControls s = refreshPasswordStrength (refreshLockStrengthButtons s)"

definition init_ready :: "sodium \<Rightarrow> jstr \<Rightarrow> page \<Rightarrow> page" where
  "init_ready so now s =
     (case runSelfTest_web so now (page_rng s) of
        (Inl e, r) \<Rightarrow>
          s\<lparr>page_rng := r, load_status := (lit ''Self-test failed: '' @ e @ lit ''. Encryption disabled.'', ''err'')\<rparr>
      | (Inr _, r) \<Rightarrow>
          (let s1 = s\<lparr>page_rng := r, dec_disabled := False, enc_disabled := False, formsEnabled := True,
                      load_status := (lit ''Ready'', ''ok'')\<rparr>;
               s2 = setMode (lit ''self'') (regenerateSalt so (regenerateNonce so s1))
           in refreshPasswordStrength ((wireKnobControls s2)\<lparr>wired := True\<rparr>)))"

section \<open>Events\<close>

datatype page_event =
  Library_missing
| Library_ready jstr
| Type_message jstr
| Type_password jstr
| Press_generate
| Press_new_nonce
| Press_new_salt
| Choose_preset jstr
| Choose_self
| Choose_share
| Reveal_enc
| Submit_lock
| Type_box jstr
| Type_box_password jstr
| Reveal_dec
| File_loaded jstr jstr
| File_failed
| Submit_open
| Run_task jstr jstr
| Press_download jstr
| Press_recovery jstr
| Press_copy "jstr option"

text \<open>Fields take what is typed at any time; everything else reacts only once it is wired.\<close>

definition when_wired :: "(page \<Rightarrow> page) \<Rightarrow> page \<Rightarrow> page" where
  "when_wired f s = (if wired s then f s else s)"

definition run_task :: "sodium \<Rightarrow> (jstr \<Rightarrow> jstr) \<Rightarrow> jstr \<Rightarrow> jstr \<Rightarrow> page \<Rightarrow> page" where
  "run_task so lower now today s =
     (case tasks s of
        [] \<Rightarrow> s
      | Encrypt_task # ts \<Rightarrow> encrypt_task so now today (s\<lparr>tasks := ts\<rparr>)
      | Decrypt_task # ts \<Rightarrow> decrypt_task so lower (s\<lparr>tasks := ts\<rparr>))"

fun page_step :: "sodium \<Rightarrow> (jstr \<Rightarrow> jstr) \<Rightarrow> page_event \<Rightarrow> page \<Rightarrow> page" where
  "page_step so lower Library_missing s = init_missing s"
| "page_step so lower (Library_ready now) s = (if wired s then s else init_ready so now s)"
| "page_step so lower (Type_message t) s = s\<lparr>enc_message := t\<rparr>"
| "page_step so lower (Type_password t) s = (if wired s then type_password t s else s\<lparr>enc_password := t\<rparr>)"
| "page_step so lower Press_generate s = when_wired (press_generate so) s"
| "page_step so lower Press_new_nonce s = when_wired (regenerateNonce so) s"
| "page_step so lower Press_new_salt s = when_wired (regenerateSalt so) s"
| "page_step so lower (Choose_preset key) s = when_wired (setLockStrength key) s"
| "page_step so lower Choose_self s = when_wired (setMode (lit ''self'')) s"
| "page_step so lower Choose_share s = when_wired (setMode (lit ''share'')) s"
| "page_step so lower Reveal_enc s = when_wired (\<lambda>s. s\<lparr>enc_visible := \<not> enc_visible s\<rparr>) s"
| "page_step so lower Submit_lock s = when_wired submit_encrypt s"
| "page_step so lower (Type_box t) s = s\<lparr>dec_input := t\<rparr>"
| "page_step so lower (Type_box_password t) s = s\<lparr>dec_password := t\<rparr>"
| "page_step so lower Reveal_dec s = when_wired (\<lambda>s. s\<lparr>dec_visible := \<not> dec_visible s\<rparr>) s"
| "page_step so lower (File_loaded name content) s = when_wired (file_loaded name content) s"
| "page_step so lower File_failed s = when_wired file_failed s"
| "page_step so lower Submit_open s = when_wired submit_decrypt s"
| "page_step so lower (Run_task now today) s = run_task so lower now today s"
| "page_step so lower (Press_download clock) s = press_download clock s"
| "page_step so lower (Press_recovery clock) s = press_recovery clock s"
| "page_step so lower (Press_copy refusal) s = press_copy so refusal s"

text \<open>The page as it is served: both submit buttons disabled, nothing wired, nothing made.\<close>

definition page_start :: "page \<Rightarrow> bool" where
  "page_start s =
     (currentMode s = lit ''self'' \<and> currentNonce s = None \<and> currentSalt s = None \<and>
      currentPresetKey s = DEFAULT_PRESET_KEY \<and> \<not> formsEnabled s \<and> \<not> wired s \<and> enc_disabled s \<and> dec_disabled s \<and>
      tasks s = [] \<and> result_for s = None \<and> \<not> dec_shown s \<and> downloads s = [] \<and> clipboard s = None)"

definition page_reachable :: "sodium \<Rightarrow> (jstr \<Rightarrow> jstr) \<Rightarrow> page \<Rightarrow> bool" where
  "page_reachable so lower = reachable page_start (by_step (page_step so lower))"

section \<open>What every operation keeps\<close>

text \<open>A vault the page makes: sealed by \<open>encryptVault\<close> under a phrase that passes the gate.\<close>

definition made :: "sodium \<Rightarrow> jsval \<Rightarrow> bool" where
  "made so v =
     (\<exists>now opts r r' pw. encryptVault so now opts r = (Inr v, r') \<and> o_password opts = JStr pw \<and>
        MIN_STRENGTH_SCORE \<le> s_score (passwordStrength pw))"

definition knobs_ok :: "page \<Rightarrow> bool" where
  "knobs_ok s =
     (is_mode (JStr (currentMode s)) \<and> currentPresetKey s \<in> set (map fst LOCK_PRESETS_web) \<and>
      pred_option (\<lambda>n. length n = NONCE_BYTES) (currentNonce s) \<and> pred_option (\<lambda>n. length n = SALT_BYTES) (currentSalt s) \<and>
      (wired s \<longrightarrow> currentNonce s \<noteq> None \<and> currentSalt s \<noteq> None))"

definition gate_ok :: "sodium \<Rightarrow> page \<Rightarrow> bool" where
  "gate_ok so s =
     (formsEnabled s = wired s \<and>
      (if wired s then (\<exists>now r. fst (runSelfTest_web so now r) = Inr ())
       else enc_disabled s \<and> dec_disabled s \<and> tasks s = []))"

definition outputs_ok :: "sodium \<Rightarrow> page \<Rightarrow> bool" where
  "outputs_ok so s =
     ((case result_for s of None \<Rightarrow> True | Some (v, _, eid) \<Rightarrow> made so v \<and> eid = computeEnvelopeId so v) \<and>
      (\<forall>d \<in> set (downloads s). \<exists>v. made so v \<and>
         ((\<exists>c. d = downloadVault c v) \<or> (\<exists>c f e. downloadRecoverySheet c v f e = Inr d))) \<and>
      (case clipboard s of None \<Rightarrow> True | Some t \<Rightarrow> \<exists>v. made so v \<and> copyVaultText so v = Inr t))"

definition page_ok :: "sodium \<Rightarrow> page \<Rightarrow> bool" where
  "page_ok so s = (knobs_ok s \<and> gate_ok so s \<and> outputs_ok so s)"

lemmas page_ok_defs = page_ok_def knobs_ok_def gate_ok_def outputs_ok_def

lemma meter_keeps:
  "page_ok so s \<Longrightarrow> page_ok so (refreshPasswordStrength s)"
  by (simp add: page_ok_defs refreshPasswordStrength_def Let_def)

lemma regenerate_keeps:
  "page_ok so s \<Longrightarrow> page_ok so (regenerateNonce so s)" "page_ok so s \<Longrightarrow> page_ok so (regenerateSalt so s)"
  by (simp_all add: page_ok_defs regenerateNonce_def regenerateSalt_def refreshNonceDisplay_def refreshSaltDisplay_def
      randombytes_buf_def)

lemma modes: "is_mode (JStr (lit ''self''))" "is_mode (JStr (lit ''share''))"
  by (simp_all add: is_mode_def)

lemma form_keeps:
  assumes "page_ok so s"
  shows "page_ok so (s\<lparr>enc_message := t\<rparr>)" "page_ok so (s\<lparr>enc_password := t\<rparr>)" "page_ok so (s\<lparr>dec_input := t\<rparr>)"
    "page_ok so (s\<lparr>dec_password := t\<rparr>)" "page_ok so (s\<lparr>page_rng := r\<rparr>)" "page_ok so (s\<lparr>enc_visible := b\<rparr>)"
    "page_ok so (s\<lparr>dec_visible := b\<rparr>)" "page_ok so (s\<lparr>enc_status := st\<rparr>)" "page_ok so (s\<lparr>dec_status := st\<rparr>)"
    "page_ok so (s\<lparr>load_status := st\<rparr>)" "page_ok so (s\<lparr>dec_meta := t\<rparr>)" "page_ok so (show_opened t s)"
    "is_mode (JStr m) \<Longrightarrow> page_ok so (setMode m s)" "page_ok so (file_loaded nm t s)" "page_ok so (file_failed s)"
  using assms by (simp_all add: page_ok_defs show_opened_def setMode_def file_loaded_def file_failed_def)

lemma preset_keeps:
  assumes "page_ok so s"
  shows "page_ok so (setLockStrength key s)"
proof (cases "map_of LOCK_PRESETS_web key")
  case (Some p)
  then have "key \<in> fst ` set LOCK_PRESETS_web" by (force dest: map_of_SomeD)
  then show ?thesis using assms by (simp add: setLockStrength_def Some refreshLockStrengthButtons_def page_ok_defs)
qed (use assms in \<open>simp add: setLockStrength_def\<close>)

lemma button_keeps:
  "page_ok so s \<Longrightarrow> page_ok so (press_download c s)" "page_ok so s \<Longrightarrow> page_ok so (press_recovery c s)"
  "page_ok so s \<Longrightarrow> page_ok so (press_copy so ref s)"
  by (auto simp: page_ok_defs press_download_def press_recovery_def press_copy_def split: option.splits sum.splits)

lemma wired_keeps:
  assumes "page_ok so s" and "wired s"
  shows "page_ok so (submit_encrypt s)" "page_ok so (submit_decrypt s)" "page_ok so (press_generate so s)"
    "page_ok so (type_password t s)"
proof -
  show "page_ok so (submit_encrypt s)" "page_ok so (submit_decrypt s)"
    using assms by (simp_all add: submit_encrypt_def submit_decrypt_def page_ok_defs)
  show "page_ok so (type_password t s)" unfolding type_password_def using assms(1) by (intro meter_keeps form_keeps)
  show "page_ok so (press_generate so s)"
    using assms(1) by (auto simp: press_generate_def split: prod.split intro!: meter_keeps form_keeps)
qed

lemma show_locked_keeps:
  assumes "page_ok so s" and "made so v"
  shows "page_ok so (show_locked so d v s)"
proof -
  let ?s = "refreshPasswordStrength (regenerateSalt so (regenerateNonce so (s\<lparr>enc_message := [], enc_password := []\<rparr>)))"
  have "page_ok so ?s" using assms(1) by (intro meter_keeps regenerate_keeps form_keeps)
  then show ?thesis using assms(2) by (simp add: show_locked_def Let_def) (simp add: page_ok_defs)
qed

lemma encrypt_body_keeps: "page_ok so s \<Longrightarrow> page_ok so (encrypt_body so now d s)"
proof (cases "s_score (passwordStrength (enc_password s)) < MIN_STRENGTH_SCORE")
  case False
  assume ok: "page_ok so s"
  obtain x r where e: "encryptVault so now (page_opts s) (page_rng s) = (x, r)" by (cases "encryptVault so now (page_opts s) (page_rng s)")
  have "made so v" if "x = Inr v" for v
    using e that False unfolding made_def by (intro exI [of _ now] exI [of _ "page_opts s"]) (auto simp: page_opts_def)
  then show ?thesis using ok False e
    by (cases x) (simp_all add: encrypt_body_def form_keeps show_locked_keeps)
qed (simp add: encrypt_body_def form_keeps)

lemma decrypt_body_keeps: "page_ok so s \<Longrightarrow> page_ok so (decrypt_body so lower s)"
  by (simp add: decrypt_body_def form_keeps split: sum.split option.split prod.split)

lemma bodies_wired [simp]:
  "wired (encrypt_body so now d s) = wired s" "wired (decrypt_body so lower s) = wired s"
  by (simp_all add: encrypt_body_def show_locked_def regenerateNonce_def regenerateSalt_def refreshNonceDisplay_def
      refreshSaltDisplay_def refreshPasswordStrength_def randombytes_buf_def Let_def decrypt_body_def show_opened_def
      split: sum.split option.split prod.split)

lemma task_keeps:
  assumes "page_ok so s" and "tasks s = t # ts"
  shows "page_ok so (run_task so lower now d s)"
proof -
  have w: "wired s" using assms by (auto simp: page_ok_def gate_ok_def split: if_splits)
  let ?s = "s\<lparr>tasks := ts\<rparr>"
  have s: "page_ok so ?s" using assms(1) w by (simp add: page_ok_defs)
  have a: "page_ok so (encrypt_body so now d ?s)" "page_ok so (decrypt_body so lower ?s)"
    using s by (simp_all add: encrypt_body_keeps decrypt_body_keeps)
  have "page_ok so (x\<lparr>enc_disabled := False\<rparr>)" "page_ok so (x\<lparr>dec_disabled := False\<rparr>)"
    if "page_ok so x" "wired x" for x
    using that by (simp_all add: page_ok_defs)
  then show ?thesis using a w
    by (cases t) (simp_all add: run_task_def assms(2) encrypt_task_def decrypt_task_def)
qed

lemma init_keeps:
  assumes "page_ok so s" and "\<not> wired s"
  shows "page_ok so (init_ready so now s)"
proof (cases "runSelfTest_web so now (page_rng s)")
  case (Pair x r)
  show ?thesis
  proof (cases x)
    case (Inl e)
    then show ?thesis using assms(1) Pair by (simp add: init_ready_def form_keeps)
  next
    case (Inr u)
    then have "\<exists>now r. fst (runSelfTest_web so now r) = Inr ()" using Pair by (intro exI [of _ now] exI [of _ "page_rng s"]) simp
    then show ?thesis using assms Pair Inr modes
      by (simp add: init_ready_def page_ok_defs Let_def regenerateNonce_def regenerateSalt_def refreshNonceDisplay_def
          refreshSaltDisplay_def refreshPasswordStrength_def randombytes_buf_def setMode_def wireKnobControls_def
          refreshLockStrengthButtons_def)
  qed
qed

lemma page_step_keeps: "page_ok so s \<Longrightarrow> page_ok so (page_step so lower ev s)"
proof (cases ev)
  case (Run_task now d)
  assume ok: "page_ok so s"
  show ?thesis
  proof (cases "tasks s")
    case (Cons t ts)
    show ?thesis unfolding Run_task page_step.simps by (rule task_keeps [OF ok Cons])
  qed (simp add: Run_task run_task_def ok)
qed (simp_all add: when_wired_def form_keeps preset_keeps button_keeps wired_keeps regenerate_keeps init_keeps modes init_missing_def)

lemma page_start_ok: "page_start s \<Longrightarrow> page_ok so s"
  by (simp add: page_start_def page_ok_defs modes LOCK_PRESETS_web_def DEFAULT_PRESET_KEY_def)

interpretation vault_page: kept page_start "page_step so lower" "page_ok so" for so lower
  by unfold_locales (fact page_start_ok page_step_keeps)+

lemma page_reachable_ok: "page_reachable so lower s \<Longrightarrow> page_ok so s"
  unfolding page_reachable_def by (rule vault_page.holds)

section \<open>Locking and opening\<close>

lemma presets_in_range:
  "p \<in> snd ` set LOCK_PRESETS_web \<Longrightarrow> 1 \<le> preset_opslimit p \<and> preset_opslimit p \<le> 10 \<and>
     8388608 \<le> preset_memlimit p \<and> preset_memlimit p \<le> 268435456"
  by (auto simp: LOCK_PRESETS_web_def mib_def)

lemma current_preset: "knobs_ok s \<Longrightarrow> getCurrentLockStrength s \<in> snd ` set LOCK_PRESETS_web"
  by (auto simp: knobs_ok_def getCurrentLockStrength_def LOCK_PRESETS_web_def split: option.split)

lemma page_opts_checked:
  assumes "knobs_ok s" and "enc_message s \<noteq> []" and "length (utf8 (enc_message s)) \<le> MAX_PLAINTEXT_BYTES"
    and "enc_password s \<noteq> []"
  shows "web_checks (page_opts s)" and "overrides_ok (page_opts s)"
  using assms presets_in_range [OF current_preset [OF assms(1)]]
  by (simp_all add: page_opts_def web_checks_def form_checks_ok limit_checks_def size_check_def all_checks_ok
      message_bytes_def overrides_ok_def nonempty_str_def num_or_def limit_defs knobs_ok_def)

lemma strong_nonempty: "MIN_STRENGTH_SCORE \<le> s_score (passwordStrength pw) \<Longrightarrow> pw \<noteq> []"
  by (auto simp: score_eq MIN_STRENGTH_SCORE_def)

lemma show_locked_fields [simp]:
  "enc_message (show_locked so d v s) = []" "enc_password (show_locked so d v s) = []"
  "result_json (show_locked so d v s) = text_or_undefined (JSON_stringify2 v)"
  "enc_status (show_locked so d v s) = (msg_locked, ''ok'')" "tasks (show_locked so d v s) = tasks s"
  "wired (show_locked so d v s) = wired s"
  by (simp_all add: show_locked_def Let_def regenerateNonce_def regenerateSalt_def refreshNonceDisplay_def
      refreshSaltDisplay_def refreshPasswordStrength_def randombytes_buf_def)

lemma show_locked_result: "\<exists>f. result_for (show_locked so d v s) = Some (v, f, computeEnvelopeId so v)"
  by (simp add: show_locked_def Let_def)

lemma encrypt_task_locks:
  assumes "kdf_works so" and "aead_works so" and "base64_works so" and "knobs_ok s"
    and "MIN_STRENGTH_SCORE \<le> s_score (passwordStrength (enc_password s))"
    and "enc_message s \<noteq> []" and "length (utf8 (enc_message s)) \<le> MAX_PLAINTEXT_BYTES"
  obtains v r where "encryptVault so now (page_opts s) (page_rng s) = (Inr v, r)"
    and "encrypt_task so now d s = (show_locked so d v (s\<lparr>page_rng := r\<rparr>))\<lparr>enc_disabled := False\<rparr>"
proof -
  note c = page_opts_checked [OF assms(4,6,7) strong_nonempty [OF assms(5)]]
  obtain v r where e: "encryptVault so now (page_opts s) (page_rng s) = (Inr v, r)" by (rule page_lock_total [OF assms(1-3) c])
  show thesis using that [OF e] assms(5) by (simp add: encrypt_task_def encrypt_body_def e)
qed

text \<open>The JSON of the result panel, and the same pasted back.\<close>

lemma result_json_text:
  assumes "base64_works so" and "encryptVault so now opts r = (Inr v, r')"
  obtains body where "text_or_undefined (JSON_stringify2 v) = 0x7B # body @ [0x7D]"
    and "text_or_undefined (JSON_stringify2 v) = text_of [0x20, 0x20] [] v"
    and "trim (text_or_undefined (JSON_stringify2 v)) = text_or_undefined (JSON_stringify2 v)"
    and "JSON_parse (text_or_undefined (JSON_stringify2 v)) = Some v"
proof -
  obtain m x w c where v: "v = vault_literal VERSION_web now (JStr m)
      (num_or (o_opslimit opts) DEFAULT_OPSLIMIT) (num_or (o_memlimit opts) DEFAULT_MEMLIMIT) x (b64urlEncode w) (b64urlEncode c)"
    by (rule page_lock_shape [OF assms])
  have wf: "wf_val v" by (rule page_lock_wf_val [OF assms])
  let ?j = "text_of [0x20, 0x20] [] v"
  have j: "JSON_stringify2 v = Some ?j" unfolding JSON_stringify2_def by (rule json_str_text_of [OF wf])
  then have u: "text_or_undefined (JSON_stringify2 v) = ?j" by (simp add: text_or_undefined_def)
  obtain kvs where o: "v = JObj kvs" "kvs \<noteq> []" unfolding v vault_literal_def by blast
  obtain body where e: "?j = 0x7B # body @ [0x7D]" using text_of_JObj_ends [OF wf [unfolded o(1)] o(2)] o(1) by blast
  have t: "trim ?j = ?j" using trim_core [of "[]" "[]" ?j] by (simp add: js_space_codes e)
  show thesis by (rule that [of body, unfolded u]) (rule e refl t JSON_parse_stringify2(2) [OF wf j])+
qed

lemma result_json_parses:
  assumes "base64_works so" and "encryptVault so now opts r = (Inr v, r')" and "32 \<notin> set now"
  shows "parseVaultInput so (text_or_undefined (JSON_stringify2 v)) = Inr v"
    and "tryDecryptChatEnvelope so lower (text_or_undefined (JSON_stringify2 v)) pw = Inr None"
proof -
  obtain m x w c where m: "is_mode (JStr m)" and v: "v = vault_literal VERSION_web now (JStr m)
      (num_or (o_opslimit opts) DEFAULT_OPSLIMIT) (num_or (o_memlimit opts) DEFAULT_MEMLIMIT) x (b64urlEncode w) (b64urlEncode c)"
    by (rule page_lock_shape [OF assms(1,2)])
  have wf: "wf_val v" by (rule page_lock_wf_val [OF assms(1,2)])
  let ?j = "text_of [0x20, 0x20] [] v"
  obtain body where e: "?j = 0x7B # body @ [0x7D]" and u: "text_or_undefined (JSON_stringify2 v) = ?j"
    and t: "trim ?j = ?j" and p: "JSON_parse ?j = Some v"
    by (rule result_json_text [OF assms(1,2)]) metis
  have "tidy ?j" unfolding v
    by (rule tidy_text.text_closed [OF wf [unfolded v] vault_literal_blankless [OF m assms(3)]]) (simp_all add: tidy_def)
  then have "\<not> str_includes ?j BEGIN_MARKER" using dash_blank_includes markers(3) by (auto simp: tidy_def)
  then have b: "between_markers ?j = None" by (simp add: between_markers_def str_includes_def)
  have n: "text_prefix ?j = None"
    by (simp add: text_prefix_def e VAULT_TEXT_PREFIX_V1_def VAULT_TEXT_PREFIX_V2_def lit_def unit_of_def)
  show "parseVaultInput so (text_or_undefined (JSON_stringify2 v)) = Inr v"
    by (simp add: u parseVaultInput_def Let_def t b n p) (simp add: e throw_if_def)
  have "get v (lit ''schema'') = Inr (JStr SCHEMA_V2)" by (simp add: v vault_literal_def)
  then show "tryDecryptChatEnvelope so lower (text_or_undefined (JSON_stringify2 v)) pw = Inr None"
    by (simp add: u tryDecryptChatEnvelope_def Let_def t p) (simp add: SCHEMA_V2_def CHAT_SCHEMA_def)
qed

lemma meta_line_total:
  assumes "base64_works so" and "encryptVault so now opts r = (Inr v, r')"
  shows "\<exists>m. meta_line v = Inr m"
  by (rule page_lock_shape [OF assms])
    (auto simp: meta_line_def vault_literal_def truthy.simps VERSION_web_def)

section \<open>Properties\<close>

text \<open>
  C20: The page's state is well formed in every state it can reach: the mode is one of the two,
  the lock strength one of the presets, a salt and a nonce have their exact lengths and are there
  once the forms work; before a self-test has passed both submit buttons are disabled and no task
  is queued, and the forms are wired only after a self-test that passed.
\<close>

theorem page_well_formed:
  assumes "page_reachable so lower s"
  shows "(currentMode s = lit ''self'' \<or> currentMode s = lit ''share'') \<and>
    currentPresetKey s \<in> {lit ''quick'', lit ''strong'', lit ''vault''} \<and>
    (\<forall>n. currentNonce s = Some n \<longrightarrow> length n = 24) \<and> (\<forall>n. currentSalt s = Some n \<longrightarrow> length n = 16) \<and>
    (if wired s then currentNonce s \<noteq> None \<and> currentSalt s \<noteq> None \<and> (\<exists>now r. fst (runSelfTest_web so now r) = Inr ())
     else enc_disabled s \<and> dec_disabled s \<and> tasks s = [])"
  using page_reachable_ok [OF assms]
  by (auto simp: page_ok_def knobs_ok_def gate_ok_def is_mode_def LOCK_PRESETS_web_def size_defs pred_option_def split: if_splits)

definition sample_page :: page where
  "sample_page = \<lparr>currentMode = lit ''self'', currentNonce = None, currentSalt = None, currentPresetKey = DEFAULT_PRESET_KEY,
     nonce_shown = [], salt_shown = [], preset_marked = [], formsEnabled = False, wired = False, headline = [],
     enc_message = [], enc_password = [], enc_visible = False, enc_disabled = True, enc_title = [], enc_status = ([], []),
     meter_width = 0, meter_color = [], meter_label = [], pw_hint = [], pw_hint_ok = False, result_json = [], result_id = [],
     result_for = None, dec_input = [], dec_password = [], dec_visible = False, dec_disabled = True, dec_status = ([], []),
     dec_text = [], dec_meta = [], dec_shown = False, load_status = ([], []), tasks = [], downloads = [], clipboard = None,
     page_rng = (\<lambda>_. 7)\<rparr>"

lemma sample_page_reachable: "page_reachable toy_sodium (\<lambda>s. s) (fold (page_step toy_sodium (\<lambda>s. s)) evs sample_page)"
  unfolding page_reachable_def
  by (intro reachable_run reachable.start) (simp add: page_start_def sample_page_def)

lemma sample_init:
  "wired (init_ready toy_sodium now s)" "tasks (init_ready toy_sodium now s) = tasks s"
proof -
  obtain u r where "runSelfTest_web toy_sodium now (page_rng s) = (Inr u, r)"
    using page_selftest_passes [of now "page_rng s"] by (cases "runSelfTest_web toy_sodium now (page_rng s)") auto
  then show "wired (init_ready toy_sodium now s)" "tasks (init_ready toy_sodium now s) = tasks s"
    by (simp_all add: init_ready_def Let_def regenerateNonce_def regenerateSalt_def refreshNonceDisplay_def
        refreshSaltDisplay_def refreshPasswordStrength_def randombytes_buf_def setMode_def wireKnobControls_def
        refreshLockStrengthButtons_def)
qed

text \<open>A page on which a message is typed and the generator pressed.\<close>

definition sample_ready :: page where
  "sample_ready = fold (page_step toy_sodium (\<lambda>s. s)) [Library_ready [], Type_message (lit ''hi''), Press_generate] sample_page"

lemma meter_fields [simp]:
  "wired (refreshPasswordStrength s) = wired s" "tasks (refreshPasswordStrength s) = tasks s"
  "enc_message (refreshPasswordStrength s) = enc_message s" "enc_password (refreshPasswordStrength s) = enc_password s"
  by (simp_all add: refreshPasswordStrength_def Let_def)

lemma sample_ready_fields:
  "wired sample_ready" "tasks sample_ready = []" "enc_message sample_ready = lit ''hi''"
  "MIN_STRENGTH_SCORE \<le> s_score (passwordStrength (enc_password sample_ready))"
  "page_reachable toy_sodium (\<lambda>s. s) sample_ready"
proof -
  let ?s = "(init_ready toy_sodium [] sample_page)\<lparr>enc_message := lit ''hi''\<rparr>"
  have s: "sample_ready = press_generate toy_sodium ?s"
    by (simp add: sample_ready_def when_wired_def sample_init) (simp add: sample_page_def)
  obtain p r where g: "generatePassphrase toy_sodium (page_rng ?s) = (p, r)"
    by (cases "generatePassphrase toy_sodium (page_rng ?s)")
  then have e: "sample_ready = refreshPasswordStrength (?s\<lparr>enc_visible := True, enc_password := p, page_rng := r\<rparr>)"
    unfolding s press_generate_def by simp
  show "wired sample_ready" "enc_message sample_ready = lit ''hi''" unfolding e by (simp_all add: sample_init)
  show "tasks sample_ready = []" unfolding e by (simp add: sample_init) (simp add: sample_page_def)
  show "MIN_STRENGTH_SCORE \<le> s_score (passwordStrength (enc_password sample_ready))"
    unfolding e using generated_strong [OF sodium_okD(4) [OF toy_sodium_ok] g] by simp
  show "page_reachable toy_sodium (\<lambda>s. s) sample_ready" unfolding sample_ready_def by (rule sample_page_reachable)
qed

theorem page_well_formed_witness:
  "wired sample_ready \<and> currentNonce sample_ready \<noteq> None \<and> currentPresetKey sample_ready \<in> {lit ''quick'', lit ''strong'', lit ''vault''}"
  using page_well_formed [OF sample_ready_fields(5)] sample_ready_fields(1) by simp

lemma sample_result:
  obtains s v f eid where "page_reachable toy_sodium (\<lambda>s. s) s" and "result_for s = Some (v, f, eid)"
proof -
  let ?evs = "[Submit_lock, Run_task [] []]"
  let ?s = "fold (page_step toy_sodium (\<lambda>s. s)) ?evs sample_ready"
  have r: "page_reachable toy_sodium (\<lambda>s. s) ?s"
    using sample_ready_fields(5) unfolding page_reachable_def by (rule reachable_run)
  let ?f = "(submit_encrypt sample_ready)\<lparr>tasks := []\<rparr>"
  have k: "knobs_ok ?f"
    using page_reachable_ok [OF sample_ready_fields(5)] by (simp add: page_ok_def knobs_ok_def submit_encrypt_def)
  obtain v q where "encrypt_task toy_sodium [] [] ?f = (show_locked toy_sodium [] v (?f\<lparr>page_rng := q\<rparr>))\<lparr>enc_disabled := False\<rparr>"
    by (rule encrypt_task_locks [OF toy_all k])
      (simp_all add: submit_encrypt_def sample_ready_fields utf8_lit MAX_PLAINTEXT_BYTES_def)
  moreover have "?s = encrypt_task toy_sodium [] [] ?f"
    by (simp add: when_wired_def run_task_def sample_ready_fields) (simp add: submit_encrypt_def sample_ready_fields)
  ultimately obtain f where "result_for ?s = Some (v, f, computeEnvelopeId toy_sodium v)"
    using show_locked_result [of toy_sodium "[]" v "?f\<lparr>page_rng := q\<rparr>"] by auto
  then show thesis by (rule that [OF r])
qed

text \<open>
  C19: Only strong phrases lock: whatever is clicked, typed and submitted, in whatever order,
  every vault the result panel shows was sealed under a phrase that reaches the strength
  threshold, and so was every vault in a downloaded file, a recovery sheet or the clipboard.
\<close>

theorem only_strong_phrases_lock:
  assumes "page_reachable so lower s"
  shows "(\<forall>v f eid. result_for s = Some (v, f, eid) \<longrightarrow> made so v \<and> eid = computeEnvelopeId so v) \<and>
    (\<forall>d \<in> set (downloads s). \<exists>v. made so v \<and>
       ((\<exists>c. d = downloadVault c v) \<or> (\<exists>c f e. downloadRecoverySheet c v f e = Inr d))) \<and>
    (\<forall>t. clipboard s = Some t \<longrightarrow> (\<exists>v. made so v \<and> copyVaultText so v = Inr t))"
  using page_reachable_ok [OF assms] by (auto simp: page_ok_def outputs_ok_def split: option.splits)

theorem only_strong_phrases_lock_witness:
  "\<exists>s v f eid. page_reachable toy_sodium (\<lambda>s. s) s \<and> result_for s = Some (v, f, eid) \<and> made toy_sodium v"
proof -
  obtain s v f eid where "page_reachable toy_sodium (\<lambda>s. s) s" "result_for s = Some (v, f, eid)" by (rule sample_result)
  with only_strong_phrases_lock [of toy_sodium "\<lambda>s. s" s] show ?thesis by blast
qed

lemma page_roundtrip:
  assumes "kdf_works so" and "aead_works so" and "base64_works so" and "page_reachable so lower s"
    and "wired s" and "tasks s = []" and "MIN_STRENGTH_SCORE \<le> s_score (passwordStrength (enc_password s))"
    and "enc_message s \<noteq> []" and "plain_text (enc_message s)" and "length (utf8 (enc_message s)) \<le> MAX_PLAINTEXT_BYTES"
    and "32 \<notin> set now"
    and "s1 = fold (page_step so lower) [Submit_lock, Run_task now today] s"
    and "s2 = fold (page_step so lower) [Type_box (result_json s1), Type_box_password (enc_password s), Submit_open, Run_task t1 t2] s1"
  shows "enc_status s1 = (msg_locked, ''ok'') \<and> enc_message s1 = [] \<and> enc_password s1 = [] \<and>
    dec_text s2 = enc_message s \<and> dec_password s2 = [] \<and> dec_status s2 = (lit ''Decrypted successfully'', ''ok'') \<and> dec_shown s2"
proof -
  let ?s = "(submit_encrypt s)\<lparr>tasks := []\<rparr>"
  have k: "knobs_ok ?s" using page_reachable_ok [OF assms(4)] by (simp add: page_ok_def knobs_ok_def submit_encrypt_def)
  have f: "enc_message ?s = enc_message s" "enc_password ?s = enc_password s" by (simp_all add: submit_encrypt_def)
  obtain v r where e: "encryptVault so now (page_opts ?s) (page_rng ?s) = (Inr v, r)"
    and t: "encrypt_task so now today ?s = (show_locked so today v (?s\<lparr>page_rng := r\<rparr>))\<lparr>enc_disabled := False\<rparr>"
    by (rule encrypt_task_locks [OF assms(1-3) k]) (use assms(7,8,10) f in simp_all)
  have s1: "s1 = (show_locked so today v (?s\<lparr>page_rng := r\<rparr>))\<lparr>enc_disabled := False\<rparr>"
    using t assms(5,6) by (simp add: assms(12) when_wired_def run_task_def) (simp add: submit_encrypt_def)
  obtain m where m: "o_plaintext (page_opts ?s) = PtString m" and wf: "wf_vault_v2 v"
    and d: "decryptVault so v (o_password (page_opts ?s)) = Inr (units_of (drop_bom (code_points m)))"
    by (rule page_lock_opens [OF assms(1-3) e])
  have "decryptVault so v (JStr (enc_password s)) = Inr (enc_message s)"
    using m d plain_units [OF assms(9)] f by (simp add: page_opts_def)
  moreover note j = result_json_parses [OF assms(3) e assms(11)]
  moreover obtain ml where "meta_line v = Inr ml" using meta_line_total [OF assms(3) e] by blast
  moreover have "wired s1" "tasks s1 = []" using assms(5) by (simp_all add: s1 submit_encrypt_def)
  moreover have "result_json s1 = text_or_undefined (JSON_stringify2 v)" by (simp add: s1)
  ultimately have "dec_text s2 = enc_message s \<and> dec_password s2 = [] \<and> dec_status s2 = (lit ''Decrypted successfully'', ''ok'') \<and> dec_shown s2"
    by (simp add: assms(13) when_wired_def run_task_def submit_decrypt_def decrypt_task_def decrypt_body_def show_opened_def)
  then show ?thesis by (simp add: s1)
qed

text \<open>
  C18: In every reachable state with the forms working and no task queued, submitting the lock
  form with a strong phrase and a message of at most 256 KiB locks it: the message and the phrase
  are gone from the form; and pasting the JSON of the result panel with the same phrase into the
  other form shows the message again.
\<close>

theorem lock_then_open_page:
  assumes "kdf_works so" and "aead_works so" and "base64_works so" and "page_reachable so lower s"
    and "wired s" and "tasks s = []" and "MIN_STRENGTH_SCORE \<le> s_score (passwordStrength (enc_password s))"
    and "enc_message s \<noteq> []" and "plain_text (enc_message s)" and "length (utf8 (enc_message s)) \<le> MAX_PLAINTEXT_BYTES"
    and "32 \<notin> set now"
    and "s1 = fold (page_step so lower) [Submit_lock, Run_task now today] s"
    and "s2 = fold (page_step so lower) [Type_box (result_json s1), Type_box_password (enc_password s), Submit_open, Run_task t1 t2] s1"
  shows "enc_status s1 = (msg_locked, ''ok'') \<and> enc_message s1 = [] \<and> enc_password s1 = [] \<and>
    dec_text s2 = enc_message s \<and> dec_password s2 = [] \<and> dec_status s2 = (lit ''Decrypted successfully'', ''ok'')"
  using page_roundtrip [OF assms] by blast

theorem lock_then_open_page_witness:
  "\<exists>s1. dec_text (fold (page_step toy_sodium (\<lambda>s. s))
     [Type_box (result_json s1), Type_box_password (enc_password sample_ready), Submit_open, Run_task [] []] s1) = lit ''hi'' \<and>
     s1 = fold (page_step toy_sodium (\<lambda>s. s)) [Submit_lock, Run_task [] []] sample_ready"
  using lock_then_open_page [OF toy_all sample_ready_fields(5,1,2) _ _ _ _ _ refl refl, of "[]" "[]" "[]" "[]"]
  by (simp add: sample_ready_fields sample_plain utf8_lit MAX_PLAINTEXT_BYTES_def
      del: fold_simps page_step.simps)

text \<open>
  A phrase below the threshold is refused when the form is submitted: nothing of the form is
  cleared, no vault is made and no randomness is drawn. But the submit button, which the strength
  meter had disabled, is enabled again when the task ends.
\<close>

theorem weak_phrase_refused:
  assumes "s_score (passwordStrength (enc_password s)) < MIN_STRENGTH_SCORE"
  shows "encrypt_task so now today s = s\<lparr>enc_status := (msg_too_weak, ''err''), enc_disabled := False\<rparr> \<and>
    (formsEnabled s \<longrightarrow> enc_disabled (refreshPasswordStrength s))"
  using assms by (simp add: encrypt_task_def encrypt_body_def refreshPasswordStrength_def Let_def)

theorem weak_phrase_refused_witness:
  "encrypt_task toy_sodium [] [] sample_page = sample_page\<lparr>enc_status := (msg_too_weak, ''err''), enc_disabled := False\<rparr>"
  using weak_phrase_refused [of sample_page] by (simp add: sample_page_def passwordStrength_def MIN_STRENGTH_SCORE_def)

section \<open>What the open form shows\<close>

text \<open>A text some pasted box opens to under some phrase, by the chat reader or else the vault reader.\<close>

definition opens_to :: "sodium \<Rightarrow> (jstr \<Rightarrow> jstr) \<Rightarrow> jstr \<Rightarrow> jstr \<Rightarrow> jstr \<Rightarrow> bool" where
  "opens_to so lower box phrase t =
     (case tryDecryptChatEnvelope so lower box (JStr phrase) of
        Inl _ \<Rightarrow> False
      | Inr (Some c) \<Rightarrow> t = cp_plaintext c
      | Inr None \<Rightarrow> (\<exists>v. parseVaultInput so box = Inr v \<and> decryptVault so v (JStr phrase) = Inr t))"

text \<open>
  The page with a note of what its open tasks read: the pasted box and the phrase as they stood in
  the form when the task ran.
\<close>

fun read_by :: "page_event \<Rightarrow> page \<Rightarrow> (jstr \<times> jstr) set" where
  "read_by (Run_task now today) s =
     (case tasks s of Decrypt_task # ts \<Rightarrow> {(dec_input s, dec_password s)} | _ \<Rightarrow> {})"
| "read_by _ s = {}"

fun noted_step :: "sodium \<Rightarrow> (jstr \<Rightarrow> jstr) \<Rightarrow> page_event \<Rightarrow> (jstr \<times> jstr) set \<times> page \<Rightarrow> (jstr \<times> jstr) set \<times> page" where
  "noted_step so lower ev (read, s) = (read \<union> read_by ev s, page_step so lower ev s)"

fun shows_opened :: "sodium \<Rightarrow> (jstr \<Rightarrow> jstr) \<Rightarrow> (jstr \<times> jstr) set \<times> page \<Rightarrow> bool" where
  "shows_opened so lower (read, s) =
     (page_ok so s \<and> (dec_shown s \<longrightarrow> wired s \<and> (\<exists>(box, phrase) \<in> read. opens_to so lower box phrase (dec_text s))))"

lemma noted_run: "snd (fold (noted_step so lower) evs (read, s)) = fold (page_step so lower) evs s"
  by (induction evs arbitrary: read s) simp_all

lemma decrypt_task_cases:
  "(dec_text (decrypt_task so lower s) = dec_text s \<and> dec_shown (decrypt_task so lower s) = dec_shown s \<and>
      dec_password (decrypt_task so lower s) = dec_password s \<and> snd (dec_status (decrypt_task so lower s)) = ''err'' \<and>
      \<not> opens_to so lower (dec_input s) (dec_password s) t) \<or>
   (opens_to so lower (dec_input s) (dec_password s) (dec_text (decrypt_task so lower s)) \<and> dec_shown (decrypt_task so lower s) \<and>
      dec_password (decrypt_task so lower s) = [])"
proof (cases "tryDecryptChatEnvelope so lower (dec_input s) (JStr (dec_password s))")
  case (Inr c)
  show ?thesis
  proof (cases c)
    case None
    then show ?thesis
      by (cases "parseVaultInput so (dec_input s)")
        (auto simp: Inr decrypt_task_def decrypt_body_def opens_to_def show_opened_def split: sum.split)
  qed (simp add: Inr decrypt_task_def decrypt_body_def opens_to_def show_opened_def)
qed (simp add: decrypt_task_def decrypt_body_def opens_to_def)

lemma shown_fields:
  "dec_text (refreshPasswordStrength s) = dec_text s \<and> dec_shown (refreshPasswordStrength s) = dec_shown s"
  "dec_text (regenerateNonce so s) = dec_text s \<and> dec_shown (regenerateNonce so s) = dec_shown s"
  "dec_text (regenerateSalt so s) = dec_text s \<and> dec_shown (regenerateSalt so s) = dec_shown s"
  "dec_text (setLockStrength k s) = dec_text s \<and> dec_shown (setLockStrength k s) = dec_shown s"
  "dec_text (press_download c s) = dec_text s \<and> dec_shown (press_download c s) = dec_shown s"
  "dec_text (press_recovery c s) = dec_text s \<and> dec_shown (press_recovery c s) = dec_shown s"
  "dec_text (press_copy so ref s) = dec_text s \<and> dec_shown (press_copy so ref s) = dec_shown s"
  by (simp_all add: refreshPasswordStrength_def regenerateNonce_def regenerateSalt_def refreshNonceDisplay_def refreshSaltDisplay_def
      setLockStrength_def refreshLockStrengthButtons_def press_download_def press_recovery_def press_copy_def Let_def
      split: option.split prod.split sum.split)

lemma shown_forms:
  "dec_text (press_generate so s) = dec_text s \<and> dec_shown (press_generate so s) = dec_shown s"
  "dec_text (type_password t s) = dec_text s \<and> dec_shown (type_password t s) = dec_shown s"
  "dec_text (encrypt_body so now d s) = dec_text s \<and> dec_shown (encrypt_body so now d s) = dec_shown s"
  "dec_text (init_ready so now s) = dec_text s \<and> dec_shown (init_ready so now s) = dec_shown s"
  by (simp_all add: press_generate_def type_password_def shown_fields encrypt_body_def show_locked_def init_ready_def
      wireKnobControls_def refreshLockStrengthButtons_def setMode_def Let_def split: prod.split sum.split)

lemma shown_step:
  assumes "\<nexists>now today. ev = Run_task now today"
  shows "dec_text (page_step so lower ev s) = dec_text s \<and> dec_shown (page_step so lower ev s) = dec_shown s"
  using assms by (cases ev) (auto simp: shown_fields shown_forms when_wired_def init_missing_def setMode_def
      submit_encrypt_def submit_decrypt_def file_loaded_def file_failed_def)

lemma wired_step: "wired s \<Longrightarrow> wired (page_step so lower ev s)"
  by (cases ev) (simp_all add: when_wired_def run_task_def encrypt_task_def decrypt_task_def init_missing_def setMode_def
      submit_encrypt_def submit_decrypt_def file_loaded_def file_failed_def press_generate_def type_password_def
      regenerateNonce_def regenerateSalt_def refreshNonceDisplay_def refreshSaltDisplay_def setLockStrength_def
      refreshLockStrengthButtons_def press_download_def press_recovery_def press_copy_def randombytes_buf_def
      split: list.split task.split prod.split option.split sum.split)

lemma shows_opened_step: "shows_opened so lower (read, s) \<Longrightarrow> shows_opened so lower (noted_step so lower ev (read, s))"
proof (cases "\<exists>now today. ev = Run_task now today")
  case False
  assume "shows_opened so lower (read, s)"
  then show ?thesis using shown_step [of ev so lower s] False wired_step page_step_keeps by auto
next
  case True
  then obtain now today where ev: "ev = Run_task now today" by blast
  assume s: "shows_opened so lower (read, s)"
  then have ok: "page_ok so (page_step so lower ev s)" using page_step_keeps by simp
  show ?thesis
  proof (cases "tasks s")
    case (Cons t ts)
    have w: "wired s" using s Cons by (auto simp: page_ok_def gate_ok_def split: if_splits)
    show ?thesis
    proof (cases t)
      case Encrypt_task
      then show ?thesis using s ok w
        by (simp add: ev run_task_def Cons encrypt_task_def shown_forms)
    next
      case Decrypt_task
      let ?s = "s\<lparr>tasks := ts\<rparr>"
      have e: "page_step so lower ev s = decrypt_task so lower ?s" by (simp add: ev run_task_def Cons Decrypt_task)
      have r: "(dec_input s, dec_password s) \<in> read \<union> read_by ev s" by (simp add: ev Cons Decrypt_task)
      have "wired (decrypt_task so lower ?s)" using wired_step [OF w, of so lower ev] by (simp only: e)
      then show ?thesis using decrypt_task_cases [where so = so and lower = lower and s = ?s and t = "[]"] s ok r
        unfolding noted_step.simps e shows_opened.simps by (elim disjE conjE) (simp, blast, fastforce)
    qed
  qed (use s ev in \<open>simp add: run_task_def\<close>)
qed

interpretation open_form: kept "\<lambda>(read, s). read = {} \<and> page_start s" "noted_step so lower" "shows_opened so lower" for so lower
proof
  show "shows_opened so lower x" if "case x of (read, s) \<Rightarrow> read = {} \<and> page_start s" for x
    using that by (cases x) (simp add: page_start_ok, simp add: page_start_def)
  show "shows_opened so lower (noted_step so lower ev x)" if "shows_opened so lower x" for ev x
    using that by (cases x) (simp only: shows_opened_step)
qed

text \<open>
  C21: The open form shows only what was opened. After any events from the start, a text it shows is
  what a pasted box and a phrase that stood in the form when an open task ran open to, by the chat
  reader or else by the vault reader, on a page that passed its self-test. A task of the form shows
  what the pasted box opens to under the typed phrase, and clears the phrase, or, when it does not
  open, an error over whatever was shown before.
\<close>

theorem open_form_shows_only_opened:
  assumes "page_start s0" and "(read, s) = fold (noted_step so lower) evs ({}, s0)"
  shows "(dec_shown s \<longrightarrow> wired s \<and> (\<exists>(box, phrase) \<in> read. opens_to so lower box phrase (dec_text s))) \<and>
    (\<forall>s'. s' = decrypt_task so lower s \<longrightarrow>
      (if \<exists>t. opens_to so lower (dec_input s) (dec_password s) t
       then opens_to so lower (dec_input s) (dec_password s) (dec_text s') \<and> dec_shown s' \<and> dec_password s' = []
       else dec_text s' = dec_text s \<and> dec_shown s' = dec_shown s \<and> dec_password s' = dec_password s \<and> snd (dec_status s') = ''err''))"
proof -
  have "shows_opened so lower ({}, s0)" by (rule open_form.kept_init) (simp add: assms(1))
  then have "shows_opened so lower (read, s)" unfolding assms(2) by (rule open_form.kept_run)
  moreover have "if \<exists>t. opens_to so lower (dec_input s) (dec_password s) t
       then opens_to so lower (dec_input s) (dec_password s) (dec_text s') \<and> dec_shown s' \<and> dec_password s' = []
       else dec_text s' = dec_text s \<and> dec_shown s' = dec_shown s \<and> dec_password s' = dec_password s \<and> snd (dec_status s') = ''err''"
    if "s' = decrypt_task so lower s" for s'
    using decrypt_task_cases [of so lower s] unfolding that by metis
  ultimately show ?thesis by simp
qed

text \<open>The sample page locks its message and opens it again.\<close>

definition sample_locked :: page where
  "sample_locked = fold (page_step toy_sodium (\<lambda>s. s)) [Submit_lock, Run_task [] []] sample_ready"

definition sample_opened :: page where
  "sample_opened = fold (page_step toy_sodium (\<lambda>s. s))
     [Type_box (result_json sample_locked), Type_box_password (enc_password sample_ready), Submit_open, Run_task [] []] sample_locked"

definition sample_events :: "page_event list" where
  "sample_events = [Library_ready [], Type_message (lit ''hi''), Press_generate] @ [Submit_lock, Run_task [] []] @
     [Type_box (result_json sample_locked), Type_box_password (enc_password sample_ready), Submit_open, Run_task [] []]"

theorem open_form_shows_only_opened_witness:
  "\<exists>read s. (read, s) = fold (noted_step toy_sodium (\<lambda>s. s)) sample_events ({}, sample_page) \<and> dec_shown s \<and> dec_text s = lit ''hi'' \<and>
     (\<exists>(box, phrase) \<in> read. opens_to toy_sodium (\<lambda>s. s) box phrase (lit ''hi''))"
proof -
  obtain read s where r: "(read, s) = fold (noted_step toy_sodium (\<lambda>s. s)) sample_events ({}, sample_page)"
    by (cases "fold (noted_step toy_sodium (\<lambda>s. s)) sample_events ({}, sample_page)") simp
  have "s = fold (page_step toy_sodium (\<lambda>s. s)) sample_events sample_page"
    using noted_run [of toy_sodium "\<lambda>s. s" sample_events "{}" sample_page] unfolding r [symmetric] by simp
  then have s: "s = sample_opened"
    by (simp only: sample_events_def fold_append comp_apply sample_opened_def sample_locked_def sample_ready_def)
  have "dec_text sample_opened = lit ''hi'' \<and> dec_shown sample_opened"
    using page_roundtrip [OF toy_all sample_ready_fields(5,1,2) _ _ _ _ _ sample_locked_def sample_opened_def]
    by (simp add: sample_ready_fields sample_plain utf8_lit MAX_PLAINTEXT_BYTES_def)
  moreover have "page_start sample_page" by (simp add: page_start_def sample_page_def)
  ultimately show ?thesis using open_form_shows_only_opened [OF _ r] r unfolding s by auto
qed

end
