(* ===== verification/Fetch.thy ===== *)
theory Fetch
  imports Json_Roundtrip Utf8
begin

text \<open>
  What \<open>fetch\<close> gives a page: no answer, with the message of the exception, or an answer with
  \<open>ok\<close>, its status and its body. \<open>res.json()\<close> decodes the body leniently and parses it.
\<close>

datatype reply = No_reply jstr | Reply bool int bytes

definition reply_json :: "reply \<Rightarrow> (int \<Rightarrow> jstr \<Rightarrow> jstr) \<Rightarrow> jsval res" where
  "reply_json r refused =
     (case r of
        No_reply m \<Rightarrow> Inl m
      | Reply ok st body \<Rightarrow>
          (let t = from_utf8_lossy body in throw_if (\<not> ok) (refused st t) (parse_text t)))"

lemma reply_json_Inr:
  "reply_json r refused = Inr v \<longleftrightarrow> (\<exists>st body. r = Reply True st body \<and> parse_text (from_utf8_lossy body) = Inr v)"
  by (cases r) (auto simp: reply_json_def Let_def)

end
