(* ===== verification/Site_Verify.thy ===== *)
theory Site_Verify
  imports Web_Text Fetch "HOL-Library.Multiset"
begin

text \<open>
  The in-page tamper check (\<open>public-site/site-verify.js\<close>) and the bytes its signer
  (\<open>scripts/sign_site_content.py\<close>) signs. The network, SHA-256 and Ed25519 are fields of an
  environment record: what a request answered, and the two functions of \<open>crypto.subtle\<close>. The
  verdict is a value; what the visitor sees is a function of it. A verdict \<open>Crashed\<close> is an
  exception outside every \<open>try\<close>: the promise of \<open>verify\<close> is rejected and nothing is shown.
\<close>

section \<open>Environment\<close>

record site_env =
  pathname :: jstr
  manifest_reply :: reply
  page_reply :: reply
  digest_sha256 :: "bytes \<Rightarrow> bytes"
  ed25519_verify :: "bytes \<Rightarrow> bytes \<Rightarrow> bytes \<Rightarrow> bool res"

definition PINNED_SIGNER_PUBKEY_HEX :: jstr where
  "PINNED_SIGNER_PUBKEY_HEX = lit ''881de4e7616992f92013b84ba1bbd08280a007b491bde28a46d8a15612d1d326''"

definition SIGNATURE_DOMAIN :: jstr where "SIGNATURE_DOMAIN = lit ''BRY-NFET-SX|SITE-INTEGRITY|V2''"
definition MANIFEST_SCHEMA :: jstr where "MANIFEST_SCHEMA = lit ''BRY-NFET-SX-SITE-INTEGRITY-V2''"

section \<open>Paths\<close>

definition ends_slash :: "jstr \<Rightarrow> bool" where
  "ends_slash p = (p \<noteq> [] \<and> last p = 0x2F)"

definition manifestKeyForLocation :: "jstr \<Rightarrow> jstr" where
  "manifestKeyForLocation p =
     (if p = [0x2F] \<or> p = [] then lit ''index.html''
      else (let stripped = (if hd p = 0x2F then tl p else p)
            in if ends_slash stripped then stripped @ lit ''index.html''
               else if 0x2E \<notin> set stripped then stripped @ lit ''.html'' else stripped))"

text \<open>\<open>location.pathname.replace(/\/$/, "")\<close>\<close>

definition drop_slash :: "jstr \<Rightarrow> jstr" where
  "drop_slash p = (if ends_slash p then butlast p else p)"

definition STRICT_CSP_PREFIXES :: "jstr list" where "STRICT_CSP_PREFIXES = []"

definition hasStrictCsp :: "jstr \<Rightarrow> bool" where
  "hasStrictCsp path =
     list_ex (\<lambda>pfx. drop_slash path = pfx \<or> starts_with (pfx @ [0x2F]) (drop_slash path)) STRICT_CSP_PREFIXES"

section \<open>Bytes\<close>

definition sha256Hex :: "site_env \<Rightarrow> bytes \<Rightarrow> jstr" where
  "sha256Hex env buf = concat (map (\<lambda>b. [hex_digit (unat b div 16), hex_digit (unat b mod 16)]) (digest_sha256 env buf))"

text \<open>
  \<open>parseInt(s, 16)\<close> stored in an unsigned byte: leading blanks, a sign and a \<open>0x\<close> are skipped, then
  the longest run of hexadecimal digits counts; without any the result is NaN, stored as 0.
\<close>

definition hex_run :: "jstr \<Rightarrow> byte" where
  "hex_run s = foldl (\<lambda>acc u. 16 * acc + of_nat (the (hex_val u))) 0 (takeWhile (\<lambda>u. hex_val u \<noteq> None) s)"

definition hex_prefixed :: "jstr \<Rightarrow> byte" where
  "hex_prefixed s = (case s of a # b # t \<Rightarrow> if a = 0x30 \<and> (b = 0x78 \<or> b = 0x58) then hex_run t else hex_run s | _ \<Rightarrow> hex_run s)"

definition parseInt16 :: "jstr \<Rightarrow> byte" where
  "parseInt16 s =
     (case dropWhile js_space s of
        [] \<Rightarrow> 0
      | c # t \<Rightarrow> if c = 0x2D then - hex_prefixed t else if c = 0x2B then hex_prefixed t else hex_prefixed (c # t))"

fun hexToBytes :: "jstr \<Rightarrow> bytes" where
  "hexToBytes (a # b # s) = parseInt16 [a, b] # hexToBytes s"
| "hexToBytes _ = []"

text \<open>
  \<open>hexToBytes\<close> on a value that may not be a string. An array is sliced into pairs of elements that
  are joined and parsed; an object has no \<open>slice\<close>, which matters only when its \<open>length\<close> asks for a
  byte; anything else gives no bytes. A \<open>length\<close> given as text counts when it is a decimal integer.
\<close>

definition dec_value :: "jstr \<Rightarrow> int" where
  "dec_value s =
     (let t = trim s
      in if t \<noteq> [] \<and> list_all is_digit t then int (fst (pdigits 0 t))
         else if t \<noteq> [] \<and> hd t = 0x2D \<and> list_all is_digit (tl t) then - int (fst (pdigits 0 (tl t))) else 0)"

definition length_value :: "jsval \<Rightarrow> int res" where
  "length_value v =
     (case v of JNum n \<Rightarrow> Inr n | JUndef \<Rightarrow> Inr 0 | JNull \<Rightarrow> Inr 0 | JBool b \<Rightarrow> Inr (of_bool b)
      | _ \<Rightarrow> bind_res (to_str v) (\<lambda>s. Inr (dec_value s)))"

fun hex_pairs :: "jsval list \<Rightarrow> bytes res" where
  "hex_pairs (a # b # vs) =
     bind_res (to_str (JArr [a, b])) (\<lambda>s. bind_res (hex_pairs vs) (\<lambda>bs. Inr (parseInt16 s # bs)))"
| "hex_pairs _ = Inr []"

definition msg_not_function :: jstr where "msg_not_function = lit ''hex.slice is not a function''"

definition hex_value :: "jsval \<Rightarrow> bytes res" where
  "hex_value v =
     (case v of
        JStr s \<Rightarrow> Inr (hexToBytes s)
      | JArr vs \<Rightarrow> hex_pairs vs
      | JObj kvs \<Rightarrow>
          bind_res (get v (lit ''length'')) (\<lambda>len. bind_res (length_value len) (\<lambda>n.
          throw_if (n < -1 \<or> 2 \<le> n) msg_not_function (Inr [])))
      | _ \<Rightarrow> Inr [])"

section \<open>Canonical manifest bytes\<close>

text \<open>
  An own key \<open>__proto__\<close> assigned to a fresh object sets its prototype instead of a property,
  and the language lists the keys that are array indices first, in numeric order.
\<close>

definition PROTO :: jstr where "PROTO = lit ''__proto__''"

definition index_key :: "jstr \<Rightarrow> bool" where
  "index_key k = (k = digs (fst (pdigits 0 k)) \<and> fst (pdigits 0 k) < 2 ^ 32 - 1)"

definition enum_order :: "(jstr \<times> jsval) list \<Rightarrow> (jstr \<times> jsval) list" where
  "enum_order kvs =
     sort_key (\<lambda>m. fst (pdigits 0 (fst m))) (filter (\<lambda>m. index_key (fst m)) kvs) @
     filter (\<lambda>m. \<not> index_key (fst m)) kvs"

definition assign_new :: "(jstr \<times> jsval) list \<Rightarrow> jstr \<Rightarrow> jsval \<Rightarrow> (jstr \<times> jsval) list" where
  "assign_new acc k v = (if k = PROTO then acc else put acc k v)"

fun deepSortKeys :: "jsval \<Rightarrow> jsval" where
  "deepSortKeys (JArr vs) = JArr (map deepSortKeys vs)"
| "deepSortKeys (JObj kvs) =
     (let sorted_members = map (\<lambda>(k, v). (k, deepSortKeys v)) kvs
      in JObj (enum_order (foldl (\<lambda>acc k. assign_new acc k (the (map_of sorted_members k))) [] (sort (map fst kvs)))))"
| "deepSortKeys v = v"

definition canonicalJsonBytes :: "jsval \<Rightarrow> bytes" where
  "canonicalJsonBytes v = utf8 (text_or_undefined (JSON_stringify (deepSortKeys v)))"

text \<open>\<open>Object.assign({}, manifest)\<close> and \<open>delete copy.signature\<close>.\<close>

definition without_signature :: "jsval \<Rightarrow> jsval" where
  "without_signature manifest =
     (case manifest of
        JObj kvs \<Rightarrow> JObj (filter (\<lambda>m. fst m \<noteq> lit ''signature'')
                     (foldl (\<lambda>acc m. assign_new acc (fst m) (snd m)) [] kvs))
      | _ \<Rightarrow> JObj [])"

section \<open>The check\<close>

datatype verdict = Not_checked | Tampered jstr jstr | Crashed jstr | Not_covered jstr | Verified jstr

text \<open>The text of a request's answer, or the message its \<open>catch\<close> shows.\<close>

definition ok_body :: "reply \<Rightarrow> bytes res" where
  "ok_body r = (case r of No_reply m \<Rightarrow> Inl m | Reply ok st body \<Rightarrow> throw_if (\<not> ok) (lit ''HTTP '' @ num_str st) (Inr body))"

definition fetch_manifest :: "site_env \<Rightarrow> jsval res" where
  "fetch_manifest env = bind_res (ok_body (manifest_reply env)) (\<lambda>body. parse_text (from_utf8_lossy body))"

definition or_crash :: "'a res \<Rightarrow> ('a \<Rightarrow> verdict) \<Rightarrow> verdict" where
  "or_crash r f = (case r of Inl e \<Rightarrow> Crashed e | Inr x \<Rightarrow> f x)"

text \<open>The long \<open>||\<close> condition on the signature and the signer, left to right.\<close>

definition signer_wrong :: "jsval \<Rightarrow> bool res" where
  "signer_wrong manifest =
     bind_res (get manifest (lit ''signature'')) (\<lambda>sig.
     if \<not> truthy sig then Inr True else
     bind_res (get sig (lit ''algorithm'')) (\<lambda>alg.
     if alg \<noteq> JStr (lit ''ed25519'') then Inr True else
     bind_res (get sig (lit ''signature_hex'')) (\<lambda>hex.
     if \<not> truthy hex then Inr True else
     bind_res (get manifest (lit ''signer'')) (\<lambda>signer.
     if \<not> truthy signer then Inr True else
     bind_res (get signer (lit ''public_key_hex'')) (\<lambda>pk. Inr (pk \<noteq> JStr PINNED_SIGNER_PUBKEY_HEX))))))"

definition signer_details :: "jsval \<Rightarrow> jstr res" where
  "signer_details manifest =
     bind_res (get manifest (lit ''signer'')) (\<lambda>signer.
     bind_res (if truthy signer then get signer (lit ''public_key_hex'') else Inr signer) (\<lambda>got.
     bind_res (to_str got) (\<lambda>g. Inr (lit ''got='' @ g @ [10] @ lit ''pinned='' @ PINNED_SIGNER_PUBKEY_HEX))))"

definition msg_no_ed25519 :: jstr where "msg_no_ed25519 = lit (''Browser doesn'' @ squote @ ''t support Ed25519 signature verification.'')"
definition msg_upgrade :: jstr where "msg_upgrade = lit ''Upgrade to a current Chrome / Firefox / Safari. ''"
definition msg_bad_signature :: jstr where "msg_bad_signature = lit ''Manifest signature verification FAILED.''"
definition msg_bad_signature_more :: jstr where
  "msg_bad_signature_more = lit (''The manifest bytes don'' @ squote @ ''t match the claimed ed25519 signature. Either the manifest was modified after signing, or the signing key was compromised.'')"

definition check_page :: "site_env \<Rightarrow> jsval \<Rightarrow> verdict" where
  "check_page env manifest =
     (let key = manifestKeyForLocation (pathname env)
      in or_crash (bind_res (get manifest (lit ''files'')) (\<lambda>files. if truthy files then get files key else Inr files)) (\<lambda>expectedHash.
         if \<not> truthy expectedHash then Not_covered key
         else (case ok_body (page_reply env) of
                 Inl m \<Rightarrow> Tampered (lit ''Could not fetch this page for self-hash check.'') m
               | Inr pageBytes \<Rightarrow>
                   (let actualHash = sha256Hex env pageBytes
                    in if JStr actualHash \<noteq> expectedHash then
                         or_crash (to_str expectedHash) (\<lambda>x. Tampered (lit ''Page hash mismatch.'')
                           (lit ''path:     '' @ pathname env @ [10] @ lit ''expected: '' @ x @ [10] @ lit ''actual:   '' @ actualHash))
                       else Verified key))))"

definition signed_bytes :: "jsval \<Rightarrow> bytes" where
  "signed_bytes manifest = utf8 SIGNATURE_DOMAIN @ canonicalJsonBytes (without_signature manifest)"

definition check_signature :: "site_env \<Rightarrow> jsval \<Rightarrow> verdict" where
  "check_signature env manifest =
     or_crash (bind_res (get manifest (lit ''signature'')) (\<lambda>sig. bind_res (get sig (lit ''signature_hex'')) hex_value)) (\<lambda>sigBytes.
     case ed25519_verify env (hexToBytes PINNED_SIGNER_PUBKEY_HEX) sigBytes (signed_bytes manifest) of
       Inl e \<Rightarrow> Tampered msg_no_ed25519 (msg_upgrade @ e)
     | Inr sigOk \<Rightarrow> if \<not> sigOk then Tampered msg_bad_signature msg_bad_signature_more else check_page env manifest)"

definition verify :: "site_env \<Rightarrow> verdict" where
  "verify env =
     (if hasStrictCsp (pathname env) then Not_checked
      else (case fetch_manifest env of
              Inl m \<Rightarrow> Tampered (lit ''Could not fetch /site-integrity.json'') m
            | Inr manifest \<Rightarrow>
                or_crash (get manifest (lit ''schema'')) (\<lambda>schema.
                if schema \<noteq> JStr MANIFEST_SCHEMA then
                  or_crash (to_str schema) (\<lambda>s. Tampered (lit ''Manifest schema unknown: '' @ s) [])
                else or_crash (signer_wrong manifest) (\<lambda>wrong.
                  if wrong then or_crash (signer_details manifest)
                    (Tampered (lit (''Manifest signer key doesn'' @ squote @ ''t match the pinned key.'')))
                  else check_signature env manifest))))"

section \<open>What the visitor sees\<close>

record screen =
  banner :: "jstr option"
  content_hidden :: bool
  badge :: bool
  notice :: bool

definition escape_lt :: "jstr \<Rightarrow> jstr" where
  "escape_lt s = concat (map (\<lambda>u. if u = 0x3C then lit ''&lt;'' else [u]) s)"

definition showTamperBanner :: "jstr \<Rightarrow> jstr \<Rightarrow> screen" where
  "showTamperBanner reason details =
     \<lparr>banner = Some (escape_lt (reason @ [10, 10] @ details)), content_hidden = True, badge = False, notice = False\<rparr>"

definition showVerifiedBadge :: "jstr \<Rightarrow> screen" where
  "showVerifiedBadge path =
     \<lparr>banner = None, content_hidden = False, badge = (drop_slash path = lit ''/verify''), notice = False\<rparr>"

definition screen_of :: "site_env \<Rightarrow> screen" where
  "screen_of env =
     (case verify env of
        Not_checked \<Rightarrow> \<lparr>banner = None, content_hidden = False, badge = False, notice = True\<rparr>
      | Tampered reason details \<Rightarrow> showTamperBanner reason details
      | Crashed _ \<Rightarrow> \<lparr>banner = None, content_hidden = False, badge = False, notice = False\<rparr>
      | Not_covered _ \<Rightarrow> showVerifiedBadge (pathname env)
      | Verified _ \<Rightarrow> showVerifiedBadge (pathname env))"

section \<open>The signer\<close>

text \<open>
  \<open>json.dumps(m, sort_keys=True, separators=(",", ":"), ensure_ascii=False)\<close>: keys in code
  point order, only quotes, backslashes and controls escaped.
\<close>

definition py_esc1 :: "16 word \<Rightarrow> jstr" where
  "py_esc1 u =
     (if u = 0x22 then [0x5C, 0x22] else if u = 0x5C then [0x5C, 0x5C] else if u = 10 then [0x5C, 0x6E]
      else if u = 13 then [0x5C, 0x72] else if u = 9 then [0x5C, 0x74] else if u = 12 then [0x5C, 0x66]
      else if u = 8 then [0x5C, 0x62] else if unat u < 0x20 then [0x5C, 0x75] @ hex4 (unat u) else [u])"

definition py_quote :: "jstr \<Rightarrow> jstr" where
  "py_quote s = 0x22 # concat (map py_esc1 s) @ [0x22]"

fun py_dumps :: "jsval \<Rightarrow> jstr" where
  "py_dumps (JArr vs) = 0x5B # join [0x2C] (map py_dumps vs) @ [0x5D]"
| "py_dumps (JObj kvs) =
     (let texts = map (\<lambda>(k, v). (k, py_dumps v)) kvs
      in 0x7B # join [0x2C] (map (\<lambda>k. py_quote k @ 0x3A # the (map_of texts k)) (sort_key code_points (map fst kvs))) @ [0x7D])"
| "py_dumps (JStr s) = py_quote s"
| "py_dumps v = text_or_undefined (JSON_stringify v)"

definition canonical_manifest_bytes :: "jsval \<Rightarrow> bytes" where
  "canonical_manifest_bytes m = utf8 (py_dumps m)"

section \<open>Sorting without changing what is read\<close>

lemma foldl_assign:
  assumes "distinct ks"
  shows "foldl (\<lambda>acc k. assign_new acc k (f k)) [] ks = map (\<lambda>k. (k, f k)) (filter (\<lambda>k. k \<noteq> PROTO) ks)"
  using assms
proof (induction ks rule: rev_induct)
  case (snoc k ks)
  let ?m = "map (\<lambda>k. (k, f k)) (filter (\<lambda>k. k \<noteq> PROTO) ks)"
  have "k \<notin> fst ` set ?m" using snoc.prems by auto
  then have "put ?m k (f k) = ?m @ [(k, f k)]" by (rule put_new)
  then show ?case using snoc by (simp add: assign_new_def)
qed simp

definition kept_keys :: "(jstr \<times> jsval) list \<Rightarrow> jstr list" where
  "kept_keys kvs = filter (\<lambda>k. k \<noteq> PROTO) (sort (map fst kvs))"

definition kept :: "(jstr \<times> jsval) list \<Rightarrow> (jstr \<times> jsval) list" where
  "kept kvs = map (\<lambda>k. (k, deepSortKeys (the (map_of kvs k)))) (kept_keys kvs)"

lemma kept_key: "k \<in> set (kept_keys kvs) \<longleftrightarrow> k \<noteq> PROTO \<and> map_of kvs k \<noteq> None"
  by (auto simp: kept_keys_def map_of_eq_None_iff)

lemma distinct_kept: "distinct (map fst kvs) \<Longrightarrow> distinct (map fst (kept kvs))"
  by (simp add: kept_def kept_keys_def comp_def)

lemma map_of_kept: "k \<noteq> PROTO \<Longrightarrow> map_of (kept kvs) k = map_option deepSortKeys (map_of kvs k)"
  by (cases "map_of kvs k")
     (simp_all add: kept_def map_of_map_restrict restrict_map_def kept_key)

lemma deep_members:
  assumes "distinct (map fst kvs)"
  shows "deepSortKeys (JObj kvs) = JObj (enum_order (kept kvs))"
proof -
  have "the (map_of (map (\<lambda>(k, v). (k, deepSortKeys v)) kvs) k) = deepSortKeys (the (map_of kvs k))"
    if "k \<in> set (kept_keys kvs)" for k
    using that by (auto simp: kept_key map_of_map_snd)
  then have "map (\<lambda>k. (k, the (map_of (map (\<lambda>(k, v). (k, deepSortKeys v)) kvs) k))) (kept_keys kvs) = kept kvs"
    unfolding kept_def by (intro map_cong) auto
  moreover have "distinct (sort (map fst kvs))" using assms by simp
  ultimately show ?thesis by (simp only: deepSortKeys.simps Let_def foldl_assign kept_keys_def)
qed

lemma mset_enum_order: "mset (enum_order kvs) = mset kvs"
proof -
  have "mset kvs = filter_mset (\<lambda>m. index_key (fst m)) (mset kvs) + filter_mset (\<lambda>m. \<not> index_key (fst m)) (mset kvs)"
    by (rule multiset_partition)
  then show ?thesis by (simp add: enum_order_def mset_filter)
qed

lemma enum_order_lookup:
  assumes "distinct (map fst kvs)"
  shows "distinct (map fst (enum_order kvs))" and "map_of (enum_order kvs) k = map_of kvs k"
    and "set (enum_order kvs) = set kvs"
proof -
  have m: "mset (map fst (enum_order kvs)) = mset (map fst kvs)" by (simp add: mset_enum_order)
  then show d: "distinct (map fst (enum_order kvs))"
    using assms mset_eq_setD [OF m] unfolding distinct_count_atmost_1 by simp
  show e: "set (enum_order kvs) = set kvs" using mset_enum_order mset_eq_setD by blast
  have "map_of (enum_order kvs) = map_of kvs" using e map_of_inject_set [OF d assms] by blast
  then show "map_of (enum_order kvs) k = map_of kvs k" by simp
qed

lemma wf_deep: "wf_val v \<Longrightarrow> wf_val (deepSortKeys v)"
proof (induction v)
  case (JObj kvs)
  have d: "distinct (map fst kvs)" using JObj.prems by simp
  have "wf_val (deepSortKeys (the (map_of kvs k)))" if k: "k \<in> set (kept_keys kvs)" for k
  proof -
    from k obtain v where v: "map_of kvs k = Some v" by (auto simp: kept_key)
    then have m: "(k, v) \<in> set kvs" by (rule map_of_SomeD)
    have "wf_val v" using JObj.prems m by (rule wf_val_member)
    then have "wf_val (deepSortKeys v)" using JObj.IH [OF m, of v] by simp
    then show ?thesis using v by simp
  qed
  then have "list_all (\<lambda>(k, v). wf_val v) (kept kvs)" by (auto simp: list_all_iff kept_def)
  then show ?case unfolding deep_members [OF d]
    using enum_order_lookup [OF distinct_kept [OF d]] by (simp add: list_all_iff)
qed (simp_all add: list_all_iff)

lemma get_deep:
  assumes "wf_val v" and "k \<noteq> PROTO"
  shows "get (deepSortKeys v) k = bind_res (get v k) (\<lambda>x. Inr (deepSortKeys x))"
proof (cases v)
  case (JObj kvs)
  then have d: "distinct (map fst kvs)" using assms(1) by simp
  have "map_of (enum_order (kept kvs)) k = map_option deepSortKeys (map_of kvs k)"
    using enum_order_lookup(2) [OF distinct_kept [OF d]] map_of_kept [OF assms(2)] by simp
  then show ?thesis unfolding JObj deep_members [OF d] by (simp split: option.split)
qed (simp_all)

lemma canonical_inj:
  assumes "wf_val v" and "wf_val w" and "canonicalJsonBytes v = canonicalJsonBytes w"
  shows "deepSortKeys v = deepSortKeys w"
proof -
  note wf = wf_deep [OF assms(1)] wf_deep [OF assms(2)]
  have "utf8 (text_of [] [] (deepSortKeys v)) = utf8 (text_of [] [] (deepSortKeys w))"
    using assms(3) by (simp add: canonicalJsonBytes_def JSON_stringify_def json_str_text_of wf text_or_undefined_def)
  then have "text_of [] [] (deepSortKeys v) = text_of [] [] (deepSortKeys w)"
    using utf8_inj [OF wf16_text_of [OF wf(1)] wf16_text_of [OF wf(2)]] by simp
  then show ?thesis using json_text.enc_inj [OF wf] by simp
qed

lemma foldl_assign_members:
  "distinct (map fst kvs) \<Longrightarrow>
   foldl (\<lambda>acc m. assign_new acc (fst m) (snd m)) [] kvs = filter (\<lambda>m. fst m \<noteq> PROTO) kvs"
proof (induction kvs rule: rev_induct)
  case (snoc m kvs)
  then have "fst m \<notin> fst ` set (filter (\<lambda>m. fst m \<noteq> PROTO) kvs)" by auto
  then have "put (filter (\<lambda>m. fst m \<noteq> PROTO) kvs) (fst m) (snd m) = filter (\<lambda>m. fst m \<noteq> PROTO) kvs @ [m]"
    by (simp add: put_new)
  then show ?case using snoc by (simp add: assign_new_def)
qed simp

lemma map_of_filter_key: "P k \<Longrightarrow> map_of (filter (\<lambda>m. P (fst m)) kvs) k = map_of kvs k"
  by (induction kvs) auto

lemma wf_without_signature: "wf_val m \<Longrightarrow> wf_val (without_signature m)"
  by (cases m) (auto simp: without_signature_def foldl_assign_members list_all_iff distinct_map_filter)

lemma get_without_signature:
  assumes "wf_val m" and "k \<noteq> lit ''signature''" and "k \<noteq> PROTO" and "get m k = Inr x" and "x \<noteq> JUndef"
  shows "get (without_signature m) k = Inr x"
proof -
  obtain kvs where m: "m = JObj kvs" using assms(4,5) by (cases m) auto
  then have "without_signature m = JObj (filter (\<lambda>m. fst m \<noteq> PROTO \<and> fst m \<noteq> lit ''signature'') kvs)"
    using assms(1) by (simp add: without_signature_def foldl_assign_members)
  moreover have "map_of (filter (\<lambda>m. fst m \<noteq> PROTO \<and> fst m \<noteq> lit ''signature'') kvs) k = map_of kvs k"
    using assms(2,3) map_of_filter_key [of "\<lambda>k. k \<noteq> PROTO \<and> k \<noteq> lit ''signature''" k kvs] by simp
  ultimately show ?thesis using assms(4) m by simp
qed

lemma get_with_signature:
  assumes "wf_val m" and "k \<noteq> lit ''signature''" and "k \<noteq> PROTO" and "get (without_signature m) k = Inr x" and "x \<noteq> JUndef"
  shows "get m k = Inr x"
proof (cases m)
  case (JObj kvs)
  then have "without_signature m = JObj (filter (\<lambda>m. fst m \<noteq> PROTO \<and> fst m \<noteq> lit ''signature'') kvs)"
    using assms(1) by (simp add: without_signature_def foldl_assign_members)
  moreover have "map_of (filter (\<lambda>m. fst m \<noteq> PROTO \<and> fst m \<noteq> lit ''signature'') kvs) k = map_of kvs k"
    using assms(2,3) map_of_filter_key [of "\<lambda>k. k \<noteq> PROTO \<and> k \<noteq> lit ''signature''" k kvs] by simp
  ultimately show ?thesis using assms(4) JObj by simp
qed (use assms(4,5) in \<open>simp_all add: without_signature_def\<close>)

lemma get_undef_Inl: "get JUndef k \<noteq> Inr x"
  by simp

lemma key_has_dot: "0x2E \<in> set (manifestKeyForLocation p)"
proof -
  have "0x2E \<in> set (lit ''index.html'')" "0x2E \<in> set (lit ''.html'')" by code_simp+
  then show ?thesis by (simp add: manifestKeyForLocation_def Let_def)
qed

lemma key_not_proto: "manifestKeyForLocation p \<noteq> PROTO"
proof -
  have "0x2E \<notin> set PROTO" by code_simp
  then show ?thesis using key_has_dot by metis
qed

section \<open>A verified page was signed\<close>

text \<open>A value read under a key of a value equal up to the order of the keys.\<close>

lemma deep_eq_JStr: "deepSortKeys v = JStr s \<longleftrightarrow> v = JStr s"
  by (cases v) (simp_all add: Let_def)

lemma deep_eq_JObj: "deepSortKeys v = JObj kvs \<Longrightarrow> \<exists>kvs'. v = JObj kvs'"
  by (cases v) (simp_all add: Let_def)

lemma wf_get:
  assumes "wf_val v" and "get v k = Inr x"
  shows "x = JUndef \<or> wf_val x"
proof (cases v)
  case (JObj kvs)
  show ?thesis
  proof (cases "map_of kvs k")
    case (Some y)
    then have "wf_val y" using assms(1) map_of_SomeD unfolding JObj by (metis wf_val_member)
    then show ?thesis using assms(2) Some by (simp add: JObj)
  qed (use assms(2) in \<open>simp add: JObj\<close>)
qed (use assms(2) in auto)

lemma hash_read_in_signed:
  assumes wf: "wf_val a" "wf_val b" and same: "deepSortKeys a = deepSortKeys b"
    and k: "k \<noteq> PROTO" "j \<noteq> PROTO"
    and a: "get a j = Inr x" "get x k = Inr (JStr h)"
  shows "\<exists>y. get b j = Inr y \<and> get y k = Inr (JStr h)"
proof -
  have "get (deepSortKeys b) j = Inr (deepSortKeys x)"
    using get_deep [OF wf(1) k(2)] a(1) same by simp
  then obtain y where y: "get b j = Inr y" "deepSortKeys y = deepSortKeys x"
    using get_deep [OF wf(2) k(2)] by auto
  have "\<exists>kvs. x = JObj kvs" using a(2) by (cases x) auto
  then obtain kvs where x: "x = JObj kvs" by blast
  then have wx: "wf_val x" using wf_get [OF wf(1) a(1)] by blast
  obtain kvs' where "y = JObj kvs'" using deep_eq_JObj [OF y(2) [unfolded x deepSortKeys.simps Let_def]] by blast
  then have wy: "wf_val y" using wf_get [OF wf(2) y(1)] by blast
  have "get (deepSortKeys y) k = Inr (JStr h)" using get_deep [OF wx k(1)] a(2) y(2) by simp
  then obtain z where "get y k = Inr z" "deepSortKeys z = JStr h" using get_deep [OF wy k(1)] by auto
  then show ?thesis using y(1) by (auto simp: deep_eq_JStr)
qed

text \<open>What the checks before the signature establish, and what the page check reads.\<close>

lemma or_crash_noncrash:
  assumes "or_crash r f = v" and "\<And>e. v \<noteq> Crashed e"
  shows "\<exists>x. r = Inr x \<and> f x = v"
  using assms by (cases r) (auto simp: or_crash_def)

lemma check_page_Verified:
  assumes "check_page env m = Verified key"
  shows "key = manifestKeyForLocation (pathname env) \<and>
    (\<exists>files st page. get m (lit ''files'') = Inr files \<and> page_reply env = Reply True st page \<and>
       get files key = Inr (JStr (sha256Hex env page)))"
proof -
  obtain h where h: "bind_res (get m (lit ''files'')) (\<lambda>files. if truthy files then get files (manifestKeyForLocation (pathname env)) else Inr files) = Inr h"
    and r: "(if \<not> truthy h then Not_covered (manifestKeyForLocation (pathname env))
         else (case ok_body (page_reply env) of
                 Inl m \<Rightarrow> Tampered (lit ''Could not fetch this page for self-hash check.'') m
               | Inr pageBytes \<Rightarrow>
                   (let actualHash = sha256Hex env pageBytes
                    in if JStr actualHash \<noteq> h then
                         or_crash (to_str h) (\<lambda>x. Tampered (lit ''Page hash mismatch.'')
                           (lit ''path:     '' @ pathname env @ [10] @ lit ''expected: '' @ x @ [10] @ lit ''actual:   '' @ actualHash))
                       else Verified (manifestKeyForLocation (pathname env))))) = Verified key"
    using or_crash_noncrash [OF assms [unfolded check_page_def Let_def]] unfolding Let_def by blast
  from r have t: "truthy h" by (auto split: if_splits)
  from r t obtain page where p: "ok_body (page_reply env) = Inr page" and e: "h = JStr (sha256Hex env page)"
    and k: "key = manifestKeyForLocation (pathname env)"
    by (auto simp: Let_def or_crash_def split: sum.splits if_splits)
  from p obtain st where "page_reply env = Reply True st page" by (auto simp: ok_body_def split: reply.splits)
  moreover from h t obtain files where "get m (lit ''files'') = Inr files" "get files key = Inr h"
    unfolding k by (auto split: if_splits)
  ultimately show ?thesis using e k by blast
qed

lemma falsy_get: "\<not> truthy x \<Longrightarrow> get x k \<noteq> Inr (JStr h)"
  by (cases x) auto

lemma check_page_Not_covered:
  assumes "check_page env m = Not_covered key"
  shows "key = manifestKeyForLocation (pathname env)"
    and "\<nexists>files h. get m (lit ''files'') = Inr files \<and> get files key = Inr (JStr h) \<and> h \<noteq> []"
  using assms
  by (auto simp: check_page_def Let_def or_crash_def falsy_get split: sum.splits if_splits)

lemma verify_shown:
  assumes "verify env \<in> {Verified key, Not_covered key}"
  shows "\<exists>m sig. wf_val m \<and> ed25519_verify env (hexToBytes PINNED_SIGNER_PUBKEY_HEX) sig (signed_bytes m) = Inr True \<and>
    check_page env m = verify env"
proof -
  from assms have nc: "\<not> hasStrictCsp (pathname env)" by (auto simp: verify_def)
  with assms obtain m where m: "fetch_manifest env = Inr m"
    by (cases "fetch_manifest env") (auto simp: verify_def)
  then obtain body where "JSON_parse (from_utf8_lossy body) = Some m"
    by (auto simp: fetch_manifest_def parse_text_def)
  then have wf: "wf_val m" by (rule JSON_parse_wf)
  from assms nc m have "check_signature env m = verify env"
    by (auto simp: verify_def or_crash_def split: sum.splits if_splits)
  moreover from this assms obtain sig where "ed25519_verify env (hexToBytes PINNED_SIGNER_PUBKEY_HEX) sig (signed_bytes m) = Inr True"
    "check_page env m = check_signature env m"
    by (auto simp: check_signature_def or_crash_def split: sum.splits if_splits)
  ultimately show ?thesis using wf by auto
qed

lemma verify_Verified:
  assumes "verify env = Verified key"
  shows "\<exists>m sig. wf_val m \<and> fetch_manifest env = Inr m \<and>
    ed25519_verify env (hexToBytes PINNED_SIGNER_PUBKEY_HEX) sig (signed_bytes m) = Inr True \<and>
    check_page env m = Verified key"
proof -
  from assms have nc: "\<not> hasStrictCsp (pathname env)" by (auto simp: verify_def)
  with assms obtain m where m: "fetch_manifest env = Inr m"
    by (cases "fetch_manifest env") (auto simp: verify_def)
  then obtain body where "JSON_parse (from_utf8_lossy body) = Some m"
    by (auto simp: fetch_manifest_def parse_text_def)
  then have wf: "wf_val m" by (rule JSON_parse_wf)
  from assms nc m have "check_signature env m = Verified key"
    by (auto simp: verify_def or_crash_def split: sum.splits if_splits)
  then obtain sig where "ed25519_verify env (hexToBytes PINNED_SIGNER_PUBKEY_HEX) sig (signed_bytes m) = Inr True"
    "check_page env m = Verified key"
    by (auto simp: check_signature_def or_crash_def split: sum.splits if_splits)
  with wf m show ?thesis by blast
qed

section \<open>The signer's bytes\<close>

text \<open>Keys that both sides order alike, and strings both quote alike.\<close>

definition plain_key :: "jstr \<Rightarrow> bool" where
  "plain_key k = (k \<noteq> PROTO \<and> \<not> index_key k \<and> list_all (\<lambda>u. unat u < 0x80) k)"

fun signable :: "jsval \<Rightarrow> bool" where
  "signable (JStr s) = wf16 s"
| "signable (JArr vs) = list_all signable vs"
| "signable (JObj kvs) = list_all (\<lambda>(k, v). plain_key k \<and> signable v) kvs"
| "signable _ = True"

lemma py_quote_body: "wf16 s \<Longrightarrow> concat (map py_esc1 s) = quote_body s"
proof (induction s rule: quote_body.induct)
  case (3 u v us)
  have plain: "py_esc1 w = [w]" if "is_surrogate (unat w)" for w
    using that by (auto simp: py_esc1_def is_surrogate_def is_lead_def is_trail_def)
  show ?case
  proof (cases "is_lead (unat u) \<and> is_trail (unat v)")
    case True
    then have "is_surrogate (unat u)" "is_surrogate (unat v)" by (auto simp: is_surrogate_def is_lead_def is_trail_def)
    then show ?thesis using 3 True by (simp add: plain)
  next
    case False
    then show ?thesis using 3 by (auto simp: py_esc1_def esc1_def)
  qed
qed (auto simp: py_esc1_def esc1_def)

lemma py_quote_eq: "wf16 s \<Longrightarrow> py_quote s = quote s"
  by (simp add: py_quote_def quote_def py_quote_body)

lemma code_points_ascii: "list_all (\<lambda>u. unat u < 0x80) k \<Longrightarrow> code_points k = map unat k"
proof (induction k rule: code_points.induct)
  case (3 u v us)
  then have "\<not> is_lead (unat u)" "\<not> is_surrogate (unat u)" by (auto simp: is_lead_def is_trail_def is_surrogate_def)
  then show ?case using 3 by (simp add: cp_or_replacement_def)
qed (auto simp: cp_or_replacement_def)

lemma map_unat_mono: "(s :: jstr) \<le> t \<Longrightarrow> map unat s \<le> map unat t"
proof (induction s arbitrary: t)
  case (Cons u s)
  then show ?case by (cases t) (auto simp: word_less_nat_alt)
qed simp

lemma inj_unat: "inj (unat :: 16 word \<Rightarrow> nat)"
  by (rule injI) (simp add: word_unat_eq_iff)

lemma sort_code_points:
  assumes "\<forall>k \<in> set ks. list_all (\<lambda>u. unat u < 0x80) k"
  shows "sort_key code_points ks = sort ks"
proof (rule sort_key_inj_key_eq)
  have cp: "code_points k = map unat k" if "k \<in> set ks" for k using assms that code_points_ascii by blast
  show "mset ks = mset (sort ks)" by simp
  show "inj_on code_points (set ks)"
    by (rule inj_onI) (simp add: cp inj_map_eq_map [OF inj_unat])
  have "sorted_wrt (\<lambda>a b. code_points a \<le> code_points b) (sort ks)"
    using sorted_sort [of ks] by (rule sorted_wrt_mono_rel [rotated]) (auto simp: cp map_unat_mono)
  then show "sorted (map code_points (sort ks))" by (simp add: sorted_map)
qed

lemma plain_keys:
  assumes "signable (JObj kvs)" shows "\<forall>k \<in> set (map fst kvs). plain_key k"
  using assms by (auto simp: list_all_iff)

lemma deep_sort_plain: "wf_val v \<Longrightarrow> signable v \<Longrightarrow> deepSortKeys v = sort_keys v"
proof (induction v)
  case (JObj kvs)
  have d: "distinct (map fst kvs)" using JObj.prems by simp
  have pk: "\<forall>k \<in> set (map fst kvs). plain_key k" using JObj.prems(2) by (rule plain_keys)
  have ks: "kept_keys kvs = sort (map fst kvs)"
    unfolding kept_keys_def using pk by (intro filter_True) (auto simp: plain_key_def)
  have e: "deepSortKeys (the (map_of kvs k)) = sort_keys (the (map_of kvs k))" if "k \<in> set (kept_keys kvs)" for k
  proof -
    from that obtain v where v: "map_of kvs k = Some v" by (auto simp: kept_key)
    then have m: "(k, v) \<in> set kvs" by (rule map_of_SomeD)
    then have "wf_val v" "signable v" using JObj.prems by (auto simp: list_all_iff)
    then show ?thesis using JObj.IH [OF m, of v] v by simp
  qed
  have "kept kvs = map (\<lambda>k. (k, sort_keys (the (map_of kvs k)))) (sort (map fst kvs))"
    unfolding kept_def ks by (rule map_cong [OF refl]) (use e ks in auto)
  moreover have "enum_order (kept kvs) = kept kvs"
  proof -
    have "\<forall>m \<in> set (kept kvs). \<not> index_key (fst m)" using pk by (auto simp: kept_def ks plain_key_def)
    then show ?thesis by (simp add: enum_order_def)
  qed
  ultimately show ?case by (simp only: deep_members [OF d] sorted_members [OF d])
qed (auto simp: list_all_iff)

lemma py_dumps_canonical: "wf_val v \<Longrightarrow> signable v \<Longrightarrow> canonicalJSON v = Some (py_dumps v)"
proof (induction v)
  case (JArr vs)
  then have "map (\<lambda>v. text_or_empty (canonicalJSON v)) vs = map py_dumps vs"
    by (intro map_cong) (auto simp: list_all_iff text_or_empty_def)
  then show ?case by (simp only: canonicalJSON.simps py_dumps.simps)
next
  case (JObj kvs)
  have pk: "\<forall>k \<in> set (map fst kvs). plain_key k" using JObj.prems(2) by (rule plain_keys)
  have "map (\<lambda>(k, v). (k, text_or_undefined (canonicalJSON v))) kvs = map (\<lambda>(k, v). (k, py_dumps v)) kvs"
  proof (rule map_cong [OF refl])
    fix x assume x: "x \<in> set kvs"
    obtain k v where kv: "x = (k, v)" by (cases x)
    with x JObj.prems have "wf_val v" "signable v" by (auto simp: list_all_iff)
    then show "(case x of (k, v) \<Rightarrow> (k, text_or_undefined (canonicalJSON v))) = (case x of (k, v) \<Rightarrow> (k, py_dumps v))"
      using JObj.IH [OF x, of v] by (simp add: kv text_or_undefined_def)
  qed
  moreover have "sort_key code_points (map fst kvs) = sort (map fst kvs)"
    using pk by (intro sort_code_points) (auto simp: plain_key_def)
  moreover have "quote k = py_quote k" if "k \<in> set (sort (map fst kvs))" for k
  proof -
    have "\<forall>u \<in> set k. unat u < 0xD800" using pk that by (fastforce simp: plain_key_def list_all_iff)
    then show ?thesis by (simp add: py_quote_eq wf16_ascii)
  qed
  ultimately show ?case
    by (simp only: canonicalJSON.simps py_dumps.simps Let_def cong: map_cong)
qed (auto simp: JSON_stringify_def text_or_undefined_def py_quote_eq)

lemma signer_bytes:
  assumes "wf_val m" and "signable m"
  shows "canonical_manifest_bytes m = canonicalJsonBytes m"
proof -
  have "Some (py_dumps m) = Some (text_of [] [] (sort_keys m))"
    using py_dumps_canonical [OF assms] canonicalJSON_eq [OF assms(1)] by simp
  then show ?thesis using wf_sort_keys [OF assms(1)]
    by (simp add: canonical_manifest_bytes_def canonicalJsonBytes_def deep_sort_plain assms
        JSON_stringify_def json_str_text_of text_or_undefined_def)
qed

text \<open>A manifest file is read back whole: its text begins with a brace.\<close>

lemma plain_manifest: "wf_val (JObj kvs) \<Longrightarrow> kvs \<noteq> [] \<Longrightarrow> plain_text (json_file (JObj kvs))"
proof -
  assume a: "wf_val (JObj kvs)" "kvs \<noteq> []"
  have "wf16 (json_file (JObj kvs))" unfolding json_file_def
    using wf16_indented [OF a(1), of "[0x20, 0x20]" "[]"] by (intro wf16_snoc) (simp_all add: wf16_Cons)
  moreover have "\<exists>t. json_file (JObj kvs) = 0x7B # t"
    unfolding json_file_def text_of_obj [OF a] by (simp add: Let_def)
  ultimately show ?thesis by (auto simp: plain_text_def)
qed

section \<open>Correctness\<close>

text \<open>What a page needs to pass: everything the check reads, written out.\<close>

lemma genuine_verifies:
  assumes wf: "wf_val m" and reply: "manifest_reply env = Reply True st (utf8 (json_file m))"
    and schema: "get m (lit ''schema'') = Inr (JStr MANIFEST_SCHEMA)"
    and sig: "get m (lit ''signature'') = Inr (JObj ss)"
      "map_of ss (lit ''algorithm'') = Some (JStr (lit ''ed25519''))"
      "map_of ss (lit ''signature_hex'') = Some (JStr hex)" "hex \<noteq> []"
    and signer: "get m (lit ''signer'') = Inr (JObj sg)"
      "map_of sg (lit ''public_key_hex'') = Some (JStr PINNED_SIGNER_PUBKEY_HEX)"
    and ok: "ed25519_verify env (hexToBytes PINNED_SIGNER_PUBKEY_HEX) (hexToBytes hex)
      (utf8 SIGNATURE_DOMAIN @ canonicalJsonBytes (without_signature m)) = Inr True"
    and files: "get m (lit ''files'') = Inr (JObj fs)"
      "map_of fs (manifestKeyForLocation (pathname env)) = Some (JStr h)" "h \<noteq> []"
    and page: "page_reply env = Reply True st' body" "sha256Hex env body = h"
  shows "verify env = Verified (manifestKeyForLocation (pathname env))"
proof -
  obtain kvs where m: "m = JObj kvs" using schema by (cases m) auto
  have "kvs \<noteq> []" using schema by (auto simp: m)
  then have "units_of (drop_bom (code_points (json_file m))) = json_file m"
    using plain_manifest wf unfolding m by (intro plain_units) blast
  then have f: "fetch_manifest env = Inr m"
    using reply JSON_parse_json_file [OF wf]
    by (simp add: fetch_manifest_def ok_body_def parse_text_def from_utf8_lossy_utf8)
  have "check_page env m = Verified (manifestKeyForLocation (pathname env))"
    using files page by (simp add: check_page_def Let_def or_crash_def ok_body_def)
  moreover have "signer_wrong m = Inr False"
    using sig signer by (simp add: signer_wrong_def)
  ultimately show ?thesis using f schema sig ok
    by (simp add: verify_def hasStrictCsp_def STRICT_CSP_PREFIXES_def or_crash_def check_signature_def
        hex_value_def signed_bytes_def)
qed

text \<open>A small signed site: two files, a hash that is the page itself, one accepted signature.\<close>

definition site_members :: "(jstr \<times> jsval) list" where
  "site_members =
     [(lit ''schema'', JStr MANIFEST_SCHEMA), (lit ''file_count'', JNum 2),
      (lit ''files'', JObj [(lit ''verify.html'', JStr (lit ''0a'')), (lit ''index.html'', JStr (lit ''68f2''))]),
      (lit ''signer'', JObj [(lit ''public_key_hex'', JStr PINNED_SIGNER_PUBKEY_HEX)])]"

definition site_signature :: jsval where
  "site_signature = JObj [(lit ''algorithm'', JStr (lit ''ed25519'')), (lit ''signature_hex'', JStr (lit ''c0de''))]"

definition site_manifest :: jsval where
  "site_manifest = JObj (site_members @ [(lit ''signature'', site_signature)])"

definition example_site :: "reply \<Rightarrow> site_env" where
  "example_site manifest =
     \<lparr>pathname = lit ''/'', manifest_reply = manifest, page_reply = Reply True 200 [0x68, 0xF2],
      digest_sha256 = (\<lambda>bs. bs),
      ed25519_verify = (\<lambda>pk sig bs. Inr (sig = [0xC0, 0xDE] \<and> bs = utf8 SIGNATURE_DOMAIN @ canonicalJsonBytes (JObj site_members)))\<rparr>"

abbreviation genuine_site :: site_env where
  "genuine_site \<equiv> example_site (Reply True 200 (utf8 (json_file site_manifest)))"

lemma site_manifest_wf: "wf_val (JObj site_members)" "wf_val site_manifest"
  by code_simp+

lemma alpha_not_index: "k \<noteq> [] \<Longrightarrow> \<not> is_digit (hd k) \<Longrightarrow> \<not> index_key k"
  using digs_hd [of "fst (pdigits 0 k)"] unfolding index_key_def by (metis list.sel(1))

lemma site_signable: "signable (JObj site_members)"
proof -
  have "\<forall>k \<in> set [lit ''schema'', lit ''file_count'', lit ''files'', lit ''signer'', lit ''verify.html'',
      lit ''index.html'', lit ''public_key_hex'']. k \<noteq> PROTO \<and> k \<noteq> [] \<and> \<not> is_digit (hd k) \<and> list_all (\<lambda>u. unat u < 0x80) k"
    by code_simp
  then have "\<forall>k \<in> set [lit ''schema'', lit ''file_count'', lit ''files'', lit ''signer'', lit ''verify.html'',
      lit ''index.html'', lit ''public_key_hex'']. plain_key k" unfolding plain_key_def using alpha_not_index by blast
  then show ?thesis by (simp add: site_members_def MANIFEST_SCHEMA_def PINNED_SIGNER_PUBKEY_HEX_def)
qed

lemma site_reads:
  "get site_manifest (lit ''schema'') = Inr (JStr MANIFEST_SCHEMA)"
  "get site_manifest (lit ''signature'') = Inr site_signature"
  "get site_manifest (lit ''signer'') = Inr (JObj [(lit ''public_key_hex'', JStr PINNED_SIGNER_PUBKEY_HEX)])"
  "get site_manifest (lit ''files'') =
     Inr (JObj [(lit ''verify.html'', JStr (lit ''0a'')), (lit ''index.html'', JStr (lit ''68f2''))])"
  by (simp_all add: site_manifest_def site_members_def)

lemma without_site_signature: "without_signature site_manifest = JObj site_members"
  by code_simp

lemma sample_site_verifies:
  assumes "manifest_reply env = Reply True 200 (utf8 (json_file site_manifest))" and "page_reply env = Reply True 200 body"
    and "ed25519_verify env = ed25519_verify genuine_site" and "h \<noteq> []" and "sha256Hex env body = h"
    and "map_of [(lit ''verify.html'', JStr (lit ''0a'')), (lit ''index.html'', JStr (lit ''68f2''))]
      (manifestKeyForLocation (pathname env)) = Some (JStr h)"
  shows "verify env = Verified (manifestKeyForLocation (pathname env))"
proof (rule genuine_verifies [where m = site_manifest and hex = "lit ''c0de''" and h = h and body = body
      and ss = "[(lit ''algorithm'', JStr (lit ''ed25519'')), (lit ''signature_hex'', JStr (lit ''c0de''))]"
      and sg = "[(lit ''public_key_hex'', JStr PINNED_SIGNER_PUBKEY_HEX)]"
      and fs = "[(lit ''verify.html'', JStr (lit ''0a'')), (lit ''index.html'', JStr (lit ''68f2''))]"])
  have h: "hexToBytes (lit ''c0de'') = [0xC0, 0xDE]"
    by (simp add: lit_def unit_of_def parseInt16_def hex_prefixed_def hex_run_def js_space_def hex_val_def)
  show "wf_val site_manifest" by (rule site_manifest_wf)
  show "ed25519_verify env (hexToBytes PINNED_SIGNER_PUBKEY_HEX) (hexToBytes (lit ''c0de''))
      (utf8 SIGNATURE_DOMAIN @ canonicalJsonBytes (without_signature site_manifest)) = Inr True"
    by (simp add: assms(3) example_site_def h without_site_signature)
qed (use assms in \<open>simp_all add: site_reads site_signature_def\<close>)

lemma genuine_site_verifies: "verify genuine_site = Verified (lit ''index.html'')"
proof -
  have "manifestKeyForLocation (lit ''/'') = lit ''index.html''" by code_simp
  then have k: "manifestKeyForLocation (pathname genuine_site) = lit ''index.html''" by (simp add: example_site_def)
  have "verify genuine_site = Verified (manifestKeyForLocation (pathname genuine_site))"
    by (rule sample_site_verifies [where h = "lit ''68f2''" and body = "[0x68, 0xF2]"])
      (simp_all add: k, simp_all add: example_site_def sha256Hex_def hex_digit_def lit_def unit_of_def)
  then show ?thesis by (simp only: k)
qed

lemma hash_in_issued:
  assumes "wf_val m" and "wf_val m0" and "canonicalJsonBytes (without_signature m) = canonicalJsonBytes m0"
    and "k = manifestKeyForLocation path"
  shows "(\<exists>files. get m (lit ''files'') = Inr files \<and> get files k = Inr (JStr h)) \<longleftrightarrow>
    (\<exists>files. get m0 (lit ''files'') = Inr files \<and> get files k = Inr (JStr h))"
proof -
  have fk: "lit ''files'' \<noteq> PROTO" "lit ''files'' \<noteq> lit ''signature''" by (simp_all add: PROTO_def)
  have kp: "k \<noteq> PROTO" unfolding assms(4) by (rule key_not_proto)
  note w = wf_without_signature [OF assms(1)]
  note eq = canonical_inj [OF w assms(2,3)]
  have "(\<exists>files. get m (lit ''files'') = Inr files \<and> get files k = Inr (JStr h)) \<longleftrightarrow>
      (\<exists>files. get (without_signature m) (lit ''files'') = Inr files \<and> get files k = Inr (JStr h))"
    using get_without_signature [OF assms(1) fk(2,1)] get_with_signature [OF assms(1) fk(2,1)]
    by (metis get_undef_Inl Inl_Inr_False)
  also have "\<dots> \<longleftrightarrow> (\<exists>files. get m0 (lit ''files'') = Inr files \<and> get files k = Inr (JStr h))"
    using hash_read_in_signed [OF w assms(2) eq kp fk(1)] hash_read_in_signed [OF assms(2) w eq [symmetric] kp fk(1)] by metis
  finally show ?thesis .
qed

text \<open>
  C22: What the verified badge means. If the pinned key accepts only the bytes of the manifests in
  a set (all well formed), then the badge is only shown when the check ended in one of two ways.
  Either the page is verified: one of those manifests has, under the key of the page's own path,
  exactly the hash of the bytes the server sent now, so that neither the order of the keys in
  the served file nor a member kept twice, nor anything added outside the signed part can change
  which hash is compared. Or no hash was compared at all, because the signed manifest lists none
  for that path. The badge does not tell the two apart.
\<close>

theorem verified_page_was_signed:
  assumes unforgeable: "\<And>sig bs. ed25519_verify env (hexToBytes PINNED_SIGNER_PUBKEY_HEX) sig bs = Inr True \<Longrightarrow>
      \<exists>m \<in> issued. bs = utf8 SIGNATURE_DOMAIN @ canonicalJsonBytes m"
    and wf: "\<And>m. m \<in> issued \<Longrightarrow> wf_val m"
    and shown: "badge (screen_of env)"
    and key: "key = manifestKeyForLocation (pathname env)"
  shows "\<exists>m \<in> issued. (verify env = Verified key \<and> (\<exists>files st page. page_reply env = Reply True st page \<and>
        get m (lit ''files'') = Inr files \<and> get files key = Inr (JStr (sha256Hex env page)))) \<or>
    (verify env = Not_covered key \<and> (\<nexists>files h. get m (lit ''files'') = Inr files \<and> get files key = Inr (JStr h) \<and> h \<noteq> []))"
proof -
  obtain k where v: "verify env \<in> {Verified k, Not_covered k}"
    using shown by (cases "verify env") (auto simp: screen_of_def showTamperBanner_def)
  obtain m sig where m: "wf_val m" and ok: "ed25519_verify env (hexToBytes PINNED_SIGNER_PUBKEY_HEX) sig (signed_bytes m) = Inr True"
    and c: "check_page env m = verify env" using verify_shown [OF v] by blast
  obtain m0 where m0: "m0 \<in> issued" "canonicalJsonBytes (without_signature m) = canonicalJsonBytes m0"
    using unforgeable [OF ok] by (auto simp: signed_bytes_def)
  note h = hash_in_issued [OF m wf [OF m0(1)] m0(2) key]
  show ?thesis
  proof (cases "verify env = Verified k")
    case True
    with c have "check_page env m = Verified k" by simp
    from check_page_Verified [OF this] obtain files st page where "k = key" "get m (lit ''files'') = Inr files"
      "page_reply env = Reply True st page" "get files key = Inr (JStr (sha256Hex env page))" unfolding key by blast
    then show ?thesis using True h [of "sha256Hex env page"] m0(1) by blast
  next
    case False
    with v c have n: "verify env = Not_covered k" "check_page env m = Not_covered k" by auto
    from check_page_Not_covered [OF n(2)] have k: "k = key"
      "\<nexists>files h. get m (lit ''files'') = Inr files \<and> get files key = Inr (JStr h) \<and> h \<noteq> []" unfolding key by blast+
    then have "\<nexists>files h. get m0 (lit ''files'') = Inr files \<and> get files key = Inr (JStr h) \<and> h \<noteq> []" using h by blast
    then show ?thesis using n(1) k(1) m0(1) by blast
  qed
qed

definition verify_site :: site_env where
  "verify_site = genuine_site\<lparr>pathname := lit ''/verify'', page_reply := Reply True 200 [0x0A]\<rparr>"

lemma verify_site_shown: "verify verify_site = Verified (lit ''verify.html'')" "badge (screen_of verify_site)"
proof -
  have k: "manifestKeyForLocation (lit ''/verify'') = lit ''verify.html''" "drop_slash (lit ''/verify'') = lit ''/verify''" by code_simp+
  have p: "pathname verify_site = lit ''/verify''" by (simp add: verify_site_def)
  have "verify verify_site = Verified (manifestKeyForLocation (pathname verify_site))"
    by (rule sample_site_verifies [where h = "lit ''0a''" and body = "[0x0A]"])
      (simp_all add: p k, simp_all add: verify_site_def example_site_def sha256Hex_def hex_digit_def lit_def unit_of_def)
  then show v: "verify verify_site = Verified (lit ''verify.html'')" by (simp add: p k)
  show "badge (screen_of verify_site)" by (simp add: screen_of_def v showVerifiedBadge_def p k)
qed

theorem verified_page_was_signed_witness:
  "\<exists>files. get (JObj site_members) (lit ''files'') = Inr files \<and>
     get files (manifestKeyForLocation (lit ''/verify'')) = Inr (JStr (sha256Hex verify_site [0x0A]))"
proof -
  have p: "pathname verify_site = lit ''/verify''" "page_reply verify_site = Reply True 200 [0x0A]"
    "ed25519_verify verify_site = ed25519_verify genuine_site" by (simp_all add: verify_site_def)
  have u: "\<exists>m \<in> {JObj site_members}. bs = utf8 SIGNATURE_DOMAIN @ canonicalJsonBytes m"
    if "ed25519_verify verify_site (hexToBytes PINNED_SIGNER_PUBKEY_HEX) sig bs = Inr True" for sig bs
    using that by (simp add: p example_site_def)
  have w: "wf_val m" if "m \<in> {JObj site_members}" for m using that site_manifest_wf by simp
  from verified_page_was_signed [OF u w verify_site_shown(2) refl] verify_site_shown(1) p show ?thesis by auto
qed

text \<open>
  C23: Signer and verifier agree on the bytes. For a manifest whose keys are ASCII, not array
  indices and not \<open>__proto__\<close>, and whose strings are well-formed Unicode, the Python signer's
  \<open>json.dumps\<close> with sorted keys and the script's \<open>JSON.stringify(deepSortKeys(...))\<close> give the
  same bytes; the script recovers them from the published record, whatever the signature member is.
\<close>

theorem signer_and_verifier_agree:
  assumes "wf_val (JObj kvs)" and "signable (JObj kvs)" and "lit ''signature'' \<notin> fst ` set kvs"
  shows "signed_bytes (JObj (kvs @ [(lit ''signature'', sig)])) =
    utf8 SIGNATURE_DOMAIN @ canonical_manifest_bytes (JObj kvs)"
proof -
  have d: "distinct (map fst (kvs @ [(lit ''signature'', sig)]))" using assms(1,3) by simp
  have "\<forall>m \<in> set kvs. fst m \<noteq> PROTO \<and> fst m \<noteq> lit ''signature''"
  proof
    fix m assume m: "m \<in> set kvs"
    then have "plain_key (fst m)" using plain_keys [OF assms(2)] by simp
    moreover have "fst m \<noteq> lit ''signature''" using m assms(3) by (metis image_eqI)
    ultimately show "fst m \<noteq> PROTO \<and> fst m \<noteq> lit ''signature''" by (simp add: plain_key_def)
  qed
  then have "filter (\<lambda>m. fst m \<noteq> PROTO \<and> fst m \<noteq> lit ''signature'') kvs = kvs" by simp
  then have "without_signature (JObj (kvs @ [(lit ''signature'', sig)])) = JObj kvs"
    by (simp only: without_signature_def jsval.case foldl_assign_members [OF d] filter_filter) simp
  then show ?thesis by (simp add: signed_bytes_def signer_bytes [OF assms(1,2)])
qed

theorem signer_and_verifier_agree_witness:
  "signed_bytes (JObj (site_members @ [(lit ''signature'', site_signature)])) =
    utf8 SIGNATURE_DOMAIN @ canonical_manifest_bytes (JObj site_members)"
  by (rule signer_and_verifier_agree [OF site_manifest_wf(1) site_signable]) (simp add: site_members_def)

text \<open>
  C24: A page that passes stops passing when its bytes change. With the same signed manifest, an
  answer of the server whose SHA-256 differs, a refused request and a network failure all put the
  banner on the screen and hide the content.
\<close>

theorem changed_page_is_flagged:
  assumes "verify env = Verified key" and "page_reply env = Reply True st page"
    and "\<And>st' page'. r = Reply True st' page' \<Longrightarrow> sha256Hex env page' \<noteq> sha256Hex env page"
  shows "\<exists>reason details. verify (env\<lparr>page_reply := r\<rparr>) = Tampered reason details \<and>
    banner (screen_of (env\<lparr>page_reply := r\<rparr>)) = Some (escape_lt (reason @ [10, 10] @ details)) \<and>
    content_hidden (screen_of (env\<lparr>page_reply := r\<rparr>)) \<and> \<not> badge (screen_of (env\<lparr>page_reply := r\<rparr>))"
proof -
  let ?e = "env\<lparr>page_reply := r\<rparr>"
  obtain m sig where m: "fetch_manifest env = Inr m" and c: "check_page env m = Verified key"
    using verify_Verified [OF assms(1)] by blast
  from assms(1) m have s: "check_signature env m = Verified key" and nc: "\<not> hasStrictCsp (pathname env)"
    by (auto simp: verify_def or_crash_def split: sum.splits if_splits)
  have same: "fetch_manifest (env\<lparr>page_reply := r\<rparr>) = fetch_manifest env" "sha256Hex (env\<lparr>page_reply := r\<rparr>) = sha256Hex env" for r
    by (simp_all add: fetch_manifest_def sha256Hex_def fun_eq_iff)
  have "verify ?e = check_page ?e m"
    using assms(1) m nc s by (auto simp: verify_def same or_crash_def check_signature_def split: sum.splits if_splits)
  moreover have "\<exists>reason details. check_page ?e m = Tampered reason details"
  proof -
    obtain files where f: "get m (lit ''files'') = Inr files" "get files key = Inr (JStr (sha256Hex env page))"
      and k: "key = manifestKeyForLocation (pathname env)"
      using check_page_Verified [OF c] assms(2) by auto
    have t: "truthy files" "truthy (JStr (sha256Hex env page))"
      using c f k by (auto simp: check_page_def Let_def or_crash_def split: if_splits)
    show ?thesis using f t assms(3)
      by (cases r) (auto simp: check_page_def Let_def or_crash_def ok_body_def throw_if_def same k)
  qed
  ultimately show ?thesis by (auto simp: screen_of_def showTamperBanner_def)
qed

theorem changed_page_is_flagged_witness:
  "\<exists>reason details. verify (genuine_site\<lparr>page_reply := Reply True 200 [0x68, 0xF3]\<rparr>) = Tampered reason details \<and>
    banner (screen_of (genuine_site\<lparr>page_reply := Reply True 200 [0x68, 0xF3]\<rparr>)) = Some (escape_lt (reason @ [10, 10] @ details)) \<and>
    content_hidden (screen_of (genuine_site\<lparr>page_reply := Reply True 200 [0x68, 0xF3]\<rparr>)) \<and>
    \<not> badge (screen_of (genuine_site\<lparr>page_reply := Reply True 200 [0x68, 0xF3]\<rparr>))"
proof (rule changed_page_is_flagged [OF genuine_site_verifies])
  show "page_reply genuine_site = Reply True 200 [0x68, 0xF2]" by (simp add: example_site_def)
  show "sha256Hex genuine_site page' \<noteq> sha256Hex genuine_site [0x68, 0xF2]"
    if "Reply True 200 [0x68, 0xF3] = Reply True st' page'" for st' page'
    using that by (auto simp: sha256Hex_def example_site_def hex_digit_def)
qed

text \<open>
  The check is not fail-closed everywhere. A manifest that is the JSON value \<open>null\<close> makes the
  first property read outside every \<open>try\<close> throw: whatever the page is, the promise is rejected, no
  banner appears and nothing is hidden.
\<close>

theorem null_manifest_shows_nothing:
  assumes "manifest_reply env = Reply True st body" and "parse_text (from_utf8_lossy body) = Inr JNull"
  shows "(\<exists>e. verify env = Crashed e) \<and> banner (screen_of env) = None \<and> \<not> content_hidden (screen_of env)"
proof -
  have "\<exists>e. verify env = Crashed e"
    using assms by (simp add: verify_def hasStrictCsp_def STRICT_CSP_PREFIXES_def fetch_manifest_def ok_body_def or_crash_def)
  then show ?thesis by (auto simp: screen_of_def)
qed

theorem null_manifest_shows_nothing_witness:
  "(\<exists>e. verify (example_site (Reply True 200 (utf8 (lit ''null'')))) = Crashed e) \<and>
   banner (screen_of (example_site (Reply True 200 (utf8 (lit ''null''))))) = None"
proof -
  have "JSON_parse (lit ''null'') = Some JNull"
    using JSON_parse_text [of JNull "[]" "[]" "[]"] by (simp add: text_of_def)
  then have p: "parse_text (from_utf8_lossy (utf8 (lit ''null''))) = Inr JNull"
    by (simp add: parse_text_def from_utf8_lossy_utf8 plain_lit_units)
  have r: "manifest_reply (example_site (Reply True 200 (utf8 (lit ''null'')))) = Reply True 200 (utf8 (lit ''null''))"
    by (simp add: example_site_def)
  show ?thesis using null_manifest_shows_nothing [OF r p] by blast
qed

end
