(* ===== verification/Notify_Envelope.thy ===== *)
theory Notify_Envelope
  imports Toy_Library Chat_Envelope Prompt
begin

text \<open>
  Qira Notify (\<open>landing/notify/notify.js\<close>), the parts without state: topics and their addresses,
  the envelope a message is sealed in, the texts the page makes, and the decoding of the relay's
  push key. The state of the page is in theory Notify.
\<close>

section \<open>Topics and addresses\<close>

definition DEMO_TOPIC :: jstr where "DEMO_TOPIC = lit ''qira-demo-feed''"
definition DEMO_PHRASE :: jstr where "DEMO_PHRASE = lit ''qira demo feed public heartbeat 2026''"

definition validTopic :: "jstr \<Rightarrow> bool" where
  "validTopic t = (3 \<le> length t \<and> length t \<le> 64 \<and> list_all url_char t)"

text \<open>\<open>encodeURIComponent\<close>: the unreserved characters stay, every other byte of the UTF-8 text is escaped.\<close>

definition uri_char :: "nat \<Rightarrow> bool" where
  "uri_char c =
     (65 \<le> c \<and> c \<le> 90 \<or> 97 \<le> c \<and> c \<le> 122 \<or> 48 \<le> c \<and> c \<le> 57 \<or>
      c \<in> {0x2D, 0x5F, 0x2E, 0x21, 0x7E, 0x2A, 0x27, 0x28, 0x29})"

definition upper_hex :: "nat \<Rightarrow> 16 word" where
  "upper_hex d = of_nat (if d < 10 then 48 + d else 55 + d)"

definition uri_byte :: "byte \<Rightarrow> jstr" where
  "uri_byte b = (if uri_char (unat b) then [of_nat (unat b)] else [0x25, upper_hex (unat b div 16), upper_hex (unat b mod 16)])"

definition encodeURIComponent :: "jstr \<Rightarrow> jstr res" where
  "encodeURIComponent s = throw_if (\<not> wf16 s) (lit ''URI malformed'') (Inr (concat (map uri_byte (utf8 s))))"

definition topicApiUrl :: "jstr \<Rightarrow> jstr \<Rightarrow> jstr res" where
  "topicApiUrl origin topic = bind_res (encodeURIComponent topic) (\<lambda>t. Inr (origin @ lit ''/notify/'' @ t))"

definition shareUrl :: "jstr \<Rightarrow> jstr \<Rightarrow> jstr res" where
  "shareUrl origin topic = bind_res (encodeURIComponent topic) (\<lambda>t. Inr (origin @ lit ''/notify/?t='' @ t))"

definition topic_alphabet :: jstr where "topic_alphabet = lit ''abcdefghjkmnpqrstuvwxyz23456789''"

definition randomTopic :: "rng \<Rightarrow> jstr \<times> rng" where
  "randomTopic r =
     (let (bs, r') = randombytes_buf 14 r
      in (map (\<lambda>b. topic_alphabet ! (unat b mod length topic_alphabet)) bs, r'))"

section \<open>Envelopes\<close>

definition OPSLIMIT_INTERACTIVE :: int where "OPSLIMIT_INTERACTIVE = 2"
definition MEMLIMIT_INTERACTIVE :: int where "MEMLIMIT_INTERACTIVE = 67108864"
definition WRAP_AAD :: jstr where "WRAP_AAD = lit ''QIRA-NOTIFY-V1-WRAP''"
definition CONTENT_AAD :: jstr where "CONTENT_AAD = lit ''QIRA-NOTIFY-V1-CONTENT''"

definition notify_literal :: "sodium \<Rightarrow> jstr \<Rightarrow> randomness \<Rightarrow> bytes \<Rightarrow> bytes \<Rightarrow> jsval" where
  "notify_literal so now x wrapped ct =
     JObj [(lit ''schema'', JStr SCHEMA_QIRA_NOTIFY_V1), (lit ''created_at'', JStr now),
           (lit ''kdf'', JObj [(lit ''algorithm'', JStr (lit ''argon2id'')), (lit ''opslimit'', JNum OPSLIMIT_INTERACTIVE),
                              (lit ''memlimit'', JNum MEMLIMIT_INTERACTIVE), (lit ''salt'', JStr (to_base64 so (r_salt x)))]),
           (lit ''wrap'', JObj [(lit ''algorithm'', JStr (lit ''xchacha20poly1305-ietf'')), (lit ''aad'', JStr WRAP_AAD),
                               (lit ''nonce'', JStr (to_base64 so (r_wrapNonce x))), (lit ''wrapped_key'', JStr (to_base64 so wrapped))]),
           (lit ''content'', JObj [(lit ''algorithm'', JStr (lit ''xchacha20poly1305-ietf'')), (lit ''aad'', JStr CONTENT_AAD),
                                  (lit ''nonce'', JStr (to_base64 so (r_contentNonce x))), (lit ''ciphertext'', JStr (to_base64 so ct))])]"

definition notify_randomness :: "rng \<Rightarrow> randomness \<times> rng" where
  "notify_randomness r0 =
     (let (salt, r1) = randombytes_buf 16 r0; (wn, r2) = randombytes_buf 24 r1;
          (cn, r3) = randombytes_buf 24 r2; (vk, r4) = randombytes_buf 32 r3
      in (\<lparr>r_salt = salt, r_wrapNonce = wn, r_contentNonce = cn, r_vaultKey = vk\<rparr>, r4))"

definition encryptMessage_notify :: "sodium \<Rightarrow> jstr \<Rightarrow> jstr \<Rightarrow> jstr \<Rightarrow> rng \<Rightarrow> jsval res \<times> rng" where
  "encryptMessage_notify so now plaintext phrase r =
     (if phrase = [] then (Inl (lit ''phrase required''), r) else
      let (x, r') = notify_randomness r
      in (bind_res (crypto_pwhash so 32 (utf8 phrase) (r_salt x) OPSLIMIT_INTERACTIVE MEMLIMIT_INTERACTIVE) (\<lambda>wrapKey.
          bind_res (aead_encrypt so (r_vaultKey x) (utf8 WRAP_AAD) (r_wrapNonce x) wrapKey) (\<lambda>wrapped.
          bind_res (aead_encrypt so (utf8 plaintext) (utf8 CONTENT_AAD) (r_contentNonce x) (r_vaultKey x)) (\<lambda>ct.
          Inr (notify_literal so now x wrapped ct)))), r'))"

text \<open>
  The reader tests the schema and nothing else: what is missing or of the wrong type surfaces as
  the error of the operation that meets it. \<open>from_string\<close> is \<open>TextEncoder.encode\<close>, which reads
  \<open>undefined\<close> as the empty text.
\<close>

definition msg_unrecognized :: jstr where "msg_unrecognized = lit ''unrecognized envelope schema''"

definition from_string_value :: "jsval \<Rightarrow> bytes res" where
  "from_string_value v = (if v = JUndef then Inr [] else bind_res (to_str v) (\<lambda>s. Inr (utf8 s)))"

definition pwhash_value :: "sodium \<Rightarrow> jstr \<Rightarrow> bytes \<Rightarrow> jsval \<Rightarrow> jsval \<Rightarrow> bytes res" where
  "pwhash_value so phrase salt ops mem =
     (case (ops, mem) of
        (JNum o1, JNum m) \<Rightarrow> crypto_pwhash so 32 (utf8 phrase) salt o1 m
      | _ \<Rightarrow> Inl (lit ''opslimit and memlimit must be unsigned integers''))"

definition notify_wrap_key :: "sodium \<Rightarrow> jsval \<Rightarrow> jstr \<Rightarrow> bytes \<Rightarrow> bytes res" where
  "notify_wrap_key so envelope phrase salt =
     bind_res (get2 envelope ''kdf'' ''opslimit'') (\<lambda>ops. bind_res (get2 envelope ''kdf'' ''memlimit'') (\<lambda>mem.
     pwhash_value so phrase salt ops mem))"

definition decryptMessage_notify :: "sodium \<Rightarrow> jsval \<Rightarrow> jstr \<Rightarrow> jstr res" where
  "decryptMessage_notify so envelope phrase =
     (if \<not> truthy envelope then Inl msg_unrecognized else
      bind_res (get envelope (lit ''schema'')) (\<lambda>schema.
      throw_if (schema \<noteq> JStr SCHEMA_QIRA_NOTIFY_V1) msg_unrecognized
      (bind_res (b64_member_web so envelope ''kdf'' ''salt'') (\<lambda>salt.
       bind_res (b64_member_web so envelope ''wrap'' ''nonce'') (\<lambda>wrapNonce.
       bind_res (b64_member_web so envelope ''wrap'' ''wrapped_key'') (\<lambda>wrappedKey.
       bind_res (b64_member_web so envelope ''content'' ''nonce'') (\<lambda>contentNonce.
       bind_res (b64_member_web so envelope ''content'' ''ciphertext'') (\<lambda>ciphertext.
       bind_res (notify_wrap_key so envelope phrase salt) (\<lambda>wrapKey.
       bind_res (bind_res (get2 envelope ''wrap'' ''aad'') from_string_value) (\<lambda>wrapAad.
       bind_res (bind_res (get2 envelope ''content'' ''aad'') from_string_value) (\<lambda>contentAad.
       bind_res (aead_decrypt so wrappedKey wrapAad wrapNonce wrapKey) (\<lambda>vaultKey.
       bind_res (aead_decrypt so ciphertext contentAad contentNonce vaultKey) fromUtf8))))))))))))"

section \<open>Texts\<close>

definition escapeHtml :: "jstr \<Rightarrow> jstr" where
  "escapeHtml s = concat (map (\<lambda>u.
     if u = 0x26 then lit ''&amp;'' else if u = 0x3C then lit ''&lt;'' else if u = 0x3E then lit ''&gt;''
     else if u = 0x22 then lit ''&quot;'' else if u = 0x27 then lit ''&#39;'' else [u]) s)"

definition nl :: jstr where "nl = [10]"

definition inviteText :: "jstr \<Rightarrow> jstr" where
  "inviteText url =
     [0xD83D, 0xDD12] @ lit ('' You'' @ squote @ ''re invited to an encrypted notification feed.'') @ nl @ nl @
     lit ''Open this link on your phone or computer:'' @ nl @ url @ nl @ nl @
     lit ''When it asks for a phrase, use the one I told you (not in this message).'' @ nl @
     lit ''Every message is encrypted in your browser '' @ [0x2014] @ lit ('' the server can'' @ squote @ ''t read any of it.'') @ nl @ nl @
     lit ''Android users: after opening, tap '' @ [0x22] @ lit ''Enable Android/phone notifications'' @ [0x22] @ nl @
     lit ''and then install the page as an app (Chrome menu '' @ [0x2192] @ lit '' Install app). You'' @ lit squote @ lit ''ll'' @ nl @
     lit ''get a system notification every time a new message is posted.''"

section \<open>The relay's push key\<close>

text \<open>\<open>atob\<close>: blanks are dropped, then at most two final equals signs, and the rest must be the standard alphabet.\<close>

definition strip_padding :: "jstr \<Rightarrow> jstr" where
  "strip_padding s =
     (if length s mod 4 \<noteq> 0 \<or> s = [] \<or> last s \<noteq> eq_char then s
      else let t = butlast s in if t = [] \<or> last t \<noteq> eq_char then t else butlast t)"

definition atob :: "jstr \<Rightarrow> bytes res" where
  "atob s =
     (let t = strip_padding (filter (\<lambda>u. u \<notin> {9, 10, 12, 13, 0x20}) s)
      in throw_if (length t mod 4 = 1 \<or> list_ex (\<lambda>u. sextet_of u = None \<or> u = 45 \<or> u = 95) t)
           (lit ''The string to be decoded is not correctly encoded.'')
         (Inr (map of_nat (from_sextets (List.map_filter sextet_of t)))))"

definition b64urlToUint8 :: "jstr \<Rightarrow> bytes res" where
  "b64urlToUint8 b64 =
     (let pad = replicate ((4 - length b64 mod 4) mod 4) eq_char
      in atob (replace_char 95 47 (replace_char 45 43 (b64 @ pad))))"

section \<open>Addresses of valid topics\<close>

lemma url_char_uri: "url_char u \<Longrightarrow> uri_char (unat u) \<and> unat u < 128"
  by (auto simp: url_char_def uri_char_def Let_def)

lemma low_ucast: "unat (u :: 16 word) < 128 \<Longrightarrow> unat (ucast u :: byte) = unat u \<and> ucast (ucast u :: byte) = u"
  by (simp add: word_unat_eq_iff unsigned_ucast_eq unsigned_take_bit_eq take_bit_nat_eq_self)

lemma encode_valid: "list_all url_char t \<Longrightarrow> encodeURIComponent t = Inr t"
proof -
  assume t: "list_all url_char t"
  then have low: "\<forall>u \<in> set t. uri_char (unat u) \<and> unat u < 128" using url_char_uri by (auto simp: list_all_iff)
  then have "wf16 t" by (intro wf16_ascii) fastforce
  moreover have "concat (map uri_byte (utf8 t)) = t"
  proof -
    have "uri_byte (ucast u) = [u]" if "u \<in> set t" for u
      using low that low_ucast [of u] by (simp add: uri_byte_def)
    then have "concat (map (\<lambda>u. uri_byte (ucast u)) t) = concat (map (\<lambda>u. [u]) t)"
      by (intro concat_map_cong)
    moreover have "ascii t" using low by (simp add: ascii_def)
    ultimately show ?thesis by (simp add: utf8_ascii comp_def)
  qed
  ultimately show ?thesis by (simp add: encodeURIComponent_def)
qed

lemma topic_urls:
  assumes "validTopic t"
  shows "topicApiUrl origin t = Inr (origin @ lit ''/notify/'' @ t)"
    and "shareUrl origin t = Inr (origin @ lit ''/notify/?t='' @ t)"
  using assms by (simp_all add: validTopic_def topicApiUrl_def shareUrl_def encode_valid)

section \<open>A sealed message opens\<close>

lemmas notify_defs = SCHEMA_QIRA_NOTIFY_V1_def WRAP_AAD_def CONTENT_AAD_def

lemma notify_draws: "notify_randomness r = (x, r') \<Longrightarrow>
   length (r_salt x) = 16 \<and> length (r_wrapNonce x) = 24 \<and> length (r_contentNonce x) = 24 \<and> length (r_vaultKey x) = 32"
  by (auto simp: notify_randomness_def randombytes_buf_def Let_def)

lemma notify_sealed:
  assumes "encryptMessage_notify so now p phrase r = (Inr env, r')"
  obtains x wrapKey wrapped ct where "phrase \<noteq> []" and "fst (notify_randomness r) = x"
    and "crypto_pwhash so 32 (utf8 phrase) (r_salt x) OPSLIMIT_INTERACTIVE MEMLIMIT_INTERACTIVE = Inr wrapKey"
    and "aead_encrypt so (r_vaultKey x) (utf8 WRAP_AAD) (r_wrapNonce x) wrapKey = Inr wrapped"
    and "aead_encrypt so (utf8 p) (utf8 CONTENT_AAD) (r_contentNonce x) (r_vaultKey x) = Inr ct"
    and "env = notify_literal so now x wrapped ct"
  using assms by (cases "notify_randomness r") (auto simp: encryptMessage_notify_def split: if_splits)

lemma notify_fields:
  fixes so now x w c
  defines "v \<equiv> notify_literal so now x w c"
  shows "is_object v" "truthy v" "get v (lit ''schema'') = Inr (JStr SCHEMA_QIRA_NOTIFY_V1)"
    "fld v ''schema'' = JStr SCHEMA_QIRA_NOTIFY_V1" "fld v ''created_at'' = JStr now"
    "is_object (fld v ''kdf'')" "is_object (fld v ''wrap'')" "is_object (fld v ''content'')"
    "fld (fld v ''kdf'') ''algorithm'' = JStr (lit ''argon2id'')"
    "fld (fld v ''kdf'') ''opslimit'' = JNum OPSLIMIT_INTERACTIVE" "fld (fld v ''kdf'') ''memlimit'' = JNum MEMLIMIT_INTERACTIVE"
    "fld (fld v ''kdf'') ''salt'' = JStr (to_base64 so (r_salt x))"
    "fld (fld v ''wrap'') ''algorithm'' = JStr (lit ''xchacha20poly1305-ietf'')"
    "fld (fld v ''wrap'') ''aad'' = JStr WRAP_AAD" "fld (fld v ''wrap'') ''nonce'' = JStr (to_base64 so (r_wrapNonce x))"
    "fld (fld v ''wrap'') ''wrapped_key'' = JStr (to_base64 so w)"
    "fld (fld v ''content'') ''algorithm'' = JStr (lit ''xchacha20poly1305-ietf'')"
    "fld (fld v ''content'') ''aad'' = JStr CONTENT_AAD" "fld (fld v ''content'') ''nonce'' = JStr (to_base64 so (r_contentNonce x))"
    "fld (fld v ''content'') ''ciphertext'' = JStr (to_base64 so c)"
  by (simp_all add: v_def notify_literal_def)

lemma notify_wf_val: "wf_val (notify_literal so now x w c)"
  by (simp add: notify_literal_def)

lemma notify_wf: "wf_notify_v1 (notify_literal so now x w c)"
  by (simp add: wf_notify_v1_def wf_kdf_web_def wf_section_web_def notify_fields int_between_def limit_defs
      KDF_ALG_def NOTIFY_AEAD_ALG_def OPSLIMIT_INTERACTIVE_def MEMLIMIT_INTERACTIVE_def del: fld_JObj)

lemma notify_encrypts:
  assumes "kdf_works so" and "aead_works so" and "phrase \<noteq> []"
  obtains env r' where "encryptMessage_notify so now p phrase r = (Inr env, r')"
proof -
  obtain x r' where x: "notify_randomness r = (x, r')" by (cases "notify_randomness r")
  note l = notify_draws [OF x]
  obtain k where k: "crypto_pwhash so 32 (utf8 phrase) (r_salt x) OPSLIMIT_INTERACTIVE MEMLIMIT_INTERACTIVE = Inr k" "length k = 32"
    using kdf_worksE [OF assms(1), of "r_salt x" OPSLIMIT_INTERACTIVE MEMLIMIT_INTERACTIVE "utf8 phrase"] l
    by (auto simp: OPSLIMIT_INTERACTIVE_def MEMLIMIT_INTERACTIVE_def)
  obtain w where "aead_encrypt so (r_vaultKey x) (utf8 WRAP_AAD) (r_wrapNonce x) k = Inr w"
    using aead_worksE [OF assms(2)] l k(2) by metis
  moreover obtain c where "aead_encrypt so (utf8 p) (utf8 CONTENT_AAD) (r_contentNonce x) (r_vaultKey x) = Inr c"
    using aead_worksE [OF assms(2)] l by metis
  ultimately show thesis using that assms(3) k(1) x by (simp add: encryptMessage_notify_def)
qed

lemma notify_opens:
  assumes works: "kdf_works so" "aead_works so" "base64_works so"
    and sealed: "encryptMessage_notify so now p phrase r = (Inr env, r')"
  shows "decryptMessage_notify so env phrase = Inr (units_of (drop_bom (code_points p)))" and "wf_val env" and "wf_notify_v1 env"
    and "length (utf8 p) + 16 \<le> MAX_CIPHERTEXT_BYTES \<Longrightarrow>
      decryptVaultQiraNotifyV1 so env (JStr phrase) = Inr (units_of (drop_bom (code_points p)))"
proof -
  obtain x wrapKey wrapped ct where ne: "phrase \<noteq> []" and x: "fst (notify_randomness r) = x"
    and k: "crypto_pwhash so 32 (utf8 phrase) (r_salt x) OPSLIMIT_INTERACTIVE MEMLIMIT_INTERACTIVE = Inr wrapKey"
    and w: "aead_encrypt so (r_vaultKey x) (utf8 WRAP_AAD) (r_wrapNonce x) wrapKey = Inr wrapped"
    and c: "aead_encrypt so (utf8 p) (utf8 CONTENT_AAD) (r_contentNonce x) (r_vaultKey x) = Inr ct"
    and env: "env = notify_literal so now x wrapped ct"
    by (rule notify_sealed [OF sealed])
  have l: "length (r_salt x) = 16" "length (r_wrapNonce x) = 24" "length (r_contentNonce x) = 24" "length (r_vaultKey x) = 32"
    using x notify_draws [of r x "snd (notify_randomness r)"] by (auto simp: prod_eq_iff)
  have "length wrapKey = 32"
    using kdf_worksE [OF works(1) l(1), of OPSLIMIT_INTERACTIVE MEMLIMIT_INTERACTIVE "utf8 phrase"] k
    by (auto simp: OPSLIMIT_INTERACTIVE_def MEMLIMIT_INTERACTIVE_def)
  then have ow: "aead_decrypt so wrapped (utf8 WRAP_AAD) (r_wrapNonce x) wrapKey = Inr (r_vaultKey x)" "length wrapped = 48"
    using aead_encrypt_opens [OF works(2) l(2) _ w] l(4) by auto
  have oc: "aead_decrypt so ct (utf8 CONTENT_AAD) (r_contentNonce x) (r_vaultKey x) = Inr (utf8 p)" "length ct = length (utf8 p) + 16" "ct \<noteq> []"
    using aead_encrypt_opens [OF works(2) l(3,4) c] by auto
  have b: "b64_member_web so env a b = Inr bs" if "is_object (fld env a)" "fld (fld env a) b = JStr (to_base64 so bs)" for a b bs
    using that by (simp add: env b64_member_web_def get2_object notify_fields(1) base64_worksD [OF works(3)])
  note fs = notify_fields [of so now x wrapped ct, folded env]
  note parts = b [OF fs(6) fs(12)] b [OF fs(7) fs(15)] b [OF fs(7) fs(16)] b [OF fs(8) fs(19)] b [OF fs(8) fs(20)]
  show "decryptMessage_notify so env phrase = Inr (units_of (drop_bom (code_points p)))"
    by (simp add: decryptMessage_notify_def fs parts notify_wrap_key_def pwhash_value_def get2_object k
        from_string_value_def ow oc fromUtf8_utf8 del: fld_JObj)
  show "wf_val env" "wf_notify_v1 env" by (simp_all only: env notify_wf_val notify_wf)
  then show "decryptVaultQiraNotifyV1 so env (JStr phrase) = Inr (units_of (drop_bom (code_points p)))"
    if "length (utf8 p) + 16 \<le> MAX_CIPHERTEXT_BYTES"
    using that ne oc(2) ow(2) l
    by (simp add: decryptVaultQiraNotifyV1_def validate_notify_ok [THEN iffD2] nonempty_str_def decode_parts_web_def parts wrap_key_def
        get2_object fs aad_text_def unseal_def k ow oc rethrow_def fromUtf8_utf8 KEY_BYTES_def size_defs throw_if_def del: fld_JObj)
qed

section \<open>The push key is read back\<close>

lemma strip_padded:
  assumes "eq_char \<notin> set t" and "length t mod 4 \<noteq> 1"
  shows "strip_padding (t @ replicate ((4 - length t mod 4) mod 4) eq_char) = t"
proof -
  have l: "t \<noteq> [] \<Longrightarrow> last t \<noteq> eq_char" using assms(1) by (metis last_in_set)
  have "length t mod 4 < 4" by simp
  then consider "length t mod 4 = 0" | "length t mod 4 = 2" | "length t mod 4 = 3" using assms(2) by linarith
  then show ?thesis
  proof cases
    case 1
    then show ?thesis using l by (auto simp: strip_padding_def)
  next
    case 2
    then have "(length t + 2) mod 4 = 0" "t \<noteq> []" by (presburger, auto)
    moreover have "replicate 2 eq_char = [eq_char, eq_char]" by (simp add: numeral_2_eq_2)
    ultimately show ?thesis using 2 by (simp add: strip_padding_def Let_def butlast_append)
  next
    case 3
    then have "Suc (length t) mod 4 = 0" "t \<noteq> []" by (presburger, auto)
    then show ?thesis using 3 l by (simp add: strip_padding_def Let_def)
  qed
qed

lemma push_key_decodes: "b64urlToUint8 (b64urlEncode bs) = Inr bs"
proof -
  let ?s = "b64urlEncode bs" and ?r = "\<lambda>s. replace_char 95 47 (replace_char 45 43 s)"
  have lt: "\<forall>s \<in> set (to_sextets (map unat bs)). s < 64"
    by (rule to_sextets_lt_64) (auto simp: unat8_lt)
  have chars: "\<forall>u \<in> set ?s. url_char u \<and> sextet_of u \<noteq> None"
    using lt by (auto simp: b64urlEncode_eq b64url_of_props)
  have rchars: "\<forall>u \<in> set (?r ?s). sextet_of u \<noteq> None \<and> u \<noteq> 45 \<and> u \<noteq> 95 \<and> u \<noteq> eq_char \<and> u \<notin> {9, 10, 12, 13, 0x20}"
  proof
    fix u assume "u \<in> set (?r ?s)"
    then obtain c where c: "c \<in> set ?s" "u = (if (if c = 45 then 43 else c) = 95 then 47 else if c = 45 then 43 else c)"
      unfolding replace_char_def set_map image_image by blast
    then show "sextet_of u \<noteq> None \<and> u \<noteq> 45 \<and> u \<noteq> 95 \<and> u \<noteq> eq_char \<and> u \<notin> {9, 10, 12, 13, 0x20}"
      using chars by (auto simp: sextet_of_def eq_char_def Let_def url_char_def)
  qed
  have len: "length ?s mod 4 \<noteq> 1" unfolding length_b64urlEncode by presburger
  have rep: "?r (replicate n eq_char) = replicate n eq_char" for n by (simp add: replace_char_def eq_char_def)
  have app: "?r (a @ b) = ?r a @ ?r b" for a b by (simp add: replace_char_def)
  have "filter (\<lambda>u. u \<notin> {9, 10, 12, 13, 0x20}) (?r ?s) = ?r ?s" by (rule filter_True) (use rchars in blast)
  moreover have "filter (\<lambda>u. u \<notin> {9, 10, 12, 13, 0x20}) (replicate n eq_char) = replicate n eq_char" for n
    by (rule filter_True) (auto simp: eq_char_def)
  ultimately have "filter (\<lambda>u. u \<notin> {9, 10, 12, 13, 0x20}) (?r (?s @ replicate n eq_char)) = ?r ?s @ replicate n eq_char" for n
    by (simp only: app rep filter_append)
  moreover have "strip_padding (?r ?s @ replicate ((4 - length ?s mod 4) mod 4) eq_char) = ?r ?s"
  proof -
    have "eq_char \<notin> set (?r ?s)" using rchars by blast
    moreover have "length (?r ?s) = length ?s" by (simp add: replace_char_def)
    ultimately show ?thesis using strip_padded [of "?r ?s"] len by simp
  qed
  moreover have "length (?r ?s) = length ?s" by (simp add: replace_char_def)
  ultimately have "b64urlToUint8 ?s = Inr (map of_nat (from_sextets (List.map_filter sextet_of (?r ?s))))"
    using rchars len by (simp add: b64urlToUint8_def atob_def Let_def list_ex_iff throw_if_def)
  also have "List.map_filter sextet_of (?r ?s) = to_sextets (map unat bs)"
    using lt by (simp add: sextets_replace b64urlEncode_eq sextets_encode)
  finally show ?thesis by (simp add: from_to_sextets unat8_lt comp_def)
qed

section \<open>Properties\<close>

text \<open>
  A Notify envelope opens in both readers. What \<open>encryptMessage\<close> seals, \<open>decryptMessage\<close>
  opens under the same phrase to the text (its byte order mark dropped, lone surrogates
  replaced), and the vault page, which validates what Notify does not, accepts the envelope and
  opens it to the same text when the ciphertext is within its size limit; sealing succeeds for
  every phrase but the empty one.
\<close>

theorem notify_envelope_opens:
  assumes "kdf_works so" and "aead_works so" and "base64_works so" and "phrase \<noteq> []"
  shows "\<exists>env r'. encryptMessage_notify so now p phrase r = (Inr env, r') \<and>
    decryptMessage_notify so env phrase = Inr (units_of (drop_bom (code_points p))) \<and>
    validateVaultSchemaQiraNotifyV1 env = Inr () \<and>
    (length (utf8 p) + 16 \<le> MAX_CIPHERTEXT_BYTES \<longrightarrow>
      decryptVaultQiraNotifyV1 so env (JStr phrase) = Inr (units_of (drop_bom (code_points p))))"
proof -
  obtain env r' where e: "encryptMessage_notify so now p phrase r = (Inr env, r')"
    by (rule notify_encrypts [OF assms(1,2,4)])
  show ?thesis using e notify_opens [OF assms(1-3) e] by (simp add: validate_notify_ok)
qed

theorem notify_envelope_opens_witness:
  "\<exists>env r'. encryptMessage_notify toy_sodium (lit ''now'') (lit ''hi'') (lit ''pass'') (\<lambda>_. 7) = (Inr env, r') \<and>
    decryptMessage_notify toy_sodium env (lit ''pass'') = Inr (lit ''hi'') \<and>
    decryptVaultQiraNotifyV1 toy_sodium env (JStr (lit ''pass'')) = Inr (lit ''hi'')"
proof -
  note so = sodium_okD [OF toy_sodium_ok]
  have "length (utf8 (lit ''hi'')) + 16 \<le> MAX_CIPHERTEXT_BYTES" by (simp add: utf8_lit size_defs)
  then show ?thesis
    using notify_envelope_opens [OF so(1,2,5), of "lit ''pass''" "lit ''now''" "lit ''hi''" "\<lambda>_. 7"] plain_lit_units by auto
qed

text \<open>
  The relay's push key survives its text form. \<open>b64urlToUint8\<close> gives back the bytes of every
  unpadded URL-safe encoding, whatever their number.
\<close>

theorem push_key_read_back: "b64urlToUint8 (b64urlEncode bs) = Inr bs"
  by (rule push_key_decodes)

end
