(* ===== verification/Notify.thy ===== *)
theory Notify
  imports Notify_Envelope Fetch Machines
begin

text \<open>
  The Qira Notify page (\<open>landing/notify/notify.js\<close>) as a machine. An \<open>await\<close> suspends a handler:
  what it still has to do is a \<open>job\<close> of the state, and an event resumes the n-th job with what it
  waited for, so that clicks, timers and answers interleave freely. The relay is seen through the
  requests the page makes (\<open>sent\<close>) and the answers events bring.
\<close>

section \<open>Environment and state\<close>

text \<open>
  \<open>locale_date\<close> is \<open>new Date(ts).toLocaleString()\<close>; \<open>storage_ok\<close> and \<open>push_supported\<close> are what the
  browser allows; \<open>nudge\<close> holds on Android outside the installed app.
\<close>

record browser =
  origin :: jstr
  locale_date :: "jsval \<Rightarrow> jstr res"
  storage_ok :: bool
  push_supported :: bool
  nudge :: bool

datatype request = Get_url jstr | Post_url jstr jstr

record li =
  li_meta :: jstr
  li_json :: jstr
  li_raw :: jstr
  li_raw_shown :: bool
  li_unlocked :: bool
  li_pill :: jstr
  li_body :: jstr
  li_phrase :: "jstr option"

text \<open>
  Suspended handlers: sealing and posting in \<open>onPublish\<close>; the answer \<open>pollOnce\<close> waits for, a
  message being decrypted and the rest of its loop; the timer that starts watching; the steps of
  the push handlers.
\<close>

datatype job =
  Publishing jstr jstr jstr
| Publish_reply
| Inbox_reply
| Drawing jsval li jstr "jsval list"
| Drawn "jsval list"
| Start_later
| Demo_push
| Refreshing "jstr option"
| Push_asking
| Push_posted
| Push_sealing jstr jstr
| Push_tested
| Unsub_asking
| Unsub_posted
| Unsub_dropping

record notify =
  pubTopic :: jstr
  pubMsg :: jstr
  pubPhrase :: jstr
  pubSend_disabled :: bool
  pubStatus :: "jstr \<times> jstr"
  subTopic :: jstr
  subPhrase :: jstr
  subRemember :: bool
  subStart_disabled :: bool
  subStop_disabled :: bool
  subStatus :: "jstr \<times> jstr"
  subShare_hidden :: bool
  subShareUrl :: jstr
  shareCard_hidden :: bool
  shareText :: jstr
  inviteTopic :: "jstr option"
  pollTimer :: bool
  currentTopic :: "jstr option"
  currentPhrase :: "jstr option"
  lastSeenTs :: "int option"
  seenIds :: "jsval list"
  inbox :: "li list"
  inboxEmpty_hidden :: bool
  demoStatus :: "jstr \<times> jstr"
  pushRow_hidden :: bool
  pushEnable_hidden :: bool
  pushEnable_disabled :: bool
  pushDisable_hidden :: bool
  pushDisable_disabled :: bool
  installHint_hidden :: bool
  pushStatus :: "jstr \<times> jstr"
  vapidPubCache :: "bytes option"
  pushRegistrationTopic :: "jstr option"
  storage :: "jstr \<Rightarrow> jstr option"
  clipboard :: "jstr option"
  jobs :: "job list"
  sent :: "request list"
  notify_rng :: rng

definition suspend :: "job \<Rightarrow> notify \<Rightarrow> notify" where
  "suspend j s = s\<lparr>jobs := jobs s @ [j]\<rparr>"

definition request :: "request \<Rightarrow> notify \<Rightarrow> notify" where
  "request q s = s\<lparr>sent := sent s @ [q]\<rparr>"

definition or_null :: "jstr option \<Rightarrow> jstr" where
  "or_null t = (case t of None \<Rightarrow> lit ''null'' | Some x \<Rightarrow> x)"

definition json_text :: "jsval \<Rightarrow> jstr" where
  "json_text v = text_or_undefined (JSON_stringify v)"

section \<open>Publishing\<close>

definition msg_topic_form :: jstr where "msg_topic_form = lit ''topic: 3-64 chars, [A-Za-z0-9_-] only''"

definition onPublish :: "notify \<Rightarrow> notify" where
  "onPublish s =
     (let topic = trim (pubTopic s); msg = pubMsg s; phrase = pubPhrase s
      in if \<not> validTopic topic then s\<lparr>pubStatus := (msg_topic_form, lit ''err'')\<rparr>
         else if msg = [] then s\<lparr>pubStatus := (lit ''message cannot be empty'', lit ''err'')\<rparr>
         else if length phrase < 4 then s\<lparr>pubStatus := (lit ''phrase must be at least 4 characters'', lit ''err'')\<rparr>
         else suspend (Publishing topic msg phrase)
                (s\<lparr>pubStatus := (lit ''Encrypting'' @ [0x2026], []), pubSend_disabled := True\<rparr>))"

definition publish_failed :: "jstr \<Rightarrow> notify \<Rightarrow> notify" where
  "publish_failed e s = s\<lparr>pubStatus := (e, lit ''err''), pubSend_disabled := False\<rparr>"

text \<open>\<open>publishMessage\<close> up to the answer, for a topic that may be \<open>null\<close>.\<close>

definition post_envelope :: "browser \<Rightarrow> jstr option \<Rightarrow> jsval \<Rightarrow> notify \<Rightarrow> notify res" where
  "post_envelope b topic env s =
     bind_res (topicApiUrl (origin b) (or_null topic)) (\<lambda>url. Inr (request (Post_url url (json_text env)) s))"

definition publish_sealed :: "sodium \<Rightarrow> browser \<Rightarrow> jstr \<Rightarrow> jstr \<Rightarrow> jstr \<Rightarrow> jstr \<Rightarrow> notify \<Rightarrow> notify" where
  "publish_sealed so b now topic msg phrase s =
     (let (sealed, r) = encryptMessage_notify so now msg phrase (notify_rng s); s1 = s\<lparr>notify_rng := r\<rparr>
      in case bind_res sealed (\<lambda>env. post_envelope b (Some topic) env s1) of
           Inl e \<Rightarrow> publish_failed e s1
         | Inr s2 \<Rightarrow> suspend Publish_reply s2)"

definition publish_refused :: "int \<Rightarrow> jstr \<Rightarrow> jstr" where
  "publish_refused st txt = lit ''publish failed: '' @ num_str st @ [0x20] @ take 200 txt"

definition publish_done :: "reply \<Rightarrow> notify \<Rightarrow> notify" where
  "publish_done r s =
     (case bind_res (reply_json r publish_refused) (\<lambda>v. bind_res (get v (lit ''id'')) to_str) of
        Inl e \<Rightarrow> publish_failed e s
      | Inr ident \<Rightarrow> s\<lparr>pubStatus := (lit ''Published encrypted message '' @ ident @
            lit ''. Subscribers with the phrase will see it.'', lit ''ok''), pubMsg := [], pubSend_disabled := False\<rparr>)"

definition press_random :: "notify \<Rightarrow> notify" where
  "press_random s = (let (t, r) = randomTopic (notify_rng s) in s\<lparr>pubTopic := t, notify_rng := r\<rparr>)"

section \<open>Remembered phrases\<close>

definition persistedPhraseKey :: "jstr \<Rightarrow> jstr" where
  "persistedPhraseKey topic = lit ''qn:'' @ topic @ lit '':phrase''"

definition store_item :: "browser \<Rightarrow> jstr \<Rightarrow> jstr option \<Rightarrow> notify \<Rightarrow> notify" where
  "store_item b k v s = (if storage_ok b then s\<lparr>storage := (storage s)(k := v)\<rparr> else s)"

definition savePhrase :: "browser \<Rightarrow> jstr \<Rightarrow> jstr \<Rightarrow> notify \<Rightarrow> notify" where
  "savePhrase b topic phrase = store_item b (persistedPhraseKey topic) (Some phrase)"

definition loadPhrase :: "browser \<Rightarrow> jstr \<Rightarrow> notify \<Rightarrow> jstr option" where
  "loadPhrase b topic s = (if storage_ok b then storage s (persistedPhraseKey topic) else None)"

definition forgetPhrase :: "browser \<Rightarrow> jstr \<Rightarrow> notify \<Rightarrow> notify" where
  "forgetPhrase b topic = store_item b (persistedPhraseKey topic) None"

section \<open>The inbox\<close>

text \<open>
  A time given as text counts when it is a decimal integer; \<open>None\<close> is NaN. Texts JavaScript reads
  in other notations (fractions, exponents, hexadecimal) are read as NaN here.
\<close>

definition number_text :: "jstr \<Rightarrow> int option" where
  "number_text s =
     (let t = trim s; digits = (\<lambda>u. u \<noteq> [] \<and> list_all is_digit u); n = (\<lambda>u. int (fst (pdigits 0 u)))
      in if t = [] then Some 0 else if digits t then Some (n t)
         else if hd t = 0x2D \<and> digits (tl t) then Some (- n (tl t))
         else if hd t = 0x2B \<and> digits (tl t) then Some (n (tl t)) else None)"

definition number_value :: "jsval \<Rightarrow> int option res" where
  "number_value v =
     (case v of JNum n \<Rightarrow> Inr (Some n) | JUndef \<Rightarrow> Inr None | JNull \<Rightarrow> Inr (Some 0) | JBool x \<Rightarrow> Inr (Some (of_bool x))
      | _ \<Rightarrow> bind_res (to_str v) (\<lambda>s. Inr (number_text s)))"

definition max_ts :: "int option \<Rightarrow> int option \<Rightarrow> int option" where
  "max_ts x y = (case (x, y) of (Some m, Some n) \<Rightarrow> Some (max m n) | _ \<Rightarrow> None)"

definition after_part :: "int option \<Rightarrow> jstr" where
  "after_part ts = (case ts of Some n \<Rightarrow> if n = 0 then [] else lit ''?after_ts='' @ num_str n | None \<Rightarrow> [])"

definition poll_error :: "jstr \<Rightarrow> notify \<Rightarrow> notify" where
  "poll_error e s = s\<lparr>subStatus := (lit ''poll error: '' @ e, lit ''warn'')\<rparr>"

definition pollOnce :: "browser \<Rightarrow> notify \<Rightarrow> notify" where
  "pollOnce b s =
     (case currentTopic s of
        None \<Rightarrow> s
      | Some topic \<Rightarrow>
          if topic = [] then s else
          (case topicApiUrl (origin b) topic of
             Inl e \<Rightarrow> poll_error e s
           | Inr url \<Rightarrow> suspend Inbox_reply (request (Get_url (url @ after_part (lastSeenTs s))) s)))"

definition primitive :: "jsval \<Rightarrow> bool" where
  "primitive v = (case v of JArr _ \<Rightarrow> False | JObj _ \<Rightarrow> False | _ \<Rightarrow> True)"

text \<open>\<open>seenIds.has(id)\<close>: an object just parsed equals no earlier one.\<close>

definition seen :: "jsval \<Rightarrow> notify \<Rightarrow> bool" where
  "seen v s = (primitive v \<and> v \<in> set (seenIds s))"

text \<open>
  \<open>highlightJson\<close> without its colouring spans: the escaped text of the envelope. A message
  without a body makes it throw.
\<close>

definition escape_markup :: "jstr \<Rightarrow> jstr" where
  "escape_markup s = concat (map (\<lambda>u. if u = 0x26 then lit ''&amp;'' else if u = 0x3C then lit ''&lt;''
     else if u = 0x3E then lit ''&gt;'' else [u]) s)"

definition highlightJson :: "jsval \<Rightarrow> jstr res" where
  "highlightJson v =
     (case JSON_stringify2 v of None \<Rightarrow> Inl (lit ''Cannot read properties of undefined'') | Some t \<Rightarrow> Inr (escape_markup t))"

definition msg_locked :: jstr where "msg_locked = lit ''(enter the phrase above to decrypt)''"
definition msg_failed :: jstr where
  "msg_failed = lit ''(decryption failed '' @ [0x2014] @ lit ('' phrase doesn'' @ squote @ ''t match)'')"

text \<open>The list item before decryption; the time and the identifier go into its markup as they are.\<close>

definition draw_message :: "browser \<Rightarrow> jsval \<Rightarrow> li res" where
  "draw_message b m =
     bind_res (bind_res (get m (lit ''ts'')) (locale_date b)) (\<lambda>w.
     bind_res (bind_res (get m (lit ''id'')) to_str) (\<lambda>ident.
     bind_res (get m (lit ''body'')) (\<lambda>body.
     bind_res (highlightJson body) (\<lambda>raw.
     Inr \<lparr>li_meta = lit ''<span>'' @ w @ lit ''</span><span>'' @ [0xB7] @ lit ''</span><span>'' @ ident @ lit ''</span>'',
          li_json = text_or_undefined (JSON_stringify2 body), li_raw = raw, li_raw_shown = False,
          li_unlocked = False, li_pill = [0xD83D, 0xDD12] @ lit '' Locked'', li_body = msg_locked, li_phrase = None\<rparr>))))"

definition phrase_line :: "jstr \<Rightarrow> jstr" where
  "phrase_line phrase =
     lit (''<span class='' @ dquote @ ''rp-label'' @ dquote @ ''>Phrase used to unlock this message:</span> '' @
          ''<code class='' @ dquote @ ''rp-phrase'' @ dquote @ ''>'') @ escapeHtml phrase @ lit ''</code>''"

definition unlocked_item :: "jstr \<Rightarrow> jstr \<Rightarrow> li \<Rightarrow> li" where
  "unlocked_item phrase plain x =
     x\<lparr>li_unlocked := True, li_pill := lit ''Unlocked'', li_body := plain, li_phrase := Some (phrase_line phrase)\<rparr>"

definition wrong_phrase_item :: "li \<Rightarrow> li" where
  "wrong_phrase_item x = x\<lparr>li_pill := [0xD83D, 0xDD12] @ lit '' Wrong phrase'', li_body := msg_failed\<rparr>"

definition prepend :: "li \<Rightarrow> notify \<Rightarrow> notify" where
  "prepend x s = s\<lparr>inbox := x # inbox s\<rparr>"

text \<open>
  The loop of \<open>pollOnce\<close> over the messages it got, up to the next message it has to wait for:
  the identifier is marked seen and the time noted before the message is drawn.
\<close>

definition note_seen :: "jsval \<Rightarrow> int option \<Rightarrow> notify \<Rightarrow> notify" where
  "note_seen ident ts s = s\<lparr>seenIds := seenIds s @ [ident], lastSeenTs := max_ts (lastSeenTs s) ts\<rparr>"

definition renderMessage :: "browser \<Rightarrow> jsval \<Rightarrow> jsval list \<Rightarrow> notify \<Rightarrow> notify" where
  "renderMessage b m ms s =
     (case draw_message b m of
        Inl e \<Rightarrow> poll_error e s
      | Inr x \<Rightarrow>
          (let s1 = s\<lparr>inboxEmpty_hidden := True\<rparr>
           in case currentPhrase s of
                None \<Rightarrow> suspend (Drawn ms) (prepend x s1)
              | Some phrase \<Rightarrow> suspend (Drawing (fld m ''body'') x phrase ms) s1))"

fun deliver :: "browser \<Rightarrow> jsval list \<Rightarrow> notify \<Rightarrow> notify" where
  "deliver b [] s = s"
| "deliver b (m # ms) s =
     (case get m (lit ''id'') of
        Inl e \<Rightarrow> poll_error e s
      | Inr ident \<Rightarrow>
          if seen ident s then deliver b ms s
          else (case bind_res (get m (lit ''ts'')) number_value of
                  Inl e \<Rightarrow> poll_error e (s\<lparr>seenIds := seenIds s @ [ident]\<rparr>)
                | Inr ts \<Rightarrow> renderMessage b m ms (note_seen ident ts s)))"

text \<open>\<open>for (const m of messages)\<close>: an array's elements, a text's code points, an exception otherwise.\<close>

fun text_items :: "jstr \<Rightarrow> jsval list" where
  "text_items (u # v # us) =
     (if is_lead (unat u) \<and> is_trail (unat v) then JStr [u, v] # text_items us else JStr [u] # text_items (v # us))"
| "text_items [u] = [JStr [u]]"
| "text_items [] = []"

definition iterate :: "jsval \<Rightarrow> jsval list res" where
  "iterate v = (case v of JArr vs \<Rightarrow> Inr vs | JStr s \<Rightarrow> Inr (text_items s) | _ \<Rightarrow> Inl (lit ''messages is not iterable''))"

definition fetch_refused :: "int \<Rightarrow> jstr \<Rightarrow> jstr" where
  "fetch_refused st txt = lit ''fetch failed: '' @ num_str st @ [0x20] @ take 200 txt"

definition inbox_answered :: "browser \<Rightarrow> reply \<Rightarrow> notify \<Rightarrow> notify" where
  "inbox_answered b r s =
     (case bind_res (reply_json r fetch_refused) iterate of Inl e \<Rightarrow> poll_error e s | Inr ms \<Rightarrow> deliver b ms s)"

definition message_decrypted :: "sodium \<Rightarrow> browser \<Rightarrow> jsval \<Rightarrow> li \<Rightarrow> jstr \<Rightarrow> jsval list \<Rightarrow> notify \<Rightarrow> notify" where
  "message_decrypted so b body x phrase ms s =
     deliver b ms (prepend (case decryptMessage_notify so body phrase of
        Inl _ \<Rightarrow> wrong_phrase_item x | Inr plain \<Rightarrow> unlocked_item phrase plain x) s)"

definition toggle_raw :: "nat \<Rightarrow> notify \<Rightarrow> notify" where
  "toggle_raw n s =
     (if n < length (inbox s) then s\<lparr>inbox := (inbox s)[n := (inbox s ! n)\<lparr>li_raw_shown := \<not> li_raw_shown (inbox s ! n)\<rparr>]\<rparr> else s)"

definition copy_raw :: "nat \<Rightarrow> notify \<Rightarrow> notify" where
  "copy_raw n s = (if n < length (inbox s) then s\<lparr>clipboard := Some (li_json (inbox s ! n))\<rparr> else s)"

section \<open>Watching a topic\<close>

definition PUSH_STATE_KEY :: jstr where "PUSH_STATE_KEY = lit ''qn:push:topic''"

definition populateShareCard :: "browser \<Rightarrow> jstr \<Rightarrow> notify \<Rightarrow> notify" where
  "populateShareCard b topic s =
     (if topic = DEMO_TOPIC then s\<lparr>shareCard_hidden := True\<rparr>
      else (case shareUrl (origin b) topic of
              Inl _ \<Rightarrow> s
            | Inr url \<Rightarrow> s\<lparr>shareText := inviteText url, shareCard_hidden := False\<rparr>))"

definition stopWatching :: "bool \<Rightarrow> notify \<Rightarrow> notify" where
  "stopWatching updateUi s =
     (let s1 = s\<lparr>pollTimer := False, currentTopic := None, currentPhrase := None\<rparr>;
          s2 = (if updateUi then s1\<lparr>subStatus := (lit ''Stopped.'', []), subStart_disabled := False, subStop_disabled := True\<rparr> else s1)
      in s2\<lparr>pushRow_hidden := True, shareCard_hidden := True\<rparr>)"

definition msg_no_push :: jstr where
  "msg_no_push = lit (''Your browser doesn'' @ squote @ ''t support Android-style push notifications.'')"

definition refreshPushUiForTopic :: "browser \<Rightarrow> notify \<Rightarrow> notify" where
  "refreshPushUiForTopic b s =
     (case currentTopic s of
        None \<Rightarrow> s\<lparr>pushRow_hidden := True\<rparr>
      | Some _ \<Rightarrow>
          if \<not> push_supported b then
            s\<lparr>pushRow_hidden := False, pushStatus := (msg_no_push, lit ''warn''), pushEnable_hidden := True, pushDisable_hidden := True\<rparr>
          else suspend (Refreshing (if storage_ok b then storage s PUSH_STATE_KEY else None))
                 (s\<lparr>pushRow_hidden := False, pushStatus := ([], [])\<rparr>))"

definition startWatching :: "browser \<Rightarrow> notify \<Rightarrow> notify" where
  "startWatching b s =
     (let topic = trim (subTopic s); phrase = subPhrase s
      in if \<not> validTopic topic then s\<lparr>subStatus := (msg_topic_form, lit ''err'')\<rparr>
         else
           let s1 = (stopWatching False s)
                 \<lparr>currentTopic := Some topic, currentPhrase := (if phrase = [] then None else Some phrase),
                  lastSeenTs := Some 0, seenIds := [], inbox := [], inboxEmpty_hidden := False\<rparr>;
               s2 = (if subRemember s \<and> phrase \<noteq> [] then savePhrase b topic phrase s1
                     else if \<not> subRemember s then forgetPhrase b topic s1 else s1)
           in case shareUrl (origin b) topic of
                Inl _ \<Rightarrow> s2
              | Inr url \<Rightarrow>
                  let s3 = s2\<lparr>subShare_hidden := False, subShareUrl := url,
                              subStatus := (lit ''Watching'' @ [0x2026], lit ''ok''),
                              subStart_disabled := True, subStop_disabled := False\<rparr>;
                      s4 = (pollOnce b s3)\<lparr>pollTimer := True\<rparr>
                  in populateShareCard b topic (refreshPushUiForTopic b s4))"

definition poll_tick :: "browser \<Rightarrow> notify \<Rightarrow> notify" where
  "poll_tick b s = (if pollTimer s then pollOnce b s else s)"

text \<open>A link that names a topic, and the message of the service worker.\<close>

definition autoload :: "browser \<Rightarrow> jstr option \<Rightarrow> notify \<Rightarrow> notify" where
  "autoload b t s =
     (case t of
        None \<Rightarrow> s
      | Some topic \<Rightarrow>
          if \<not> validTopic topic then s
          else (let s1 = s\<lparr>subTopic := topic\<rparr>
                in case loadPhrase b topic s1 of
                     Some saved \<Rightarrow> if saved \<noteq> [] then suspend Start_later (s1\<lparr>subPhrase := saved, subRemember := True\<rparr>)
                       else if topic \<noteq> DEMO_TOPIC then s1\<lparr>inviteTopic := Some topic\<rparr> else s1
                   | None \<Rightarrow> if topic \<noteq> DEMO_TOPIC then s1\<lparr>inviteTopic := Some topic\<rparr> else s1))"

definition worker_message :: "browser \<Rightarrow> jsval \<Rightarrow> notify \<Rightarrow> notify" where
  "worker_message b topic s =
     (case topic of
        JStr t \<Rightarrow>
          if \<not> validTopic t then s
          else (let s1 = s\<lparr>subTopic := t\<rparr>;
                    s2 = (case loadPhrase b t s1 of
                            Some saved \<Rightarrow> if saved \<noteq> [] then s1\<lparr>subPhrase := saved, subRemember := True\<rparr> else s1
                          | None \<Rightarrow> s1)
                in suspend Start_later s2)
      | _ \<Rightarrow> s)"

definition press_copy_invite :: "notify \<Rightarrow> notify" where
  "press_copy_invite s = s\<lparr>clipboard := Some (shareText s)\<rparr>"

definition press_copy_url :: "browser \<Rightarrow> notify \<Rightarrow> notify" where
  "press_copy_url b s =
     (case currentTopic s of
        None \<Rightarrow> s\<lparr>clipboard := Some []\<rparr>
      | Some t \<Rightarrow> (case shareUrl (origin b) t of Inl _ \<Rightarrow> s | Inr url \<Rightarrow> s\<lparr>clipboard := Some url\<rparr>))"

definition press_copy_share :: "notify \<Rightarrow> notify" where
  "press_copy_share s = s\<lparr>clipboard := Some (subShareUrl s), subStatus := (lit ''Share URL copied.'', lit ''ok'')\<rparr>"

text \<open>\<open>p.get("t") || p.get("topic")\<close>\<close>

definition link_topic :: "jstr option \<Rightarrow> jstr option \<Rightarrow> jstr option" where
  "link_topic t topic = (if t = None \<or> t = Some [] then topic else t)"

section \<open>Push notifications\<close>

text \<open>\<open>b64urlToUint8\<close> on the value the relay sent: only a text or an array has a length to pad to.\<close>

definition vapid_key :: "jsval \<Rightarrow> bytes res" where
  "vapid_key v =
     (case v of
        JStr t \<Rightarrow> b64urlToUint8 t
      | _ \<Rightarrow> bind_res (to_str v) (\<lambda>t.
          let n = (case v of JArr vs \<Rightarrow> (4 - length vs mod 4) mod 4 | _ \<Rightarrow> 0)
          in atob (replace_char 95 47 (replace_char 45 43 (t @ replicate n eq_char)))))"

definition vapid_refused :: "int \<Rightarrow> jstr \<Rightarrow> jstr" where
  "vapid_refused st txt = lit ''vapid fetch '' @ num_str st"

definition VAPID_URL :: jstr where "VAPID_URL = lit ''/notify/vapid-public''"

definition getVapidPub :: "reply \<Rightarrow> notify \<Rightarrow> unit res \<times> notify" where
  "getVapidPub r s =
     (case vapidPubCache s of
        Some _ \<Rightarrow> (Inr (), s)
      | None \<Rightarrow>
          (let s1 = request (Get_url VAPID_URL) s
           in case bind_res (reply_json r vapid_refused) (\<lambda>j. bind_res (get j (lit ''public_b64url'')) (\<lambda>k.
                throw_if (\<not> truthy k) (lit ''vapid: bad response'') (vapid_key k))) of
                Inl e \<Rightarrow> (Inl e, s1)
              | Inr bs \<Rightarrow> (Inr (), s1\<lparr>vapidPubCache := Some bs\<rparr>)))"

text \<open>The fields of \<open>sub.toJSON()\<close> the relay needs.\<close>

definition subscription_body :: "jsval \<Rightarrow> jstr res" where
  "subscription_body json =
     bind_res (if truthy json then get json (lit ''keys'') else Inr json) (\<lambda>keys.
     let key = (\<lambda>k. if truthy json \<and> truthy keys then get keys (lit k) else Inr JNull)
     in bind_res (key ''p256dh'') (\<lambda>p256dh. bind_res (key ''auth'') (\<lambda>auth.
        bind_res (if truthy json then get json (lit ''endpoint'') else Inr json) (\<lambda>endpoint.
        throw_if (\<not> truthy json \<or> \<not> truthy endpoint \<or> \<not> truthy p256dh \<or> \<not> truthy auth)
          (lit ''subscription missing fields; browser bug?'')
        (Inr (json_text (JObj [(lit ''endpoint'', endpoint), (lit ''p256dh'', p256dh), (lit ''auth'', auth)])))))))"

definition enablePush :: "browser \<Rightarrow> notify \<Rightarrow> notify" where
  "enablePush b s =
     (if currentTopic s = None then s\<lparr>pushStatus := (lit ''Start watching a topic first.'', lit ''warn'')\<rparr>
      else if \<not> push_supported b then
        s\<lparr>pushStatus := (lit (''This browser doesn'' @ squote @ ''t support Web Push. Try Chrome/Edge on Android, or Firefox.''), lit ''err'')\<rparr>
      else suspend Push_asking
             (s\<lparr>pushStatus := (lit ''Asking permission'' @ [0x2026], []), pushEnable_disabled := True\<rparr>))"

definition push_failed :: "jstr \<Rightarrow> notify \<Rightarrow> notify" where
  "push_failed e s = s\<lparr>pushStatus := (e, lit ''err''), pushEnable_disabled := False\<rparr>"

text \<open>
  The prompt, the relay's key and the subscription: permission, the answer with the key, an
  existing subscription, and what subscribing gives.
\<close>

record push_answers =
  permission :: jstr
  vapid_reply :: reply
  existing_sub :: "jsval option"
  subscribed :: "jsval res"

definition push_granted :: "browser \<Rightarrow> push_answers \<Rightarrow> notify \<Rightarrow> notify" where
  "push_granted b a s =
     (if permission a \<noteq> lit ''granted'' then
        push_failed (lit ''Permission '' @ permission a @ lit ''. Check your browser notification settings and try again.'') s
      else
        (case getVapidPub (vapid_reply a) s of
           (Inl e, s1) \<Rightarrow> push_failed e s1
         | (Inr _, s1) \<Rightarrow>
             (case bind_res (case existing_sub a of Some sub \<Rightarrow> Inr sub | None \<Rightarrow> subscribed a) (\<lambda>sub.
                   bind_res (subscription_body sub) (\<lambda>body.
                   bind_res (topicApiUrl (origin b) (or_null (currentTopic s1))) (\<lambda>url. Inr (url, body)))) of
                Inl e \<Rightarrow> push_failed e s1
              | Inr (url, body) \<Rightarrow> suspend Push_posted (request (Post_url (url @ lit ''/subscribe'') body) s1))))"

text \<open>The phrase of the test message is read from the form when the relay has answered.\<close>

definition test_phrase_now :: "notify \<Rightarrow> jstr" where
  "test_phrase_now s = (if subPhrase s = [] then DEMO_PHRASE else subPhrase s)"

definition push_registered :: "browser \<Rightarrow> reply \<Rightarrow> jstr \<Rightarrow> notify \<Rightarrow> notify" where
  "push_registered b r clock s =
     (case r of
        No_reply m \<Rightarrow> push_failed m s
      | Reply ok st body \<Rightarrow>
          if \<not> ok then push_failed (lit ''relay '' @ num_str st @ lit '': '' @ take 200 (from_utf8_lossy body)) s
          else
            (let s1 = store_item b PUSH_STATE_KEY (Some (or_null (currentTopic s))) (s\<lparr>pushRegistrationTopic := currentTopic s\<rparr>);
                 s2 = s1\<lparr>pushStatus := ([0x2705] @ lit '' Push enabled. Firing a test notification to verify end-to-end'' @ [0x2026], lit ''ok''),
                         pushEnable_hidden := True, pushDisable_hidden := False,
                         installHint_hidden := (installHint_hidden s1 \<and> \<not> nudge b)\<rparr>
             in suspend (Push_sealing (test_phrase_now s2) ([0x2705] @ lit '' Test notification '' @ [0x2014] @
                  lit '' your Qira Notify push is working. ('' @ clock @ lit '')'')) s2))"

definition test_failed :: "jstr \<Rightarrow> notify \<Rightarrow> notify" where
  "test_failed e s =
     s\<lparr>pushStatus := ([0x2705] @ lit '' Push enabled for '' @ [0x22] @ or_null (currentTopic s) @ [0x22] @
         lit ''. (Self-test publish failed: '' @ e @ [0x20, 0x2014] @ lit '' but real messages will still fire notifications.)'', lit ''warn''),
       pushEnable_disabled := False\<rparr>"

definition push_sealed :: "sodium \<Rightarrow> browser \<Rightarrow> jstr \<Rightarrow> jstr \<Rightarrow> jstr \<Rightarrow> notify \<Rightarrow> notify" where
  "push_sealed so b now phrase msg s =
     (let (sealed, r) = encryptMessage_notify so now msg phrase (notify_rng s); s1 = s\<lparr>notify_rng := r\<rparr>
      in case bind_res sealed (\<lambda>env. post_envelope b (currentTopic s1) env s1) of
           Inl e \<Rightarrow> test_failed e s1
         | Inr s2 \<Rightarrow> suspend Push_tested s2)"

definition push_tested :: "reply \<Rightarrow> notify \<Rightarrow> notify" where
  "push_tested r s =
     (case reply_json r publish_refused of
        Inl e \<Rightarrow> test_failed e s
      | Inr _ \<Rightarrow> s\<lparr>pushStatus := ([0x2705] @ lit '' Push enabled. Test message queued '' @ [0x2014] @
            lit '' it should buzz in 1'' @ [0x2013] @ lit ''5s. Future messages to '' @ [0x22] @ or_null (currentTopic s) @ [0x22] @
            lit '' will also fire notifications.'', lit ''ok''), pushEnable_disabled := False\<rparr>)"

definition disablePush :: "browser \<Rightarrow> notify \<Rightarrow> notify" where
  "disablePush b s =
     (if \<not> push_supported b then s
      else suspend Unsub_asking (s\<lparr>pushStatus := (lit ''Unsubscribing'' @ [0x2026], []), pushDisable_disabled := True\<rparr>))"

definition unsub_failed :: "jstr \<Rightarrow> notify \<Rightarrow> notify" where
  "unsub_failed e s = s\<lparr>pushStatus := (e, lit ''err''), pushDisable_disabled := False\<rparr>"

definition unsubscribed :: "browser \<Rightarrow> notify \<Rightarrow> notify" where
  "unsubscribed b s =
     (store_item b PUSH_STATE_KEY None (s\<lparr>pushRegistrationTopic := None\<rparr>))
       \<lparr>pushStatus := (lit ''Push disabled on this device.'', lit ''ok''), pushEnable_hidden := False,
        pushDisable_hidden := True, installHint_hidden := True, pushDisable_disabled := False\<rparr>"

text \<open>The subscription found, given by its endpoint; a refused request to forget it is ignored.\<close>

definition unsub_found :: "browser \<Rightarrow> jsval option res \<Rightarrow> notify \<Rightarrow> notify" where
  "unsub_found b sub s =
     (case sub of
        Inl e \<Rightarrow> unsub_failed e s
      | Inr None \<Rightarrow> unsubscribed b s
      | Inr (Some endpoint) \<Rightarrow>
          (case pushRegistrationTopic s of
             None \<Rightarrow> suspend Unsub_dropping s
           | Some t \<Rightarrow>
               (case topicApiUrl (origin b) t of
                  Inl _ \<Rightarrow> suspend Unsub_dropping s
                | Inr url \<Rightarrow> suspend Unsub_posted (request (Post_url (url @ lit ''/unsubscribe'')
                    (json_text (JObj [(lit ''endpoint'', endpoint)]))) s))))"

definition unsub_dropped :: "browser \<Rightarrow> unit res \<Rightarrow> notify \<Rightarrow> notify" where
  "unsub_dropped b r s = (case r of Inl e \<Rightarrow> unsub_failed e s | Inr _ \<Rightarrow> unsubscribed b s)"

definition push_refreshed :: "bool \<Rightarrow> jstr option \<Rightarrow> notify \<Rightarrow> notify" where
  "push_refreshed existing lastTopic s =
     (if existing \<and> lastTopic = currentTopic s then
        s\<lparr>pushRegistrationTopic := currentTopic s, pushEnable_hidden := True, pushDisable_hidden := False,
          pushStatus := ([0x2705] @ lit '' Push enabled for '' @ [0x22] @ or_null (currentTopic s) @ [0x22] @ lit ''.'', lit ''ok'')\<rparr>
      else if existing \<and> lastTopic \<noteq> None \<and> lastTopic \<noteq> Some [] then
        s\<lparr>pushEnable_hidden := False, pushDisable_hidden := True,
          pushStatus := (lit ''Push is currently enabled for '' @ [0x22] @ or_null lastTopic @ [0x22] @
            lit ''. Enable here to switch to '' @ [0x22] @ or_null (currentTopic s) @ [0x22] @ lit '' on this device.'', lit ''warn'')\<rparr>
      else s\<lparr>pushEnable_hidden := False, pushDisable_hidden := True\<rparr>)"

definition press_demo :: "browser \<Rightarrow> notify \<Rightarrow> notify" where
  "press_demo b s =
     suspend Demo_push (startWatching b
       (s\<lparr>subTopic := DEMO_TOPIC, subPhrase := DEMO_PHRASE, subRemember := True,
          demoStatus := (lit ''Starting '' @ [0x2014] @ lit '' about to ask for notification permission next. Say yes and a test push fires instantly.'', lit ''ok'')\<rparr>))"

definition demo_push :: "browser \<Rightarrow> bool \<Rightarrow> notify \<Rightarrow> notify" where
  "demo_push b denied s =
     (if push_supported b \<and> \<not> denied then enablePush b s
      else s\<lparr>demoStatus := (if push_supported b
          then lit (''Notification permission is '' @ squote @ ''denied'' @ squote @ '' '') @ [0x2014] @
            lit ('' clear the site'' @ squote @ ''s notification setting in your browser and try again.'')
          else lit (''Your browser doesn'' @ squote @ ''t expose the Push API '') @ [0x2014] @
            lit '' try Chrome/Edge on Android or Firefox.'', lit ''warn'')\<rparr>)"

section \<open>Events\<close>

text \<open>What a suspended handler may have waited for: the clock, an answer of the relay, the push service.\<close>

record wakeup =
  w_now :: jstr
  w_clock :: jstr
  w_reply :: reply
  w_push :: push_answers
  w_found :: "jsval option res"
  w_existing :: bool
  w_dropped :: "unit res"
  w_denied :: bool

fun run_job :: "sodium \<Rightarrow> browser \<Rightarrow> wakeup \<Rightarrow> job \<Rightarrow> notify \<Rightarrow> notify" where
  "run_job so b w (Publishing topic msg phrase) = publish_sealed so b (w_now w) topic msg phrase"
| "run_job so b w Publish_reply = publish_done (w_reply w)"
| "run_job so b w Inbox_reply = inbox_answered b (w_reply w)"
| "run_job so b w (Drawing body x phrase ms) = message_decrypted so b body x phrase ms"
| "run_job so b w (Drawn ms) = deliver b ms"
| "run_job so b w Start_later = startWatching b"
| "run_job so b w Demo_push = demo_push b (w_denied w)"
| "run_job so b w (Refreshing last_topic) = push_refreshed (w_existing w) last_topic"
| "run_job so b w Push_asking = push_granted b (w_push w)"
| "run_job so b w Push_posted = push_registered b (w_reply w) (w_clock w)"
| "run_job so b w (Push_sealing phrase msg) = push_sealed so b (w_now w) phrase msg"
| "run_job so b w Push_tested = push_tested (w_reply w)"
| "run_job so b w Unsub_asking = unsub_found b (w_found w)"
| "run_job so b w Unsub_posted = suspend Unsub_dropping"
| "run_job so b w Unsub_dropping = unsub_dropped b (w_dropped w)"

definition resume :: "sodium \<Rightarrow> browser \<Rightarrow> nat \<Rightarrow> wakeup \<Rightarrow> notify \<Rightarrow> notify" where
  "resume so b n w s =
     (if n < length (jobs s) then run_job so b w (jobs s ! n) (s\<lparr>jobs := take n (jobs s) @ drop (Suc n) (jobs s)\<rparr>)
      else s)"

datatype notify_event =
  Type_publish jstr jstr jstr
| Press_publish
| Press_random
| Type_subscribe jstr jstr bool
| Press_start
| Press_stop
| Tick
| Toggle_raw nat
| Copy_raw nat
| Copy_invite
| Copy_url
| Copy_share
| Press_enable
| Press_disable
| Press_demo
| Worker_message jsval
| Resume nat wakeup

fun notify_step :: "sodium \<Rightarrow> browser \<Rightarrow> notify_event \<Rightarrow> notify \<Rightarrow> notify" where
  "notify_step so b (Type_publish t m p) s = s\<lparr>pubTopic := t, pubMsg := m, pubPhrase := p\<rparr>"
| "notify_step so b Press_publish s = (if pubSend_disabled s then s else onPublish s)"
| "notify_step so b Press_random s = press_random s"
| "notify_step so b (Type_subscribe t p r) s = s\<lparr>subTopic := t, subPhrase := p, subRemember := r\<rparr>"
| "notify_step so b Press_start s = (if subStart_disabled s then s else startWatching b s)"
| "notify_step so b Press_stop s = (if subStop_disabled s then s else stopWatching True s)"
| "notify_step so b Tick s = poll_tick b s"
| "notify_step so b (Toggle_raw n) s = toggle_raw n s"
| "notify_step so b (Copy_raw n) s = copy_raw n s"
| "notify_step so b Copy_invite s = press_copy_invite s"
| "notify_step so b Copy_url s = press_copy_url b s"
| "notify_step so b Copy_share s = press_copy_share s"
| "notify_step so b Press_enable s = (if pushEnable_disabled s \<or> pushEnable_hidden s then s else enablePush b s)"
| "notify_step so b Press_disable s = (if pushDisable_disabled s \<or> pushDisable_hidden s then s else disablePush b s)"
| "notify_step so b Press_demo s = press_demo b s"
| "notify_step so b (Worker_message t) s = worker_message b t s"
| "notify_step so b (Resume n w) s = resume so b n w s"

text \<open>The page as it loads: nothing watched, nothing sent; forms and storage hold anything.\<close>

definition blank_page :: "notify \<Rightarrow> bool" where
  "blank_page s =
     (\<not> pubSend_disabled s \<and> \<not> subStart_disabled s \<and> subStop_disabled s \<and> subShare_hidden s \<and> shareCard_hidden s \<and>
      \<not> pollTimer s \<and> currentTopic s = None \<and> currentPhrase s = None \<and> lastSeenTs s = Some 0 \<and> seenIds s = [] \<and>
      inbox s = [] \<and> pushRow_hidden s \<and> \<not> pushEnable_hidden s \<and> pushDisable_hidden s \<and> vapidPubCache s = None \<and>
      pushRegistrationTopic s = None \<and> inviteTopic s = None \<and> clipboard s = None \<and> jobs s = [] \<and> sent s = [])"

definition notify_start :: "browser \<Rightarrow> notify \<Rightarrow> bool" where
  "notify_start b s = (\<exists>s0 t topic. blank_page s0 \<and> s = autoload b (link_topic t topic) s0)"

definition notify_reachable :: "sodium \<Rightarrow> browser \<Rightarrow> notify \<Rightarrow> bool" where
  "notify_reachable so b = reachable (notify_start b) (by_step (notify_step so b))"

end
