(* ===== verification/Notify_Safe.thy ===== *)
theory Notify_Safe
  imports Notify
begin

text \<open>
  What holds in every reachable state of the Notify page: what is watched, what the requests carry
  and what the inbox shows; and what does not hold, when the topic changes under a request.
\<close>

section \<open>The invariant\<close>

definition sealed_json :: "sodium \<Rightarrow> jstr \<Rightarrow> bool" where
  "sealed_json so body =
     (\<exists>now m phrase r env r'. encryptMessage_notify so now m phrase r = (Inr env, r') \<and> body = json_text env)"

text \<open>A request goes to the relay, names a topic, and carries a sealed envelope or push data.\<close>

definition topic_url :: "browser \<Rightarrow> jstr \<Rightarrow> jstr" where
  "topic_url b t = origin b @ lit ''/notify/'' @ t"

definition push_json :: "jstr \<Rightarrow> bool" where
  "push_json body = (\<exists>e p a. body = json_text (JObj [(lit ''endpoint'', e), (lit ''p256dh'', p), (lit ''auth'', a)]))"

fun request_ok :: "sodium \<Rightarrow> browser \<Rightarrow> request \<Rightarrow> bool" where
  "request_ok so b (Get_url u) = (u = VAPID_URL \<or> (\<exists>t ts. validTopic t \<and> u = topic_url b t @ after_part ts))"
| "request_ok so b (Post_url u body) =
     (\<exists>t. validTopic t \<and>
        (u = topic_url b t \<and> sealed_json so body \<or>
         u = topic_url b t @ lit ''/subscribe'' \<and> push_json body \<or>
         u = topic_url b t @ lit ''/unsubscribe'' \<and> (\<exists>e. body = json_text (JObj [(lit ''endpoint'', e)]))))"

text \<open>An item of the inbox shows what its envelope opens to under the phrase it names, or a fixed text.\<close>

definition item_ok :: "sodium \<Rightarrow> li \<Rightarrow> bool" where
  "item_ok so x =
     (if li_unlocked x then
        (\<exists>body phrase. li_json x = text_or_undefined (JSON_stringify2 body) \<and>
           decryptMessage_notify so body phrase = Inr (li_body x) \<and> li_phrase x = Some (phrase_line phrase))
      else li_phrase x = None \<and> li_body x \<in> {msg_locked, msg_failed})"

fun job_ok :: "job \<Rightarrow> bool" where
  "job_ok (Publishing t m p) = validTopic t"
| "job_ok (Drawing body x phrase ms) =
     (li_json x = text_or_undefined (JSON_stringify2 body) \<and> \<not> li_unlocked x \<and> li_phrase x = None)"
| "job_ok _ = True"

fun watch_fields :: "jstr option \<Rightarrow> bool \<Rightarrow> jstr option \<Rightarrow> bool \<Rightarrow> bool \<Rightarrow> bool \<Rightarrow> bool \<Rightarrow> bool" where
  "watch_fields None ticking phrase starting stopping share crd =
     (\<not> ticking \<and> phrase = None \<and> \<not> starting \<and> stopping \<and> crd)"
| "watch_fields (Some t) ticking phrase starting stopping share crd =
     (validTopic t \<and> ticking \<and> starting \<and> \<not> stopping \<and> \<not> share)"

definition watch_ok :: "notify \<Rightarrow> bool" where
  "watch_ok s = watch_fields (currentTopic s) (pollTimer s) (currentPhrase s) (subStart_disabled s)
     (subStop_disabled s) (subShare_hidden s) (shareCard_hidden s)"

definition notify_ok :: "sodium \<Rightarrow> browser \<Rightarrow> notify \<Rightarrow> bool" where
  "notify_ok so b s =
     (watch_ok s \<and> list_all (request_ok so b) (sent s) \<and> list_all (item_ok so) (inbox s) \<and> list_all job_ok (jobs s) \<and>
      pred_option validTopic (pushRegistrationTopic s))"

lemma valid_null: "validTopic (lit ''null'')"
  by (simp add: validTopic_def lit_def unit_of_def url_char_def Let_def)

lemma notify_okI:
  assumes "notify_ok so b s" and "watch_ok s'" and "sent s' = sent s" and "inbox s' = inbox s" and "jobs s' = jobs s"
    and "pushRegistrationTopic s' = pushRegistrationTopic s"
  shows "notify_ok so b s'"
  using assms by (simp add: notify_ok_def)

lemma suspend_ok: "notify_ok so b s \<Longrightarrow> job_ok j \<Longrightarrow> notify_ok so b (suspend j s)"
  by (simp add: notify_ok_def suspend_def watch_ok_def)

lemma request_keeps: "notify_ok so b s \<Longrightarrow> request_ok so b q \<Longrightarrow> notify_ok so b (request q s)"
  by (simp add: notify_ok_def request_def watch_ok_def)

lemma current_valid: "notify_ok so b s \<Longrightarrow> validTopic (or_null (currentTopic s))"
  by (cases "currentTopic s") (auto simp: notify_ok_def watch_ok_def or_null_def valid_null)

section \<open>Every operation keeps it\<close>

lemmas notify_ok_defs = notify_ok_def watch_ok_def

lemma publish_keeps:
  assumes "notify_ok so b s"
  shows "notify_ok so b (onPublish s)" and "notify_ok so b (publish_failed e s)" and "notify_ok so b (publish_done r s)"
    and "notify_ok so b (press_random s)"
  using assms
  by (auto simp: onPublish_def Let_def publish_failed_def publish_done_def press_random_def notify_ok_defs suspend_def
      split: sum.splits prod.splits option.splits)

lemma post_keeps:
  assumes "notify_ok so b s" and "validTopic (or_null t)" and "sealed_json so (json_text env)"
    and "post_envelope b t env s = Inr s'"
  shows "notify_ok so b s'"
proof -
  have "s' = request (Post_url (topic_url b (or_null t)) (json_text env)) s"
    using assms(2,4) by (auto simp: post_envelope_def topic_urls topic_url_def)
  moreover have "request_ok so b (Post_url (topic_url b (or_null t)) (json_text env))"
    using assms(2,3) by auto
  ultimately show ?thesis using assms(1) by (simp only: request_keeps)
qed

lemma rng_keeps: "notify_ok so b s \<Longrightarrow> notify_ok so b (s\<lparr>notify_rng := r\<rparr>)"
  by (simp add: notify_ok_defs)

lemma sealed_is_json: "encryptMessage_notify so now m p r = (Inr env, r') \<Longrightarrow> sealed_json so (json_text env)"
  unfolding sealed_json_def by blast

lemma sealed_keeps:
  assumes "notify_ok so b s" and "validTopic t"
  shows "notify_ok so b (publish_sealed so b now t m p s)"
proof -
  obtain sealed r where e: "encryptMessage_notify so now m p (notify_rng s) = (sealed, r)" by fastforce
  let ?s = "s\<lparr>notify_rng := r\<rparr>"
  have s1: "notify_ok so b ?s" using assms(1) by (rule rng_keeps)
  have "notify_ok so b s'" if "sealed = Inr env" "post_envelope b (Some t) env ?s = Inr s'" for env s'
    using post_keeps [OF s1 _ sealed_is_json that(2)] e that(1) assms(2) by (simp add: or_null_def)
  then show ?thesis using suspend_ok [of so b _ Publish_reply] publish_keeps(2) [OF s1]
    by (auto simp: publish_sealed_def e Let_def split: sum.splits)
qed

lemma push_sealed_keeps:
  assumes "notify_ok so b s"
  shows "notify_ok so b (push_sealed so b now p m s)"
proof -
  obtain sealed r where e: "encryptMessage_notify so now m p (notify_rng s) = (sealed, r)" by fastforce
  let ?s = "s\<lparr>notify_rng := r\<rparr>"
  have s1: "notify_ok so b ?s" using assms(1) by (rule rng_keeps)
  have "notify_ok so b s'" if "sealed = Inr env" "post_envelope b (currentTopic ?s) env ?s = Inr s'" for env s'
    using post_keeps [OF s1 current_valid [OF s1] sealed_is_json that(2)] e that(1) by simp
  moreover have "notify_ok so b (test_failed x ?s)" for x
    using s1 by (auto simp: test_failed_def notify_ok_defs)
  ultimately show ?thesis using suspend_ok [of so b _ Push_tested]
    by (auto simp: push_sealed_def e Let_def split: sum.splits)
qed

lemma push_urls:
  assumes "validTopic t"
  shows "push_json body \<Longrightarrow> request_ok so b (Post_url (origin b @ lit ''/notify/'' @ t @ lit ''/subscribe'') body)"
    and "request_ok so b (Post_url (origin b @ lit ''/notify/'' @ t @ lit ''/unsubscribe'') (json_text (JObj [(lit ''endpoint'', e)])))"
  using assms by (auto simp: topic_url_def simp del: lit_append)

lemma poll_error_keeps: "notify_ok so b s \<Longrightarrow> notify_ok so b (poll_error e s)"
  by (simp add: poll_error_def notify_ok_defs)

lemma pollOnce_keeps:
  assumes "notify_ok so b s"
  shows "notify_ok so b (pollOnce b s)"
proof (cases "currentTopic s")
  case (Some t)
  then have t: "validTopic t" using assms by (simp add: notify_ok_defs)
  then have ne: "t \<noteq> []" by (auto simp: validTopic_def)
  have "request_ok so b (Get_url (origin b @ lit ''/notify/'' @ t @ after_part (lastSeenTs s)))"
    using t by (auto simp: topic_url_def)
  then show ?thesis using assms Some ne
    by (simp add: pollOnce_def topic_urls [OF t] suspend_ok request_keeps)
qed (use assms in \<open>simp add: pollOnce_def\<close>)

lemma drawn_item:
  assumes "draw_message b m = Inr x"
  shows "li_json x = text_or_undefined (JSON_stringify2 (fld m ''body''))" and "\<not> li_unlocked x" and "li_phrase x = None"
    and "li_body x = msg_locked"
  using assms by (auto simp: draw_message_def fld_def split: sum.splits)

lemma item_kept:
  assumes "notify_ok so b s" and "item_ok so x"
  shows "notify_ok so b (prepend x s)"
  using assms by (simp add: notify_ok_defs prepend_def)

lemma empty_hint_keeps: "notify_ok so b s \<Longrightarrow> notify_ok so b (s\<lparr>inboxEmpty_hidden := h\<rparr>)"
  by (simp add: notify_ok_defs)

lemma locked_item: "draw_message b m = Inr x \<Longrightarrow> item_ok so x"
  using drawn_item [of b m x] by (simp add: item_ok_def)

lemma render_keeps:
  assumes "notify_ok so b s"
  shows "notify_ok so b (renderMessage b m ms s)"
proof (cases "draw_message b m")
  case (Inl e)
  then show ?thesis using assms by (simp add: renderMessage_def poll_error_keeps)
next
  case (Inr x)
  have s1: "notify_ok so b (s\<lparr>inboxEmpty_hidden := True\<rparr>)" using assms by (rule empty_hint_keeps)
  show ?thesis using drawn_item [OF Inr] item_kept [OF s1 locked_item [OF Inr]] suspend_ok s1 Inr
    by (auto simp: renderMessage_def Let_def split: option.splits)
qed

lemma noted_keeps: "notify_ok so b s \<Longrightarrow> notify_ok so b (note_seen i ts s)" "notify_ok so b s \<Longrightarrow> notify_ok so b (s\<lparr>seenIds := is\<rparr>)"
  by (simp_all add: note_seen_def notify_ok_defs)

lemma deliver_keeps: "notify_ok so b s \<Longrightarrow> notify_ok so b (deliver b ms s)"
proof (induction ms arbitrary: s)
  case (Cons m ms)
  then show ?case by (auto simp: poll_error_keeps render_keeps noted_keeps split: sum.splits)
qed simp

lemma inbox_keeps:
  assumes "notify_ok so b s"
  shows "notify_ok so b (inbox_answered b r s)" and "notify_ok so b (toggle_raw n s)" and "notify_ok so b (copy_raw n s)"
proof -
  show "notify_ok so b (inbox_answered b r s)"
    using assms by (auto simp: inbox_answered_def poll_error_keeps deliver_keeps split: sum.splits)
  show "notify_ok so b (copy_raw n s)" using assms by (simp add: copy_raw_def notify_ok_defs)
  have "item_ok so (x\<lparr>li_raw_shown := r\<rparr>) = item_ok so x" for x r by (simp add: item_ok_def)
  then have "list_all (item_ok so) ((inbox s)[n := (inbox s ! n)\<lparr>li_raw_shown := \<not> li_raw_shown (inbox s ! n)\<rparr>])"
    if "n < length (inbox s)" using assms that
    by (auto simp: notify_ok_def list_all_iff dest!: set_update_subset_insert [THEN subsetD])
  then show "notify_ok so b (toggle_raw n s)" using assms by (simp add: toggle_raw_def notify_ok_defs)
qed

lemma decrypted_keeps:
  assumes "notify_ok so b s" and "job_ok (Drawing body x phrase ms)"
  shows "notify_ok so b (message_decrypted so b body x phrase ms s)"
proof -
  have "item_ok so (case decryptMessage_notify so body phrase of
      Inl _ \<Rightarrow> wrong_phrase_item x | Inr plain \<Rightarrow> unlocked_item phrase plain x)"
    using assms(2) by (auto simp: item_ok_def wrong_phrase_item_def unlocked_item_def split: sum.splits)
  then show ?thesis unfolding message_decrypted_def by (intro deliver_keeps item_kept assms(1))
qed

lemma storage_keeps: "notify_ok so b s \<Longrightarrow> notify_ok so b (store_item b k v s)"
  by (simp add: store_item_def notify_ok_defs)

lemma share_keeps: "notify_ok so b s \<Longrightarrow> currentTopic s \<noteq> None \<Longrightarrow> notify_ok so b (populateShareCard b t s)"
  by (auto simp: populateShareCard_def notify_ok_defs split: sum.splits)

lemma refresh_keeps:
  assumes "notify_ok so b s" and "currentTopic s \<noteq> None"
  shows "notify_ok so b (refreshPushUiForTopic b s)" and "currentTopic (refreshPushUiForTopic b s) \<noteq> None"
  using assms by (auto simp: refreshPushUiForTopic_def notify_ok_defs suspend_def)

lemma stop_keeps: "notify_ok so b s \<Longrightarrow> notify_ok so b (stopWatching True s)"
  by (simp add: stopWatching_def Let_def notify_ok_defs)

lemma poll_fields [simp]: "currentTopic (pollOnce b s) = currentTopic s"
  by (simp add: pollOnce_def poll_error_def suspend_def request_def split: option.splits sum.splits)

text \<open>The state \<open>startWatching\<close> sets up before its first request.\<close>

definition watch_setup :: "browser \<Rightarrow> notify \<Rightarrow> notify" where
  "watch_setup b s =
     (let topic = trim (subTopic s); phrase = subPhrase s;
          s1 = (stopWatching False s)
                 \<lparr>currentTopic := Some topic, currentPhrase := (if phrase = [] then None else Some phrase),
                  lastSeenTs := Some 0, seenIds := [], inbox := [], inboxEmpty_hidden := False\<rparr>;
          s2 = (if subRemember s \<and> phrase \<noteq> [] then savePhrase b topic phrase s1
                else if \<not> subRemember s then forgetPhrase b topic s1 else s1)
      in s2\<lparr>subShare_hidden := False, subShareUrl := origin b @ lit ''/notify/?t='' @ topic,
            subStatus := (lit ''Watching'' @ [0x2026], lit ''ok''), subStart_disabled := True, subStop_disabled := False\<rparr>)"

lemma startWatching_eq:
  "validTopic (trim (subTopic s)) \<Longrightarrow>
   startWatching b s = populateShareCard b (trim (subTopic s))
     (refreshPushUiForTopic b ((pollOnce b (watch_setup b s))\<lparr>pollTimer := True\<rparr>))"
  by (simp add: startWatching_def watch_setup_def Let_def topic_urls)

lemma setup_fields:
  "currentTopic (watch_setup b s) = Some (trim (subTopic s))"
  "currentPhrase (watch_setup b s) = (if subPhrase s = [] then None else Some (subPhrase s))"
  "lastSeenTs (watch_setup b s) = Some 0" "seenIds (watch_setup b s) = []" "inbox (watch_setup b s) = []"
  "sent (watch_setup b s) = sent s" "jobs (watch_setup b s) = jobs s"
  "pushRegistrationTopic (watch_setup b s) = pushRegistrationTopic s"
  "subStart_disabled (watch_setup b s)" "\<not> subStop_disabled (watch_setup b s)" "\<not> subShare_hidden (watch_setup b s)"
  by (simp_all add: watch_setup_def Let_def savePhrase_def forgetPhrase_def store_item_def stopWatching_def)

lemma setup_storage:
  "storage (watch_setup b s) = (if \<not> storage_ok b then storage s
     else if subRemember s then (if subPhrase s = [] then storage s
       else (storage s)(persistedPhraseKey (trim (subTopic s)) \<mapsto> subPhrase s))
     else (storage s)(persistedPhraseKey (trim (subTopic s)) := None))"
  by (simp add: watch_setup_def Let_def savePhrase_def forgetPhrase_def store_item_def stopWatching_def)

lemma start_keeps:
  assumes "notify_ok so b s"
  shows "notify_ok so b (startWatching b s)"
proof (cases "validTopic (trim (subTopic s))")
  case False
  then show ?thesis using assms by (simp add: startWatching_def notify_ok_defs)
next
  case True
  let ?s = "watch_setup b s"
  have "notify_ok so b (?s\<lparr>pollTimer := True\<rparr>)"
    using assms True by (simp add: notify_ok_defs setup_fields)
  then have "notify_ok so b (pollOnce b (?s\<lparr>pollTimer := True\<rparr>))" by (rule pollOnce_keeps)
  moreover have "pollOnce b (?s\<lparr>pollTimer := True\<rparr>) = (pollOnce b ?s)\<lparr>pollTimer := True\<rparr>"
    by (simp add: pollOnce_def poll_error_def suspend_def request_def split: option.splits sum.splits)
  ultimately have s4: "notify_ok so b ((pollOnce b ?s)\<lparr>pollTimer := True\<rparr>)"
    "currentTopic ((pollOnce b ?s)\<lparr>pollTimer := True\<rparr>) \<noteq> None"
    by (simp_all add: setup_fields)
  show ?thesis using share_keeps refresh_keeps [OF s4] by (simp add: startWatching_eq [OF True])
qed

lemma poll_tick_keeps: "notify_ok so b s \<Longrightarrow> notify_ok so b (poll_tick b s)"
  by (simp add: poll_tick_def pollOnce_keeps)

lemma worker_keeps: "notify_ok so b s \<Longrightarrow> notify_ok so b (worker_message b v s)"
  by (auto simp: worker_message_def Let_def notify_ok_defs suspend_def split: jsval.splits option.splits)

lemma copies_keep:
  assumes "notify_ok so b s"
  shows "notify_ok so b (press_copy_invite s)" and "notify_ok so b (press_copy_url b s)" and "notify_ok so b (press_copy_share s)"
  using assms by (auto simp: press_copy_invite_def press_copy_url_def press_copy_share_def notify_ok_defs split: option.splits sum.splits)

section \<open>Push\<close>

lemma push_ui_keeps:
  assumes "notify_ok so b s"
  shows "notify_ok so b (enablePush b s)" and "notify_ok so b (disablePush b s)" and "notify_ok so b (push_failed e s)"
    and "notify_ok so b (unsub_failed e s)" and "notify_ok so b (unsubscribed b s)" and "notify_ok so b (push_refreshed x l s)"
    and "notify_ok so b (push_tested r s)" and "notify_ok so b (demo_push b d s)" and "notify_ok so b (unsub_dropped b u s)"
proof -
  note defs = notify_ok_defs suspend_def store_item_def
  show "notify_ok so b (enablePush b s)" using assms by (cases "currentTopic s") (simp_all add: enablePush_def defs)
  then show "notify_ok so b (demo_push b d s)" using assms by (cases "currentTopic s") (simp_all add: demo_push_def defs)
  show "notify_ok so b (disablePush b s)" using assms by (cases "currentTopic s") (simp_all add: disablePush_def defs)
  show "notify_ok so b (push_failed e s)" using assms by (simp add: push_failed_def defs)
  show uf: "notify_ok so b (unsub_failed e s)" for e using assms by (simp add: unsub_failed_def defs)
  show us: "notify_ok so b (unsubscribed b s)" using assms by (simp add: unsubscribed_def defs)
  show "notify_ok so b (unsub_dropped b u s)" using uf us by (simp add: unsub_dropped_def split: sum.split)
  show "notify_ok so b (push_tested r s)" using assms by (simp add: push_tested_def test_failed_def defs split: sum.split)
  show "notify_ok so b (push_refreshed x l s)"
    using assms by (cases "currentTopic s") (simp_all add: push_refreshed_def defs)
qed

lemma granted_keeps:
  assumes "notify_ok so b s"
  shows "notify_ok so b (push_granted b a s)"
proof -
  have g: "notify_ok so b s1 \<and> currentTopic s1 = currentTopic s" if "getVapidPub r s = (x, s1)" for r s1 x
    using assms that by (auto simp: getVapidPub_def notify_ok_defs request_def Let_def split: option.splits sum.splits)
  have body: "push_json body" if "subscription_body sub = Inr body" for sub body
    using that by (auto simp: subscription_body_def push_json_def Let_def)
  obtain x s1 where v: "getVapidPub (vapid_reply a) s = (x, s1)" by (cases "getVapidPub (vapid_reply a) s")
  then have s1: "notify_ok so b s1" "validTopic (or_null (currentTopic s1))" using g current_valid by blast+
  show ?thesis
    using assms s1 body
    by (auto simp: push_granted_def v push_ui_keeps suspend_ok request_keeps topic_urls push_urls simp del: request_ok.simps split: sum.splits)
qed

lemma registered_keeps:
  assumes "notify_ok so b s"
  shows "notify_ok so b (push_registered b r c s)"
  using assms
  by (cases "currentTopic s")
     (simp_all add: push_registered_def Let_def push_ui_keeps notify_ok_defs suspend_def store_item_def push_failed_def split: reply.split)

lemma unsub_keeps:
  assumes "notify_ok so b s"
  shows "notify_ok so b (unsub_found b u s)"
proof -
  have "validTopic t" if "pushRegistrationTopic s = Some t" for t using assms that by (simp add: notify_ok_def)
  then show ?thesis using assms
    by (auto simp: unsub_found_def push_ui_keeps suspend_ok request_keeps topic_urls push_urls simp del: request_ok.simps split: sum.splits option.splits)
qed

section \<open>All states\<close>

lemma job_keeps:
  assumes "notify_ok so b s" and "job_ok j"
  shows "notify_ok so b (run_job so b w j s)"
  using assms
  by (cases j) (simp_all add: sealed_keeps push_sealed_keeps publish_keeps inbox_keeps decrypted_keeps deliver_keeps start_keeps push_ui_keeps
      granted_keeps registered_keeps unsub_keeps suspend_ok)

lemma resume_keeps:
  assumes "notify_ok so b s"
  shows "notify_ok so b (resume so b n w s)"
proof (cases "n < length (jobs s)")
  case True
  then have "job_ok (jobs s ! n)" using assms by (simp add: notify_ok_def list_all_length)
  moreover have "notify_ok so b (s\<lparr>jobs := take n (jobs s) @ drop (Suc n) (jobs s)\<rparr>)"
    using assms by (auto simp: notify_ok_defs list_all_iff dest: in_set_takeD in_set_dropD)
  ultimately show ?thesis using True by (simp add: resume_def job_keeps)
qed (use assms in \<open>simp add: resume_def\<close>)

lemma notify_step_keeps: "notify_ok so b s \<Longrightarrow> notify_ok so b (notify_step so b e s)"
proof (cases e)
  case (Type_publish t m p)
  then show "notify_ok so b s \<Longrightarrow> ?thesis" by (simp add: notify_ok_defs)
next
  case (Type_subscribe t p r)
  then show "notify_ok so b s \<Longrightarrow> ?thesis" by (simp add: notify_ok_defs)
next
  case Press_demo
  have "notify_ok so b (s\<lparr>subTopic := t, subPhrase := p, subRemember := r, demoStatus := d\<rparr>)" if "notify_ok so b s" for t p r d
    using that by (simp add: notify_ok_defs)
  then show "notify_ok so b s \<Longrightarrow> ?thesis" using Press_demo by (simp add: press_demo_def suspend_ok start_keeps)
qed (simp_all add: publish_keeps start_keeps stop_keeps poll_tick_keeps inbox_keeps copies_keep push_ui_keeps worker_keeps resume_keeps)

lemma notify_start_ok: "notify_start b s \<Longrightarrow> notify_ok so b s"
  by (auto simp: notify_start_def blank_page_def autoload_def Let_def notify_ok_defs suspend_def split: option.splits)

interpretation notify_page: kept "notify_start b" "notify_step so b" "notify_ok so b" for so b
  by unfold_locales (fact notify_start_ok notify_step_keeps)+

lemma notify_reachable_ok:
  assumes "notify_reachable so b s"
  shows "notify_ok so b s"
  using assms unfolding notify_reachable_def by (rule notify_page.holds)

section \<open>The whole answer is drawn\<close>

text \<open>A message the page can draw: its fields read, its time formats, its body is there.\<close>

definition readable :: "browser \<Rightarrow> jsval \<Rightarrow> bool" where
  "readable b m =
     (is_ok (draw_message b m) \<and> is_ok (bind_res (get m (lit ''ts'')) number_value) \<and> primitive (fld m ''id''))"

definition drawn_item_of :: "browser \<Rightarrow> jsval \<Rightarrow> li" where
  "drawn_item_of b m = (case draw_message b m of Inr x \<Rightarrow> x | Inl _ \<Rightarrow> undefined)"

definition final_item :: "sodium \<Rightarrow> browser \<Rightarrow> jstr option \<Rightarrow> jsval \<Rightarrow> li" where
  "final_item so b phrase m =
     (case phrase of
        None \<Rightarrow> drawn_item_of b m
      | Some p \<Rightarrow> (case decryptMessage_notify so (fld m ''body'') p of
            Inl _ \<Rightarrow> wrong_phrase_item (drawn_item_of b m) | Inr plain \<Rightarrow> unlocked_item p plain (drawn_item_of b m)))"

definition ts_of :: "jsval \<Rightarrow> int option" where
  "ts_of m = (case bind_res (get m (lit ''ts'')) number_value of Inr ts \<Rightarrow> ts | Inl _ \<Rightarrow> None)"

lemma readable_reads:
  assumes "readable b m"
  shows "draw_message b m = Inr (drawn_item_of b m)" and "get m (lit ''id'') = Inr (fld m ''id'')"
    and "bind_res (get m (lit ''ts'')) number_value = Inr (ts_of m)"
proof -
  obtain x where x: "draw_message b m = Inr x" using assms by (auto simp: readable_def is_ok_iff simp del: bind_res_Inr_iff)
  then show "draw_message b m = Inr (drawn_item_of b m)" by (simp add: drawn_item_of_def)
  obtain ts where "bind_res (get m (lit ''ts'')) number_value = Inr ts"
    using assms by (auto simp: readable_def is_ok_iff simp del: bind_res_Inr_iff)
  then show "bind_res (get m (lit ''ts'')) number_value = Inr (ts_of m)" by (simp add: ts_of_def del: bind_res_Inr_iff)
  show "get m (lit ''id'') = Inr (fld m ''id'')"
    using x by (cases m) (auto simp: draw_message_def fld_def)
qed

text \<open>The state when the loop has dealt with one message and goes on with the next.\<close>

definition after_message :: "sodium \<Rightarrow> browser \<Rightarrow> jsval \<Rightarrow> notify \<Rightarrow> notify" where
  "after_message so b m s =
     prepend (final_item so b (currentPhrase s) m) ((note_seen (fld m ''id'') (ts_of m) s)\<lparr>inboxEmpty_hidden := True\<rparr>)"

lemma deliver_next:
  assumes "readable b m" and "\<not> seen (fld m ''id'') s"
  shows "resume so b (length (jobs s)) w (deliver b (m # ms) s) = deliver b ms (after_message so b m s)"
proof -
  note r = readable_reads [OF assms(1)]
  have d: "deliver b (m # ms) s = renderMessage b m ms (note_seen (fld m ''id'') (ts_of m) s)"
    using assms(2) r(2,3) by (simp del: bind_res_Inr_iff)
  show ?thesis
  proof (cases "currentPhrase s")
    case None
    then show ?thesis unfolding d
      by (simp add: renderMessage_def r(1) note_seen_def Let_def suspend_def prepend_def resume_def after_message_def final_item_def)
  next
    case (Some p)
    then show ?thesis unfolding d
      by (simp add: renderMessage_def r(1) note_seen_def Let_def suspend_def prepend_def resume_def after_message_def
          final_item_def message_decrypted_def)
  qed
qed

lemma after_message_fields:
  "inbox (after_message so b m s) = final_item so b (currentPhrase s) m # inbox s"
  "jobs (after_message so b m s) = jobs s" "currentPhrase (after_message so b m s) = currentPhrase s"
  "lastSeenTs (after_message so b m s) = max_ts (lastSeenTs s) (ts_of m)"
  "seen v (after_message so b m s) = (seen v s \<or> primitive v \<and> v = fld m ''id'')"
  by (auto simp: after_message_def prepend_def note_seen_def seen_def)

lemma loop_finishes:
  assumes "\<forall>m \<in> set ms. readable b m \<and> \<not> seen (fld m ''id'') s" and "distinct (map (\<lambda>m. fld m ''id'') ms)"
  shows "let s' = (resume so b (length (jobs s)) w ^^ length ms) (deliver b ms s)
    in inbox s' = rev (map (final_item so b (currentPhrase s)) ms) @ inbox s \<and> jobs s' = jobs s \<and>
       lastSeenTs s' = foldl max_ts (lastSeenTs s) (map ts_of ms)"
  using assms
proof (induction ms arbitrary: s)
  case (Cons m ms)
  let ?s = "after_message so b m s"
  have "\<forall>m' \<in> set ms. readable b m' \<and> \<not> seen (fld m' ''id'') ?s"
  proof
    fix m' assume m': "m' \<in> set ms"
    then have "fld m' ''id'' \<noteq> fld m ''id''" using Cons.prems(2) by (auto simp: image_iff)
    then show "readable b m' \<and> \<not> seen (fld m' ''id'') ?s" using Cons.prems(1) m' by (simp add: after_message_fields(5))
  qed
  moreover have "distinct (map (\<lambda>m. fld m ''id'') ms)" using Cons.prems(2) by simp
  ultimately have IH: "let s' = (resume so b (length (jobs ?s)) w ^^ length ms) (deliver b ms ?s)
      in inbox s' = rev (map (final_item so b (currentPhrase ?s)) ms) @ inbox ?s \<and> jobs s' = jobs ?s \<and>
         lastSeenTs s' = foldl max_ts (lastSeenTs ?s) (map ts_of ms)" by (rule Cons.IH)
  have "(resume so b (length (jobs s)) w ^^ length (m # ms)) (deliver b (m # ms) s) =
      (resume so b (length (jobs s)) w ^^ length ms) (deliver b ms ?s)"
    using deliver_next [of b m s so w ms] Cons.prems(1) by (simp add: funpow_swap1 del: deliver.simps)
  then show ?case using IH by (simp add: Let_def after_message_fields del: deliver.simps)
qed simp

section \<open>Publishing\<close>

lemma publish_posts:
  assumes works: "kdf_works so" "aead_works so" "base64_works so"
    and form: "validTopic (trim (pubTopic s))" "pubMsg s \<noteq> []" "4 \<le> length (pubPhrase s)" "\<not> pubSend_disabled s"
  obtains env r r' where "encryptMessage_notify so (w_now w) (pubMsg s) (pubPhrase s) r = (Inr env, r')"
    and "sent (resume so b (length (jobs s)) w (notify_step so b Press_publish s)) =
      sent s @ [Post_url (topic_url b (trim (pubTopic s))) (json_text env)]"
    and "jobs (resume so b (length (jobs s)) w (notify_step so b Press_publish s)) = jobs s @ [Publish_reply]"
proof -
  have ne: "pubPhrase s \<noteq> []" using form(3) by auto
  obtain env r' where e: "encryptMessage_notify so (w_now w) (pubMsg s) (pubPhrase s) (notify_rng s) = (Inr env, r')"
    by (rule notify_encrypts [OF works(1,2) ne])
  show thesis
    by (rule that [OF e])
       (use form e in \<open>simp_all add: onPublish_def suspend_def resume_def publish_sealed_def post_envelope_def or_null_def
          topic_urls topic_url_def request_def Let_def\<close>)
qed

text \<open>What was posted comes back as the envelope.\<close>

lemma posted_parses:
  assumes "kdf_works so" "aead_works so" "base64_works so"
    and "encryptMessage_notify so now p phrase r = (Inr env, r')"
  shows "JSON_parse (json_text env) = Some env"
proof -
  have "wf_val env" using notify_opens(2) [OF assms] .
  then show ?thesis
    using JSON_parse_text [of env "[]" "[]" "[]"] by (simp add: json_text_def JSON_stringify_def json_str_text_of text_or_undefined_def)
qed

section \<open>What starting to watch does\<close>

lemma share_fields:
  "currentTopic (populateShareCard b t s) = currentTopic s" "currentPhrase (populateShareCard b t s) = currentPhrase s"
  "lastSeenTs (populateShareCard b t s) = lastSeenTs s" "seenIds (populateShareCard b t s) = seenIds s"
  "inbox (populateShareCard b t s) = inbox s" "pollTimer (populateShareCard b t s) = pollTimer s"
  "sent (populateShareCard b t s) = sent s" "jobs (populateShareCard b t s) = jobs s"
  "storage (populateShareCard b t s) = storage s"
  by (simp_all add: populateShareCard_def split: sum.split)

lemma refresh_fields:
  "currentTopic (refreshPushUiForTopic b s) = currentTopic s" "currentPhrase (refreshPushUiForTopic b s) = currentPhrase s"
  "lastSeenTs (refreshPushUiForTopic b s) = lastSeenTs s" "seenIds (refreshPushUiForTopic b s) = seenIds s"
  "inbox (refreshPushUiForTopic b s) = inbox s" "pollTimer (refreshPushUiForTopic b s) = pollTimer s"
  "sent (refreshPushUiForTopic b s) = sent s" "\<exists>js. jobs (refreshPushUiForTopic b s) = jobs s @ js"
  "storage (refreshPushUiForTopic b s) = storage s"
  by (simp_all add: refreshPushUiForTopic_def suspend_def split: option.split)

lemma poll_result:
  assumes "currentTopic s = Some t" and "validTopic t"
  shows "pollOnce b s = suspend Inbox_reply (request (Get_url (topic_url b t @ after_part (lastSeenTs s))) s)"
proof -
  have "t \<noteq> []" using assms(2) by (auto simp: validTopic_def)
  then show ?thesis using assms by (simp add: pollOnce_def topic_urls topic_url_def)
qed

lemma start_result:
  fixes s b
  assumes "validTopic (trim (subTopic s))"
  defines "t \<equiv> trim (subTopic s)" and "s' \<equiv> startWatching b s"
  shows "currentTopic s' = Some t" and "currentPhrase s' = (if subPhrase s = [] then None else Some (subPhrase s))"
    and "lastSeenTs s' = Some 0" and "seenIds s' = []" and "inbox s' = []" and "pollTimer s'"
    and "sent s' = sent s @ [Get_url (topic_url b t)]" and "\<exists>js. jobs s' = jobs s @ Inbox_reply # js"
    and "storage s' = storage (watch_setup b s)"
proof -
  have s': "s' = populateShareCard b t (refreshPushUiForTopic b
      ((suspend Inbox_reply (request (Get_url (topic_url b t)) (watch_setup b s)))\<lparr>pollTimer := True\<rparr>))"
    using assms(1) by (simp add: s'_def t_def startWatching_eq poll_result [OF setup_fields(1)] setup_fields(3) after_part_def)
  show "currentTopic s' = Some t" "currentPhrase s' = (if subPhrase s = [] then None else Some (subPhrase s))"
    "lastSeenTs s' = Some 0" "seenIds s' = []" "inbox s' = []" "pollTimer s'"
    "sent s' = sent s @ [Get_url (topic_url b t)]" "storage s' = storage (watch_setup b s)"
    unfolding s' by (simp_all add: share_fields refresh_fields setup_fields suspend_def request_def t_def)
  have "jobs ((suspend Inbox_reply (request q (watch_setup b s)))\<lparr>pollTimer := True\<rparr>) = jobs s @ [Inbox_reply]" for q
    by (simp add: suspend_def request_def setup_fields)
  then show "\<exists>js. jobs s' = jobs s @ Inbox_reply # js" unfolding s' share_fields
    using refresh_fields(8) [of b "(suspend Inbox_reply (request (Get_url (topic_url b t)) (watch_setup b s)))\<lparr>pollTimer := True\<rparr>"] by auto
qed

lemma url_char_not_blank: "url_char u \<Longrightarrow> \<not> js_space u"
  by (auto simp: url_char_def js_space_def Let_def)

lemma trim_topic: "validTopic t \<Longrightarrow> trim t = t"
proof -
  assume t: "validTopic t"
  then have u: "\<forall>u \<in> set t. \<not> js_space u" using url_char_not_blank by (auto simp: validTopic_def list_all_iff)
  have d: "dropWhile js_space s = s" if "\<forall>u \<in> set s. \<not> js_space u" for s using that by (cases s) auto
  show ?thesis using d [of t] d [of "rev t"] u by (simp add: trim_def)
qed

text \<open>Stopping, typing another topic and starting: what it leaves of the state.\<close>

definition switch_to :: "sodium \<Rightarrow> browser \<Rightarrow> jstr \<Rightarrow> bool \<Rightarrow> notify \<Rightarrow> notify" where
  "switch_to so b t remember s =
     notify_step so b Press_start (notify_step so b (Type_subscribe t [] remember) (notify_step so b Press_stop s))"

lemma switch_result:
  fixes so b s t r
  assumes "notify_ok so b s" and "validTopic t"
  defines "s' \<equiv> switch_to so b t r s"
  shows "currentTopic s' = Some t" and "currentPhrase s' = None" and "lastSeenTs s' = Some 0" and "seenIds s' = []"
    and "inbox s' = []" and "pollTimer s'" and "\<exists>js. jobs s' = jobs s @ js"
proof -
  let ?s = "notify_step so b (Type_subscribe t [] r) (notify_step so b Press_stop s)"
  have "\<not> subStart_disabled ?s"
    using assms(1) by (cases "currentTopic s") (simp_all add: notify_ok_defs stopWatching_def Let_def)
  then have s': "s' = startWatching b ?s" by (simp add: s'_def switch_to_def)
  have f: "trim (subTopic ?s) = t" "subPhrase ?s = []" "jobs ?s = jobs s"
    using trim_topic [OF assms(2)] by (simp_all add: stopWatching_def Let_def)
  show "currentTopic s' = Some t" "currentPhrase s' = None" "lastSeenTs s' = Some 0" "seenIds s' = []"
    "inbox s' = []" "pollTimer s'"
    using start_result(1-6) [of ?s b] assms(2) unfolding s' f by simp_all
  show "\<exists>js. jobs s' = jobs s @ js"
    using start_result(8) [of ?s b] assms(2) unfolding s' f by blast
qed

section \<open>A sample page\<close>

definition sample_browser :: browser where
  "sample_browser = \<lparr>origin = lit ''https://q'', locale_date = (\<lambda>v. Inr (lit ''noon'')), storage_ok = True,
     push_supported = False, nudge = False\<rparr>"

definition sample_page_state :: notify where
  "sample_page_state =
     \<lparr>pubTopic = lit ''news'', pubMsg = lit ''hi'', pubPhrase = lit ''pass'', pubSend_disabled = False, pubStatus = ([], []),
      subTopic = lit ''news'', subPhrase = lit ''pass'', subRemember = False, subStart_disabled = False, subStop_disabled = True,
      subStatus = ([], []), subShare_hidden = True, subShareUrl = [], shareCard_hidden = True, shareText = [], inviteTopic = None,
      pollTimer = False, currentTopic = None, currentPhrase = None, lastSeenTs = Some 0, seenIds = [], inbox = [],
      inboxEmpty_hidden = False, demoStatus = ([], []), pushRow_hidden = True, pushEnable_hidden = False,
      pushEnable_disabled = False, pushDisable_hidden = True, pushDisable_disabled = False, installHint_hidden = True,
      pushStatus = ([], []), vapidPubCache = None, pushRegistrationTopic = None, storage = (\<lambda>_. None), clipboard = None,
      jobs = [], sent = [], notify_rng = (\<lambda>_. 7)\<rparr>"

definition sample_wakeup :: "reply \<Rightarrow> wakeup" where
  "sample_wakeup r =
     \<lparr>w_now = lit ''now'', w_clock = lit ''noon'', w_reply = r,
      w_push = \<lparr>permission = lit ''denied'', vapid_reply = r, existing_sub = None, subscribed = Inl []\<rparr>,
      w_found = Inr None, w_existing = False, w_dropped = Inr (), w_denied = True\<rparr>"

lemma sample_start: "notify_start b sample_page_state"
  unfolding notify_start_def
  by (rule exI [of _ sample_page_state], rule exI [of _ None], rule exI [of _ None])
     (simp add: blank_page_def sample_page_state_def link_topic_def autoload_def)

lemma sample_run: "notify_reachable so b (fold (notify_step so b) es sample_page_state)"
  unfolding notify_reachable_def by (intro reachable_run reachable.start sample_start)

lemma news_valid: "validTopic (lit ''news'')" "trim (lit ''news'') = lit ''news''"
proof -
  show v: "validTopic (lit ''news'')" by (simp add: validTopic_def lit_def unit_of_def url_char_def Let_def)
  show "trim (lit ''news'') = lit ''news''" by (rule trim_topic [OF v])
qed

definition sent_sample :: notify where
  "sent_sample = fold (notify_step toy_sodium sample_browser) [Press_publish, Resume 0 (sample_wakeup (No_reply []))] sample_page_state"

lemma sent_sample_facts:
  "notify_reachable toy_sodium sample_browser sent_sample"
  "\<exists>env r r'. encryptMessage_notify toy_sodium (lit ''now'') (lit ''hi'') (lit ''pass'') r = (Inr env, r') \<and>
     sent sent_sample = [Post_url (topic_url sample_browser (lit ''news'')) (json_text env)]"
proof -
  show "notify_reachable toy_sodium sample_browser sent_sample" unfolding sent_sample_def by (rule sample_run)
  note so = sodium_okD [OF toy_sodium_ok]
  obtain env r r' where "encryptMessage_notify toy_sodium (w_now (sample_wakeup (No_reply []))) (pubMsg sample_page_state) (pubPhrase sample_page_state) r = (Inr env, r')"
    "sent (resume toy_sodium sample_browser (length (jobs sample_page_state)) (sample_wakeup (No_reply []))
        (notify_step toy_sodium sample_browser Press_publish sample_page_state)) =
      sent sample_page_state @ [Post_url (topic_url sample_browser (trim (pubTopic sample_page_state))) (json_text env)]"
    by (rule publish_posts [OF so(1,2,5), where s = sample_page_state and b = sample_browser and w = "sample_wakeup (No_reply [])"])
       (simp_all add: sample_page_state_def news_valid)
  then show "\<exists>env r r'. encryptMessage_notify toy_sodium (lit ''now'') (lit ''hi'') (lit ''pass'') r = (Inr env, r') \<and>
     sent sent_sample = [Post_url (topic_url sample_browser (lit ''news'')) (json_text env)]"
    by (intro exI [of _ env] exI [of _ r] exI [of _ r'])
       (simp add: sent_sample_def sample_page_state_def news_valid sample_wakeup_def)
qed

section \<open>A message on its way\<close>

definition relay_message :: "jstr \<Rightarrow> int \<Rightarrow> jsval \<Rightarrow> jsval" where
  "relay_message i k env = JObj [(lit ''id'', JStr i), (lit ''ts'', JNum k), (lit ''body'', env)]"

lemma relay_fields:
  "get (relay_message i k env) (lit ''id'') = Inr (JStr i)" "get (relay_message i k env) (lit ''ts'') = Inr (JNum k)"
  "get (relay_message i k env) (lit ''body'') = Inr env" "fld (relay_message i k env) ''id'' = JStr i"
  "fld (relay_message i k env) ''body'' = env"
  by (simp_all add: relay_message_def)

lemma relay_readable:
  assumes "wf_val env" and "locale_date b (JNum k) = Inr d"
  shows "readable b (relay_message i k env)"
proof -
  have "\<exists>t. JSON_stringify2 env = Some t" using json_str_Some [OF assms(1)] by (simp add: JSON_stringify2_def)
  then obtain t where "JSON_stringify2 env = Some t" by blast
  then show ?thesis using assms(2)
    by (simp add: readable_def draw_message_def relay_fields highlightJson_def number_value_def primitive_def del: bind_res_Inr_iff)
qed

lemma arrival:
  assumes works: "kdf_works so" "aead_works so" "base64_works so"
    and e: "encryptMessage_notify so now m ph r = (Inr env, r')" and m: "plain_text m"
    and t: "n < length (jobs t)" "jobs t ! n = Inbox_reply" "currentPhrase t = Some ph" "\<not> seen (JStr i) t"
    and d: "locale_date b (JNum k) = Inr d"
    and reply: "reply_json (w_reply w1) fetch_refused = Inr (JArr [relay_message i k env])"
  obtains x where "inbox (resume so b (length (jobs t) - 1) w2 (resume so b n w1 t)) = x # inbox t"
    and "li_unlocked x" and "li_body x = m" and "li_phrase x = Some (phrase_line ph)"
proof -
  let ?m = "relay_message i k env"
  let ?t = "t\<lparr>jobs := take n (jobs t) @ drop (Suc n) (jobs t)\<rparr>"
  have a: "resume so b n w1 t = deliver b [?m] ?t"
    using t(1,2) reply by (simp add: resume_def inbox_answered_def iterate_def del: deliver.simps)
  have r: "readable b ?m" using notify_opens(2) [OF works e] d by (rule relay_readable)
  have ns: "\<not> seen (fld ?m ''id'') ?t" using t(4) by (simp add: relay_fields seen_def)
  have l: "length (jobs ?t) = length (jobs t) - 1" using t(1) by simp
  have "resume so b (length (jobs t) - 1) w2 (resume so b n w1 t) = deliver b [] (after_message so b ?m ?t)"
    using deliver_next [OF r ns, of so w2 "[]"] unfolding a l .
  then have "inbox (resume so b (length (jobs t) - 1) w2 (resume so b n w1 t)) = final_item so b (Some ph) ?m # inbox t"
    using t(3) by (simp add: after_message_fields)
  moreover have "final_item so b (Some ph) ?m = unlocked_item ph m (drawn_item_of b ?m)"
    using notify_opens(1) [OF works e] plain_units [OF m] by (simp add: final_item_def relay_fields)
  ultimately show thesis by (intro that [of "unlocked_item ph m (drawn_item_of b ?m)"]) (simp_all add: unlocked_item_def)
qed

definition watching_sample :: notify where
  "watching_sample = fold (notify_step toy_sodium sample_browser) [Press_start] sample_page_state"

lemma watching_facts:
  "notify_reachable toy_sodium sample_browser watching_sample" "currentPhrase watching_sample = Some (lit ''pass'')"
  "\<not> seen v watching_sample" "0 < length (jobs watching_sample)" "jobs watching_sample ! 0 = Inbox_reply" "inbox watching_sample = []"
proof -
  show "notify_reachable toy_sodium sample_browser watching_sample" unfolding watching_sample_def by (rule sample_run)
  have v: "validTopic (trim (subTopic sample_page_state))" by (simp add: sample_page_state_def news_valid)
  have w: "watching_sample = startWatching sample_browser sample_page_state"
    by (simp add: watching_sample_def) (simp add: sample_page_state_def)
  note r = start_result [OF v, of sample_browser, folded w]
  show "currentPhrase watching_sample = Some (lit ''pass'')" using r(2) by (simp add: sample_page_state_def)
  show "\<not> seen v watching_sample" using r(4) by (simp add: seen_def)
  show "0 < length (jobs watching_sample)" "jobs watching_sample ! 0 = Inbox_reply" "inbox watching_sample = []"
    using r(5,8) by (auto simp: sample_page_state_def)
qed

definition relay_answer :: "jsval \<Rightarrow> wakeup" where
  "relay_answer env = sample_wakeup (Reply True 200 (utf8 (text_of [] [] (JArr [relay_message (lit ''m1'') 5 env]))))"

lemma relay_answer_reads:
  assumes "wf_val env"
  shows "reply_json (w_reply (relay_answer env)) fetch_refused = Inr (JArr [relay_message (lit ''m1'') 5 env])"
proof -
  let ?v = "JArr [relay_message (lit ''m1'') 5 env]"
  have wf: "wf_val ?v" using assms by (simp add: relay_message_def)
  have "wf16 (text_of [] [] ?v)" using wf16_text_of [OF wf] .
  moreover have "\<exists>t. text_of [] [] ?v = 0x5B # t" using text_of_arr [OF wf, of "[]" "[]"] by (simp add: Let_def)
  ultimately have "plain_text (text_of [] [] ?v)" by (auto simp: plain_text_def)
  then show ?thesis
    using JSON_parse_text [OF wf, of "[]" "[]" "[]"]
    by (simp add: relay_answer_def sample_wakeup_def reply_json_def from_utf8_lossy_utf8 plain_units parse_text_def Let_def)
qed

lemma sample_date: "locale_date sample_browser v = Inr (lit ''noon'')"
  by (simp add: sample_browser_def)

lemma opened_sample:
  obtains s x where "notify_reachable toy_sodium sample_browser s" and "inbox s = [x]" and "li_unlocked x" and "li_body x = lit ''hi''"
proof -
  note so = sodium_okD [OF toy_sodium_ok]
  obtain env r r' where e: "encryptMessage_notify toy_sodium (lit ''now'') (lit ''hi'') (lit ''pass'') r = (Inr env, r')"
    using sent_sample_facts(2) by blast
  obtain x where "inbox (resume toy_sodium sample_browser (length (jobs watching_sample) - 1) (relay_answer env)
      (resume toy_sodium sample_browser 0 (relay_answer env) watching_sample)) = x # inbox watching_sample"
    and x: "li_unlocked x" "li_body x = lit ''hi''"
    by (rule arrival [OF so(1,2,5) e plain_text_lit watching_facts(4,5,2,3) sample_date relay_answer_reads [OF notify_opens(2) [OF so(1,2,5) e]]])
  then have i: "inbox (fold (notify_step toy_sodium sample_browser) [Press_start, Resume 0 (relay_answer env),
      Resume (length (jobs watching_sample) - 1) (relay_answer env)] sample_page_state) = [x]"
    using watching_facts(6) by (simp add: watching_sample_def)
  show thesis by (rule that [OF sample_run i x])
qed

section \<open>Properties\<close>

text \<open>
  C25: The page talks only to its relay and sends only ciphertext. In every reachable state, under
  any interleaving of clicks, timers, answers and pushes, each request made so far is either the
  one for the relay's public push key, without a body, or addressed to \<open>/notify/\<close> of the page's own
  origin under a valid topic, and its body, if it has one, is the JSON text of an envelope sealed
  by \<open>encryptMessage\<close> or push subscription data.
\<close>

theorem notify_sends_only_sealed:
  assumes "notify_reachable so b s" and "q \<in> set (sent s)"
  shows "request_ok so b q"
  using notify_reachable_ok [OF assms(1)] assms(2) by (simp add: notify_ok_def list_all_iff)

theorem notify_sends_only_sealed_witness:
  "\<exists>env. sent sent_sample = [Post_url (topic_url sample_browser (lit ''news'')) (json_text env)] \<and>
     request_ok toy_sodium sample_browser (Post_url (topic_url sample_browser (lit ''news'')) (json_text env))"
  using notify_sends_only_sealed [OF sent_sample_facts(1)] sent_sample_facts(2) by fastforce

text \<open>
  C27: The inbox shows only what opened. In every reachable state an item marked unlocked shows
  exactly the text its own envelope decrypts to under the phrase it names (escaped); every other
  item names no phrase and shows one of the two fixed texts.
\<close>

theorem notify_shows_only_opened:
  assumes "notify_reachable so b s" and "x \<in> set (inbox s)"
  shows "item_ok so x"
  using notify_reachable_ok [OF assms(1)] assms(2) by (simp add: notify_ok_def list_all_iff)

theorem notify_shows_only_opened_witness:
  "\<exists>s x. notify_reachable toy_sodium sample_browser s \<and> inbox s = [x] \<and> li_unlocked x \<and> li_body x = lit ''hi'' \<and> item_ok toy_sodium x"
proof -
  obtain s x where s: "notify_reachable toy_sodium sample_browser s" "inbox s = [x]" "li_unlocked x" "li_body x = lit ''hi''"
    by (rule opened_sample)
  then have "item_ok toy_sodium x" using notify_shows_only_opened [OF s(1), of x] by simp
  then show ?thesis using s by blast
qed

text \<open>
  The page's watching controls agree with its state. In every reachable state a topic is watched
  exactly while the timer runs, it is a valid topic, Stop is enabled and Start disabled exactly
  then, and without a topic no phrase is held and no invitation is shown.
\<close>

theorem notify_page_well_formed:
  assumes "notify_reachable so b s"
  shows "pollTimer s = (currentTopic s \<noteq> None) \<and> subStart_disabled s = (currentTopic s \<noteq> None) \<and>
    subStop_disabled s = (currentTopic s = None) \<and> pred_option validTopic (currentTopic s) \<and>
    (currentTopic s = None \<longrightarrow> currentPhrase s = None \<and> shareCard_hidden s) \<and> pred_option validTopic (pushRegistrationTopic s)"
  using notify_reachable_ok [OF assms] by (cases "currentTopic s") (simp_all add: notify_ok_defs)

theorem notify_page_well_formed_witness:
  "pollTimer watching_sample = (currentTopic watching_sample \<noteq> None) \<and> pred_option validTopic (currentTopic watching_sample)"
  using notify_page_well_formed [OF watching_facts(1)] by blast

text \<open>
  C26: A published message arrives. Pressing the button on a filled form posts one envelope to the
  topic; when a page that watches with the same phrase is answered with that envelope under an
  identifier it has not seen, its inbox shows the message unlocked, on top.
\<close>

theorem notify_message_arrives:
  assumes works: "kdf_works so" "aead_works so" "base64_works so"
    and form: "validTopic (trim (pubTopic s))" "pubMsg s \<noteq> []" "plain_text (pubMsg s)" "4 \<le> length (pubPhrase s)" "\<not> pubSend_disabled s"
    and t: "n < length (jobs t)" "jobs t ! n = Inbox_reply" "currentPhrase t = Some (pubPhrase s)" "\<not> seen (JStr i) t"
    and d: "locale_date b (JNum k) = Inr d"
  shows "\<exists>body env. sent (resume so b (length (jobs s)) w (notify_step so b Press_publish s)) =
        sent s @ [Post_url (topic_url b (trim (pubTopic s))) body] \<and> JSON_parse body = Some env \<and>
      (reply_json (w_reply w1) fetch_refused = Inr (JArr [relay_message i k env]) \<longrightarrow>
       (\<exists>x. inbox (resume so b (length (jobs t) - 1) w2 (resume so b n w1 t)) = x # inbox t \<and> li_unlocked x \<and>
          li_body x = pubMsg s))"
proof -
  obtain env r r' where e: "encryptMessage_notify so (w_now w) (pubMsg s) (pubPhrase s) r = (Inr env, r')"
    and p: "sent (resume so b (length (jobs s)) w (notify_step so b Press_publish s)) =
      sent s @ [Post_url (topic_url b (trim (pubTopic s))) (json_text env)]"
    by (rule publish_posts [OF works form(1,2,4,5)])
  have "\<exists>x. inbox (resume so b (length (jobs t) - 1) w2 (resume so b n w1 t)) = x # inbox t \<and> li_unlocked x \<and> li_body x = pubMsg s"
    if "reply_json (w_reply w1) fetch_refused = Inr (JArr [relay_message i k env])"
    by (rule arrival [OF works e form(3) t d that]) blast
  then show ?thesis using p posted_parses [OF works e] by blast
qed

theorem notify_message_arrives_witness:
  "\<exists>body env x. sent sent_sample = [Post_url (topic_url sample_browser (lit ''news'')) body] \<and> JSON_parse body = Some env \<and>
     inbox (resume toy_sodium sample_browser (length (jobs watching_sample) - 1) (relay_answer env)
       (resume toy_sodium sample_browser 0 (relay_answer env) watching_sample)) = [x] \<and> li_unlocked x \<and> li_body x = lit ''hi''"
proof -
  note so = sodium_okD [OF toy_sodium_ok]
  let ?s = sample_page_state and ?w = "sample_wakeup (No_reply [])"
  have form: "validTopic (trim (pubTopic ?s))" "pubMsg ?s \<noteq> []" "plain_text (pubMsg ?s)" "4 \<le> length (pubPhrase ?s)" "\<not> pubSend_disabled ?s"
    by (simp_all add: sample_page_state_def news_valid plain_text_lit)
  have ph: "currentPhrase watching_sample = Some (pubPhrase ?s)" using watching_facts(2) by (simp add: sample_page_state_def)
  have run: "resume toy_sodium sample_browser (length (jobs ?s)) ?w (notify_step toy_sodium sample_browser Press_publish ?s) = sent_sample"
    by (simp add: sent_sample_def) (simp add: sample_page_state_def)
  have f: "trim (pubTopic ?s) = lit ''news''" "sent ?s = []" "pubMsg ?s = lit ''hi''"
    by (simp_all add: sample_page_state_def news_valid)
  obtain env r r' where e: "encryptMessage_notify toy_sodium (lit ''now'') (lit ''hi'') (lit ''pass'') r = (Inr env, r')"
    "sent sent_sample = [Post_url (topic_url sample_browser (lit ''news'')) (json_text env)]" using sent_sample_facts(2) by blast
  note wf = notify_opens(2) [OF so(1,2,5) e(1)] and parses = posted_parses [OF so(1,2,5) e(1)]
  obtain body env' where b: "sent sent_sample = [Post_url (topic_url sample_browser (lit ''news'')) body]" "JSON_parse body = Some env'"
    "reply_json (w_reply (relay_answer env)) fetch_refused = Inr (JArr [relay_message (lit ''m1'') 5 env']) \<longrightarrow>
      (\<exists>x. inbox (resume toy_sodium sample_browser (length (jobs watching_sample) - 1) (relay_answer env)
        (resume toy_sodium sample_browser 0 (relay_answer env) watching_sample)) = x # inbox watching_sample \<and> li_unlocked x \<and> li_body x = lit ''hi'')"
    using notify_message_arrives [OF so(1,2,5) form watching_facts(4,5) ph watching_facts(3) sample_date,
        where w = ?w and ?w1.0 = "relay_answer env" and ?w2.0 = "relay_answer env" and i = "lit ''m1''" and k = 5]
    unfolding run f by auto
  have "env' = env" using b(1,2) e(2) parses by simp
  then show ?thesis using b relay_answer_reads [OF wf] watching_facts(6) by auto
qed

text \<open>
  C28: An answer to an old request is shown under the new topic and hides its messages. If a page
  switches to another topic while a request is outstanding, the message that request brings is put
  in the fresh inbox, and its time becomes the bound of the next request: messages of the new topic
  that are not later are not asked for again, though their answer may never have come.
\<close>

theorem stale_answer_hides_messages:
  assumes "notify_reachable so b s" and "n < length (jobs s)" and "jobs s ! n = Inbox_reply" and "validTopic t"
    and "reply_json (w_reply w) fetch_refused = Inr (JArr [m])" and "readable b m" and "ts_of m = Some k" and "0 < k"
  shows "let s' = resume so b n w (switch_to so b t remember s)
    in currentTopic s' = Some t \<and> inbox s' = [drawn_item_of b m] \<and>
       last (sent (notify_step so b Tick s')) = Get_url (topic_url b t @ lit ''?after_ts='' @ num_str k)"
proof -
  let ?s = "switch_to so b t remember s"
  note r = switch_result [OF notify_reachable_ok [OF assms(1)] assms(4), of remember]
  have n: "n < length (jobs ?s)" "jobs ?s ! n = Inbox_reply" using r(7) assms(2,3) by (auto simp: nth_append)
  let ?t = "?s\<lparr>jobs := take n (jobs ?s) @ drop (Suc n) (jobs ?s)\<rparr>"
  note rd = readable_reads [OF assms(6)]
  have "resume so b n w ?s = deliver b [m] ?t"
    using n assms(5) by (simp add: resume_def inbox_answered_def iterate_def del: deliver.simps)
  also have "\<dots> = renderMessage b m [] (note_seen (fld m ''id'') (ts_of m) ?t)"
    using rd(2,3) r(4) by (simp add: seen_def del: bind_res_Inr_iff)
  also have "\<dots> = suspend (Drawn []) (prepend (drawn_item_of b m) ((note_seen (fld m ''id'') (ts_of m) ?t)\<lparr>inboxEmpty_hidden := True\<rparr>))"
    using rd(1) r(2) by (simp add: renderMessage_def note_seen_def Let_def)
  finally have s': "resume so b n w ?s = \<dots>" .
  have f: "currentTopic (resume so b n w ?s) = Some t" "inbox (resume so b n w ?s) = [drawn_item_of b m]"
    "pollTimer (resume so b n w ?s)" "lastSeenTs (resume so b n w ?s) = Some k"
    unfolding s' using r assms(7,8) by (simp_all add: suspend_def prepend_def note_seen_def max_ts_def)
  have "last (sent (notify_step so b Tick (resume so b n w ?s))) = Get_url (topic_url b t @ lit ''?after_ts='' @ num_str k)"
    using f(3,4) assms(8) poll_result [OF f(1) assms(4), of b]
    by (simp add: poll_tick_def suspend_def request_def after_part_def)
  then show ?thesis using f by (simp add: Let_def)
qed

theorem stale_answer_hides_messages_witness:
  "\<exists>m w. let s' = resume toy_sodium sample_browser 0 w (switch_to toy_sodium sample_browser (lit ''other'') False watching_sample)
    in currentTopic s' = Some (lit ''other'') \<and> inbox s' = [drawn_item_of sample_browser m] \<and>
       last (sent (notify_step toy_sodium sample_browser Tick s')) =
         Get_url (topic_url sample_browser (lit ''other'') @ lit ''?after_ts='' @ num_str 5)"
proof -
  let ?env = "JStr (lit ''x'')" and ?m = "relay_message (lit ''m1'') 5 (JStr (lit ''x''))"
  have v: "validTopic (lit ''other'')" by (simp add: validTopic_def lit_def unit_of_def url_char_def Let_def)
  have wf: "wf_val ?env" by simp
  have ts: "ts_of ?m = Some 5" by (simp add: ts_of_def relay_fields number_value_def)
  have "(0 :: int) < 5" by simp
  then show ?thesis
    using stale_answer_hides_messages [OF watching_facts(1,4,5) v relay_answer_reads [OF wf] relay_readable [OF wf sample_date] ts, of False]
    by blast
qed

text \<open>
  An answer is drawn to its end. When every message of an answer can be read and none repeats
  an identifier or was seen, resuming the loop once per message puts them all in the inbox, the
  last one on top, each decrypted under the phrase of the moment, and notes their latest time.
\<close>

theorem answer_is_drawn_whole:
  assumes "\<And>m. m \<in> set ms \<Longrightarrow> readable b m \<and> \<not> seen (fld m ''id'') s" and "distinct (map (\<lambda>m. fld m ''id'') ms)"
  shows "let s' = (resume so b (length (jobs s)) w ^^ length ms) (deliver b ms s)
    in inbox s' = rev (map (final_item so b (currentPhrase s)) ms) @ inbox s \<and> jobs s' = jobs s \<and>
       lastSeenTs s' = foldl max_ts (lastSeenTs s) (map ts_of ms)"
  using loop_finishes assms by blast

theorem answer_is_drawn_whole_witness:
  "\<exists>s'. length (inbox s') = 2 \<and> lastSeenTs s' = Some 9 \<and>
     s' = (resume toy_sodium sample_browser (length (jobs watching_sample)) (sample_wakeup (No_reply [])) ^^ 2)
       (deliver sample_browser [relay_message (lit ''a'') 9 (JStr []), relay_message (lit ''b'') 4 (JStr [])] watching_sample)"
proof -
  let ?ms = "[relay_message (lit ''a'') 9 (JStr []), relay_message (lit ''b'') 4 (JStr [])]"
  have wf: "wf_val (JStr [])" by simp
  have "lastSeenTs watching_sample = Some 0"
    using start_result(3) [of sample_page_state sample_browser]
    by (simp add: watching_sample_def) (simp add: sample_page_state_def news_valid)
  moreover have "ts_of (relay_message (lit ''a'') 9 (JStr [])) = Some 9" "ts_of (relay_message (lit ''b'') 4 (JStr [])) = Some 4"
    by (simp_all add: ts_of_def relay_fields number_value_def)
  moreover have a: "\<And>m. m \<in> set ?ms \<Longrightarrow> readable sample_browser m \<and> \<not> seen (fld m ''id'') watching_sample"
    using relay_readable [OF wf sample_date] watching_facts(3) by auto
  have d: "distinct (map (\<lambda>m. fld m ''id'') ?ms)" by (simp add: relay_fields)
  note p = answer_is_drawn_whole [OF a d, of toy_sodium "sample_wakeup (No_reply [])"]
  ultimately show ?thesis using p watching_facts(6) by (simp add: Let_def max_ts_def numeral_2_eq_2 del: deliver.simps)
qed

text \<open>
  A phrase is stored only on request. Starting to watch a valid topic stores the phrase under
  the topic's own key when the box is ticked, deletes that entry when it is not, and touches no
  other entry; with storage blocked nothing changes.
\<close>

theorem phrase_stored_only_if_asked:
  assumes "validTopic (trim (subTopic s))"
  shows "storage (startWatching b s) =
    (if \<not> storage_ok b then storage s
     else if subRemember s then (if subPhrase s = [] then storage s
       else (storage s)(lit ''qn:'' @ trim (subTopic s) @ lit '':phrase'' \<mapsto> subPhrase s))
     else (storage s)(lit ''qn:'' @ trim (subTopic s) @ lit '':phrase'' := None))"
  unfolding start_result(9) [OF assms] setup_storage persistedPhraseKey_def by (rule refl)

theorem phrase_stored_only_if_asked_witness:
  "storage (startWatching sample_browser sample_page_state) (lit ''qn:'' @ lit ''news'' @ lit '':phrase'') = None"
proof -
  have v: "validTopic (trim (subTopic sample_page_state))" by (simp add: sample_page_state_def news_valid)
  have f: "trim (subTopic sample_page_state) = lit ''news''" "subRemember sample_page_state = False" "storage_ok sample_browser"
    by (simp_all add: sample_page_state_def sample_browser_def news_valid)
  show ?thesis unfolding phrase_stored_only_if_asked [OF v] using f by simp
qed

end
