(* ===== verification/Notify_Worker.thy ===== *)
theory Notify_Worker
  imports Notify_Safe
begin

text \<open>
  The service worker of Qira Notify (\<open>landing/notify/sw.js\<close>): what a push shows, what tapping the
  notification does, and what it makes the page do, an open one by a message and a new one by its address. A handler is a function of the event's data and of
  the open windows; a thrown exception is \<open>Inl\<close>.
\<close>

section \<open>Pushes\<close>

record notification =
  n_title :: jstr
  n_body :: jstr
  n_tag :: jstr
  n_topic :: jsval
  n_msgId :: jsval
  n_ts :: jsval
  n_timestamp :: "int option"

definition or_null_value :: "jsval \<Rightarrow> jsval" where
  "or_null_value v = (if truthy v then v else JNull)"

text \<open>
  The payload is JSON, or else its text is the topic; \<open>None\<close> is a push without data. The three
  fields are \<open>null\<close> when absent or falsy.
\<close>

definition push_payload :: "jstr option \<Rightarrow> jsval \<times> jsval \<times> jsval" where
  "push_payload data =
     (case data of
        None \<Rightarrow> (JNull, JNull, JNull)
      | Some t \<Rightarrow>
          (case bind_res (parse_text t) (\<lambda>p. bind_res (get p (lit ''t'')) (\<lambda>topic. bind_res (get p (lit ''id'')) (\<lambda>i.
                bind_res (get p (lit ''ts'')) (\<lambda>ts. Inr (or_null_value topic, or_null_value i, or_null_value ts))))) of
             Inr f \<Rightarrow> f
           | Inl _ \<Rightarrow> (JStr t, JNull, JNull)))"

text \<open>\<open>n_timestamp\<close> is \<open>None\<close> for the time of arrival.\<close>

definition on_push :: "jstr option \<Rightarrow> notification res" where
  "on_push data =
     (let (topic, msgId, ts) = push_payload data
      in bind_res (if truthy topic then bind_res (to_str topic) (\<lambda>t.
             Inr ([0xD83D, 0xDD10] @ lit '' New message on '' @ t, lit ''qira-notify:'' @ t))
           else Inr ([0xD83D, 0xDD10] @ lit '' Encrypted message'', lit ''qira-notify:generic'')) (\<lambda>(title, tag).
         Inr \<lparr>n_title = title, n_body = lit ''Tap to unlock and read with your phrase.'', n_tag = tag,
              n_topic = topic, n_msgId = msgId, n_ts = ts, n_timestamp = (case ts of JNum n \<Rightarrow> Some n | _ \<Rightarrow> None)\<rparr>))"

section \<open>Clicks\<close>

record window =
  win_path :: jstr
  win_focus_ok :: bool

datatype click_result = Focused nat jsval | Opened jstr

definition click_target :: "jsval \<Rightarrow> jstr res" where
  "click_target topic =
     (if truthy topic then bind_res (to_str topic) (\<lambda>t. bind_res (encodeURIComponent t) (\<lambda>u. Inr (lit ''/notify/?topic='' @ u)))
      else Inr (lit ''/notify/''))"

text \<open>The first window under \<open>/notify/\<close> that takes the focus gets the message; a refusal is skipped.\<close>

fun focus_first :: "nat \<Rightarrow> window list \<Rightarrow> nat option" where
  "focus_first i [] = None"
| "focus_first i (c # cs) =
     (if starts_with (lit ''/notify/'') (win_path c) \<and> win_focus_ok c then Some i else focus_first (Suc i) cs)"

definition on_notificationclick :: "jsval \<Rightarrow> window list \<Rightarrow> click_result res" where
  "on_notificationclick topic clients =
     bind_res (click_target topic) (\<lambda>target.
     Inr (case focus_first 0 clients of Some i \<Rightarrow> Focused i topic | None \<Rightarrow> Opened target))"

section \<open>From the click to the page\<close>

text \<open>
  \<open>new URLSearchParams(window.location.search)\<close>: the pairs of the query, each side decoded. A plus
  is a space, a percent sign before two hexadecimal digits is a byte, and the bytes are UTF-8.
\<close>

fun percent_decode :: "bytes \<Rightarrow> bytes" where
  "percent_decode (a # b # c # bs) =
     (case (a = 0x25, hex_val (ucast b), hex_val (ucast c)) of
        (True, Some m, Some n) \<Rightarrow> of_nat (16 * m + n) # percent_decode bs
      | _ \<Rightarrow> a # percent_decode (b # c # bs))"
| "percent_decode bs = bs"

definition form_decode :: "jstr \<Rightarrow> jstr" where
  "form_decode t = stream_decode (percent_decode (utf8 (replace_char 0x2B 0x20 t)))"

fun split_ampersand :: "jstr \<Rightarrow> jstr list" where
  "split_ampersand [] = [[]]"
| "split_ampersand (c # t) =
     (if c = 0x26 then [] # split_ampersand t
      else case split_ampersand t of p # ps \<Rightarrow> (c # p) # ps | [] \<Rightarrow> [[c]])"

definition search_pair :: "jstr \<Rightarrow> jstr \<times> jstr" where
  "search_pair p =
     (let name = takeWhile (\<lambda>c. c \<noteq> 0x3D) p in (form_decode name, form_decode (drop (length name + 1) p)))"

definition search_params :: "jstr \<Rightarrow> (jstr \<times> jstr) list" where
  "search_params url =
     map search_pair (filter (\<lambda>p. p \<noteq> []) (split_ampersand (drop 1 (dropWhile (\<lambda>c. c \<noteq> 0x3F) (takeWhile (\<lambda>c. c \<noteq> 0x23) url)))))"

definition address_topic :: "jstr \<Rightarrow> jstr option" where
  "address_topic url =
     link_topic (map_of (search_params url) (lit ''t'')) (map_of (search_params url) (lit ''topic''))"

text \<open>
  What the click does to the page: an open one gets the message of the worker, a new one loads with
  the address (\<open>s\<close> is then the page before its scripts looked at it).
\<close>

definition page_told :: "browser \<Rightarrow> click_result \<Rightarrow> notify \<Rightarrow> notify" where
  "page_told b r s =
     (case r of Focused _ topic \<Rightarrow> worker_message b topic s | Opened url \<Rightarrow> autoload b (address_topic url) s)"

section \<open>Addresses are read back\<close>

lemma percent_plain: "a \<noteq> 0x25 \<Longrightarrow> percent_decode (a # bs) = a # percent_decode bs"
  by (cases bs rule: percent_decode.cases) (auto simp: neq_Nil_conv split: list.split)

lemma hex_val_upper: "d < 16 \<Longrightarrow> hex_val (ucast (ucast (upper_hex d) :: byte)) = Some d"
proof -
  assume "d < 16"
  then have "d \<in> set [0 ..< 16]" by simp
  then show ?thesis by (auto simp: upper_hex_def hex_val_def upt_rec)
qed

lemma ucast_back [simp]: "ucast (ucast b :: 16 word) = (b :: byte)"
proof -
  have "unat (ucast (ucast b :: 16 word) :: byte) = unat b"
    using unat8_lt [of b] by (simp add: unsigned_ucast_eq unsigned_take_bit_eq take_bit_nat_eq_self)
  then show ?thesis by (simp add: word_unat_eq_iff)
qed

lemma percent_byte: "percent_decode (map ucast (uri_byte b) @ bs) = b # percent_decode bs"
proof (cases "uri_char (unat b)")
  case True
  then have "b \<noteq> 0x25" by (auto simp: uri_char_def)
  then show ?thesis using True by (simp add: uri_byte_def percent_plain)
next
  case False
  have "unat b div 16 < 16" by (simp add: less_mult_imp_div_less unat8_lt)
  then show ?thesis using False by (simp add: uri_byte_def hex_val_upper)
qed

lemma percent_uri: "percent_decode (map ucast (concat (map uri_byte bs))) = bs"
  by (induction bs) (simp_all add: percent_byte)

lemma uri_chars:
  assumes "u \<in> set (concat (map uri_byte bs))"
  shows "unat u < 128" and "u \<notin> {0x23, 0x26, 0x2B, 0x3D, 0x3F}"
proof -
  obtain b where "u \<in> set (uri_byte b)" using assms by auto
  moreover have "unat b div 16 < 16" by (simp add: less_mult_imp_div_less unat8_lt)
  moreover have h: "unat (upper_hex d) < 128 \<and> upper_hex d \<notin> {0x23, 0x26, 0x2B, 0x3D, 0x3F}" if "d < 16" for d
  proof -
    from that have "d \<in> set [0 ..< 16]" by simp
    then show ?thesis by (auto simp: upper_hex_def upt_rec)
  qed
  moreover have "unat (of_nat (unat b) :: 16 word) = unat b" "unat b < 256" using unat8_lt [of b] by (simp_all add: unsigned_ucast_eq unsigned_take_bit_eq take_bit_nat_eq_self)
  moreover have "uri_char (unat b) \<Longrightarrow> unat b < 128 \<and> unat b \<notin> {0x23, 0x26, 0x2B, 0x3D, 0x3F}" by (auto simp: uri_char_def)
  ultimately show "unat u < 128" "u \<notin> {0x23, 0x26, 0x2B, 0x3D, 0x3F}"
    using h [of "unat b div 16"] h [of "unat b mod 16"]
    by (auto simp: uri_byte_def word_unat_eq_iff split: if_splits)
qed

lemma form_decode_encode: "encodeURIComponent t = Inr u \<Longrightarrow> form_decode u = t"
proof -
  assume "encodeURIComponent t = Inr u"
  then have w: "wf16 t" and u: "u = concat (map uri_byte (utf8 t))" by (auto simp: encodeURIComponent_def throw_if_def split: if_splits)
  have "ascii u" using uri_chars(1) [of _ "utf8 t"] unfolding u ascii_def by blast
  moreover have "replace_char 0x2B 0x20 u = u"
    using uri_chars(2) [of _ "utf8 t"] unfolding u replace_char_def by (intro map_idI) auto
  ultimately show ?thesis by (simp add: form_decode_def utf8_ascii u percent_uri stream_decode_utf8 w)
qed

lemma split_ampersand_one: "0x26 \<notin> set t \<Longrightarrow> split_ampersand t = [t]"
  by (induction t) auto

lemma target_address:
  assumes "encodeURIComponent t = Inr u"
  shows "address_topic (lit ''/notify/?topic='' @ u) = Some t"
proof -
  have "list_all url_char (lit ''topic'')" by (simp add: lit_def url_char_def Let_def)
  then have n: "form_decode (lit ''topic'') = lit ''topic''" by (intro form_decode_encode encode_valid)
  from assms have "u = concat (map uri_byte (utf8 t))" by (auto simp: encodeURIComponent_def throw_if_def split: if_splits)
  then have c: "0x23 \<notin> set u" "0x26 \<notin> set u" using uri_chars(2) [of _ "utf8 t"] by auto
  have 1: "takeWhile (\<lambda>c. c \<noteq> 0x23) (lit ''/notify/?topic='' @ u) = lit ''/notify/?topic='' @ u"
    using c(1) by (intro takeWhile_eq_all_conv [THEN iffD2]) (auto simp: lit_def unit_of_def)
  have 2: "drop 1 (dropWhile (\<lambda>c. c \<noteq> 0x3F) (lit ''/notify/?topic='' @ u)) = lit ''topic='' @ u"
    by (simp add: lit_def unit_of_def)
  have 3: "split_ampersand (lit ''topic='' @ u) = [lit ''topic='' @ u]"
    using c(2) by (intro split_ampersand_one) (auto simp: lit_def unit_of_def)
  have "takeWhile (\<lambda>c. c \<noteq> 0x3D) (lit ''topic='' @ u) = lit ''topic''" "drop (length (lit ''topic'') + 1) (lit ''topic='' @ u) = u"
    by (simp_all add: lit_def unit_of_def)
  then have 4: "search_pair (lit ''topic='' @ u) = (lit ''topic'', t)"
    by (simp only: search_pair_def Let_def n form_decode_encode [OF assms])
  have 5: "lit ''topic='' @ u \<noteq> []" "lit ''t'' \<noteq> lit ''topic''" by (simp_all add: lit_def)
  have "search_params (lit ''/notify/?topic='' @ u) = [(lit ''topic'', t)]"
    by (simp only: search_params_def 1 2 3 list.map filter.simps 4 5 if_True simp_thms)
  then show ?thesis using 5(2) by (simp only: address_topic_def link_topic_def map_of.simps fun_upd_apply fst_conv snd_conv if_True if_False simp_thms)
qed

lemma worker_fields:
  "subTopic (worker_message b v s) = (case v of JStr t \<Rightarrow> if validTopic t then t else subTopic s | _ \<Rightarrow> subTopic s)"
  "jobs (worker_message b v s) = (case v of JStr t \<Rightarrow> if validTopic t then jobs s @ [Start_later] else jobs s | _ \<Rightarrow> jobs s)"
  by (auto simp: worker_message_def Let_def suspend_def split: jsval.splits option.splits)

definition saved_phrase :: "browser \<Rightarrow> jstr \<Rightarrow> notify \<Rightarrow> jstr option" where
  "saved_phrase b t s = (case loadPhrase b t s of Some p \<Rightarrow> if p \<noteq> [] then Some p else None | None \<Rightarrow> None)"

lemma saved_phrase_frame [simp]: "loadPhrase b t (s\<lparr>subTopic := x\<rparr>) = loadPhrase b t s"
  by (simp add: loadPhrase_def)

lemma worker_starts:
  assumes "validTopic t"
  shows "worker_message b (JStr t) s = (let s1 = s\<lparr>subTopic := t\<rparr>
    in suspend Start_later (case saved_phrase b t s of Some p \<Rightarrow> s1\<lparr>subPhrase := p, subRemember := True\<rparr> | None \<Rightarrow> s1))"
  using assms by (simp add: worker_message_def saved_phrase_def Let_def split: option.split)

lemma autoload_starts:
  assumes "validTopic t"
  shows "autoload b (Some t) s =
    (case saved_phrase b t s of
       Some p \<Rightarrow> suspend Start_later (s\<lparr>subTopic := t, subPhrase := p, subRemember := True\<rparr>)
     | None \<Rightarrow> if t \<noteq> DEMO_TOPIC then s\<lparr>subTopic := t, inviteTopic := Some t\<rparr> else s\<lparr>subTopic := t\<rparr>)"
  using assms by (simp add: autoload_def saved_phrase_def Let_def split: option.split)

text \<open>The delayed start, when its turn comes.\<close>

lemma later_start:
  assumes "validTopic t" and "subTopic u = t"
  shows "currentTopic (resume so b (length (jobs u)) w (suspend Start_later u)) = Some t"
    and "currentPhrase (resume so b (length (jobs u)) w (suspend Start_later u)) = (if subPhrase u = [] then None else Some (subPhrase u))"
proof -
  have r: "resume so b (length (jobs u)) w (suspend Start_later u) = startWatching b u"
    by (simp add: resume_def suspend_def)
  have "trim (subTopic u) = t" using assms trim_topic by simp
  then show "currentTopic (resume so b (length (jobs u)) w (suspend Start_later u)) = Some t"
    "currentPhrase (resume so b (length (jobs u)) w (suspend Start_later u)) = (if subPhrase u = [] then None else Some (subPhrase u))"
    unfolding r using start_result(1,2) [of u b] assms(1) by simp_all
qed

text \<open>Either page, told a valid topic: it starts later, or has no phrase to start with.\<close>

lemma told_starts:
  assumes "validTopic t" and "r = Focused i (JStr t) \<or> r = Opened (lit ''/notify/?topic='' @ t) \<and> saved_phrase b t s \<noteq> None"
  obtains u where "page_told b r s = suspend Start_later u" and "subTopic u = t" and "jobs u = jobs s"
    and "\<And>p. saved_phrase b t s = Some p \<Longrightarrow> subPhrase u = p"
proof -
  have a: "address_topic (lit ''/notify/?topic='' @ t) = Some t"
    using assms(1) by (intro target_address encode_valid) (simp add: validTopic_def)
  show thesis using assms(2)
    by (cases "saved_phrase b t s")
      (auto simp: page_told_def worker_starts [OF assms(1)] autoload_starts [OF assms(1)] a Let_def intro: that)
qed

lemma told_running:
  assumes "validTopic t" and "r = Focused i (JStr t) \<or> r = Opened (lit ''/notify/?topic='' @ t) \<and> saved_phrase b t s \<noteq> None"
  shows "subTopic (page_told b r s) = t" and "jobs (page_told b r s) = jobs s @ [Start_later]"
    and "currentTopic (resume so b (length (jobs s)) w (page_told b r s)) = Some t"
    and "saved_phrase b t s \<noteq> None \<Longrightarrow> currentPhrase (resume so b (length (jobs s)) w (page_told b r s)) = saved_phrase b t s"
proof -
  obtain u where u: "page_told b r s = suspend Start_later u" "subTopic u = t" "jobs u = jobs s"
    and p: "\<And>p. saved_phrase b t s = Some p \<Longrightarrow> subPhrase u = p"
    using told_starts [OF assms] by blast
  note l = later_start [OF assms(1) u(2), where so = so and b = b and w = w, unfolded u(3)]
  show "subTopic (page_told b r s) = t" "jobs (page_told b r s) = jobs s @ [Start_later]"
    using u by (simp_all add: suspend_def)
  show "currentTopic (resume so b (length (jobs s)) w (page_told b r s)) = Some t" unfolding u(1) by (rule l(1))
  show "currentPhrase (resume so b (length (jobs s)) w (page_told b r s)) = saved_phrase b t s" if n: "saved_phrase b t s \<noteq> None"
  proof -
    from n obtain ph where ph: "saved_phrase b t s = Some ph" by blast
    then have "ph \<noteq> []" by (auto simp: saved_phrase_def split: option.splits if_splits)
    then show ?thesis unfolding u(1) using l(2) p [OF ph] ph by simp
  qed
qed

lemma told_invites:
  assumes "validTopic t" and "saved_phrase b t s = None"
  shows "page_told b (Opened (lit ''/notify/?topic='' @ t)) s =
    s\<lparr>subTopic := t, inviteTopic := (if t = DEMO_TOPIC then inviteTopic s else Some t)\<rparr>"
proof -
  have "address_topic (lit ''/notify/?topic='' @ t) = Some t"
    using assms(1) by (intro target_address encode_valid) (simp add: validTopic_def)
  then show ?thesis by (simp add: page_told_def autoload_starts [OF assms(1)] assms(2))
qed

lemma click_invalid:
  assumes "\<not> validTopic t"
  shows "case on_notificationclick (or_null_value (JStr t)) clients of Inl _ \<Rightarrow> \<not> wf16 t | Inr r \<Rightarrow> page_told b r s = s"
proof (cases "t = []")
  case True
  have "address_topic (lit ''/notify/'') = None"
    by (simp add: address_topic_def search_params_def link_topic_def lit_def unit_of_def)
  then show ?thesis
    by (simp add: True or_null_value_def on_notificationclick_def click_target_def page_told_def worker_message_def autoload_def split: option.split)
next
  case False
  have w: "worker_message b (JStr t) s = s" "autoload b (Some t) s = s" using assms by (simp_all add: worker_message_def autoload_def)
  show ?thesis
  proof (cases "encodeURIComponent t")
    case (Inl e)
    then show ?thesis using False
      by (simp add: or_null_value_def on_notificationclick_def click_target_def encodeURIComponent_def throw_if_def split: if_splits)
  next
    case (Inr u)
    then show ?thesis using False w
      by (simp add: or_null_value_def on_notificationclick_def click_target_def page_told_def target_address [OF Inr] split: option.split)
  qed
qed

section \<open>Properties\<close>

text \<open>
  C29: A push leads to its own topic. For a payload of the relay naming a valid topic, the
  notification names that topic and is tagged by it. Tapping it tells the first open Notify window
  that takes the focus, or else opens a page on \<open>/notify/?topic=\<close> of it, and either page has the
  topic in its form afterwards. The open window then starts watching exactly that topic, with the
  phrase saved for it if there is one. The new page does so only with a saved phrase; without one it
  starts nothing, and only invites to type the phrase (not for the public demo topic). A name that
  is not a valid topic may bring up a window, but changes nothing in the page; a name that cannot be
  written in an address brings up none.
\<close>

theorem push_leads_to_topic:
  assumes "parse_text data = Inr p" and "get p (lit ''t'') = Inr (JStr t)"
  shows "\<exists>n. on_push (Some data) = Inr n \<and>
    (validTopic t \<longrightarrow>
       n_topic n = JStr t \<and> n_title n = [0xD83D, 0xDD10] @ lit '' New message on '' @ t \<and> n_tag n = lit ''qira-notify:'' @ t \<and>
       (\<exists>r. on_notificationclick (n_topic n) clients = Inr r \<and>
          r = (case focus_first 0 clients of Some i \<Rightarrow> Focused i (JStr t) | None \<Rightarrow> Opened (lit ''/notify/?topic='' @ t)) \<and>
          subTopic (page_told b r s) = t \<and>
          (focus_first 0 clients \<noteq> None \<or> saved_phrase b t s \<noteq> None \<longrightarrow>
             jobs (page_told b r s) = jobs s @ [Start_later] \<and>
             currentTopic (resume so b (length (jobs s)) w (page_told b r s)) = Some t \<and>
             (saved_phrase b t s \<noteq> None \<longrightarrow>
                currentPhrase (resume so b (length (jobs s)) w (page_told b r s)) = saved_phrase b t s)) \<and>
          (focus_first 0 clients = None \<and> saved_phrase b t s = None \<longrightarrow>
             page_told b r s = s\<lparr>subTopic := t, inviteTopic := (if t = DEMO_TOPIC then inviteTopic s else Some t)\<rparr>))) \<and>
    (\<not> validTopic t \<longrightarrow>
       (case on_notificationclick (n_topic n) clients of Inl _ \<Rightarrow> \<not> wf16 t | Inr r \<Rightarrow> page_told b r s = s))"
proof -
  obtain i ts where f: "push_payload (Some data) = (or_null_value (JStr t), i, ts)"
    using assms by (cases p) (auto simp: push_payload_def)
  show ?thesis
  proof (cases "validTopic t")
    case True
    then have ne: "t \<noteq> []" and u: "encodeURIComponent t = Inr t" by (auto simp: validTopic_def encode_valid)
    then have v: "or_null_value (JStr t) = JStr t" by (simp add: or_null_value_def)
    have n: "\<exists>n. on_push (Some data) = Inr n \<and> n_topic n = JStr t \<and> n_title n = [0xD83D, 0xDD10] @ lit '' New message on '' @ t \<and>
        n_tag n = lit ''qira-notify:'' @ t"
      using ne by (simp add: on_push_def f v)
    have c: "on_notificationclick (JStr t) clients =
        Inr (case focus_first 0 clients of Some i \<Rightarrow> Focused i (JStr t) | None \<Rightarrow> Opened (lit ''/notify/?topic='' @ t))"
      using ne u by (simp add: on_notificationclick_def click_target_def)
    show ?thesis
    proof (cases "focus_first 0 clients")
      case (Some i)
      then show ?thesis
        using n c True told_running(1,2) [OF True, where r = "Focused i (JStr t)" and b = b and s = s]
            told_running(3,4) [OF True, where r = "Focused i (JStr t)" and b = b and s = s and so = so and w = w] by auto
    next
      case None
      show ?thesis
      proof (cases "saved_phrase b t s")
        case Some
        then show ?thesis
          using n c True None told_running(1,2) [OF True, where r = "Opened (lit ''/notify/?topic='' @ t)" and b = b and s = s]
            told_running(3,4) [OF True, where r = "Opened (lit ''/notify/?topic='' @ t)" and b = b and s = s and so = so and w = w]
          by auto
      next
        case no: None
        then show ?thesis using n c True None told_invites [OF True no] by auto
      qed
    qed
  next
    case False
    have "\<exists>n. on_push (Some data) = Inr n \<and> n_topic n = or_null_value (JStr t)"
      by (cases "t = []") (simp_all add: on_push_def f or_null_value_def)
    then obtain n where "on_push (Some data) = Inr n" "n_topic n = or_null_value (JStr t)" by blast
    then show ?thesis using False click_invalid [OF False, where b = b and s = s and clients = clients] by auto
  qed
qed

text \<open>
  No window is open, and the phrase of the topic was remembered: the page that is opened watches
  the topic with that phrase.
\<close>

definition remembering :: notify where
  "remembering = sample_page_state\<lparr>subTopic := [], subPhrase := [], storage := (\<lambda>_. None)(persistedPhraseKey (lit ''news'') := Some (lit ''pass''))\<rparr>"

theorem push_leads_to_topic_witness:
  "\<exists>n r. on_push (Some (text_of [] [] (JObj [(lit ''t'', JStr (lit ''news''))]))) = Inr n \<and> n_tag n = lit ''qira-notify:'' @ lit ''news'' \<and>
     on_notificationclick (n_topic n) [] = Inr r \<and> r = Opened (lit ''/notify/?topic='' @ lit ''news'') \<and>
     currentTopic (resume toy_sodium sample_browser 0 (sample_wakeup (No_reply [])) (page_told sample_browser r remembering)) = Some (lit ''news'') \<and>
     currentPhrase (resume toy_sodium sample_browser 0 (sample_wakeup (No_reply [])) (page_told sample_browser r remembering)) = Some (lit ''pass'')"
proof -
  let ?v = "JObj [(lit ''t'', JStr (lit ''news''))]"
  have p: "parse_text (text_of [] [] ?v) = Inr ?v" by (rule json_text.dec_enc) simp
  have g: "get ?v (lit ''t'') = Inr (JStr (lit ''news''))" by simp
  have j: "jobs remembering = []" by (simp add: remembering_def sample_page_state_def)
  have s: "saved_phrase sample_browser (lit ''news'') remembering = Some (lit ''pass'')"
    by (simp add: saved_phrase_def loadPhrase_def remembering_def sample_browser_def)
  show ?thesis
    using push_leads_to_topic [OF p g, where clients = "[]" and so = toy_sodium and b = sample_browser and s = remembering
        and w = "sample_wakeup (No_reply [])"] news_valid(1)
    by (auto simp: j s)
qed

end
