(* ===== verification/Proof_Lock.thy ===== *)
theory Proof_Lock
  imports Notify_Envelope Self_Test
begin

text \<open>
  \<open>proof-lock-web/src/qev.ts\<close>: the third implementation of the V2 vault, in TypeScript over the
  browser's \<open>btoa\<close> and \<open>atob\<close>. Its types are those the compiler checks (the phrase is a string,
  the mode and the preset are members of a union); a vault comes from \<open>JSON.parse\<close> and can be
  any value. The constants have the values of \<open>qev-cli/lib/vault.js\<close>.
\<close>

section \<open>Codecs\<close>

text \<open>\<open>btoa\<close> of a binary string, one character per byte; the code passes no other.\<close>

definition btoa :: "jstr \<Rightarrow> jstr" where
  "btoa binary = buffer_to_base64 (map ucast binary)"

definition b64urlEncode_ts :: "bytes \<Rightarrow> jstr" where
  "b64urlEncode_ts bs =
     (let binary = map ucast bs
      in strip_trailing eq_char (replace_char 47 95 (replace_char 43 45 (btoa binary))))"

definition msg_b64_ts :: jstr where "msg_b64_ts = lit ''base64url: invalid character''"

definition b64urlDecode_ts :: "jstr \<Rightarrow> bytes res" where
  "b64urlDecode_ts value =
     throw_if (\<not> b64url_syntax value) msg_b64_ts
       (let b64 = replace_char 95 47 (replace_char 45 43 value);
            padded = (if length b64 mod 4 = 0 then b64 else b64 @ replicate (4 - length b64 mod 4) eq_char)
        in atob padded)"

text \<open>The same on any value: the regular expression tests its string, the next call needs a string.\<close>

definition decode_value_ts :: "jsval \<Rightarrow> bytes res" where
  "decode_value_ts v =
     (case v of JStr s \<Rightarrow> b64urlDecode_ts s
      | _ \<Rightarrow> bind_res (to_str v) (\<lambda>s. if b64url_syntax s then Inl (lit ''value.replaceAll is not a function'') else Inl msg_b64_ts))"

fun canonicalJSON_ts :: "jsval \<Rightarrow> jstr option" where
  "canonicalJSON_ts (JArr vs) =
     Some ([0x5B] @ join [0x2C] (map (\<lambda>v. text_or_empty (canonicalJSON_ts v)) vs) @ [0x5D])"
| "canonicalJSON_ts (JObj kvs) =
     (let texts = map (\<lambda>(k, v). (k, text_or_undefined (canonicalJSON_ts v))) kvs;
          keys = sort (map fst kvs)
      in Some ([0x7B] @ join [0x2C] (map (\<lambda>k. quote k @ [0x3A] @ the (map_of texts k)) keys) @ [0x7D]))"
| "canonicalJSON_ts v = JSON_stringify v"

definition buildAADV2_ts :: "jsval \<Rightarrow> bytes res" where
  "buildAADV2_ts vault =
     bind_res (get2 vault ''content'' ''algorithm'') (\<lambda>ca.
     bind_res (get2 vault ''content'' ''nonce'') (\<lambda>cn.
     bind_res (get vault (lit ''created_at'')) (\<lambda>at.
     bind_res (get2 vault ''kdf'' ''algorithm'') (\<lambda>ka.
     bind_res (get2 vault ''kdf'' ''memlimit'') (\<lambda>km.
     bind_res (get2 vault ''kdf'' ''opslimit'') (\<lambda>ko.
     bind_res (get2 vault ''kdf'' ''salt'') (\<lambda>ks.
     bind_res (get vault (lit ''mode'')) (\<lambda>md.
     bind_res (get vault (lit ''schema'')) (\<lambda>sc.
     bind_res (get vault (lit ''version'')) (\<lambda>vn.
     bind_res (get2 vault ''wrap'' ''algorithm'') (\<lambda>wa.
     bind_res (get2 vault ''wrap'' ''nonce'') (\<lambda>wn.
     Inr (utf8 (text_or_empty (canonicalJSON_ts
       (JObj [(lit ''content'', JObj [(lit ''algorithm'', ca), (lit ''nonce'', cn)]),
              (lit ''created_at'', at),
              (lit ''kdf'', JObj [(lit ''algorithm'', ka), (lit ''memlimit'', km),
                                 (lit ''opslimit'', ko), (lit ''salt'', ks)]),
              (lit ''mode'', md), (lit ''schema'', sc), (lit ''version'', vn),
              (lit ''wrap'', JObj [(lit ''algorithm'', wa), (lit ''nonce'', wn)])]))))))))))))))))"

section \<open>Presets and validation\<close>

datatype PresetKey = Quick | Strong | Vault_lock

fun LOCK_PRESETS_ts :: "PresetKey \<Rightarrow> preset" where
  "LOCK_PRESETS_ts Quick =
     \<lparr>preset_opslimit = 1, preset_memlimit = 32 * 1024 * 1024, preset_label = lit ''quick'', preset_hint = lit ''~1s''\<rparr>"
| "LOCK_PRESETS_ts Strong =
     \<lparr>preset_opslimit = 4, preset_memlimit = 96 * 1024 * 1024, preset_label = lit ''strong'', preset_hint = lit ''~4s''\<rparr>"
| "LOCK_PRESETS_ts Vault_lock =
     \<lparr>preset_opslimit = 6, preset_memlimit = 128 * 1024 * 1024, preset_label = lit ''vault'', preset_hint = lit ''~7s''\<rparr>"

text \<open>\<open>!s || s.algorithm !== a\<close>, negated.\<close>

definition has_algorithm :: "jsval \<Rightarrow> jstr \<Rightarrow> bool" where
  "has_algorithm s a = (truthy s \<and> fld s ''algorithm'' = JStr a)"

definition validateVaultSchemaV2_ts :: "jsval \<Rightarrow> unit res" where
  "validateVaultSchemaV2_ts v =
     throw_if (\<not> is_object v) (malformed ''not an object'')
     (all_checks
       [if fld v ''schema'' \<noteq> JStr SCHEMA_V2 then throw_with (lit ''Unsupported vault schema: '') (fld v ''schema'') [] else Inr (),
        throw_if (\<not> is_str (fld v ''version'')) (malformed ''missing version'') (Inr ()),
        throw_if (\<not> is_str (fld v ''created_at'')) (malformed ''missing created_at'') (Inr ()),
        throw_if (\<not> is_mode (fld v ''mode'')) (malformed ''mode must be self or share'') (Inr ()),
        throw_if (\<not> has_algorithm (fld v ''kdf'') KDF_ALG) (malformed ''unsupported kdf'') (Inr ()),
        throw_if (\<not> has_algorithm (fld v ''wrap'') AEAD_ALG) (malformed ''unsupported wrap algorithm'') (Inr ()),
        throw_if (\<not> has_algorithm (fld v ''content'') AEAD_ALG) (malformed ''unsupported content algorithm'') (Inr ()),
        throw_if (\<not> list_all truthy
            [fld (fld v ''kdf'') ''salt'', fld (fld v ''wrap'') ''nonce'', fld (fld v ''wrap'') ''wrapped_key'',
             fld (fld v ''content'') ''nonce'', fld (fld v ''content'') ''ciphertext''])
          (malformed ''missing required field'') (Inr ())])"

section \<open>Locking\<close>

datatype text_or_bytes = Text jstr | Raw bytes
datatype lock_mode = Self | Share

fun mode_text :: "lock_mode \<Rightarrow> jstr" where
  "mode_text Self = lit ''self''"
| "mode_text Share = lit ''share''"

record lock_request =
  l_plaintext :: text_or_bytes
  l_password :: jstr
  l_mode :: "lock_mode option"
  l_preset :: "PresetKey option"

definition pt_bytes :: "text_or_bytes \<Rightarrow> bytes" where
  "pt_bytes p = (case p of Text s \<Rightarrow> utf8 s | Raw b \<Rightarrow> b)"

definition mode_ts :: "lock_request \<Rightarrow> lock_mode" where
  "mode_ts req = (case l_mode req of None \<Rightarrow> Self | Some m \<Rightarrow> m)"

definition preset_ts :: "lock_request \<Rightarrow> preset" where
  "preset_ts req = LOCK_PRESETS_ts (case l_preset req of None \<Rightarrow> Strong | Some k \<Rightarrow> k)"

definition vault_literal_ts :: "jstr \<Rightarrow> lock_request \<Rightarrow> randomness \<Rightarrow> jsval" where
  "vault_literal_ts now req x =
     JObj [(lit ''schema'', JStr SCHEMA_V2), (lit ''version'', JStr VERSION), (lit ''created_at'', JStr now),
           (lit ''mode'', JStr (mode_text (mode_ts req))),
           (lit ''kdf'', JObj [(lit ''algorithm'', JStr KDF_ALG),
                              (lit ''opslimit'', JNum (preset_opslimit (preset_ts req))),
                              (lit ''memlimit'', JNum (preset_memlimit (preset_ts req))),
                              (lit ''salt'', JStr (b64urlEncode_ts (r_salt x)))]),
           (lit ''wrap'', JObj [(lit ''algorithm'', JStr AEAD_ALG),
                               (lit ''nonce'', JStr (b64urlEncode_ts (r_wrapNonce x))), (lit ''wrapped_key'', JStr [])]),
           (lit ''content'', JObj [(lit ''algorithm'', JStr AEAD_ALG),
                                  (lit ''nonce'', JStr (b64urlEncode_ts (r_contentNonce x))), (lit ''ciphertext'', JStr [])])]"

definition draw_ts :: "rng \<Rightarrow> randomness \<times> rng" where
  "draw_ts r0 =
     (let (salt, r1) = randombytes_buf SALT_BYTES r0; (wn, r2) = randombytes_buf NONCE_BYTES r1;
          (cn, r3) = randombytes_buf NONCE_BYTES r2; (vk, r4) = randombytes_buf KEY_BYTES r3
      in (\<lparr>r_salt = salt, r_wrapNonce = wn, r_contentNonce = cn, r_vaultKey = vk\<rparr>, r4))"

definition seal_ts :: "sodium \<Rightarrow> jstr \<Rightarrow> lock_request \<Rightarrow> randomness \<Rightarrow> jsval res" where
  "seal_ts so now req x =
     bind_res (crypto_pwhash so KEY_BYTES (utf8 (l_password req)) (r_salt x)
         (preset_opslimit (preset_ts req)) (preset_memlimit (preset_ts req))) (\<lambda>wrapKey.
     let vault = vault_literal_ts now req x
     in bind_res (buildAADV2_ts vault) (\<lambda>aad.
        bind_res (aead_encrypt so (r_vaultKey x) aad (r_wrapNonce x) wrapKey) (\<lambda>wrappedKey.
        let vault1 = set2 vault ''wrap'' ''wrapped_key'' (JStr (b64urlEncode_ts wrappedKey))
        in bind_res (aead_encrypt so (pt_bytes (l_plaintext req)) aad (r_contentNonce x) (r_vaultKey x)) (\<lambda>contentCiphertext.
           Inr (set2 vault1 ''content'' ''ciphertext'' (JStr (b64urlEncode_ts contentCiphertext)))))))"

definition encryptVaultV2_ts :: "sodium \<Rightarrow> jstr \<Rightarrow> lock_request \<Rightarrow> rng \<Rightarrow> jsval res \<times> rng" where
  "encryptVaultV2_ts so now req r =
     (if l_password req = [] then (Inl (lit ''password is required''), r)
      else if pt_bytes (l_plaintext req) = [] then (Inl (lit ''plaintext is empty''), r)
      else if length (pt_bytes (l_plaintext req)) > MAX_PLAINTEXT_BYTES then (Inl (lit ''plaintext too large; max is 256 KiB''), r)
      else let (x, r') = draw_ts r in (seal_ts so now req x, r'))"

section \<open>Opening\<close>

definition b64_member_ts :: "jsval \<Rightarrow> string \<Rightarrow> string \<Rightarrow> bytes res" where
  "b64_member_ts v a b = bind_res (get2 v a b) decode_value_ts"

definition decode_parts_ts :: "jsval \<Rightarrow> sealed_parts res" where
  "decode_parts_ts vault =
     bind_res (b64_member_ts vault ''kdf'' ''salt'') (\<lambda>salt.
     bind_res (b64_member_ts vault ''wrap'' ''nonce'') (\<lambda>wrapNonce.
     bind_res (b64_member_ts vault ''wrap'' ''wrapped_key'') (\<lambda>wrappedKey.
     bind_res (b64_member_ts vault ''content'' ''nonce'') (\<lambda>contentNonce.
     bind_res (b64_member_ts vault ''content'' ''ciphertext'') (\<lambda>contentCiphertext.
     throw_if (length salt \<noteq> SALT_BYTES) (malformed ''salt length'')
     (throw_if (length wrapNonce \<noteq> NONCE_BYTES) (malformed ''wrap nonce length'')
     (throw_if (length contentNonce \<noteq> NONCE_BYTES) (malformed ''content nonce length'')
     (throw_if (length wrappedKey \<noteq> KEY_BYTES + TAG_BYTES) (malformed ''wrapped key length'')
     (throw_if (contentCiphertext = []) (malformed ''empty ciphertext'')
     (throw_if (length contentCiphertext > MAX_CIPHERTEXT_BYTES) (lit ''Vault too large'')
     (Inr \<lparr>p_salt = salt, p_wrapNonce = wrapNonce, p_wrappedKey = wrappedKey,
           p_contentNonce = contentNonce, p_contentCt = contentCiphertext\<rparr>)))))))))))"

definition msg_wrong_ts :: jstr where "msg_wrong_ts = lit ''Could not decrypt: wrong phrase or tampered vault''"
definition msg_tampered_ts :: jstr where "msg_tampered_ts = lit ''Could not decrypt: vault content has been tampered with''"

definition open_parts_ts :: "sodium \<Rightarrow> jsval \<Rightarrow> sealed_parts \<Rightarrow> jstr \<Rightarrow> jstr res" where
  "open_parts_ts so vault p password =
     bind_res (get2 vault ''kdf'' ''opslimit'') (\<lambda>ops.
     bind_res (get2 vault ''kdf'' ''memlimit'') (\<lambda>mem.
     bind_res (pwhash_value so password (p_salt p) ops mem) (\<lambda>wrapKey.
     bind_res (buildAADV2_ts vault) (\<lambda>aad.
     bind_res (rethrow msg_wrong_ts (aead_decrypt so (p_wrappedKey p) aad (p_wrapNonce p) wrapKey)) (\<lambda>vaultKey.
     bind_res (rethrow msg_tampered_ts (aead_decrypt so (p_contentCt p) aad (p_contentNonce p) vaultKey)) fromUtf8)))))"

definition decryptVaultV2_ts :: "sodium \<Rightarrow> jsval \<Rightarrow> jstr \<Rightarrow> jstr res" where
  "decryptVaultV2_ts so vault password =
     bind_res (validateVaultSchemaV2_ts vault) (\<lambda>_.
     throw_if (password = []) (lit ''password is required'')
     (bind_res (decode_parts_ts vault) (\<lambda>p. open_parts_ts so vault p password)))"

section \<open>Passphrases and the self-test\<close>

text \<open>The list has the words of \<open>PASSPHRASE_WORDS\<close> in one line.\<close>

definition words_ts :: "jstr list" where
  "words_ts = map lit (split_spaces [] (
     ''able acid acre add age aim air ant ape arm army art ask atom auto baby back bad bag bake ball band bank bar barn base bat bath bay '' @
     ''beam bean bear beat bed bee beef bell belt bend best bid big bike bill bird bit blue boat body bold bolt bone book boot born boss '' @
     ''both bow bowl box boy bran brave bread bring brown brush bug build burn bus bush busy buy cab cage cake calf calm camp can cap car '' @
     ''card care cart case cash cast cat catch cave cell chair chalk charm cheap chest chief chin chip city claim clay clean clear '' @
     ''click cliff cloak clock cloth cloud club coal coast coat coin cold come cook cool corn cost couch count court cow crab crew '' @
     ''crop cross crown cry cup curl daisy damp dance dark dawn day deal deep deer desk dial dig dim dish dive dock dog doll door dot '' @
     ''dove down draft drag draw dream dress drift drive drop drum dry duck dust eagle ear earth east easy edge egg eight elbow elf elm''))"

definition generatePassphrase_ts :: "sodium \<Rightarrow> rng \<Rightarrow> jstr \<times> rng" where
  "generatePassphrase_ts so r =
     (let (is, r1) = draw_uniform so (length words_ts) 4 r;
          chosen = map (\<lambda>i. if i < length words_ts then words_ts ! i else lit ''undefined'') is;
          (d1, r2) = randombytes_uniform so 10 r1; (d2, r3) = randombytes_uniform so 10 r2
      in (join (lit ''-'') chosen @ lit ''-'' @ num_str (int d1) @ num_str (int d2), r3))"

definition self_request :: lock_request where
  "self_request = \<lparr>l_plaintext = Text test_plain, l_password = test_phrase, l_mode = None, l_preset = Some Quick\<rparr>"

text \<open>\<open>s.slice(0, -n)\<close>\<close>

definition drop_last :: "nat \<Rightarrow> jstr \<Rightarrow> jstr" where
  "drop_last n s = take (length s - n) s"

definition self_checks_ts :: "sodium \<Rightarrow> jsval \<Rightarrow> unit res" where
  "self_checks_ts so vault =
     bind_res (decryptVaultV2_ts so vault test_phrase) (\<lambda>roundTrip.
     throw_if (roundTrip \<noteq> test_plain) (lit ''round trip mismatch'')
     (bind_res (json_clone vault) (\<lambda>tampered0.
      bind_res (bind_res (get2 tampered0 ''content'' ''ciphertext'') to_str) (\<lambda>ct.
      let tampered = set2 tampered0 ''content'' ''ciphertext'' (JStr (drop_last 3 ct @ lit ''abc''))
      in throw_if (is_ok (decryptVaultV2_ts so tampered test_phrase)) (lit ''tamper test failed'')
         (throw_if (is_ok (decryptVaultV2_ts so vault (lit ''wrong phrase''))) (lit ''wrong phrase test failed'')
         (Inr ()))))))"

definition runSelfTest_ts :: "sodium \<Rightarrow> jstr \<Rightarrow> rng \<Rightarrow> unit res \<times> rng" where
  "runSelfTest_ts so now r =
     (case encryptVaultV2_ts so now self_request r of
        (Inl e, r') \<Rightarrow> (Inl e, r')
      | (Inr vault, r') \<Rightarrow> (self_checks_ts so vault, r'))"

section \<open>The same codecs\<close>

lemma b64urlEncode_ts_eq [simp]: "b64urlEncode_ts bs = b64urlEncode bs"
proof -
  have "unat (ucast (ucast b :: 16 word) :: byte) = unat b" for b :: byte
    using unat8_lt [of b] by (simp add: unsigned_ucast_eq unsigned_take_bit_eq take_bit_nat_eq_self)
  then have "ucast (ucast b :: 16 word) = b" for b :: byte by (simp add: word_unat_eq_iff)
  then have "map ucast (map ucast bs :: jstr) = bs" by (induction bs) (simp_all only: list.map)
  then show ?thesis by (simp add: b64urlEncode_ts_def b64urlEncode_def btoa_def Let_def del: map_map)
qed

lemma decode_ts_eq:
  "b64urlDecode_ts s = throw_if (\<not> b64url_syntax s) msg_b64_ts (b64urlToUint8 s)"
proof -
  have rep: "replace_char 95 47 (replace_char 45 43 (replicate n eq_char)) = replicate n eq_char" for n
    by (simp add: replace_char_def eq_char_def)
  have app: "replace_char x y (a @ b) = replace_char x y a @ replace_char x y b" for x y :: "16 word" and a b
    by (simp add: replace_char_def)
  have len: "length (replace_char x y a) = length a" for x y :: "16 word" and a by (simp add: replace_char_def)
  have "length s mod 4 < 4" by simp
  then consider "length s mod 4 = 0" | "length s mod 4 = 1" | "length s mod 4 = 2" | "length s mod 4 = 3" by linarith
  then show ?thesis
    using rep [of 0] rep [of 1]
    by cases (simp_all add: b64urlDecode_ts_def b64urlToUint8_def Let_def len app rep)
qed

lemma decode_ts_encode: "b64urlDecode_ts (b64urlEncode bs) = Inr bs"
  by (simp add: decode_ts_eq b64url_syntax_encode push_key_decodes)

text \<open>The encoder and decoder of the TypeScript implementation.\<close>

interpretation ts_b64: codec "\<lambda>_. True" b64urlEncode_ts b64urlDecode_ts
  by unfold_locales (simp add: decode_ts_encode)

lemma map_filter_none: "(\<And>u. u \<in> set s \<Longrightarrow> \<not> P u \<Longrightarrow> f u = None) \<Longrightarrow> List.map_filter f (filter P s) = List.map_filter f s"
  by (induction s) (auto simp: List.map_filter_def)

lemma sextets_unpadded: "List.map_filter sextet_of (strip_padding s) = List.map_filter sextet_of s"
proof -
  have e: "sextet_of eq_char = None" by (simp add: sextet_of_def eq_char_def Let_def)
  have b: "s \<noteq> [] \<Longrightarrow> last s = eq_char \<Longrightarrow> List.map_filter sextet_of (butlast s) = List.map_filter sextet_of s" for s
    by (metis append_butlast_last_id e map_filter_append List.map_filter_simps append_Nil2 option.simps(4))
  show ?thesis by (auto simp: strip_padding_def Let_def b)
qed

lemma atob_sextets: "atob s = Inr bs \<Longrightarrow> bs = buffer_from_base64 s"
proof -
  assume a: "atob s = Inr bs"
  have "sextet_of u = None" if "u \<in> {9, 10, 12, 13, 0x20}" for u
    using that by (auto simp: sextet_of_def Let_def)
  then have "List.map_filter sextet_of (filter (\<lambda>u. u \<notin> {9, 10, 12, 13, 0x20}) s) = List.map_filter sextet_of s"
    by (intro map_filter_none) simp
  then show ?thesis using a by (simp add: atob_def Let_def buffer_from_base64_def sextets_unpadded)
qed

lemma decode_ts_cli: "b64urlDecode_ts s = Inr bs \<Longrightarrow> b64urlDecode s = Inr bs"
  by (auto simp: b64urlDecode_ts_def b64urlDecode_def Let_def dest: atob_sextets)

section \<open>The same additional data\<close>

lemma canonicalJSON_ts_eq [simp]: "canonicalJSON_ts v = canonicalJSON v"
proof (induction v)
  case (JArr vs)
  then have "map (\<lambda>v. text_or_empty (canonicalJSON_ts v)) vs = map (\<lambda>v. text_or_empty (canonicalJSON v)) vs"
    by (intro map_cong) simp_all
  then show ?case by (simp only: canonicalJSON_ts.simps canonicalJSON.simps append_Cons append_Nil)
next
  case (JObj kvs)
  then have "map (\<lambda>(k, v). (k, text_or_undefined (canonicalJSON_ts v))) kvs =
      map (\<lambda>(k, v). (k, text_or_undefined (canonicalJSON v))) kvs"
    by (intro map_cong) auto
  then show ?case by (simp only: canonicalJSON_ts.simps canonicalJSON.simps Let_def append_Cons append_Nil)
qed simp_all

lemma buildAADV2_ts_eq [simp]: "buildAADV2_ts v = buildAADV2 v"
proof -
  have bind_assoc: "bind_res (bind_res r f) g = bind_res r (\<lambda>x. bind_res (f x) g)" for r :: "'a res" and f :: "'a \<Rightarrow> 'b res" and g :: "'b \<Rightarrow> 'c res"
    by (cases r) simp_all
  show ?thesis by (simp add: buildAADV2_ts_def buildAADV2_def aad_object_def bind_assoc aad_literal_def)
qed

section \<open>The same vaults\<close>

text \<open>The options of the command line tool that a request stands for.\<close>

definition cli_request :: "lock_request \<Rightarrow> encrypt_opts" where
  "cli_request req =
     \<lparr>o_plaintext = (case l_plaintext req of Text s \<Rightarrow> PtString s | Raw b \<Rightarrow> PtBytes b), o_password = JStr (l_password req),
      o_mode = JStr (mode_text (mode_ts req)), o_opslimit = Some (preset_opslimit (preset_ts req)),
      o_memlimit = Some (preset_memlimit (preset_ts req)), o_salt = None, o_wrapNonce = None, o_contentNonce = None,
      o_vaultKey = None, o_createdAt = None, o_version = None\<rparr>"

lemma preset_cases: "preset_ts req \<in> LOCK_PRESETS_ts ` {Quick, Strong, Vault_lock}"
  unfolding preset_ts_def by (rule imageI) (metis (full_types) PresetKey.exhaust insert_iff)

lemma preset_limits:
  "1 \<le> preset_opslimit (preset_ts req)" "preset_opslimit (preset_ts req) \<le> 10"
  "8388608 \<le> preset_memlimit (preset_ts req)" "preset_memlimit (preset_ts req) \<le> 268435456"
  using preset_cases [of req] by auto

lemma mode_text_cases: "is_mode (JStr (mode_text m))" "mode_text m \<noteq> []"
  by (cases m; simp add: is_mode_def)+

lemma cli_request_nums:
  "num_or (o_opslimit (cli_request req)) d = preset_opslimit (preset_ts req)"
  "num_or (o_memlimit (cli_request req)) d = preset_memlimit (preset_ts req)"
  "val_or (o_mode (cli_request req)) e = JStr (mode_text (mode_ts req))"
  using preset_limits [of req] mode_text_cases [of "mode_ts req"] by (auto simp: cli_request_def num_or_def val_or_def)

lemma cli_request_checks:
  assumes "l_password req \<noteq> []" and "pt_bytes (l_plaintext req) \<noteq> []" and "length (pt_bytes (l_plaintext req)) \<le> MAX_PLAINTEXT_BYTES"
  shows "encrypt_checks (cli_request req) = Inr (pt_bytes (l_plaintext req))"
proof -
  have p: "plaintext_bytes (o_plaintext (cli_request req)) = Inr (pt_bytes (l_plaintext req))"
    using assms(2,3) by (cases "l_plaintext req")
      (simp_all add: plaintext_bytes_def cli_request_def pt_bytes_def throw_if_def del: bind_res_Inr_iff)
  show ?thesis
    unfolding encrypt_checks_def cli_request_nums p
    using assms(1) preset_limits [of req] mode_text_cases [of "mode_ts req"]
    by (simp add: throw_if_def nonempty_str_def limit_defs) (simp add: cli_request_def)
qed

lemma draw_ts_eq: "draw_randomness (cli_request req) r = draw_ts r"
  by (simp add: draw_randomness_def draw_ts_def cli_request_def draw_or_def)

lemma draw_ts_lengths: "draw_ts r = (x, r') \<Longrightarrow> check_randomness x = Inr ()"
  by (auto simp: draw_ts_def randombytes_buf_def Let_def check_randomness_ok size_defs)

lemma vault_literal_ts_eq:
  "vault_literal_ts now req x =
     vault_literal VERSION now (JStr (mode_text (mode_ts req))) (preset_opslimit (preset_ts req))
       (preset_memlimit (preset_ts req)) x [] []"
  by (simp add: vault_literal_ts_def vault_literal_def)

lemma seal_ts_eq:
  assumes "check_randomness x = Inr ()"
  shows "seal_ts so now req x = seal_vault so now (cli_request req) (pt_bytes (l_plaintext req)) x"
proof -
  have "str_or (o_version (cli_request req)) VERSION = VERSION" "str_or (o_createdAt (cli_request req)) now = now"
    "str_of (o_password (cli_request req)) = l_password req"
    by (simp_all add: cli_request_def str_or_def)
  then show ?thesis
    unfolding seal_ts_def seal_vault_def by (simp add: assms cli_request_nums vault_literal_ts_eq Let_def)
qed

lemma encrypt_ts_cli:
  "encryptVaultV2_ts so now req r = (Inr v, r') \<longleftrightarrow> encryptVaultV2 so now (cli_request req) r = (Inr v, r')"
proof (cases "l_password req = [] \<or> pt_bytes (l_plaintext req) = [] \<or> length (pt_bytes (l_plaintext req)) > MAX_PLAINTEXT_BYTES")
  case True
  have "\<not> is_ok (encrypt_checks (cli_request req))"
  proof
    assume "is_ok (encrypt_checks (cli_request req))"
    then obtain pt where pt: "encrypt_checks (cli_request req) = Inr pt" by (auto simp: is_ok_iff)
    then have "pt = pt_bytes (l_plaintext req)"
      by (auto simp: encrypt_checks_def plaintext_bytes_def cli_request_def pt_bytes_def split: text_or_bytes.splits)
    then show False using encrypt_checks_Inr [OF pt] True by (auto simp: cli_request_def nonempty_str_def)
  qed
  then have "fst (encryptVaultV2 so now (cli_request req) r) \<noteq> Inr v"
    by (auto simp: encryptVaultV2_def is_ok_def split: sum.splits)
  moreover have "fst (encryptVaultV2_ts so now req r) \<noteq> Inr v" using True by (auto simp: encryptVaultV2_ts_def)
  ultimately show ?thesis by auto
next
  case False
  obtain x r2 where d: "draw_ts r = (x, r2)" by (cases "draw_ts r")
  show ?thesis using False cli_request_checks [of req] draw_ts_lengths [OF d]
    by (simp add: encryptVaultV2_ts_def encryptVaultV2_def draw_ts_eq d seal_ts_eq)
qed

section \<open>Opening\<close>

lemma validate_ts_wf: "wf_vault_v2 v \<Longrightarrow> validateVaultSchemaV2_ts v = Inr ()"
proof -
  have t: "is_object x \<Longrightarrow> truthy x" for x by (simp add: is_object_def)
  have n: "nonempty_str x \<Longrightarrow> truthy x" for x by (cases x) (simp_all add: nonempty_str_def)
  assume "wf_vault_v2 v"
  then show ?thesis
    by (auto simp: validateVaultSchemaV2_ts_def all_checks_ok wf_vault_v2_def wf_kdf_def wf_section_def has_algorithm_def t n)
qed

lemma b64_member_ts_cli: "b64_member_ts v a b = Inr bs \<Longrightarrow> b64_member v a b = Inr bs"
  by (auto simp: b64_member_ts_def b64_member_def decode_value_ts_def decode_ts_cli split: jsval.splits if_splits)

lemma decode_parts_ts_cli: "decode_parts_ts v = Inr p \<Longrightarrow> decode_parts v = Inr p"
  by (auto simp: decode_parts_ts_def decode_parts_def dest!: b64_member_ts_cli)

lemma decode_parts_cli_ts:
  assumes "sections_are_objects v" and "decode_parts v = Inr p" and "strict_b64 v"
  shows "decode_parts_ts v = Inr p"
proof -
  note o = assms(1) [unfolded sections_are_objects_def]
  let ?enc = "\<lambda>a b bs. fld (fld v a) b = JStr (b64urlEncode bs)"
  obtain ka wn wk cn cc where e: "?enc ''kdf'' ''salt'' ka" "?enc ''wrap'' ''nonce'' wn"
    "?enc ''wrap'' ''wrapped_key'' wk" "?enc ''content'' ''nonce'' cn" "?enc ''content'' ''ciphertext'' cc"
    using assms(3) by (auto simp: strict_b64_def sealed_fields_def)
  have ts: "b64_member_ts v a b = Inr bs" if "is_object (fld v a)" "?enc a b bs" for a b bs
    using that o by (simp add: b64_member_ts_def get2_object decode_value_ts_def decode_ts_encode)
  from assms(2) e o show ?thesis by (auto simp: decode_parts_ts_def decode_parts_def ts b64_member_strict)
qed

lemma wf_limits:
  assumes "wf_vault_v2 v"
  obtains ops mem where "get2 v ''kdf'' ''opslimit'' = Inr (JNum ops)" and "get2 v ''kdf'' ''memlimit'' = Inr (JNum mem)"
    and "1 \<le> ops" and "ops \<le> 10" and "8388608 \<le> mem" and "mem \<le> 268435456"
  using assms wf_vault_sections [OF assms]
  by (auto simp: get2_object wf_vault_v2_def wf_kdf_def limit_defs elim!: int_betweenE)

lemma wf_sections: "wf_vault_v2 v \<Longrightarrow> sections_are_objects v"
  using wf_vault_sections [of v] by (simp add: sections_are_objects_def)

text \<open>
  The key that opens has the right length: the cipher's own data say so. So the check the
  TypeScript code leaves out never fails after a successful opening.
\<close>

lemma opened_key_length:
  assumes "kdf_works so" and "aead_works so" and "aead_exact so" and "wf_vault_v2 v" and "decode_parts v = Inr p"
    and "wrap_key so v (p_salt p) pw = Inr k" and "aead_decrypt so (p_wrappedKey p) aad (p_wrapNonce p) k = Inr vk"
  shows "length vk = 32"
proof -
  note l = decode_parts_lengths [OF assms(5)]
  obtain ops mem where om: "get2 v ''kdf'' ''opslimit'' = Inr (JNum ops)" "get2 v ''kdf'' ''memlimit'' = Inr (JNum mem)"
    "1 \<le> ops" "ops \<le> 10" "8388608 \<le> mem" "mem \<le> 268435456" by (rule wf_limits [OF assms(4)])
  then have "crypto_pwhash so 32 (utf8 pw) (p_salt p) ops mem = Inr k"
    using assms(6) by (simp add: wrap_key_def KEY_BYTES_def)
  moreover obtain k' where "crypto_pwhash so 32 (utf8 pw) (p_salt p) ops mem = Inr k'" "length k' = 32"
    using kdf_worksE [OF assms(1) _ om(3-6)] l by metis
  ultimately have "length k = 32" by simp
  moreover have "aead_encrypt so vk aad (p_wrapNonce p) k = Inr (p_wrappedKey p)" using aead_exactD [OF assms(3,7)] .
  ultimately have "length (p_wrappedKey p) = length vk + 16" using aead_encrypt_opens [OF assms(2)] l by blast
  then show ?thesis using l by simp
qed

lemma pwhash_wrap_key:
  assumes "wf_vault_v2 v" and "get2 v ''kdf'' ''opslimit'' = Inr ops" and "get2 v ''kdf'' ''memlimit'' = Inr mem"
  shows "pwhash_value so pw salt ops mem = wrap_key so v salt pw"
proof -
  obtain o1 m1 where "get2 v ''kdf'' ''opslimit'' = Inr (JNum o1)" "get2 v ''kdf'' ''memlimit'' = Inr (JNum m1)"
    by (rule wf_limits [OF assms(1)])
  then show ?thesis using assms(2,3) by (simp add: pwhash_value_def wrap_key_def KEY_BYTES_def)
qed

lemma open_ts_cli:
  assumes so: "kdf_works so" "aead_works so" "aead_exact so" and wf: "wf_vault_v2 v"
    and o: "decryptVaultV2_ts so v pw = Inr m"
  shows "decryptVaultV2 so v (JStr pw) = Inr m"
proof -
  from o obtain p ops mem k aad vk pt where pw: "pw \<noteq> []" and p: "decode_parts_ts v = Inr p"
    and om: "get2 v ''kdf'' ''opslimit'' = Inr ops" "get2 v ''kdf'' ''memlimit'' = Inr mem"
    and k: "pwhash_value so pw (p_salt p) ops mem = Inr k" and aad: "buildAADV2 v = Inr aad"
    and vk: "aead_decrypt so (p_wrappedKey p) aad (p_wrapNonce p) k = Inr vk"
    and pt: "aead_decrypt so (p_contentCt p) aad (p_contentNonce p) vk = Inr pt" "fromUtf8 pt = Inr m"
    by (auto simp: decryptVaultV2_ts_def open_parts_ts_def)
  have "wrap_key so v (p_salt p) pw = Inr k" using k pwhash_wrap_key [OF wf om] by simp
  moreover from this have "length vk = 32"
    using opened_key_length [OF so wf decode_parts_ts_cli [OF p] _ vk] by simp
  ultimately have "opened_as so v pw p k aad vk pt"
    using decode_parts_ts_cli [OF p] aad vk pt by (simp add: opened_as_def)
  then have "\<exists>p k aad vk pt. opened_as so v pw p k aad vk pt \<and> fromUtf8 pt = Inr m" using pt by blast
  then show ?thesis using wf pw by (simp add: decrypt_Inr nonempty_str_def)
qed

lemma open_cli_ts:
  assumes "decryptVaultV2 so v (JStr pw) = Inr m" and "strict_b64 v"
  shows "decryptVaultV2_ts so v pw = Inr m"
proof -
  obtain p k aad vk pt where wf: "wf_vault_v2 v" and pw: "pw \<noteq> []" and o: "opened_as so v pw p k aad vk pt"
    and m: "fromUtf8 pt = Inr m" using assms(1) by (auto simp: decrypt_Inr nonempty_str_def)
  obtain ops mem where om: "get2 v ''kdf'' ''opslimit'' = Inr (JNum ops)" "get2 v ''kdf'' ''memlimit'' = Inr (JNum mem)"
    by (rule wf_limits [OF wf])
  have "decode_parts_ts v = Inr p"
    using decode_parts_cli_ts [OF wf_sections [OF wf] _ assms(2)] o by (simp add: opened_as_def)
  moreover have "pwhash_value so pw (p_salt p) (JNum ops) (JNum mem) = Inr k"
    using pwhash_wrap_key [OF wf om] o by (simp add: opened_as_def)
  ultimately show ?thesis using o om m pw validate_ts_wf [OF wf]
    by (simp add: decryptVaultV2_ts_def open_parts_ts_def opened_as_def)
qed

lemma cli_locked_opens_ts:
  assumes "kdf_works so" and "aead_works so" and "encryptVaultV2 so now opts r = (Inr v, r')"
    and "o_plaintext opts = PtString s" and "o_password opts = JStr pw" and "plain_text s"
  shows "decryptVaultV2_ts so v pw = Inr s" and "decryptVaultV2 so v (JStr pw) = Inr s" and "wf_vault_v2 v"
proof -
  note l = lock_opens [OF assms(1-4)]
  then show d: "decryptVaultV2 so v (JStr pw) = Inr s" and "wf_vault_v2 v" using assms(5,6) by simp_all
  show "decryptVaultV2_ts so v pw = Inr s" by (rule open_cli_ts [OF d encrypt_cli_strict [OF assms(3)]])
qed

section \<open>The self-test\<close>

lemma locked_ts:
  assumes "kdf_works so" and "aead_works so" and "encryptVaultV2_ts so now req r = (Inr v, r')" and "l_plaintext req = Text s" and "plain_text s"
  shows "decryptVaultV2_ts so v (l_password req) = Inr s" and "decryptVaultV2 so v (JStr (l_password req)) = Inr s" and "wf_vault_v2 v"
    and "strict_b64 v" and "wf_val v" and "\<exists>c. get2 v ''content'' ''ciphertext'' = Inr (JStr c)"
proof -
  note c = assms(3) [unfolded encrypt_ts_cli]
  have o: "o_plaintext (cli_request req) = PtString s" "o_password (cli_request req) = JStr (l_password req)"
    using assms(4) by (simp_all add: cli_request_def)
  note l = cli_locked_opens_ts [OF assms(1,2) c o assms(5)]
  then show "decryptVaultV2_ts so v (l_password req) = Inr s" "decryptVaultV2 so v (JStr (l_password req)) = Inr s" "wf_vault_v2 v"
    by simp_all
  show "strict_b64 v" by (rule encrypt_cli_strict [OF c])
  obtain pt x k aad w ct where "sealed_as so now (cli_request req) pt x k aad w ct v" by (rule encrypt_Inr [OF c])
  then have v: "v = vault_literal VERSION now (JStr (mode_text (mode_ts req))) (preset_opslimit (preset_ts req))
      (preset_memlimit (preset_ts req)) x (b64urlEncode w) (b64urlEncode ct)"
    by (simp add: sealed_as_def cli_request_nums) (simp add: cli_request_def str_or_def)
  show "wf_val v" by (simp add: v vault_literal_def)
  show "\<exists>c. get2 v ''content'' ''ciphertext'' = Inr (JStr c)"
    by (simp add: v get2_object vault_literal_fields del: fld_JObj)
qed

definition tampered_ts :: "jsval \<Rightarrow> jstr \<Rightarrow> jsval" where
  "tampered_ts v c = set2 v ''content'' ''ciphertext'' (JStr (drop_last 3 c @ lit ''abc''))"

lemma put_same: "map_of kvs k = Some v \<Longrightarrow> put kvs k v = kvs"
  by (induction kvs k v rule: put.induct) (auto split: if_splits)

lemma set2_same: "get2 v a b = Inr (JStr c) \<Longrightarrow> set2 v a b (JStr c) = v"
  by (auto simp: get2_def set2_def put_same split: jsval.splits option.splits elim!: get.elims)

lemma self_test_ts_locked:
  assumes "kdf_works so" and "aead_works so" and "encryptVaultV2_ts so now self_request r = (Inr v, r')"
    and "get2 v ''content'' ''ciphertext'' = Inr (JStr c)"
  shows "fst (runSelfTest_ts so now r) =
    (if is_ok (decryptVaultV2_ts so (tampered_ts v c) test_phrase) then Inl (lit ''tamper test failed'')
     else if is_ok (decryptVaultV2_ts so v (lit ''wrong phrase'')) then Inl (lit ''wrong phrase test failed'')
     else Inr ())"
proof -
  have p: "plain_text test_plain" unfolding test_plain_def by (rule plain_text_lit)
  have r: "l_plaintext self_request = Text test_plain" "l_password self_request = test_phrase" by (simp_all add: self_request_def)
  note l = locked_ts [OF assms(1-3) r(1) p]
  show ?thesis
    using l(1) json_clone_wf [OF l(5)] assms(3,4)
    by (simp add: runSelfTest_ts_def self_checks_ts_def r tampered_ts_def throw_if_def)
qed

section \<open>Properties\<close>

text \<open>
  C30: The proof-lock page and the command line tool lock alike: with the same message, phrase,
  mode and preset, the same date and the same random bytes, one makes a vault exactly when the
  other does, and it is the same vault, drawn from the same part of the random stream.
\<close>

theorem proof_lock_locks_like_cli:
  "encryptVaultV2_ts so now req r = (Inr v, r') \<longleftrightarrow> encryptVaultV2 so now (cli_request req) r = (Inr v, r')"
  by (rule encrypt_ts_cli)

text \<open>
  C31: On the vaults the command line tool accepts, the proof-lock page opens nothing else and
  nothing differently: what it opens, the tool opens to the same message, although its decoder
  is \<open>atob\<close> and it does not test the length of the unwrapped key; what the tool opens, it opens
  when the five encoded fields are as an encoder writes them.
\<close>

theorem proof_lock_opens_like_cli:
  assumes "kdf_works so" and "aead_works so" and "aead_exact so" and "wf_vault_v2 v"
  shows "(decryptVaultV2_ts so v pw = Inr m \<longrightarrow> decryptVaultV2 so v (JStr pw) = Inr m) \<and>
    (decryptVaultV2 so v (JStr pw) = Inr m \<and> strict_b64 v \<longrightarrow> decryptVaultV2_ts so v pw = Inr m)"
  using open_ts_cli [OF assms] open_cli_ts by blast

theorem proof_lock_opens_like_cli_witness:
  "\<exists>v. wf_vault_v2 v \<and> decryptVaultV2_ts toy_sodium v (lit ''pw'') = Inr (lit ''hi'') \<and>
     decryptVaultV2 toy_sodium v (JStr (lit ''pw'')) = Inr (lit ''hi'')"
proof -
  let ?o = "sample_opts (lit ''hi'') (lit ''pw'')"
  note so = sodium_okD [OF toy_sodium_ok]
  obtain v r' where v: "encryptVaultV2 toy_sodium [] ?o (\<lambda>_. 7) = (Inr v, r')" by (rule sample_lock)
  have "decryptVaultV2 toy_sodium v (JStr (lit ''pw'')) = Inr (lit ''hi'')" "wf_vault_v2 v"
    using cli_locked_opens_ts [OF so(1,2) v, of "lit ''hi''" "lit ''pw''"] sample_plain by (auto simp: sample_opts_def)
  then show ?thesis using proof_lock_opens_like_cli [OF so(1-3), of v "lit ''pw''" "lit ''hi''"] encrypt_cli_strict [OF v] by blast
qed

text \<open>
  A text locked in the proof-lock page opens under its phrase, to the same text, in all
  three implementations: in that page, with the command line tool and in the vault page.
\<close>

theorem proof_lock_roundtrip:
  assumes "kdf_works so" and "aead_works so" and "base64_works so"
    and "encryptVaultV2_ts so now req r = (Inr v, r')" and "l_plaintext req = Text s" and "plain_text s"
  shows "decryptVaultV2_ts so v (l_password req) = Inr s \<and> decryptVaultV2 so v (JStr (l_password req)) = Inr s \<and>
    decryptVault so v (JStr (l_password req)) = Inr s"
proof -
  note l = locked_ts [OF assms(1,2,4-6)]
  have o: "o_plaintext (cli_request req) = PtString s" "o_password (cli_request req) = JStr (l_password req)"
    using assms(5) by (simp_all add: cli_request_def)
  have "decryptVault so v (o_password (cli_request req)) = Inr s"
    using page_opens_cli [OF assms(1-3) assms(4) [unfolded encrypt_ts_cli] o(1)] plain_units [OF assms(6)] by simp
  then show ?thesis using l o by simp
qed

text \<open>
  C32: The proof-lock page passes the Argon2 limits of an opened file to the library as they
  are. Whatever limits an otherwise well-formed vault names, the page asks the library for that
  much work and memory and shows the library's error, where the command line tool refuses the
  file for naming more memory than its cap.
\<close>

theorem kdf_limits_reach_library:
  assumes "pw \<noteq> []" and "check_randomness x = Inr ()" and "length w = 48" and "c \<noteq> []" and "length c \<le> MAX_CIPHERTEXT_BYTES"
    and "is_mode md" and "mem > MAX_MEMLIMIT" and "crypto_pwhash so 32 (utf8 pw) (r_salt x) ops mem = Inl e"
    and v: "v = vault_literal VERSION now md ops mem x (b64urlEncode w) (b64urlEncode c)"
  shows "decryptVaultV2_ts so v pw = Inl e \<and> validateVaultSchemaV2 v \<noteq> Inr ()"
proof -
  note f = vault_literal_fields [where ver = VERSION and at = now and md = md and ops = ops and mem = mem and x = x
      and w = "b64urlEncode w" and c = "b64urlEncode c", folded v]
  have ne: "r_salt x \<noteq> []" "r_wrapNonce x \<noteq> []" "r_contentNonce x \<noteq> []" "w \<noteq> []"
    using assms(2,3) by (auto simp: check_randomness_ok)
  have t: "is_object y \<Longrightarrow> truthy y" for y by (simp add: is_object_def)
  have va: "validateVaultSchemaV2_ts v = Inr ()"
    using ne assms(4,6) by (simp add: validateVaultSchemaV2_ts_def all_checks_ok has_algorithm_def f t VERSION_def del: fld_JObj)
  have s: "sections_are_objects v" by (simp add: sections_are_objects_def f)
  have "decode_parts_ts v = Inr \<lparr>p_salt = r_salt x, p_wrapNonce = r_wrapNonce x, p_wrappedKey = w,
      p_contentNonce = r_contentNonce x, p_contentCt = c\<rparr>"
    by (rule decode_parts_cli_ts [OF s])
      (use decode_parts_literal [OF assms(2,3,4,5)] in \<open>auto simp: v strict_b64_def sealed_fields_def vault_literal_fields simp del: fld_JObj\<close>)
  then have "decryptVaultV2_ts so v pw = Inl e"
    using assms(1,8) by (simp add: decryptVaultV2_ts_def va open_parts_ts_def get2_object f pwhash_value_def del: fld_JObj)
  moreover have "\<not> wf_vault_v2 v" using assms(7) by (simp add: v vault_literal_wf)
  ultimately show ?thesis by (simp add: validate_ok)
qed

text \<open>
  The self-test of the proof-lock page raises a false alarm. Its tampered vault replaces
  the last three characters of the ciphertext by "abc"; when the ciphertext already ends in
  them the vault is unchanged, opens, and the test reports that tampering went unnoticed,
  although sealing and opening work. In every other case the verdict is what the openings of
  the changed vault and under the wrong phrase say.
\<close>

theorem self_test_false_alarm:
  assumes "kdf_works so" and "aead_works so" and "encryptVaultV2_ts so now self_request r = (Inr v, r')"
    and "get2 v ''content'' ''ciphertext'' = Inr (JStr c)"
  shows "(drop_last 3 c @ lit ''abc'' = c \<longrightarrow> fst (runSelfTest_ts so now r) = Inl (lit ''tamper test failed'')) \<and>
    (fst (runSelfTest_ts so now r) = Inr () \<longleftrightarrow>
      \<not> is_ok (decryptVaultV2_ts so (tampered_ts v c) test_phrase) \<and> \<not> is_ok (decryptVaultV2_ts so v (lit ''wrong phrase'')))"
proof -
  have p: "plain_text test_plain" unfolding test_plain_def by (rule plain_text_lit)
  have "l_plaintext self_request = Text test_plain" "l_password self_request = test_phrase" by (simp_all add: self_request_def)
  then have "decryptVaultV2_ts so v test_phrase = Inr test_plain" using locked_ts(1) [OF assms(1-3) _ p] by simp
  moreover have "drop_last 3 c @ lit ''abc'' = c \<Longrightarrow> tampered_ts v c = v"
    by (simp add: tampered_ts_def set2_same [OF assms(4)])
  ultimately show ?thesis by (simp add: self_test_ts_locked [OF assms])
qed

theorem kdf_limits_reach_library_witness:
  "\<exists>v so. decryptVaultV2_ts so v (lit ''pw'') = Inl (lit ''out of memory'') \<and> validateVaultSchemaV2 v \<noteq> Inr ()"
proof -
  let ?so = "toy_sodium\<lparr>crypto_pwhash := \<lambda>n pw salt ops mem. Inl (lit ''out of memory'')\<rparr>"
  let ?x = "\<lparr>r_salt = replicate 16 0, r_wrapNonce = replicate 24 0, r_contentNonce = replicate 24 0, r_vaultKey = replicate 32 0\<rparr>"
  have "check_randomness ?x = Inr ()" by (simp add: check_randomness_ok)
  moreover have "length (replicate 48 (0 :: byte)) = 48" by simp
  moreover have "[0 :: byte] \<noteq> []" "length [0 :: byte] \<le> MAX_CIPHERTEXT_BYTES" by (simp_all add: size_defs)
  moreover have "is_mode (JStr (lit ''self''))" by (simp add: is_mode_def)
  moreover have "(1000000000 :: int) > MAX_MEMLIMIT" by (simp add: limit_defs)
  moreover have "lit ''pw'' \<noteq> []" by simp
  moreover have "crypto_pwhash ?so 32 (utf8 (lit ''pw'')) (r_salt ?x) 1 1000000000 = Inl (lit ''out of memory'')" by simp
  ultimately show ?thesis using kdf_limits_reach_library by blast
qed

text \<open>A stream of random bytes whose vault key makes the toy cipher's tag end in 0x69 0xB7, encoded "abc".\<close>

definition unlucky :: rng where
  "unlucky = (\<lambda>i. if i = 76 then 0x69 else if i = 77 then 0xB7 else 0)"

lemma to_sextets_append: "length xs mod 3 = 0 \<Longrightarrow> to_sextets (xs @ ys) = to_sextets xs @ to_sextets ys"
  by (induction xs rule: to_sextets.induct) simp_all

lemma encode_abc: "length xs mod 3 = 0 \<Longrightarrow> b64urlEncode (xs @ [0x69, 0xB7]) = b64urlEncode xs @ lit ''abc''"
  by (simp add: b64urlEncode_eq to_sextets_append)
    (simp add: b64url_of_def std_char_def std_code_def lit_def unit_of_def)

theorem self_test_false_alarm_witness:
  "\<exists>v r'. encryptVaultV2_ts toy_sodium (lit ''now'') self_request unlucky = (Inr v, r') \<and>
     fst (runSelfTest_ts toy_sodium (lit ''now'') unlucky) = Inl (lit ''tamper test failed'')"
proof -
  note so = sodium_okD [OF toy_sodium_ok]
  let ?o = "cli_request self_request" and ?pt = "utf8 test_plain"
  have len: "length ?pt = 22" by (simp add: test_plain_def utf8_lit)
  then have pt: "pt_bytes (l_plaintext self_request) = ?pt" "?pt \<noteq> []" "length ?pt \<le> MAX_PLAINTEXT_BYTES" "l_password self_request \<noteq> []"
    by (auto simp: self_request_def pt_bytes_def size_defs test_phrase_def)
  have "encrypt_checks ?o = Inr ?pt" using cli_request_checks [of self_request] pt by simp
  moreover have "overrides_ok ?o" by (simp add: cli_request_def overrides_ok_def)
  ultimately obtain v r' where v: "encryptVaultV2 toy_sodium (lit ''now'') ?o unlucky = (Inr v, r')" by (rule lock_total [OF so(1,2)])
  obtain pt x k aad w ct where chk: "encrypt_checks ?o = Inr pt" and x: "draw_randomness ?o unlucky = (x, r')"
    and s: "sealed_as toy_sodium (lit ''now'') ?o pt x k aad w ct v" by (rule encrypt_Inr [OF v])
  have "r_vaultKey x = map (\<lambda>i. unlucky (64 + i)) [0..<32]"
    using x by (auto simp: draw_ts_eq draw_ts_def randombytes_buf_def Let_def size_defs)
  then have "pad_to 14 (r_vaultKey x) = replicate 12 0 @ [0x69, 0xB7]"
    by (simp add: pad_to_def unlucky_def numeral_eq_Suc)
  moreover have "pt = ?pt" using chk \<open>encrypt_checks ?o = Inr ?pt\<close> by simp
  ultimately have "ct = (?pt @ [sum_list ?pt, sum_list aad] @ replicate 12 0) @ [0x69, 0xB7]"
    using s by (simp add: sealed_as_def toy_sodium_def toy_tag_def)
  moreover have "length (?pt @ [sum_list ?pt, sum_list aad] @ replicate 12 0) mod 3 = 0" using len by simp
  ultimately have e: "b64urlEncode ct = b64urlEncode (?pt @ [sum_list ?pt, sum_list aad] @ replicate 12 0) @ lit ''abc''"
    by (simp only: encode_abc)
  have c: "get2 v ''content'' ''ciphertext'' = Inr (JStr (b64urlEncode ct))"
    using s by (simp add: sealed_as_def get2_object vault_literal_fields del: fld_JObj)
  have "drop_last 3 (b64urlEncode ct) @ lit ''abc'' = b64urlEncode ct" by (simp add: e drop_last_def)
  then show ?thesis using self_test_false_alarm [OF so(1,2) v [folded encrypt_ts_cli] c] v [folded encrypt_ts_cli] by blast
qed

end
