(* ===== verification/Proof_Lock_App.thy ===== *)
theory Proof_Lock_App
  imports Proof_Lock Machines
begin

text \<open>
  \<open>proof-lock-web/src/App.tsx\<close>: the page of the proof-lock tool as a state machine. The React
  state of \<open>ToolPage\<close> is a record, an event is a click, a keystroke, a chosen file, a change of
  the address or the settling of an \<open>await\<close>. A handler runs up to its first await on something
  outside (reading a file, the library, the clipboard) and is then a job with the values it
  closed over; the event \<open>Settled\<close> runs the rest. Leaving the tool unmounts it: a new visit
  starts afresh, and a job of an earlier visit only reaches the clipboard and the random stream.
  The static pages, help bubbles and colours are not
  modelled; nor is a failure of the rendering itself.
\<close>

section \<open>State\<close>

datatype Page = Start | Tool | Uses | Cli_page | Security

fun page_id :: "Page \<Rightarrow> jstr" where
  "page_id Start = lit ''start''"
| "page_id Tool = lit ''tool''"
| "page_id Uses = lit ''uses''"
| "page_id Cli_page = lit ''cli''"
| "page_id Security = lit ''security''"

definition pages :: "Page list" where "pages = [Start, Tool, Uses, Cli_page, Security]"

text \<open>\<open>hash.replace(/^#\/?/, "")\<close>, looked up in the list.\<close>

definition strip_hash :: "jstr \<Rightarrow> jstr" where
  "strip_hash h =
     (case h of c # t \<Rightarrow> if c = 0x23 then (case t of d # u \<Rightarrow> if d = 0x2F then u else t | [] \<Rightarrow> []) else h | [] \<Rightarrow> [])"

definition getPageFromHash :: "jstr \<Rightarrow> Page" where
  "getPageFromHash h = (case find (\<lambda>p. page_id p = strip_hash h) pages of Some p \<Rightarrow> p | None \<Rightarrow> Start)"

datatype status_kind = K_idle | K_ok | K_bad
datatype input_mode = Text_mode | File_mode

text \<open>A \<open>File\<close>: its contents come with the event that settles the read.\<close>

record picked =
  f_name :: jstr
  f_type :: jstr
  f_size :: nat

text \<open>What \<open>lockVault\<close> closed over.\<close>

record lock_form =
  lf_mode :: input_mode
  lf_plain :: jstr
  lf_file :: "picked option"
  lf_phrase :: jstr
  lf_preset :: PresetKey

datatype tool_job =
  Lock_job lock_form
| Open_job jsval jstr
| Copy_job jstr
| Load_job jstr
| Phrase_job

datatype answer = Fulfilled bytes | Rejected jstr

record app =
  page_shown :: Page
  plain :: jstr
  inputMode :: input_mode
  pickedFile :: "picked option"
  lockPhrase :: jstr
  openPhrase :: jstr
  preset :: PresetKey
  vaultText :: jstr
  status :: "status_kind \<times> jstr"
  decrypted :: jstr
  openedFile :: "jsval option"
  inspectText :: jstr
  dragging :: bool
  visit :: nat
  tool_jobs :: "(nat \<times> tool_job) list"
  tool_rng :: rng
  tool_clipboard :: "jstr option"
  saved :: "(jstr \<times> bytes) list"

section \<open>Templates and payloads\<close>

record template =
  t_title :: jstr
  t_text :: jstr

definition lines :: "string list \<Rightarrow> jstr" where "lines ls = join [10] (map lit ls)"

definition templates :: "template list" where
  "templates =
     [\<lparr>t_title = lit ''AI output'', t_text = lines [''AI OUTPUT RECORD'', ''Date:'', ''Tool/model:'', ''Prompt:'', ''Result:'',
        ''Edits made:'', ''Why this matters:'']\<rparr>,
      \<lparr>t_title = lit ''Client handoff'', t_text = lines [''CLIENT HANDOFF'', ''Client:'', ''Job/project:'', ''Delivered:'',
        ''Important terms:'', ''Next step:'', ''Locked by:'']\<rparr>,
      \<lparr>t_title = lit ''Private note'', t_text = lines [''PRIVATE NOTE'', ''Date:'', ''Subject:'', ''Details:'', ''Decision:'',
        ''Reminder:'']\<rparr>,
      \<lparr>t_title = lit ''Incident log'', t_text = lines [''INCIDENT LOG'', ''Date/time:'', ''People involved:'', ''What happened:'',
        ''Evidence:'', ''Actions taken:'', ''Notes:'']\<rparr>]"

definition defaultText :: jstr where "defaultText = t_text (templates ! 0)"

definition MIN_PHRASE_CHARS :: nat where "MIN_PHRASE_CHARS = 12"
definition MAX_FILE_BYTES :: nat where "MAX_FILE_BYTES = 180 * 1024"

datatype payload = File_payload jsval | Text_payload jsval

definition kind_is :: "jsval \<Rightarrow> string \<Rightarrow> bool" where
  "kind_is obj k = (fld obj ''kind'' = JStr (lit k))"

definition parsePayload :: "jstr \<Rightarrow> payload option" where
  "parsePayload text =
     (case JSON_parse text of
        None \<Rightarrow> None
      | Some obj \<Rightarrow>
          if is_object obj \<and> kind_is obj ''file'' \<and> is_str (fld obj ''bytes'') then Some (File_payload obj)
          else if is_object obj \<and> kind_is obj ''text'' \<and> is_str (fld obj ''text'') then Some (Text_payload obj)
          else None)"

definition file_payload :: "picked \<Rightarrow> bytes \<Rightarrow> jsval" where
  "file_payload f bs =
     JObj [(lit ''kind'', JStr (lit ''file'')), (lit ''name'', JStr (f_name f)),
           (lit ''type'', JStr (if f_type f = [] then lit ''application/octet-stream'' else f_type f)),
           (lit ''bytes'', JStr (b64urlEncode_ts bs))]"

text \<open>\<open>String(name || "qev-file").replace(/[^a-z0-9._-]/gi, "_").slice(0, 90)\<close>\<close>

definition name_char :: "16 word \<Rightarrow> bool" where
  "name_char u = (url_char u \<or> u = 0x2E)"

definition safeFileName :: "jsval \<Rightarrow> jstr res" where
  "safeFileName name = bind_res (to_str (val_or name (JStr (lit ''qev-file'')))) (\<lambda>s.
     Inr (take 90 (map (\<lambda>u. if name_char u then u else 0x5F) s)))"

definition vaultName :: "jstr \<Rightarrow> jstr" where
  "vaultName now = lit ''qev-'' @ take 10 now @ lit ''.vault''"

section \<open>Locking\<close>

definition set_status :: "status_kind \<Rightarrow> jstr \<Rightarrow> app \<Rightarrow> app" where
  "set_status k t s = s\<lparr>status := (k, t)\<rparr>"

definition suspend_tool :: "tool_job \<Rightarrow> app \<Rightarrow> app" where
  "suspend_tool j s = s\<lparr>tool_jobs := tool_jobs s @ [(visit s, j)]\<rparr>"

definition useTemplate :: "nat \<Rightarrow> app \<Rightarrow> app" where
  "useTemplate i s =
     (if i < length templates
      then set_status K_idle (t_title (templates ! i) @ lit '' template loaded.'')
             (s\<lparr>plain := t_text (templates ! i), decrypted := []\<rparr>)
      else s)"

definition msg_file_too_large :: jstr where
  "msg_file_too_large =
     lit ''File too large for the browser tool (max ~'' @ num_str (int (MAX_FILE_BYTES div 1024)) @
     lit '' KB). Use the CLI or the desktop app for bigger files.''"

definition buildPlaintext :: "lock_form \<Rightarrow> answer \<Rightarrow> jstr res" where
  "buildPlaintext form ans =
     (if lf_mode form = Text_mode
      then (case ans of Rejected m \<Rightarrow> Inl m | Fulfilled _ \<Rightarrow> Inr (lf_plain form))
      else (case lf_file form of
              None \<Rightarrow> Inl (lit ''Choose a file to lock first.'')
            | Some f \<Rightarrow>
                throw_if (f_size f > MAX_FILE_BYTES) msg_file_too_large
                (case ans of Rejected m \<Rightarrow> Inl m
                 | Fulfilled bs \<Rightarrow> Inr (text_or_empty (JSON_stringify (file_payload f bs))))))"

definition msg_longer_phrase :: jstr where
  "msg_longer_phrase =
     lit ''Use a longer passphrase (at least '' @ num_str (int MIN_PHRASE_CHARS) @ lit '' characters), or click Generate.''"

definition lockVault :: "app \<Rightarrow> app" where
  "lockVault s0 =
     (let s = s0\<lparr>decrypted := [], openedFile := None\<rparr>
      in if length (lockPhrase s) < MIN_PHRASE_CHARS then set_status K_bad msg_longer_phrase s
         else suspend_tool
           (Lock_job \<lparr>lf_mode = inputMode s, lf_plain = plain s, lf_file = pickedFile s, lf_phrase = lockPhrase s, lf_preset = preset s\<rparr>)
           (set_status K_idle
             (lit ''Locking locally ('' @ preset_label (LOCK_PRESETS_ts (preset s)) @ lit '' preset, '' @
              preset_hint (LOCK_PRESETS_ts (preset s)) @ lit '')...'') s))"

definition finish_lock :: "sodium \<Rightarrow> jstr \<Rightarrow> lock_form \<Rightarrow> answer \<Rightarrow> app \<Rightarrow> app" where
  "finish_lock so now form ans s =
     (case buildPlaintext form ans of
        Inl e \<Rightarrow> set_status K_bad e s
      | Inr pt \<Rightarrow>
          (case encryptVaultV2_ts so now
                  \<lparr>l_plaintext = Text pt, l_password = lf_phrase form, l_mode = Some Self, l_preset = Some (lf_preset form)\<rparr>
                  (tool_rng s) of
             (Inl e, r) \<Rightarrow> set_status K_bad e (s\<lparr>tool_rng := r\<rparr>)
           | (Inr created, r) \<Rightarrow>
               set_status K_ok (lit ''Vault created. Download it, copy it, or open it to verify.'')
                 (s\<lparr>tool_rng := r, vaultText := text_or_empty (JSON_stringify2 created), openPhrase := lf_phrase form\<rparr>)))"

section \<open>Opening\<close>

text \<open>\<open>if (!vaultText.trim()) throw ...; JSON.parse(vaultText)\<close>\<close>

definition parse_vault :: "string \<Rightarrow> app \<Rightarrow> jsval res" where
  "parse_vault m s = throw_if (trim (vaultText s) = []) (lit m) (parse_text (vaultText s))"

definition openVault :: "app \<Rightarrow> app" where
  "openVault s0 =
     (let s = (set_status K_idle (lit ''Opening locally...'') s0)\<lparr>decrypted := [], openedFile := None\<rparr>
      in case parse_vault ''Paste, drop, upload, or create a vault first.'' s of
           Inl e \<Rightarrow> set_status K_bad e s
         | Inr vault \<Rightarrow> suspend_tool (Open_job vault (openPhrase s)) s)"

text \<open>The message after a file was unlocked; \<open>toLocaleString\<close> is the argument \<open>locale\<close>.\<close>

definition file_opened :: "(nat \<Rightarrow> jstr) \<Rightarrow> jsval \<Rightarrow> jstr res" where
  "file_opened locale obj =
     bind_res (b64urlDecode_ts (str_of (fld obj ''bytes''))) (\<lambda>bs.
     bind_res (to_str (fld obj ''name'')) (\<lambda>name.
     Inr (lit (''Opened. File '' @ dquote) @ name @ lit (dquote @ '' ('') @ locale (length bs) @
          lit '' bytes) unlocked '' @ [0x2014] @ lit '' download it below.'')))"

definition show_text :: "(nat \<Rightarrow> jstr) \<Rightarrow> jstr \<Rightarrow> app \<Rightarrow> app" where
  "show_text locale text s =
     (case parsePayload text of
        Some (File_payload obj) \<Rightarrow>
          (case file_opened locale obj of
             Inl e \<Rightarrow> set_status K_bad e (s\<lparr>openedFile := Some obj\<rparr>)
           | Inr t \<Rightarrow> set_status K_ok t (s\<lparr>openedFile := Some obj\<rparr>))
      | Some (Text_payload obj) \<Rightarrow>
          set_status K_ok (lit ''Opened. Passphrase matched and the vault was not changed.'') (s\<lparr>decrypted := str_of (fld obj ''text'')\<rparr>)
      | None \<Rightarrow>
          set_status K_ok (lit ''Opened. Passphrase matched and the vault was not changed.'') (s\<lparr>decrypted := text\<rparr>))"

definition finish_open :: "sodium \<Rightarrow> (nat \<Rightarrow> jstr) \<Rightarrow> jsval \<Rightarrow> jstr \<Rightarrow> answer \<Rightarrow> app \<Rightarrow> app" where
  "finish_open so locale vault password ans s =
     (case (case ans of Rejected m \<Rightarrow> Inl m | Fulfilled _ \<Rightarrow> decryptVaultV2_ts so vault password) of
        Inl e \<Rightarrow> set_status K_bad e s
      | Inr text \<Rightarrow> show_text locale text s)"

text \<open>An exception of this click handler is not caught: nothing happens.\<close>

definition downloadOpenedFile :: "app \<Rightarrow> app" where
  "downloadOpenedFile s =
     (case openedFile s of
        None \<Rightarrow> s
      | Some f \<Rightarrow>
          (case bind_res (b64urlDecode_ts (str_of (fld f ''bytes''))) (\<lambda>bs. bind_res (safeFileName (fld f ''name'')) (\<lambda>n. Inr (n, bs))) of
             Inl _ \<Rightarrow> s
           | Inr d \<Rightarrow> s\<lparr>saved := saved s @ [d]\<rparr>))"

definition press_download_vault :: "jstr \<Rightarrow> app \<Rightarrow> app" where
  "press_download_vault now s = (if vaultText s = [] then s else s\<lparr>saved := saved s @ [(vaultName now, utf8 (vaultText s))]\<rparr>)"

section \<open>Inspecting, copying, tampering\<close>

definition pad_end :: "nat \<Rightarrow> jstr \<Rightarrow> jstr" where
  "pad_end n s = s @ replicate (n - length s) 0x20"

text \<open>A string as a number, \<open>None\<close> for \<open>NaN\<close>: decimal integers only.\<close>

definition text_number :: "jstr \<Rightarrow> int option" where
  "text_number s =
     (let t = trim s; digits = (\<lambda>u. u \<noteq> [] \<and> list_all is_digit u)
      in case t of
           [] \<Rightarrow> Some 0
         | c # u \<Rightarrow>
             if digits t then Some (int (fst (pdigits 0 t)))
             else if c = 0x2D \<and> digits u then Some (- int (fst (pdigits 0 u)))
             else if c = 0x2B \<and> digits u then Some (int (fst (pdigits 0 u)))
             else None)"

fun to_number :: "jsval \<Rightarrow> int option res" where
  "to_number JUndef = Inr None"
| "to_number JNull = Inr (Some 0)"
| "to_number (JBool b) = Inr (Some (if b then 1 else 0))"
| "to_number (JNum n) = Inr (Some n)"
| "to_number v = bind_res (to_str v) (\<lambda>s. Inr (text_number s))"

text \<open>\<open>(n / (1024 * 1024)).toFixed(0)\<close>: the nearest integer, halves away from zero.\<close>

definition mib_text :: "int option \<Rightarrow> jstr" where
  "mib_text n =
     (case n of
        None \<Rightarrow> lit ''NaN''
      | Some i \<Rightarrow> (if i < 0 then [45] else []) @ num_str ((2 * \<bar>i\<bar> + 1048576) div 2097152))"

definition kdf_row :: "jsval \<Rightarrow> jstr res" where
  "kdf_row k =
     (if \<not> truthy k then Inr (lit ''missing'') else
      bind_res (to_str (fld k ''algorithm'')) (\<lambda>a.
      bind_res (to_str (fld k ''opslimit'')) (\<lambda>o1.
      bind_res (to_number (fld k ''memlimit'')) (\<lambda>m.
      Inr (a @ lit '' '' @ [0xB7] @ lit '' ops='' @ o1 @ lit '' '' @ [0xB7] @ lit '' mem='' @ mib_text m @ lit '' MiB'')))))"

definition section_row :: "string \<Rightarrow> jsval \<Rightarrow> jstr res" where
  "section_row payload w =
     (if \<not> truthy w then Inr (lit ''missing'') else
      bind_res (to_str (fld w ''algorithm'')) (\<lambda>a.
      bind_res (to_str (val_or (fld w payload) (JStr []))) (\<lambda>p.
      Inr (a @ lit '' '' @ [0xB7] @ lit ('' '' @ payload @ '' '') @ num_str (int (length p)) @ lit '' chars''))))"

definition inspect_rows :: "jsval \<Rightarrow> jstr res" where
  "inspect_rows v =
     bind_res (get v (lit ''schema'')) (\<lambda>_.
     bind_res (kdf_row (fld v ''kdf'')) (\<lambda>k.
     bind_res (section_row ''wrapped_key'' (fld v ''wrap'')) (\<lambda>w.
     bind_res (section_row ''ciphertext'' (fld v ''content'')) (\<lambda>c.
     bind_res (res_list (map (\<lambda>n. to_str (fld v n)) [''schema'', ''version'', ''created_at'', ''mode''])) (\<lambda>heads.
     Inr (join [10] (map (\<lambda>(n, t). pad_end 11 (lit n) @ [0x20] @ t)
       (zip [''schema'', ''version'', ''created_at'', ''mode'', ''kdf'', ''wrap'', ''content''] (heads @ [k, w, c])))))))))"

definition inspectVault :: "app \<Rightarrow> app" where
  "inspectVault s =
     (if vaultText s = [] then s else
      case bind_res (parse_vault ''Create or load a vault first.'' s) inspect_rows of
        Inl e \<Rightarrow> set_status K_bad e (s\<lparr>inspectText := []\<rparr>)
      | Inr t \<Rightarrow> set_status K_idle (lit ''Inspected metadata without decrypting. No passphrase needed for this.'') (s\<lparr>inspectText := t\<rparr>))"

definition copyVault :: "app \<Rightarrow> app" where
  "copyVault s = (if vaultText s = [] then s else suspend_tool (Copy_job (vaultText s)) s)"

definition finish_copy :: "jstr \<Rightarrow> answer \<Rightarrow> app \<Rightarrow> app" where
  "finish_copy t ans s =
     (case ans of
        Rejected m \<Rightarrow> set_status K_bad m s
      | Fulfilled _ \<Rightarrow> set_status K_ok (lit ''Vault copied to clipboard.'') (s\<lparr>tool_clipboard := Some t\<rparr>))"

definition loadVaultFile :: "picked option \<Rightarrow> app \<Rightarrow> app" where
  "loadVaultFile f s = (case f of None \<Rightarrow> s | Some g \<Rightarrow> suspend_tool (Load_job (f_name g)) s)"

definition finish_load :: "jstr \<Rightarrow> answer \<Rightarrow> app \<Rightarrow> app" where
  "finish_load name ans s =
     (case ans of
        Rejected m \<Rightarrow> set_status K_bad m s
      | Fulfilled bs \<Rightarrow> set_status K_idle (name @ lit '' loaded. Enter its opening passphrase.'')
          (s\<lparr>vaultText := from_utf8_lossy bs, decrypted := []\<rparr>))"

text \<open>\<open>x.slice(0, -4) + "AAAA"\<close> on a string or an array; nothing else has \<open>slice\<close>.\<close>

definition sliced :: "jsval \<Rightarrow> jstr res" where
  "sliced x =
     (case x of
        JStr c \<Rightarrow> Inr (drop_last 4 c)
      | JArr vs \<Rightarrow> to_str (JArr (take (length vs - 4) vs))
      | _ \<Rightarrow> Inl (lit ''vault.content.ciphertext.slice is not a function''))"

definition tampered_vault :: "jsval \<Rightarrow> jsval res" where
  "tampered_vault v =
     bind_res (bind_res (get2 v ''content'' ''ciphertext'') sliced) (\<lambda>c.
     Inr (set2 v ''content'' ''ciphertext'' (JStr (c @ lit ''AAAA''))))"

definition tamperVault :: "app \<Rightarrow> app" where
  "tamperVault s =
     (if vaultText s = [] then s else
      case bind_res (parse_vault ''Create or load a vault first.'' s) tampered_vault of
        Inl e \<Rightarrow> set_status K_bad e s
      | Inr v \<Rightarrow> set_status K_bad (lit ''One part of the vault was changed. Opening should now fail.'')
          (s\<lparr>vaultText := text_or_empty (JSON_stringify2 v), decrypted := []\<rparr>))"

definition finish_phrase :: "sodium \<Rightarrow> answer \<Rightarrow> app \<Rightarrow> app" where
  "finish_phrase so ans s =
     (case ans of
        Rejected m \<Rightarrow> set_status K_bad m s
      | Fulfilled _ \<Rightarrow>
          (let (phrase, r) = generatePassphrase_ts so (tool_rng s)
           in set_status K_idle (lit ''New locking passphrase generated. Save it before downloading.'') (s\<lparr>tool_rng := r, lockPhrase := phrase\<rparr>)))"

section \<open>The machine\<close>

definition run_tool_job :: "sodium \<Rightarrow> jstr \<Rightarrow> (nat \<Rightarrow> jstr) \<Rightarrow> tool_job \<Rightarrow> answer \<Rightarrow> app \<Rightarrow> app" where
  "run_tool_job so now locale j ans s =
     (case j of
        Lock_job form \<Rightarrow> finish_lock so now form ans s
      | Open_job vault password \<Rightarrow> finish_open so locale vault password ans s
      | Copy_job t \<Rightarrow> finish_copy t ans s
      | Load_job name \<Rightarrow> finish_load name ans s
      | Phrase_job \<Rightarrow> finish_phrase so ans s)"

text \<open>A job of an unmounted visit changes no React state.\<close>

definition settle :: "sodium \<Rightarrow> jstr \<Rightarrow> (nat \<Rightarrow> jstr) \<Rightarrow> nat \<Rightarrow> answer \<Rightarrow> app \<Rightarrow> app" where
  "settle so now locale n ans s =
     (if n < length (tool_jobs s)
      then let (v, j) = tool_jobs s ! n;
               s1 = s\<lparr>tool_jobs := take n (tool_jobs s) @ drop (Suc n) (tool_jobs s)\<rparr>;
               s2 = run_tool_job so now locale j ans s1
           in if v = visit s \<and> page_shown s = Tool then s2
              else s1\<lparr>tool_clipboard := tool_clipboard s2, tool_rng := tool_rng s2\<rparr>
      else s)"

definition fresh_tool :: "app \<Rightarrow> app" where
  "fresh_tool s = s\<lparr>plain := defaultText, inputMode := Text_mode, pickedFile := None, lockPhrase := [], openPhrase := [],
     preset := Strong, vaultText := [], status := (K_idle, lit ''Ready.''), decrypted := [], openedFile := None, inspectText := [],
     dragging := False, visit := Suc (visit s)\<rparr>"

definition on_hash :: "jstr \<Rightarrow> app \<Rightarrow> app" where
  "on_hash h s =
     (let p = getPageFromHash h in if p = page_shown s then s else (fresh_tool s)\<lparr>page_shown := p\<rparr>)"

datatype app_event =
  Load_template nat | Type_plain jstr | Choose_mode input_mode | Pick_file "picked option" | Type_lock jstr | Type_open jstr
| Pick_preset PresetKey | Type_vault jstr | Press_lock | Press_open | Press_download jstr | Press_download_file | Press_inspect
| Press_copy | Press_tamper | Press_generate | Choose_vault "picked option" | Drop_vault "picked option" | Drag_over | Drag_leave

fun tool_event :: "app_event \<Rightarrow> app \<Rightarrow> app" where
  "tool_event (Load_template i) s = useTemplate i s"
| "tool_event (Type_plain t) s = (if inputMode s = Text_mode then s\<lparr>plain := t\<rparr> else s)"
| "tool_event (Choose_mode m) s = s\<lparr>inputMode := m\<rparr>"
| "tool_event (Pick_file f) s = (if inputMode s = File_mode then s\<lparr>pickedFile := f\<rparr> else s)"
| "tool_event (Type_lock t) s = s\<lparr>lockPhrase := t\<rparr>"
| "tool_event (Type_open t) s = s\<lparr>openPhrase := t\<rparr>"
| "tool_event (Pick_preset k) s = s\<lparr>preset := k\<rparr>"
| "tool_event (Type_vault t) s = s\<lparr>vaultText := t\<rparr>"
| "tool_event Press_lock s = lockVault s"
| "tool_event Press_open s = openVault s"
| "tool_event (Press_download now) s = press_download_vault now s"
| "tool_event Press_download_file s = downloadOpenedFile s"
| "tool_event Press_inspect s = inspectVault s"
| "tool_event Press_copy s = copyVault s"
| "tool_event Press_tamper s = tamperVault s"
| "tool_event Press_generate s = suspend_tool Phrase_job s"
| "tool_event (Choose_vault f) s = loadVaultFile f s"
| "tool_event (Drop_vault f) s = loadVaultFile f (s\<lparr>dragging := False\<rparr>)"
| "tool_event Drag_over s = s\<lparr>dragging := True\<rparr>"
| "tool_event Drag_leave s = s\<lparr>dragging := False\<rparr>"

datatype input = On_tool app_event | Settled jstr nat answer | Hash jstr

fun app_step :: "sodium \<Rightarrow> (nat \<Rightarrow> jstr) \<Rightarrow> input \<Rightarrow> app \<Rightarrow> app" where
  "app_step so locale (On_tool e) s = (if page_shown s = Tool then tool_event e s else s)"
| "app_step so locale (Settled now n ans) s = settle so now locale n ans s"
| "app_step so locale (Hash h) s = on_hash h s"

text \<open>The page as it loads; an empty address becomes \<open>#/start\<close>, the same page.\<close>

definition app_init :: "app \<Rightarrow> bool" where
  "app_init s = (\<exists>s0 h. s = (fresh_tool s0)\<lparr>page_shown := getPageFromHash h, tool_jobs := [], saved := [], tool_clipboard := None\<rparr>)"

lemma run_tool_job_simps [simp]:
  "run_tool_job so now locale (Lock_job form) ans s = finish_lock so now form ans s"
  "run_tool_job so now locale (Open_job vault password) ans s = finish_open so locale vault password ans s"
  "run_tool_job so now locale (Copy_job t) ans s = finish_copy t ans s"
  "run_tool_job so now locale (Load_job name) ans s = finish_load name ans s"
  "run_tool_job so now locale Phrase_job ans s = finish_phrase so ans s"
  by (simp_all add: run_tool_job_def)

section \<open>What locking leaves in the page\<close>

lemma trim_nonempty: "c \<in> set s \<Longrightarrow> \<not> js_space c \<Longrightarrow> trim s \<noteq> []"
proof -
  have keep: "c \<in> set (dropWhile js_space u)" if "c \<in> set u" "\<not> js_space c" for u
    using that by (induction u) auto
  assume "c \<in> set s" "\<not> js_space c"
  then have "c \<in> set (trim s)" by (simp add: trim_def keep)
  then show "trim s \<noteq> []" by force
qed

lemma stringify_object:
  assumes "wf_val (JObj kvs)"
  shows "JSON_parse (text_or_empty (JSON_stringify2 (JObj kvs))) = Some (JObj kvs)"
    and "trim (text_or_empty (JSON_stringify2 (JObj kvs))) \<noteq> []"
proof -
  let ?t = "text_or_empty (JSON_stringify2 (JObj kvs))"
  have t: "JSON_stringify2 (JObj kvs) = Some ?t" by (simp add: JSON_stringify2_def text_or_empty_def)
  show "JSON_parse ?t = Some (JObj kvs)" by (rule JSON_parse_stringify2 [OF assms t])
  have "0x7B \<in> set ?t" by (simp add: JSON_stringify2_def text_or_empty_def wrap_items_def)
  moreover have "\<not> js_space 0x7B" by (simp add: js_space_def)
  ultimately show "trim ?t \<noteq> []" by (rule trim_nonempty)
qed

lemma lock_ts_total:
  assumes "kdf_works so" and "aead_works so" and "l_password req \<noteq> []" and "pt_bytes (l_plaintext req) \<noteq> []"
    and "length (pt_bytes (l_plaintext req)) \<le> MAX_PLAINTEXT_BYTES"
  obtains v r' where "encryptVaultV2_ts so now req r = (Inr v, r')"
proof -
  have "overrides_ok (cli_request req)" by (simp add: cli_request_def overrides_ok_def)
  with lock_total [OF assms(1,2) cli_request_checks [OF assms(3-5)]]
  obtain v r' where "encryptVaultV2 so now (cli_request req) r = (Inr v, r')" by blast
  then show thesis using that by (simp add: encrypt_ts_cli)
qed

definition lock_form_request :: "lock_form \<Rightarrow> jstr \<Rightarrow> lock_request" where
  "lock_form_request form pt =
     \<lparr>l_plaintext = Text pt, l_password = lf_phrase form, l_mode = Some Self, l_preset = Some (lf_preset form)\<rparr>"

lemma finish_lock_ok:
  assumes so: "kdf_works so" "aead_works so" and b: "buildPlaintext form ans = Inr pt"
    and pt: "plain_text pt" "pt \<noteq> []" "length (utf8 pt) \<le> MAX_PLAINTEXT_BYTES" and pw: "lf_phrase form \<noteq> []"
  obtains v r' where "decryptVaultV2_ts so v (lf_phrase form) = Inr pt"
    and "finish_lock so now form ans s = set_status K_ok (lit ''Vault created. Download it, copy it, or open it to verify.'')
        (s\<lparr>tool_rng := r', vaultText := text_or_empty (JSON_stringify2 v), openPhrase := lf_phrase form\<rparr>)"
    and "parse_vault m (s\<lparr>tool_rng := r', vaultText := text_or_empty (JSON_stringify2 v), openPhrase := lf_phrase form\<rparr>) = Inr v"
proof -
  let ?req = "lock_form_request form pt"
  have r: "l_password ?req = lf_phrase form" "l_plaintext ?req = Text pt" "pt_bytes (l_plaintext ?req) = utf8 pt"
    by (simp_all add: lock_form_request_def pt_bytes_def)
  obtain v r' where e: "encryptVaultV2_ts so now ?req (tool_rng s) = (Inr v, r')"
    by (rule lock_ts_total [OF so, of ?req]) (use r pw pt in auto)
  note l = locked_ts [OF so e r(2) pt(1)]
  obtain kvs where "v = JObj kvs" using wf_vault_sections(1) [OF l(3)] l(6) by (cases v) (auto simp: is_object_def get2_def)
  then have p: "JSON_parse (text_or_empty (JSON_stringify2 v)) = Some v" "trim (text_or_empty (JSON_stringify2 v)) \<noteq> []"
    using stringify_object l(5) by simp_all
  show thesis
  proof (rule that)
    show "decryptVaultV2_ts so v (lf_phrase form) = Inr pt" using l(1) r by simp
    show "finish_lock so now form ans s = set_status K_ok (lit ''Vault created. Download it, copy it, or open it to verify.'')
        (s\<lparr>tool_rng := r', vaultText := text_or_empty (JSON_stringify2 v), openPhrase := lf_phrase form\<rparr>)"
      using e by (simp add: finish_lock_def b lock_form_request_def)
    show "parse_vault m (s\<lparr>tool_rng := r', vaultText := text_or_empty (JSON_stringify2 v), openPhrase := lf_phrase form\<rparr>) = Inr v"
      using p by (simp add: parse_vault_def parse_text_def)
  qed
qed

text \<open>Pressing Lock, the end of the work it starts, pressing Open and the end of that.\<close>

definition lock_and_open :: "jstr \<Rightarrow> answer \<Rightarrow> input list" where
  "lock_and_open now ans = [On_tool Press_lock, Settled now 0 ans, On_tool Press_open, Settled now 0 (Fulfilled [])]"

definition form_of :: "app \<Rightarrow> lock_form" where
  "form_of s = \<lparr>lf_mode = inputMode s, lf_plain = plain s, lf_file = pickedFile s, lf_phrase = lockPhrase s, lf_preset = preset s\<rparr>"

definition locking_text :: "app \<Rightarrow> jstr" where
  "locking_text s = lit ''Locking locally ('' @ preset_label (LOCK_PRESETS_ts (preset s)) @ lit '' preset, '' @
     preset_hint (LOCK_PRESETS_ts (preset s)) @ lit '')...''"

lemma press_lock_long:
  "page_shown s = Tool \<Longrightarrow> tool_jobs s = [] \<Longrightarrow> MIN_PHRASE_CHARS \<le> length (lockPhrase s) \<Longrightarrow>
   app_step so locale (On_tool Press_lock) s =
     s\<lparr>decrypted := [], openedFile := None, status := (K_idle, locking_text s), tool_jobs := [(visit s, Lock_job (form_of s))]\<rparr>"
  by (simp add: lockVault_def Let_def set_status_def suspend_tool_def form_of_def locking_text_def)

lemma settle_only_job:
  "tool_jobs s = [(visit s, j)] \<Longrightarrow> page_shown s = Tool \<Longrightarrow>
   app_step so locale (Settled now 0 ans) s = run_tool_job so now locale j ans (s\<lparr>tool_jobs := []\<rparr>)"
  by (simp add: settle_def)

lemma lock_and_open_shows:
  assumes so: "kdf_works so" "aead_works so" and s: "page_shown s = Tool" "tool_jobs s = []"
    and ph: "MIN_PHRASE_CHARS \<le> length (lockPhrase s)" and b: "buildPlaintext (form_of s) ans = Inr pt"
    and pt: "plain_text pt" "pt \<noteq> []" "length (utf8 pt) \<le> MAX_PLAINTEXT_BYTES"
  obtains u where "fold (app_step so locale) (lock_and_open now ans) s = show_text locale pt u"
    and "page_shown u = Tool" and "tool_jobs u = []" and "decrypted u = []" and "openedFile u = None" and "saved u = saved s"
    and "lockPhrase u = lockPhrase s" 
    and "\<exists>v. parse_vault ''Paste, drop, upload, or create a vault first.'' u = Inr v \<and> decryptVaultV2_ts so v (openPhrase u) = Inr pt"
proof -
  note s1 = press_lock_long [OF s ph, of so "locale"]
  let ?w = "s\<lparr>decrypted := [], openedFile := None, status := (K_idle, locking_text s), tool_jobs := []\<rparr>"
  have pw: "lf_phrase (form_of s) \<noteq> []" using ph by (auto simp: form_of_def MIN_PHRASE_CHARS_def)
  obtain v r' where d: "decryptVaultV2_ts so v (lf_phrase (form_of s)) = Inr pt"
    and f: "finish_lock so now (form_of s) ans ?w = set_status K_ok (lit ''Vault created. Download it, copy it, or open it to verify.'')
        (?w\<lparr>tool_rng := r', vaultText := text_or_empty (JSON_stringify2 v), openPhrase := lf_phrase (form_of s)\<rparr>)"
    and p: "parse_vault ''Paste, drop, upload, or create a vault first.'' (?w\<lparr>tool_rng := r', vaultText := text_or_empty (JSON_stringify2 v), openPhrase := lf_phrase (form_of s)\<rparr>) = Inr v"
    by (rule finish_lock_ok [OF so b pt pw])
  let ?s2 = "finish_lock so now (form_of s) ans ?w"
  let ?u = "?s2\<lparr>status := (K_idle, lit ''Opening locally...''), tool_jobs := []\<rparr>"
  have s2: "app_step so locale (Settled now 0 ans) (app_step so locale (On_tool Press_lock) s) = ?s2"
    unfolding s1 by (subst settle_only_job [where j = "Lock_job (form_of s)"]) (use s in \<open>simp_all\<close>)
  have s3: "app_step so locale (On_tool Press_open) ?s2 = ?u\<lparr>tool_jobs := [(visit s, Open_job v (lf_phrase (form_of s)))]\<rparr>"
    using p s by (simp add: f set_status_def openVault_def Let_def suspend_tool_def parse_vault_def)
  have "app_step so locale (Settled now 0 (Fulfilled [])) (?u\<lparr>tool_jobs := [(visit s, Open_job v (lf_phrase (form_of s)))]\<rparr>) =
      show_text locale pt ?u"
    by (subst settle_only_job [where j = "Open_job v (lf_phrase (form_of s))"]) (use s d in \<open>simp_all add: f set_status_def finish_open_def\<close>)
  then have "fold (app_step so locale) (lock_and_open now ans) s = show_text locale pt ?u"
    by (simp add: lock_and_open_def s2 s3 del: app_step.simps)
  moreover have "parse_vault ''Paste, drop, upload, or create a vault first.'' ?u = Inr v" "openPhrase ?u = lf_phrase (form_of s)"
    using p by (simp_all add: f set_status_def parse_vault_def)
  ultimately show thesis using d by (intro that [of ?u]) (use s in \<open>simp_all add: f set_status_def\<close>)
qed

section \<open>The payload of a file\<close>

lemma utf8_append_wf: "wf16 s \<Longrightarrow> utf8 (s @ t) = utf8 s @ utf8 t"
  by (simp add: utf8_def code_points_append_wf enc_cps_def)

lemma utf8_ascii_length: "ascii s \<Longrightarrow> length (utf8 s) = length s" "ascii s \<Longrightarrow> wf16 s"
proof -
  assume a: "ascii s"
  then show "wf16 s" by (intro wf16_ascii) (auto simp: ascii_def)
  show "length (utf8 s) = length s" using a by (simp add: utf8_ascii)
qed

lemma ascii_simps [simp]:
  "ascii [] = True" "ascii (u # s) \<longleftrightarrow> unat u < 128 \<and> ascii s" "ascii (s @ t) \<longleftrightarrow> ascii s \<and> ascii t"
  by (auto simp: ascii_def)

lemma ascii_b64: "ascii (b64urlEncode bs)"
proof -
  have "\<forall>u \<in> set (b64urlEncode bs). url_char u"
    using to_sextets_lt_64 [of "map unat bs"] by (auto simp: b64urlEncode_eq b64url_of_props unat8_lt)
  then show ?thesis by (auto simp: ascii_def dest!: bspec url_char_uri)
qed

lemma quote_plain: "list_all url_char s \<Longrightarrow> quote_body s = s"
proof (induction s rule: quote_body.induct)
  have e: "url_char u \<Longrightarrow> esc1 u = [u]" for u
    by (auto simp: url_char_def esc1_def is_surrogate_def is_lead_def is_trail_def Let_def word_unat_eq_iff)
  { case 2 then show ?case by (simp add: e) }
  { case (3 u v us)
    then show ?case by (simp add: e) }
qed simp

lemma quote_body_length: "length (quote_body s) \<le> 6 * length s"
proof (induction s rule: quote_body.induct)
  have e: "length (esc1 u) \<le> 6" for u by (simp add: esc1_def hex4_def)
  { case (2 u) then show ?case using e [of u] by simp }
  { case (3 u v us) then show ?case using e [of u] by auto }
qed simp

lemma utf8_quote_length: "length (utf8 (quote s)) \<le> 18 * length s + 6"
  using utf8_length [of "quote s"] quote_body_length [of s] by (simp add: quote_def)

lemma url_lits: "list_all url_char (lit ''kind'')" "list_all url_char (lit ''file'')" "list_all url_char (lit ''name'')"
  "list_all url_char (lit ''type'')" "list_all url_char (lit ''bytes'')"
  by (simp_all add: lit_def url_char_def Let_def)

lemma payload_text:
  "JSON_stringify (file_payload f bs) = Some
     ([0x7B, 0x22] @ lit ''kind'' @ [0x22, 0x3A, 0x22] @ lit ''file'' @ [0x22, 0x2C, 0x22] @ lit ''name'' @ [0x22, 0x3A] @
      quote (f_name f) @ [0x2C, 0x22] @ lit ''type'' @ [0x22, 0x3A] @
      quote (if f_type f = [] then lit ''application/octet-stream'' else f_type f) @
      [0x2C, 0x22] @ lit ''bytes'' @ [0x22, 0x3A, 0x22] @ b64urlEncode bs @ [0x22, 0x7D])"
proof -
  have "list_all url_char (b64urlEncode bs)"
    using to_sextets_lt_64 [of "map unat bs"] by (auto simp: b64urlEncode_eq b64url_of_props unat8_lt list_all_iff)
  then have b: "quote (b64urlEncode bs) = 0x22 # b64urlEncode bs @ [0x22]" by (simp add: quote_def quote_plain)
  have q: "quote (lit ''kind'') = 0x22 # lit ''kind'' @ [0x22]" "quote (lit ''file'') = 0x22 # lit ''file'' @ [0x22]"
    "quote (lit ''name'') = 0x22 # lit ''name'' @ [0x22]" "quote (lit ''type'') = 0x22 # lit ''type'' @ [0x22]"
    "quote (lit ''bytes'') = 0x22 # lit ''bytes'' @ [0x22]"
    unfolding quote_def by (simp_all only: quote_plain [OF url_lits(1)] quote_plain [OF url_lits(2)]
        quote_plain [OF url_lits(3)] quote_plain [OF url_lits(4)] quote_plain [OF url_lits(5)])
  show ?thesis
    by (simp add: JSON_stringify_def file_payload_def wrap_items_def member_str_def b q)
qed

end
