(* ===== verification/Proof_Lock_Use.thy ===== *)
theory Proof_Lock_Use
  imports Proof_Lock_App Toy_Library
begin

text \<open>
  What a visit to the proof-lock tool keeps and what it shows: a text or a file that was locked
  in the page comes back from Open, the page shows as opened only what the library decrypted of what
  it was asked to open, and a lock uses the form as it stood when Lock was pressed.
\<close>

section \<open>A file as a payload\<close>

lemma wf_file_payload: "wf_val (file_payload f bs)"
proof -
  have "distinct [lit ''kind'', lit ''name'', lit ''type'', lit ''bytes'']" by simp
  then show ?thesis by (simp add: file_payload_def)
qed

lemma file_payload_parses:
  assumes "JSON_stringify (file_payload f bs) = Some t"
  shows "parsePayload t = Some (File_payload (file_payload f bs))"
proof -
  have p: "JSON_parse t = Some (file_payload f bs)" by (rule JSON_parse_stringify [OF wf_file_payload assms])
  have "fld (file_payload f bs) ''kind'' = JStr (lit ''file'')" "fld (file_payload f bs) ''bytes'' = JStr (b64urlEncode bs)"
    "is_object (file_payload f bs)"
    by (simp_all add: file_payload_def fld_def is_object_def)
  then show ?thesis by (simp add: parsePayload_def p kind_is_def)
qed

lemma file_payload_plain:
  assumes "JSON_stringify (file_payload f bs) = Some t"
  shows "plain_text t" and "t \<noteq> []"
proof -
  have t: "\<exists>u. t = 0x7B # u" using assms unfolding payload_text by auto
  have "text_of [] [] (file_payload f bs) = t" using assms by (simp add: JSON_stringify_def text_of_def)
  then have "wf16 t" using wf16_text_of [OF wf_file_payload, of f bs] by simp
  with t show "plain_text t" "t \<noteq> []" by (auto simp: plain_text_def)
qed

lemma file_payload_fits:
  assumes t: "JSON_stringify (file_payload f bs) = Some t"
    and b: "length bs \<le> MAX_FILE_BYTES" "length (f_name f) \<le> 255" "length (f_type f) \<le> 255"
  shows "length (utf8 t) \<le> MAX_PLAINTEXT_BYTES"
proof -
  let ?ty = "if f_type f = [] then lit ''application/octet-stream'' else f_type f"
  let ?a = "[0x7B, 0x22] @ lit ''kind'' @ [0x22, 0x3A, 0x22] @ lit ''file'' @ [0x22, 0x2C, 0x22] @ lit ''name'' @ [0x22, 0x3A]"
    and ?b = "[0x2C, 0x22] @ lit ''type'' @ [0x22, 0x3A]" and ?c = "[0x2C, 0x22] @ lit ''bytes'' @ [0x22, 0x3A, 0x22] @ b64urlEncode bs @ [0x22, 0x7D]"
  have asc: "ascii ?a" "ascii ?b" "ascii ?c"
    by (simp_all add: ascii_b64 lit_def)
  have "t = ?a @ quote (f_name f) @ ?b @ quote ?ty @ ?c" using t unfolding payload_text by simp
  then have "utf8 t = utf8 ?a @ utf8 (quote (f_name f)) @ utf8 ?b @ utf8 (quote ?ty) @ utf8 ?c"
    using utf8_ascii_length(2) [OF asc(1)] utf8_ascii_length(2) [OF asc(2)] by (simp only: utf8_append_wf wf16_quote)
  moreover have "length (utf8 ?a) = 22" "length (utf8 ?b) = 8" "length (utf8 ?c) = 12 + length (b64urlEncode bs)"
    unfolding utf8_ascii_length(1) [OF asc(1)] utf8_ascii_length(1) [OF asc(2)] utf8_ascii_length(1) [OF asc(3)]
    by (simp_all add: lit_def)
  moreover have "length (b64urlEncode bs) \<le> 245760" using b(1) by (simp add: length_b64urlEncode MAX_FILE_BYTES_def)
  moreover have "length (utf8 (quote (f_name f))) \<le> 4596" using utf8_quote_length [of "f_name f"] b(2) by simp
  moreover have "length (utf8 (quote ?ty)) \<le> 4596"
  proof -
    have "length ?ty \<le> 255" using b(3) by (simp add: lit_def)
    then show ?thesis using utf8_quote_length [of ?ty] by linarith
  qed
  ultimately show ?thesis by (simp add: MAX_PLAINTEXT_BYTES_def)
qed

section \<open>What is shown was decrypted\<close>

text \<open>
  What a visit of the page asked for: at each press of Open the parsed vault with the phrase in the
  box, at each press of Lock that is not turned away the form as it stood.
\<close>

definition asked_open :: "sodium \<Rightarrow> (nat \<Rightarrow> jstr) \<Rightarrow> app \<Rightarrow> input list \<Rightarrow> (jsval \<times> jstr) set" where
  "asked_open so locale s0 es =
     {(v, pw). \<exists>es1 es2. es = es1 @ On_tool Press_open # es2 \<and> page_shown (fold (app_step so locale) es1 s0) = Tool \<and>
        parse_text (vaultText (fold (app_step so locale) es1 s0)) = Inr v \<and> pw = openPhrase (fold (app_step so locale) es1 s0)}"

definition asked_lock :: "sodium \<Rightarrow> (nat \<Rightarrow> jstr) \<Rightarrow> app \<Rightarrow> input list \<Rightarrow> lock_form set" where
  "asked_lock so locale s0 es =
     {form. MIN_PHRASE_CHARS \<le> length (lf_phrase form) \<and>
        (\<exists>es1 es2. es = es1 @ On_tool Press_lock # es2 \<and> page_shown (fold (app_step so locale) es1 s0) = Tool \<and>
           form = form_of (fold (app_step so locale) es1 s0))}"

definition job_asked :: "(jsval \<times> jstr) set \<Rightarrow> lock_form set \<Rightarrow> tool_job \<Rightarrow> bool" where
  "job_asked opens locks j = (case j of Lock_job form \<Rightarrow> form \<in> locks | Open_job v pw \<Rightarrow> (v, pw) \<in> opens | _ \<Rightarrow> True)"

definition text_opened :: "sodium \<Rightarrow> (jsval \<times> jstr) set \<Rightarrow> jstr \<Rightarrow> bool" where
  "text_opened so opens d =
     (\<exists>v pw t. (v, pw) \<in> opens \<and> decryptVaultV2_ts so v pw = Inr t \<and>
        (case parsePayload t of None \<Rightarrow> d = t | Some (Text_payload obj) \<Rightarrow> d = str_of (fld obj ''text'') | Some (File_payload _) \<Rightarrow> False))"

definition file_opened_by :: "sodium \<Rightarrow> (jsval \<times> jstr) set \<Rightarrow> jsval \<Rightarrow> bool" where
  "file_opened_by so opens obj =
     (\<exists>v pw t. (v, pw) \<in> opens \<and> decryptVaultV2_ts so v pw = Inr t \<and> parsePayload t = Some (File_payload obj))"

definition tool_ok :: "sodium \<Rightarrow> (jsval \<times> jstr) set \<Rightarrow> lock_form set \<Rightarrow> app \<Rightarrow> bool" where
  "tool_ok so opens locks s =
     ((decrypted s = [] \<or> text_opened so opens (decrypted s)) \<and> (\<forall>obj. openedFile s = Some obj \<longrightarrow> file_opened_by so opens obj) \<and>
      (\<forall>(i, j) \<in> set (tool_jobs s). job_asked opens locks j))"

lemma tool_ok_mono:
  assumes "tool_ok so opens locks s" and "opens \<subseteq> opens'" and "locks \<subseteq> locks'"
  shows "tool_ok so opens' locks' s"
proof -
  have t: "text_opened so opens' d" if "text_opened so opens d" for d
    using that assms(2) unfolding text_opened_def by blast
  have f: "file_opened_by so opens' obj" if "file_opened_by so opens obj" for obj
    using that assms(2) unfolding file_opened_by_def by blast
  have j: "job_asked opens' locks' j" if "job_asked opens locks j" for j
    using that assms(2,3) by (auto simp: job_asked_def split: tool_job.splits)
  show ?thesis using assms(1) t f j unfolding tool_ok_def by fastforce
qed

lemma tool_ok_weaken:
  assumes "tool_ok so ho hl s" and "decrypted s' = decrypted s \<or> decrypted s' = []" and "openedFile s' = openedFile s \<or> openedFile s' = None"
    and "set (tool_jobs s') \<subseteq> set (tool_jobs s)"
  shows "tool_ok so ho hl s'"
  using assms unfolding tool_ok_def by fastforce

lemma tool_ok_frame [simp]:
  "tool_ok so ho hl (s\<lparr>plain := x0\<rparr>) = tool_ok so ho hl s" "tool_ok so ho hl (s\<lparr>inputMode := x1\<rparr>) = tool_ok so ho hl s"
  "tool_ok so ho hl (s\<lparr>pickedFile := x2\<rparr>) = tool_ok so ho hl s" "tool_ok so ho hl (s\<lparr>lockPhrase := x3\<rparr>) = tool_ok so ho hl s"
  "tool_ok so ho hl (s\<lparr>openPhrase := x4\<rparr>) = tool_ok so ho hl s" "tool_ok so ho hl (s\<lparr>preset := x5\<rparr>) = tool_ok so ho hl s"
  "tool_ok so ho hl (s\<lparr>vaultText := x6\<rparr>) = tool_ok so ho hl s" "tool_ok so ho hl (s\<lparr>saved := x7\<rparr>) = tool_ok so ho hl s"
  "tool_ok so ho hl (s\<lparr>inspectText := x8\<rparr>) = tool_ok so ho hl s" "tool_ok so ho hl (s\<lparr>status := x9\<rparr>) = tool_ok so ho hl s"
  "tool_ok so ho hl (s\<lparr>dragging := x10\<rparr>) = tool_ok so ho hl s" "tool_ok so ho hl (s\<lparr>tool_rng := x11\<rparr>) = tool_ok so ho hl s"
  "tool_ok so ho hl (s\<lparr>tool_clipboard := x12\<rparr>) = tool_ok so ho hl s" "tool_ok so ho hl (s\<lparr>visit := x13\<rparr>) = tool_ok so ho hl s"
  "tool_ok so ho hl (s\<lparr>page_shown := x14\<rparr>) = tool_ok so ho hl s"
  by (simp_all add: tool_ok_def)

lemma tool_ok_clear [intro]: "tool_ok so ho hl s \<Longrightarrow> tool_ok so ho hl (s\<lparr>decrypted := []\<rparr>)" "tool_ok so ho hl s \<Longrightarrow> tool_ok so ho hl (s\<lparr>openedFile := None\<rparr>)"
  by (auto intro: tool_ok_weaken)

lemma tool_ok_suspend: "tool_ok so ho hl s \<Longrightarrow> job_asked ho hl j \<Longrightarrow> tool_ok so ho hl (suspend_tool j s)"
  by (simp add: tool_ok_def suspend_tool_def)

lemma tool_ok_status [simp]: "tool_ok so ho hl (set_status k t s) = tool_ok so ho hl s"
  by (simp add: tool_ok_def set_status_def)

lemma job_asked_simps [simp]:
  "job_asked ho hl (Open_job v pw) \<longleftrightarrow> (v, pw) \<in> ho" "job_asked ho hl (Lock_job form) \<longleftrightarrow> form \<in> hl"
  "job_asked ho hl (Copy_job t)" "job_asked ho hl (Load_job n)" "job_asked ho hl Phrase_job"
  by (simp_all add: job_asked_def)

lemma tool_ok_lock:
  assumes "tool_ok so ho hl s" and "MIN_PHRASE_CHARS \<le> length (lockPhrase s) \<Longrightarrow> form_of s \<in> hl"
  shows "tool_ok so ho hl (lockVault s)"
  using assms(2) unfolding lockVault_def Let_def
  by (simp add: tool_ok_suspend tool_ok_weaken [OF assms(1)] not_less form_of_def)

lemma tool_ok_open:
  assumes "tool_ok so ho hl s" and "\<And>v. parse_text (vaultText s) = Inr v \<Longrightarrow> (v, openPhrase s) \<in> ho"
  shows "tool_ok so ho hl (openVault s)"
proof -
  have p: "parse_text (vaultText s) = Inr v" if "parse_vault m s' = Inr v" "vaultText s' = vaultText s" for m s' v
    using that by (auto simp: parse_vault_def throw_if_def split: if_splits)
  show ?thesis unfolding openVault_def Let_def
    using assms(2) p by (auto simp: tool_ok_weaken [OF assms(1)] set_status_def split: sum.split intro!: tool_ok_suspend)
qed

lemma tool_ok_event:
  assumes "e = Press_lock \<Longrightarrow> MIN_PHRASE_CHARS \<le> length (lockPhrase s) \<Longrightarrow> form_of s \<in> hl"
    and "\<And>v. e = Press_open \<Longrightarrow> parse_text (vaultText s) = Inr v \<Longrightarrow> (v, openPhrase s) \<in> ho"
  shows "tool_ok so ho hl s \<Longrightarrow> tool_ok so ho hl (tool_event e s)"
proof (cases e)
  case Press_lock
  then show "tool_ok so ho hl s \<Longrightarrow> ?thesis" using assms(1) by (simp add: tool_ok_lock)
next
  case Press_open
  then show "tool_ok so ho hl s \<Longrightarrow> ?thesis" using assms(2) by (simp add: tool_ok_open)
next
  case Press_copy
  then show "tool_ok so ho hl s \<Longrightarrow> ?thesis" by (simp add: copyVault_def tool_ok_suspend)
next
  case Press_generate
  then show "tool_ok so ho hl s \<Longrightarrow> ?thesis" by (simp add: tool_ok_suspend)
next
  case (Choose_vault f)
  then show "tool_ok so ho hl s \<Longrightarrow> ?thesis" by (simp add: loadVaultFile_def tool_ok_suspend split: option.split)
next
  case (Drop_vault f)
  then show "tool_ok so ho hl s \<Longrightarrow> ?thesis"
    by (simp add: loadVaultFile_def tool_ok_suspend tool_ok_weaken [of so ho hl s] split: option.split)
next
  case (Load_template i)
  then show "tool_ok so ho hl s \<Longrightarrow> ?thesis" by (auto simp: useTemplate_def)
next
  case Press_tamper
  then show "tool_ok so ho hl s \<Longrightarrow> ?thesis" by (auto simp: tamperVault_def split: sum.split)
qed (simp_all add: press_download_vault_def downloadOpenedFile_def inspectVault_def split: option.split sum.split)

lemma tool_ok_show:
  assumes s: "tool_ok so ho hl s" and a: "(v, pw) \<in> ho" and d: "decryptVaultV2_ts so v pw = Inr t"
  shows "tool_ok so ho hl (show_text locale t s)"
proof -
  show ?thesis
  proof (cases "parsePayload t")
    case None
    then have "text_opened so ho t" using a d unfolding text_opened_def by force
    then show ?thesis using s None by (simp add: show_text_def tool_ok_def set_status_def)
  next
    case (Some p)
    show ?thesis
    proof (cases p)
      case (File_payload obj)
      then have "file_opened_by so ho obj" using a d Some unfolding file_opened_by_def by blast
      then show ?thesis using s Some File_payload by (simp add: show_text_def tool_ok_def set_status_def split: sum.split)
    next
      case (Text_payload obj)
      then have "text_opened so ho (str_of (fld obj ''text''))" using a d Some unfolding text_opened_def by force
      then show ?thesis using s Some Text_payload by (simp add: show_text_def tool_ok_def set_status_def)
    qed
  qed
qed

lemma tool_ok_job:
  assumes "job_asked ho hl j"
  shows "tool_ok so ho hl s \<Longrightarrow> tool_ok so ho hl (run_tool_job so now locale j ans s)"
proof (cases j)
  case (Open_job v pw)
  then show "tool_ok so ho hl s \<Longrightarrow> ?thesis" using assms by (auto simp: finish_open_def tool_ok_show split: answer.split sum.split)
next
  case (Lock_job form)
  then show "tool_ok so ho hl s \<Longrightarrow> ?thesis"
    by (auto simp: finish_lock_def tool_ok_weaken [of so ho hl s] split: sum.split prod.split)
next
  case Phrase_job
  then show "tool_ok so ho hl s \<Longrightarrow> ?thesis"
    by (auto simp: finish_phrase_def tool_ok_weaken [of so ho hl s] split: answer.split prod.split)
next
  case (Load_job name)
  then show "tool_ok so ho hl s \<Longrightarrow> ?thesis" by (auto simp: finish_load_def split: answer.split)
qed (simp add: finish_copy_def split: answer.split)

lemma tool_ok_step:
  assumes s: "tool_ok so ho hl s"
    and "i = On_tool Press_lock \<Longrightarrow> page_shown s = Tool \<Longrightarrow> MIN_PHRASE_CHARS \<le> length (lockPhrase s) \<Longrightarrow> form_of s \<in> hl"
    and "\<And>v. i = On_tool Press_open \<Longrightarrow> page_shown s = Tool \<Longrightarrow> parse_text (vaultText s) = Inr v \<Longrightarrow> (v, openPhrase s) \<in> ho"
  shows "tool_ok so ho hl (app_step so locale i s)"
proof (cases i)
  case (Settled now n ans)
  let ?s = "s\<lparr>tool_jobs := take n (tool_jobs s) @ drop (Suc n) (tool_jobs s)\<rparr>"
  have "set (tool_jobs ?s) \<subseteq> set (tool_jobs s)" by (simp add: set_remove_nth del: set_append)
  then have q: "tool_ok so ho hl ?s" by (intro tool_ok_weaken [OF s]) simp_all
  have q': "tool_ok so ho hl (?s\<lparr>tool_clipboard := c, tool_rng := r\<rparr>)" for c r by (rule tool_ok_weaken [OF q]) simp_all
  have j: "job_asked ho hl j" if "n < length (tool_jobs s)" "tool_jobs s ! n = (k, j)" for k j
    using s nth_mem [OF that(1)] that(2) by (auto simp: tool_ok_def)
  show ?thesis
    using s tool_ok_job [OF j q] q' by (auto simp: Settled settle_def Let_def split: prod.split)
next
  case (Hash h)
  then show ?thesis using s by (auto simp: on_hash_def fresh_tool_def Let_def intro: tool_ok_weaken)
next
  case (On_tool e)
  then show ?thesis using assms by (simp add: tool_ok_event)
qed

lemma asked_more:
  "asked_open so locale s0 es \<subseteq> asked_open so locale s0 (es @ [i])" "asked_lock so locale s0 es \<subseteq> asked_lock so locale s0 (es @ [i])"
  by (fastforce simp: asked_open_def asked_lock_def)+

lemma asked_now:
  "page_shown (fold (app_step so locale) es s0) = Tool \<Longrightarrow> parse_text (vaultText (fold (app_step so locale) es s0)) = Inr v \<Longrightarrow>
   (v, openPhrase (fold (app_step so locale) es s0)) \<in> asked_open so locale s0 (es @ [On_tool Press_open])"
  "page_shown (fold (app_step so locale) es s0) = Tool \<Longrightarrow>
   MIN_PHRASE_CHARS \<le> length (lockPhrase (fold (app_step so locale) es s0)) \<Longrightarrow>
   form_of (fold (app_step so locale) es s0) \<in> asked_lock so locale s0 (es @ [On_tool Press_lock])"
  by (auto simp: asked_open_def asked_lock_def form_of_def)

lemma tool_ok_run:
  assumes "app_init s0"
  shows "tool_ok so (asked_open so locale s0 es) (asked_lock so locale s0 es) (fold (app_step so locale) es s0)"
proof (induction es rule: rev_induct)
  case Nil
  then show ?case using assms by (auto simp: app_init_def fresh_tool_def tool_ok_def)
next
  case (snoc i es)
  let ?s = "fold (app_step so locale) es s0"
  have "tool_ok so (asked_open so locale s0 (es @ [i])) (asked_lock so locale s0 (es @ [i])) (app_step so locale i ?s)"
    by (rule tool_ok_step [OF tool_ok_mono [OF snoc asked_more]]) (use asked_now in blast)+
  then show ?case by simp
qed

lemma settled_lock:
  assumes so: "kdf_works so" "aead_works so" and n: "n < length (tool_jobs s)" "tool_jobs s ! n = (i, Lock_job form)"
    and c: "vaultText (app_step so locale (Settled now n ans) s) \<noteq> vaultText s"
  shows "\<exists>pt. buildPlaintext form ans = Inr pt \<and> openPhrase (app_step so locale (Settled now n ans) s) = lf_phrase form \<and>
    (plain_text pt \<longrightarrow> (\<exists>v. JSON_parse (vaultText (app_step so locale (Settled now n ans) s)) = Some v \<and>
       decryptVaultV2_ts so v (lf_phrase form) = Inr pt))"
proof -
  let ?s = "s\<lparr>tool_jobs := take n (tool_jobs s) @ drop (Suc n) (tool_jobs s)\<rparr>"
  have e: "app_step so locale (Settled now n ans) s = finish_lock so now form ans ?s"
    using n c by (simp add: settle_def Let_def split: if_splits)
  obtain pt v r where b: "buildPlaintext form ans = Inr pt"
    and l: "encryptVaultV2_ts so now (lock_form_request form pt) (tool_rng s) = (Inr v, r)"
    using c unfolding e by (auto simp: finish_lock_def set_status_def lock_form_request_def split: sum.splits prod.splits)
  have f: "vaultText (finish_lock so now form ans ?s) = text_or_empty (JSON_stringify2 v)"
    "openPhrase (finish_lock so now form ans ?s) = lf_phrase form"
    using l by (simp_all add: finish_lock_def b set_status_def lock_form_request_def)
  have "JSON_parse (text_or_empty (JSON_stringify2 v)) = Some v \<and> decryptVaultV2_ts so v (lf_phrase form) = Inr pt" if "plain_text pt"
  proof -
    have r: "l_plaintext (lock_form_request form pt) = Text pt" "l_password (lock_form_request form pt) = lf_phrase form"
      by (simp_all add: lock_form_request_def)
    note t = locked_ts [OF so l r(1) that]
    obtain kvs where "v = JObj kvs" using wf_vault_sections(1) [OF t(3)] t(6) by (cases v) (auto simp: is_object_def get2_def)
    then show ?thesis using stringify_object(1) t(5) t(1) r(2) by simp
  qed
  then show ?thesis unfolding e f using b by blast
qed

section \<open>Properties\<close>

text \<open>
  Text round trip through the proof-lock page. On an idle tool page with a phrase of at least
  twelve characters and a text of at most 256 KiB, Lock and then Open show the text again,
  unless the text itself reads as a payload of the page: then Open shows the inner text, or
  offers the inner file and shows nothing.
\<close>

theorem tool_text_roundtrip:
  assumes "kdf_works so" and "aead_works so" and "page_shown s = Tool" and "tool_jobs s = []" and "inputMode s = Text_mode"
    and "MIN_PHRASE_CHARS \<le> length (lockPhrase s)" and "plain_text (plain s)" and "plain s \<noteq> []"
    and "length (utf8 (plain s)) \<le> MAX_PLAINTEXT_BYTES"
  shows "let s' = fold (app_step so locale) (lock_and_open now (Fulfilled [])) s
    in (case parsePayload (plain s) of
          None \<Rightarrow> decrypted s' = plain s \<and> openedFile s' = None
        | Some (Text_payload obj) \<Rightarrow> decrypted s' = str_of (fld obj ''text'') \<and> openedFile s' = None
        | Some (File_payload obj) \<Rightarrow> decrypted s' = [] \<and> openedFile s' = Some obj)"
proof -
  have b: "buildPlaintext (form_of s) (Fulfilled []) = Inr (plain s)" by (simp add: buildPlaintext_def form_of_def assms(5))
  obtain u where "fold (app_step so locale) (lock_and_open now (Fulfilled [])) s = show_text locale (plain s) u"
    and "decrypted u = []" and "openedFile u = None"
    by (rule lock_and_open_shows [OF assms(1-4,6) b assms(7-9)])
  then show ?thesis by (auto simp: Let_def show_text_def set_status_def split: option.split payload.split sum.split)
qed

text \<open>
  C33: File round trip through the proof-lock page. A file within the limit of the page, with a
  name and a type of at most 255 units, always fits the vault's limit together with its name and
  type; after Lock and Open the page offers it, and the download saves exactly its bytes, under
  its name with every other character than a letter, a digit, dot, dash or underscore replaced.
\<close>

theorem tool_file_roundtrip:
  assumes "kdf_works so" and "aead_works so" and "page_shown s = Tool" and "tool_jobs s = []" and "inputMode s = File_mode"
    and "MIN_PHRASE_CHARS \<le> length (lockPhrase s)" and "pickedFile s = Some f" and "f_size f = length bs" and "f_size f \<le> MAX_FILE_BYTES"
    and "length (f_name f) \<le> 255" and "length (f_type f) \<le> 255" and "f_name f \<noteq> []"
  shows "let s' = fold (app_step so locale) (lock_and_open now (Fulfilled bs)) s
    in openedFile s' = Some (file_payload f bs) \<and> decrypted s' = [] \<and>
       saved (app_step so locale (On_tool Press_download_file) s') =
         saved s @ [(take 90 (map (\<lambda>u. if name_char u then u else 0x5F) (f_name f)), bs)]"
proof -
  obtain t where t: "JSON_stringify (file_payload f bs) = Some t" unfolding payload_text by blast
  have b: "buildPlaintext (form_of s) (Fulfilled bs) = Inr t"
    using assms(5,7,9) t by (simp add: buildPlaintext_def form_of_def throw_if_def text_or_empty_def)
  note p = file_payload_plain [OF t] file_payload_fits [OF t assms(9) [unfolded assms(8)] assms(10,11)]
  obtain u where u: "fold (app_step so locale) (lock_and_open now (Fulfilled bs)) s = show_text locale t u"
    "page_shown u = Tool" "decrypted u = []" "saved u = saved s"
    by (rule lock_and_open_shows [OF assms(1-4,6) b p])
  have f: "fld (file_payload f bs) ''bytes'' = JStr (b64urlEncode bs)" "fld (file_payload f bs) ''name'' = JStr (f_name f)"
    by (simp_all add: file_payload_def fld_def)
  show ?thesis
    using u f assms(12) by (simp add: Let_def show_text_def file_payload_parses [OF t] set_status_def downloadOpenedFile_def
        decode_ts_encode safeFileName_def val_or_def split: sum.split)
qed

text \<open>
  C34: The proof-lock tool shows only what it was asked to open, and locks as it was asked. Whatever
  the user does while jobs are running, the opened text is what the library returned for a vault
  and a phrase that stood in the boxes at a press of Open (or the text inside it, when it is a text
  payload), and so is the file offered for download. A lock that puts its vault in the page was
  asked for by a press of Lock with a phrase of at least twelve characters, and the vault opens, to
  the contents of the form at that press, with the phrase of that press, which is also put in the
  opening box; changes made in the meantime do not count.
\<close>

theorem tool_shows_only_opened:
  assumes "kdf_works so" and "aead_works so" and "app_init s0" and s: "s = fold (app_step so locale) es s0"
  shows "(decrypted s = [] \<or> text_opened so (asked_open so locale s0 es) (decrypted s)) \<and>
    (\<forall>obj. openedFile s = Some obj \<longrightarrow> file_opened_by so (asked_open so locale s0 es) obj) \<and>
    (n < length (tool_jobs s) \<and> tool_jobs s ! n = (i, Lock_job form) \<and>
       vaultText (app_step so locale (Settled now n ans) s) \<noteq> vaultText s \<longrightarrow>
     form \<in> asked_lock so locale s0 es \<and> MIN_PHRASE_CHARS \<le> length (lf_phrase form) \<and>
     openPhrase (app_step so locale (Settled now n ans) s) = lf_phrase form \<and>
     (\<exists>pt. buildPlaintext form ans = Inr pt \<and>
       (plain_text pt \<longrightarrow> (\<exists>v. JSON_parse (vaultText (app_step so locale (Settled now n ans) s)) = Some v \<and>
          decryptVaultV2_ts so v (lf_phrase form) = Inr pt))))"
proof -
  note ok = tool_ok_run [OF assms(3), of so "locale" es, folded s, unfolded tool_ok_def]
  have f: "form \<in> asked_lock so locale s0 es" if "n < length (tool_jobs s)" "tool_jobs s ! n = (i, Lock_job form)"
    using ok nth_mem [OF that(1)] that(2) by auto
  then have "MIN_PHRASE_CHARS \<le> length (lf_phrase form)" if "n < length (tool_jobs s)" "tool_jobs s ! n = (i, Lock_job form)"
    using that by (auto simp: asked_lock_def)
  with f ok settled_lock [OF assms(1,2)] show ?thesis by blast
qed

lemma utf8_hi: "length (utf8 (lit ''hi'')) = 2"
  by (subst utf8_ascii_length(1)) (simp_all add: lit_def unit_of_def)

text \<open>The text of the example is no JSON.\<close>

lemma hi_is_text: "parsePayload (lit ''hi'') = None"
proof -
  have six: "Suc 5 = 6" by simp
  have "pvalue (Suc 5) [104, 105] = None"
    unfolding pvalue.simps(2) by (simp add: skip_ws_def is_ws_def pnum_def pnat_def is_digit_def del: pvalue.simps)
  then have "pvalue 6 [104, 105] = None" unfolding six .
  then have "JSON_parse (lit ''hi'') = None" unfolding JSON_parse_def lit_def unit_of_def by (simp del: pvalue.simps)
  then show ?thesis by (simp only: parsePayload_def option.case)
qed

definition tool_page :: app where
  "tool_page =
     \<lparr>page_shown = Tool, plain = lit ''hi'', inputMode = Text_mode, pickedFile = Some \<lparr>f_name = lit ''a b.txt'', f_type = [], f_size = 2\<rparr>,
      lockPhrase = lit ''correct horse battery'', openPhrase = [], preset = Quick, vaultText = [], status = (K_idle, []), decrypted = [],
      openedFile = None, inspectText = [], dragging = False, visit = 1, tool_jobs = [], tool_rng = (\<lambda>_. 7), tool_clipboard = None, saved = []\<rparr>"

lemma tool_page_phrase: "MIN_PHRASE_CHARS \<le> length (lockPhrase tool_page)"
  by (simp add: tool_page_def MIN_PHRASE_CHARS_def lit_def)

theorem tool_text_roundtrip_witness:
  "decrypted (fold (app_step toy_sodium (\<lambda>_. [])) (lock_and_open [] (Fulfilled [])) tool_page) = lit ''hi''"
proof -
  note so = sodium_okD [OF toy_sodium_ok]
  have p: "plain tool_page = lit ''hi''" "page_shown tool_page = Tool" "tool_jobs tool_page = []" "inputMode tool_page = Text_mode"
    by (simp_all add: tool_page_def)
  have t: "plain_text (plain tool_page)" "plain tool_page \<noteq> []" "length (utf8 (plain tool_page)) \<le> MAX_PLAINTEXT_BYTES"
    unfolding p(1) using sample_plain by (simp_all add: utf8_hi MAX_PLAINTEXT_BYTES_def)
  show ?thesis
    using tool_text_roundtrip [OF so(1,2) p(2,3,4) tool_page_phrase t, of "\<lambda>_. []" "[]"] unfolding p(1) hi_is_text Let_def by simp
qed

theorem tool_file_roundtrip_witness:
  "\<exists>s. decrypted s = [] \<and> saved (app_step toy_sodium (\<lambda>_. []) (On_tool Press_download_file) s) = [(lit ''a_b.txt'', [104, 105])]"
proof -
  note so = sodium_okD [OF toy_sodium_ok]
  let ?s = "tool_page\<lparr>inputMode := File_mode\<rparr>" and ?f = "\<lparr>f_name = lit ''a b.txt'', f_type = [], f_size = 2\<rparr>"
  have p: "page_shown ?s = Tool" "tool_jobs ?s = []" "inputMode ?s = File_mode" "pickedFile ?s = Some ?f" "saved ?s = []"
    by (simp_all add: tool_page_def)
  have l: "MIN_PHRASE_CHARS \<le> length (lockPhrase ?s)" using tool_page_phrase by simp
  have f: "f_size ?f = length [104, 105 :: byte]" "f_size ?f \<le> MAX_FILE_BYTES" "length (f_name ?f) \<le> 255" "length (f_type ?f) \<le> 255" "f_name ?f \<noteq> []"
    by (simp_all add: MAX_FILE_BYTES_def lit_def)
  have n: "take 90 (map (\<lambda>u. if name_char u then u else 0x5F) (f_name ?f)) = lit ''a_b.txt''"
    by (simp add: lit_def unit_of_def name_char_def url_char_def)
  show ?thesis
    using tool_file_roundtrip [OF so(1,2) p(1-3) l p(4) f, of "\<lambda>_. []" "[]"] unfolding Let_def n p(5) append_Nil by blast
qed

text \<open>
  A visit in which a text is locked and opened while a second lock is pending: the text is shown.
\<close>

definition busy_visit :: "input list" where
  "busy_visit =
     [On_tool (Type_plain (lit ''hi'')), On_tool (Type_lock (lit ''correct horse battery''))] @ lock_and_open [] (Fulfilled []) @
     [On_tool Press_lock, On_tool Press_open, Settled [] 1 (Fulfilled [])]"

definition first_page :: app where
  "first_page = (fresh_tool tool_page)\<lparr>page_shown := Tool, tool_jobs := [], saved := [], tool_clipboard := None\<rparr>"

lemma first_page_init: "app_init first_page"
proof -
  have "getPageFromHash (lit ''#/tool'') = Tool" by (simp add: getPageFromHash_def strip_hash_def lit_def unit_of_def pages_def)
  then show ?thesis unfolding app_init_def first_page_def by metis
qed

lemma busy_visit_shows:
  "decrypted (fold (app_step toy_sodium (\<lambda>_. [])) busy_visit first_page) = lit ''hi''"
proof -
  note so = sodium_okD [OF toy_sodium_ok]
  let ?step = "app_step toy_sodium (\<lambda>_. [])" and ?pw = "lit ''correct horse battery''"
  let ?s = "first_page\<lparr>plain := lit ''hi'', lockPhrase := ?pw\<rparr>"
  have p: "page_shown ?s = Tool" "tool_jobs ?s = []" "MIN_PHRASE_CHARS \<le> length (lockPhrase ?s)"
    "buildPlaintext (form_of ?s) (Fulfilled []) = Inr (lit ''hi'')"
    using tool_page_phrase by (simp_all add: first_page_def fresh_tool_def buildPlaintext_def form_of_def tool_page_def)
  have t: "plain_text (lit ''hi'')" "lit ''hi'' \<noteq> []" "length (utf8 (lit ''hi'')) \<le> MAX_PLAINTEXT_BYTES"
    using sample_plain by (simp_all add: utf8_hi MAX_PLAINTEXT_BYTES_def)
  obtain u v where u: "fold ?step (lock_and_open [] (Fulfilled [])) ?s = show_text (\<lambda>_. []) (lit ''hi'') u"
    "page_shown u = Tool" "tool_jobs u = []" "lockPhrase u = ?pw"
    and v: "parse_vault ''Paste, drop, upload, or create a vault first.'' u = Inr v" "decryptVaultV2_ts toy_sodium v (openPhrase u) = Inr (lit ''hi'')"
    by (rule lock_and_open_shows [OF so(1,2) p t]) auto
  let ?u = "show_text (\<lambda>_. []) (lit ''hi'') u"
  have f: "page_shown ?u = Tool" "tool_jobs ?u = []" "lockPhrase ?u = ?pw" "vaultText ?u = vaultText u" "openPhrase ?u = openPhrase u"
    using u by (simp_all add: show_text_def hi_is_text set_status_def)
  have l: "MIN_PHRASE_CHARS \<le> length (lockPhrase ?u)" using p(3) f(3) by simp
  have start: "?step (On_tool (Type_lock ?pw)) (?step (On_tool (Type_plain (lit ''hi''))) first_page) = ?s"
    by (simp add: first_page_def fresh_tool_def)
  let ?a = "?u\<lparr>decrypted := [], openedFile := None, status := (K_idle, locking_text ?u), tool_jobs := [(visit u, Lock_job (form_of ?u))]\<rparr>"
  have a: "?step (On_tool Press_lock) ?u = ?a"
    using press_lock_long [OF f(1,2) l] by (simp add: show_text_def hi_is_text set_status_def)
  let ?b = "?a\<lparr>status := (K_idle, lit ''Opening locally...''), tool_jobs := tool_jobs ?a @ [(visit u, Open_job v (openPhrase u))]\<rparr>"
  have b: "?step (On_tool Press_open) ?a = ?b"
    using v(1) f u(2) by (simp add: openVault_def Let_def suspend_tool_def parse_vault_def set_status_def show_text_def hi_is_text)
  have "decrypted (?step (Settled [] 1 (Fulfilled [])) ?b) = lit ''hi''"
    using v(2) u(2) by (simp add: settle_def finish_open_def set_status_def show_text_def hi_is_text)
  then show ?thesis by (simp only: busy_visit_def fold_append fold.simps comp_apply id_apply start u(1) a b)
qed

theorem tool_shows_only_opened_witness:
  "decrypted (fold (app_step toy_sodium (\<lambda>_. [])) busy_visit first_page) = lit ''hi'' \<and>
   text_opened toy_sodium (asked_open toy_sodium (\<lambda>_. []) first_page busy_visit) (lit ''hi'')"
proof -
  note so = sodium_okD [OF toy_sodium_ok]
  show ?thesis
    using tool_shows_only_opened [OF so(1,2) first_page_init refl, of "\<lambda>_. []" busy_visit] busy_visit_shows by (simp add: lit_def)
qed

end
