(* ===== verification/Pairing.thy ===== *)
theory Pairing
  imports Machines Web_Text Fetch
begin

text \<open>
  \<open>tauri-app/ui/pairing.js\<close>, pairing two devices: showing a QR code and polling for the peer that
  scanned it, and scanning or pasting an invite, previewing and accepting it. The native commands
  (\<open>invoke\<close>), the camera and the timers are outside: a call is remembered with what its
  continuation closed over, and the event \<open>Answered\<close> runs the continuation with the value or the
  text of the rejection. The phrase dialog is the chat tab's; asking for it and its answer are
  events here.
\<close>

section \<open>Utilities\<close>

definition replace_all :: "16 word \<Rightarrow> jstr \<Rightarrow> jstr \<Rightarrow> jstr" where
  "replace_all c t s = concat (map (\<lambda>u. if u = c then t else [u]) s)"

definition escape_text :: "jstr \<Rightarrow> jstr" where
  "escape_text s =
     replace_all 0x27 (lit ''&#39;'') (replace_all 0x22 (lit ''&quot;'') (replace_all 0x3E (lit ''&gt;'')
       (replace_all 0x3C (lit ''&lt;'') (replace_all 0x26 (lit ''&amp;'') s))))"

text \<open>\<open>escapeHtml(v)\<close>: \<open>String(v || "")\<close>, escaped.\<close>

definition escapeHtml_pair :: "jsval \<Rightarrow> jstr res" where
  "escapeHtml_pair v = bind_res (to_str (val_or v (JStr []))) (\<lambda>s. Inr (escape_text s))"

definition escaped_field :: "jsval \<Rightarrow> string \<Rightarrow> jstr res" where
  "escaped_field v k = bind_res (get v (lit k)) escapeHtml_pair"

text \<open>\<open>(list || []).map((p) => p.id)\<close>\<close>

definition peer_list :: "jsval \<Rightarrow> jsval list res" where
  "peer_list v =
     (if truthy v then (case v of JArr vs \<Rightarrow> Inr vs | _ \<Rightarrow> Inl (lit ''map is not a function'')) else Inr [])"

definition peer_ids :: "jsval \<Rightarrow> jsval list res" where
  "peer_ids v = bind_res (peer_list v) (\<lambda>ps. res_list (map (\<lambda>p. get p (lit ''id'')) ps))"

section \<open>State\<close>

text \<open>One press of Show QR: the variables its timer and callbacks share.\<close>

record poll_session =
  peersBefore :: "jsval list"
  pollCount :: nat
  polling :: bool

datatype origin = From_qr | From_scan

datatype pair_call =
  Ask_before nat
| Ask_show nat
| Ask_poll nat
| Ask_safety jsval jsval
| Ask_camera
| Ask_play nat
| Ask_preview jstr
| Ask_accept
| Phrase_timer origin jsval jsval

record pairing =
  showName :: jstr
  showDevice :: jstr
  show_disabled :: bool
  show_label :: jstr
  qrStatus :: "jstr \<times> string"
  qrSvg :: jsval
  qrText :: jsval
  qrBox_hidden :: bool
  sessions :: "poll_session list"
  scanStream :: "nat option"
  cameras :: "nat list"
  streams_made :: nat
  scan_label :: jstr
  frames :: "nat list"
  scanAnimFrame :: "nat option"
  frames_made :: nat
  scanPaste :: jstr
  scanStatus :: "jstr \<times> string"
  pendingPreview :: "(jstr \<times> jsval) option"
  preview_hidden :: bool
  preview_html :: "jstr list"
  accept_hidden :: bool
  accept_disabled :: bool
  result_html :: "jstr list"
  calls :: "pair_call list"
  accepted :: "(jstr \<times> jstr \<times> jstr) list"
  dialogs :: "(origin \<times> jsval \<times> jsval) list"
  chat_phrases :: "(jsval \<times> jstr) list"

definition ask :: "pair_call \<Rightarrow> pairing \<Rightarrow> pairing" where
  "ask c s = s\<lparr>calls := calls s @ [c]\<rparr>"

definition qr_status :: "jstr \<Rightarrow> string \<Rightarrow> pairing \<Rightarrow> pairing" where
  "qr_status t k s = s\<lparr>qrStatus := (t, k)\<rparr>"

definition scan_status :: "jstr \<Rightarrow> string \<Rightarrow> pairing \<Rightarrow> pairing" where
  "scan_status t k s = s\<lparr>scanStatus := (t, k)\<rparr>"

definition press_tab :: "pairing \<Rightarrow> pairing" where
  "press_tab s = scan_status [] [] (qr_status [] [] s)"

section \<open>Showing a QR code\<close>

definition press_show :: "pairing \<Rightarrow> pairing" where
  "press_show s0 =
     (if show_disabled s0 then s0 else
      let s = s0\<lparr>show_label := lit ''Working...''\<rparr>; name = trim (showName s); device = trim (showDevice s)
      in if name = [] \<or> device = []
         then (qr_status (lit ''Enter a name and a device label first.'') ''err'' s)\<lparr>show_label := lit ''Show QR''\<rparr>
         else let k = length (sessions s)
              in ask (Ask_show k) (ask (Ask_before k)
                   ((qr_status (lit ''Starting listener and generating QR...'') ''info'' (s\<lparr>show_disabled := True\<rparr>))
                     \<lparr>sessions := sessions s @ [\<lparr>peersBefore = [], pollCount = 0, polling = False\<rparr>]\<rparr>)))"

definition map_session :: "nat \<Rightarrow> (poll_session \<Rightarrow> poll_session) \<Rightarrow> pairing \<Rightarrow> pairing" where
  "map_session k f s = (if k < length (sessions s) then s\<lparr>sessions := (sessions s)[k := f (sessions s ! k)]\<rparr> else s)"

text \<open>The snapshot of the peers; a failure is swallowed.\<close>

definition got_before :: "nat \<Rightarrow> jsval res \<Rightarrow> pairing \<Rightarrow> pairing" where
  "got_before k r s =
     (case bind_res r peer_ids of
        Inl _ \<Rightarrow> s
      | Inr ids \<Rightarrow> map_session k (\<lambda>p. p\<lparr>peersBefore := ids\<rparr>) s)"

definition show_ready :: "pairing \<Rightarrow> pairing" where
  "show_ready s = s\<lparr>show_disabled := False, show_label := lit ''Show QR''\<rparr>"

definition got_show :: "nat \<Rightarrow> jsval res \<Rightarrow> pairing \<Rightarrow> pairing" where
  "got_show k r s =
     (case bind_res r (\<lambda>v. bind_res (get v (lit ''qr_svg'')) (\<lambda>svg. bind_res (get v (lit ''qr_text'')) (\<lambda>t. Inr (svg, t)))) of
        Inl e \<Rightarrow> show_ready (qr_status e ''err'' s)
      | Inr (svg, t) \<Rightarrow>
          map_session k (\<lambda>p. p\<lparr>polling := True\<rparr>)
            (qr_status (lit ''Waiting for the other device to scan this QR...'') ''ok''
              (s\<lparr>qrSvg := svg, qrText := t, qrBox_hidden := False\<rparr>)))"

text \<open>The interval timer of a session; 150 polls, then it gives up.\<close>

definition poll_timer :: "nat \<Rightarrow> pairing \<Rightarrow> pairing" where
  "poll_timer k s =
     (if k < length (sessions s) \<and> polling (sessions s ! k)
      then let s1 = map_session k (\<lambda>p. p\<lparr>pollCount := Suc (pollCount p)\<rparr>) s
           in if Suc (pollCount (sessions s ! k)) > 150
              then qr_status (lit ''Timed out waiting. Try again.'') ''err'' (map_session k (\<lambda>p. p\<lparr>polling := False\<rparr>) s1)
              else ask (Ask_poll k) s1
      else s)"

text \<open>The first id that was not there before, with the first peer that has it.\<close>

definition new_peer :: "jsval list \<Rightarrow> jsval \<Rightarrow> (jsval \<times> jsval) option res" where
  "new_peer before v =
     bind_res (peer_ids v) (\<lambda>current.
     bind_res (peer_list v) (\<lambda>ps.
     Inr (case find (\<lambda>i. i \<notin> set before) current of
            None \<Rightarrow> None
          | Some i \<Rightarrow> Some (i, the (find (\<lambda>p. get p (lit ''id'') = Inr i) ps)))))"

definition got_poll :: "nat \<Rightarrow> jsval res \<Rightarrow> pairing \<Rightarrow> pairing" where
  "got_poll k r s =
     (case bind_res r (new_peer (if k < length (sessions s) then peersBefore (sessions s ! k) else [])) of
        Inr (Some (i, peer)) \<Rightarrow>
          show_ready (ask (Ask_safety i peer) (map_session k (\<lambda>p. p\<lparr>polling := False\<rparr>) s))
      | _ \<Rightarrow> s)"

definition nl2 :: jstr where "nl2 = [10, 10]"

definition paired_text :: "jstr \<Rightarrow> jstr \<Rightarrow> jstr" where
  "paired_text name sn =
     lit ''Paired with '' @ name @ lit ''!'' @ nl2 @ lit ''Safety number:'' @ [10] @ sn @ nl2 @
     lit ''Compare this number with '' @ name @ lit '' in person.'' @ [10] @
     lit ''If it matches, set your shared chat phrase next.''"

text \<open>An exception in the continuation ends in the same \<open>catch\<close> as a failed call.\<close>

definition got_safety :: "jsval \<Rightarrow> jsval \<Rightarrow> jsval res \<Rightarrow> pairing \<Rightarrow> pairing" where
  "got_safety i peer r s0 =
     (let s = s0\<lparr>qrBox_hidden := True\<rparr>
      in case bind_res r (\<lambda>sn. bind_res (escaped_field peer ''peer_name'') (\<lambda>name.
                bind_res (to_str sn) (\<lambda>t. Inr (paired_text name t)))) of
           Inr t \<Rightarrow> ask (Phrase_timer From_qr i (fld peer ''peer_name'')) (qr_status t ''ok'' s)
         | Inl _ \<Rightarrow>
             (case escaped_field peer ''peer_name'' of
                Inr name \<Rightarrow> qr_status (lit ''Paired with '' @ name @ lit ''! Go to Chat to start messaging.'') ''ok'' s
              | Inl _ \<Rightarrow> s))"

section \<open>The phrase of a new peer\<close>

definition phrase_timer :: "origin \<Rightarrow> jsval \<Rightarrow> jsval \<Rightarrow> pairing \<Rightarrow> pairing" where
  "phrase_timer o1 i name s = s\<lparr>dialogs := dialogs s @ [(o1, i, name)]\<rparr>"

definition phrase_given :: "nat \<Rightarrow> jstr \<Rightarrow> pairing \<Rightarrow> pairing" where
  "phrase_given n phrase s0 =
     (if n < length (dialogs s0) then
        let (o1, i, name) = dialogs s0 ! n;
            s = s0\<lparr>dialogs := take n (dialogs s0) @ drop (Suc n) (dialogs s0)\<rparr>
        in if phrase = [] then s
           else let s1 = s\<lparr>chat_phrases := chat_phrases s @ [(i, phrase)]\<rparr>
                in (case o1 of
                      From_qr \<Rightarrow>
                        (case escapeHtml_pair name of
                           Inl _ \<Rightarrow> s1
                         | Inr t \<Rightarrow> qr_status (lit ''Paired with '' @ t @ lit ''. Shared phrase saved. Go to Chat to start messaging.'') ''ok'' s1)
                    | From_scan \<Rightarrow> scan_status (lit ''Shared phrase saved. Go to Chat to start messaging.'') ''ok'' s1)
      else s0)"

section \<open>Scanning\<close>

definition stopScanner :: "pairing \<Rightarrow> pairing" where
  "stopScanner s =
     s\<lparr>frames := (case scanAnimFrame s of None \<Rightarrow> frames s | Some f \<Rightarrow> remove1 f (frames s)), scanAnimFrame := None,
       cameras := (case scanStream s of None \<Rightarrow> cameras s | Some c \<Rightarrow> remove1 c (cameras s)), scanStream := None,
       scan_label := lit ''Scan QR with camera''\<rparr>"

definition request_frame :: "pairing \<Rightarrow> pairing" where
  "request_frame s = s\<lparr>frames := frames s @ [frames_made s], scanAnimFrame := Some (frames_made s), frames_made := Suc (frames_made s)\<rparr>"

definition previewInvite :: "jstr \<Rightarrow> pairing \<Rightarrow> pairing" where
  "previewInvite t s = ask (Ask_preview t) (scan_status (lit ''Verifying invite...'') ''info'' s)"

text \<open>
  One look at the camera: \<open>None\<close> when the video has no frame yet, else what jsQR read
  (\<open>Some None\<close>: no code, or one without data).
\<close>

definition look :: "jstr option option \<Rightarrow> pairing \<Rightarrow> pairing" where
  "look img s =
     (case scanStream s of
        None \<Rightarrow> s
      | Some _ \<Rightarrow>
          (case img of
             Some (Some code) \<Rightarrow> if code \<noteq> [] then previewInvite code (stopScanner s) else request_frame s
           | _ \<Rightarrow> request_frame s))"

definition press_scan :: "pairing \<Rightarrow> pairing" where
  "press_scan s =
     (case scanStream s of
        Some _ \<Rightarrow> stopScanner s
      | None \<Rightarrow> ask Ask_camera (scan_status (lit ''Requesting camera access...'') ''info'' s))"

definition camera_failed :: "jstr \<Rightarrow> pairing \<Rightarrow> pairing" where
  "camera_failed e s = stopScanner (scan_status (lit ''Camera denied or unavailable: '' @ e) ''err'' s)"

definition got_camera :: "jsval res \<Rightarrow> pairing \<Rightarrow> pairing" where
  "got_camera r s =
     (case r of
        Inl e \<Rightarrow> camera_failed e s
      | Inr _ \<Rightarrow>
          ask (Ask_play (streams_made s))
            (s\<lparr>scanStream := Some (streams_made s), cameras := cameras s @ [streams_made s], streams_made := Suc (streams_made s)\<rparr>))"

definition got_play :: "jstr option option \<Rightarrow> jsval res \<Rightarrow> pairing \<Rightarrow> pairing" where
  "got_play img r s =
     (case r of
        Inl e \<Rightarrow> camera_failed e s
      | Inr _ \<Rightarrow>
          look img ((scan_status (lit ''Camera on. Point at a QEV pairing QR.'') ''info'' s)\<lparr>scan_label := lit ''Stop camera''\<rparr>))"

definition frame_fires :: "nat \<Rightarrow> jstr option option \<Rightarrow> pairing \<Rightarrow> pairing" where
  "frame_fires n img s =
     (if n < length (frames s) then look img (s\<lparr>frames := take n (frames s) @ drop (Suc n) (frames s)\<rparr>) else s)"

definition press_paste :: "pairing \<Rightarrow> pairing" where
  "press_paste s =
     (let t = trim (scanPaste s)
      in if t = [] then scan_status (lit ''Paste the invite text first.'') ''err'' s else previewInvite t s)"

section \<open>Preview and acceptance\<close>

definition preview_rows :: "jsval \<Rightarrow> jstr list res" where
  "preview_rows p =
     bind_res (escaped_field p ''name'') (\<lambda>name.
     bind_res (escaped_field p ''device'') (\<lambda>device.
     bind_res (escaped_field p ''public_hex'') (\<lambda>key.
     bind_res (bind_res (get p (lit ''addrs'')) (\<lambda>a. case a of
         JArr vs \<Rightarrow> res_list (map escapeHtml_pair vs)
       | _ \<Rightarrow> Inl (lit ''preview.addrs.map is not a function''))) (\<lambda>addrs.
     bind_res (escaped_field p ''expires_at'') (\<lambda>exp.
     Inr [name, device, key, join (lit '', '') addrs, exp])))))"

definition got_preview :: "jstr \<Rightarrow> jsval res \<Rightarrow> pairing \<Rightarrow> pairing" where
  "got_preview t r s =
     (case r of
        Inl e \<Rightarrow> scan_status (lit ''Invite rejected: '' @ e) ''err'' s
      | Inr p \<Rightarrow>
          let s1 = s\<lparr>pendingPreview := Some (t, p), preview_hidden := False\<rparr>
          in (case preview_rows p of
                Inl e \<Rightarrow> scan_status (lit ''Invite rejected: '' @ e) ''err'' s1
              | Inr rows \<Rightarrow> s1\<lparr>preview_html := rows, accept_hidden := False, accept_disabled := False\<rparr>))"

definition or_default :: "jstr \<Rightarrow> string \<Rightarrow> jstr" where
  "or_default s d = (if s = [] then lit d else s)"

definition press_accept :: "pairing \<Rightarrow> pairing" where
  "press_accept s =
     (if accept_hidden s \<or> accept_disabled s then s else
      case pendingPreview s of
        None \<Rightarrow> s
      | Some (t, _) \<Rightarrow>
          ask Ask_accept
            ((scan_status (lit ''Connecting and running handshake...'') ''info'' (s\<lparr>accept_disabled := True\<rparr>))
              \<lparr>accepted := accepted s @ [(t, or_default (trim (showName s)) ''user'', or_default (trim (showDevice s)) ''device'')]\<rparr>))"

definition result_rows :: "jsval \<Rightarrow> jstr list res" where
  "result_rows peer =
     bind_res (escaped_field peer ''peer_name'') (\<lambda>name.
     bind_res (escaped_field peer ''peer_device'') (\<lambda>device.
     bind_res (escaped_field peer ''id'') (\<lambda>i.
     bind_res (escaped_field peer ''safety_number'') (\<lambda>sn.
     Inr [name, device, i, sn]))))"

definition got_accept :: "jsval res \<Rightarrow> pairing \<Rightarrow> pairing" where
  "got_accept r s =
     (case bind_res r (\<lambda>peer. bind_res (result_rows peer) (\<lambda>rows. Inr (peer, rows))) of
        Inl e \<Rightarrow> scan_status (lit ''Pairing failed: '' @ e) ''err'' s
      | Inr (peer, rows) \<Rightarrow>
          ask (Phrase_timer From_scan (fld peer ''id'') (fld peer ''peer_name''))
            (scan_status (lit ''Paired. Compare the safety number in person, then set your shared chat phrase.'') ''ok''
              (s\<lparr>result_html := rows\<rparr>)))
     \<lparr>accept_disabled := False\<rparr>"

section \<open>The machine\<close>

definition answered :: "jstr option option \<Rightarrow> pair_call \<Rightarrow> jsval res \<Rightarrow> pairing \<Rightarrow> pairing" where
  "answered img c r s =
     (case c of
        Ask_before k \<Rightarrow> got_before k r s
      | Ask_show k \<Rightarrow> got_show k r s
      | Ask_poll k \<Rightarrow> got_poll k r s
      | Ask_safety i peer \<Rightarrow> got_safety i peer r s
      | Ask_camera \<Rightarrow> got_camera r s
      | Ask_play _ \<Rightarrow> got_play img r s
      | Ask_preview t \<Rightarrow> got_preview t r s
      | Ask_accept \<Rightarrow> got_accept r s
      | Phrase_timer o1 i name \<Rightarrow> phrase_timer o1 i name s)"

datatype pair_event =
  Type_name jstr | Type_device jstr | Type_paste jstr
| Press_tab | Press_show | Press_scan | Press_paste | Press_accept
| Poll_timer nat | Frame nat "jstr option option" | Phrase_given nat jstr
| Answered nat "jsval res" "jstr option option"

fun pair_step :: "pair_event \<Rightarrow> pairing \<Rightarrow> pairing" where
  "pair_step (Type_name t) s = s\<lparr>showName := t\<rparr>"
| "pair_step (Type_device t) s = s\<lparr>showDevice := t\<rparr>"
| "pair_step (Type_paste t) s = s\<lparr>scanPaste := t\<rparr>"
| "pair_step Press_tab s = press_tab s"
| "pair_step Press_show s = press_show s"
| "pair_step Press_scan s = press_scan s"
| "pair_step Press_paste s = press_paste s"
| "pair_step Press_accept s = press_accept s"
| "pair_step (Poll_timer k) s = poll_timer k s"
| "pair_step (Frame n img) s = frame_fires n img s"
| "pair_step (Phrase_given n phrase) s = phrase_given n phrase s"
| "pair_step (Answered n r img) s =
     (if n < length (calls s)
      then answered img (calls s ! n) r (s\<lparr>calls := take n (calls s) @ drop (Suc n) (calls s)\<rparr>) else s)"

definition pair_start :: pairing where
  "pair_start =
     \<lparr>showName = [], showDevice = [], show_disabled = False, show_label = lit ''Show QR'', qrStatus = ([], []), qrSvg = JUndef,
      qrText = JUndef, qrBox_hidden = True, sessions = [], scanStream = None, cameras = [], streams_made = 0,
      scan_label = lit ''Scan QR with camera'', frames = [], scanAnimFrame = None, frames_made = 0, scanPaste = [],
      scanStatus = ([], []), pendingPreview = None, preview_hidden = True, preview_html = [], accept_hidden = True,
      accept_disabled = False, result_html = [], calls = [], accepted = [], dialogs = [], chat_phrases = []\<rparr>"

text \<open>
  What the native side answers to a preview of an invite: a value whose rows can be written, and
  which is in the relation \<open>R\<close> to that invite. \<open>R\<close> stands for what the answers say of the
  invites they were asked about, and is not restricted.
\<close>

fun well_formed_answer :: "(jstr \<Rightarrow> jsval \<Rightarrow> bool) \<Rightarrow> pairing \<Rightarrow> pair_event \<Rightarrow> bool" where
  "well_formed_answer R s (Answered n (Inr p) img) =
     (n < length (calls s) \<longrightarrow> (case calls s ! n of Ask_preview t \<Rightarrow> R t p \<and> is_ok (preview_rows p) | _ \<Rightarrow> True))"
| "well_formed_answer R s e = True"

definition pair_tr :: "(jstr \<Rightarrow> jsval \<Rightarrow> bool) \<Rightarrow> pairing \<Rightarrow> pair_event \<Rightarrow> pairing \<Rightarrow> bool" where
  "pair_tr R s e s' = (well_formed_answer R s e \<and> s' = pair_step e s)"

section \<open>The invite on the screen\<close>

definition preview_stands :: "(jstr \<Rightarrow> jsval \<Rightarrow> bool) \<Rightarrow> pairing \<Rightarrow> bool" where
  "preview_stands R s =
     (case pendingPreview s of None \<Rightarrow> accept_hidden s
      | Some (t, p) \<Rightarrow> R t p \<and> preview_rows p = Inr (preview_html s) \<and> \<not> preview_hidden s)"

definition preview_part :: "pairing \<Rightarrow> (jstr \<times> jsval) option \<times> jstr list \<times> bool \<times> bool" where
  "preview_part s = (pendingPreview s, preview_html s, preview_hidden s, accept_hidden s)"

lemma preview_stands_part: "preview_part s' = preview_part s \<Longrightarrow> preview_stands R s' = preview_stands R s"
  by (simp add: preview_part_def preview_stands_def split: option.split)

lemmas pair_defs = ask_def qr_status_def scan_status_def press_tab_def press_show_def map_session_def got_before_def show_ready_def
  got_show_def poll_timer_def got_poll_def got_safety_def phrase_timer_def phrase_given_def stopScanner_def request_frame_def
  previewInvite_def look_def press_scan_def camera_failed_def got_camera_def got_play_def frame_fires_def press_paste_def
  press_accept_def got_accept_def Let_def

lemma preview_part_simps [simp]:
  "preview_part (ask c s) = preview_part s" "preview_part (qr_status t k s) = preview_part s"
  "preview_part (scan_status t k s) = preview_part s" "preview_part (map_session n f s) = preview_part s"
  "preview_part (show_ready s) = preview_part s" "preview_part (stopScanner s) = preview_part s"
  "preview_part (request_frame s) = preview_part s" "preview_part (s\<lparr>show_label := l\<rparr>) = preview_part s"
  "preview_part (s\<lparr>show_disabled := b\<rparr>) = preview_part s" "preview_part (s\<lparr>sessions := ss\<rparr>) = preview_part s"
  "preview_part (s\<lparr>qrSvg := v\<rparr>) = preview_part s" "preview_part (s\<lparr>qrText := v\<rparr>) = preview_part s"
  "preview_part (s\<lparr>qrBox_hidden := b\<rparr>) = preview_part s" "preview_part (s\<lparr>dialogs := ds\<rparr>) = preview_part s"
  "preview_part (s\<lparr>chat_phrases := cs\<rparr>) = preview_part s" "preview_part (s\<lparr>scanStream := x\<rparr>) = preview_part s"
  "preview_part (s\<lparr>cameras := cam\<rparr>) = preview_part s" "preview_part (s\<lparr>streams_made := n\<rparr>) = preview_part s"
  "preview_part (s\<lparr>scan_label := l\<rparr>) = preview_part s" "preview_part (s\<lparr>frames := fs\<rparr>) = preview_part s"
  "preview_part (s\<lparr>accept_disabled := b\<rparr>) = preview_part s" "preview_part (s\<lparr>accepted := acc\<rparr>) = preview_part s"
  "preview_part (s\<lparr>result_html := h\<rparr>) = preview_part s" "preview_part (s\<lparr>calls := cls\<rparr>) = preview_part s"
  "preview_part (s\<lparr>showName := t\<rparr>) = preview_part s" "preview_part (s\<lparr>showDevice := t\<rparr>) = preview_part s"
  "preview_part (s\<lparr>scanPaste := t\<rparr>) = preview_part s"
  by (simp_all add: preview_part_def ask_def qr_status_def scan_status_def map_session_def show_ready_def stopScanner_def request_frame_def)

lemma look_part [simp]: "preview_part (look img s) = preview_part s"
  by (simp add: look_def previewInvite_def split: option.split)

lemma handlers_part [simp]:
  "preview_part (got_before k r s) = preview_part s" "preview_part (got_show k r s) = preview_part s"
  "preview_part (got_poll k r s) = preview_part s" "preview_part (camera_failed e s) = preview_part s"
  "preview_part (phrase_timer o1 i name s) = preview_part s" "preview_part (previewInvite t s) = preview_part s"
  "preview_part (press_tab s) = preview_part s" "preview_part (press_show s) = preview_part s"
  "preview_part (poll_timer k s) = preview_part s" "preview_part (press_scan s) = preview_part s"
  "preview_part (press_accept s) = preview_part s"
  unfolding got_before_def got_show_def got_poll_def camera_failed_def phrase_timer_def previewInvite_def press_tab_def press_show_def
    poll_timer_def press_scan_def press_accept_def Let_def
  by (simp_all split: sum.split option.split prod.split)

lemma got_part [simp]:
  "preview_part (got_camera r s) = preview_part s" "preview_part (got_play img r s) = preview_part s"
  "preview_part (frame_fires n img s) = preview_part s" "preview_part (press_paste s) = preview_part s"
  unfolding got_camera_def got_play_def frame_fires_def press_paste_def Let_def
  by (simp_all split: sum.split)

lemma got_safety_part [simp]: "preview_part (got_safety i peer r s) = preview_part s"
  unfolding got_safety_def Let_def by (simp split: sum.split)

lemma got_accept_part [simp]: "preview_part (got_accept r s) = preview_part s"
  unfolding got_accept_def by (simp split: sum.split prod.split)

lemma phrase_given_part [simp]: "preview_part (phrase_given n phrase s) = preview_part s"
  unfolding phrase_given_def Let_def by (simp split: sum.split prod.split origin.split)

lemma answered_part: "(\<forall>t. c \<noteq> Ask_preview t) \<Longrightarrow> preview_part (answered img c r s) = preview_part s"
  by (cases c) (simp_all add: answered_def)

lemma preview_stands_answer: "R t p \<Longrightarrow> is_ok (preview_rows p) \<Longrightarrow> preview_stands R s \<Longrightarrow> preview_stands R (got_preview t (Inr p) s)"
  by (auto simp: got_preview_def preview_stands_def is_ok_iff Let_def)

lemma step_part:
  "(\<forall>n r img. e \<noteq> Answered n r img) \<Longrightarrow> preview_part (pair_step e s) = preview_part s"
  by (cases e) simp_all

lemma preview_stands_step:
  assumes "preview_stands R s" and "well_formed_answer R s e"
  shows "preview_stands R (pair_step e s)"
proof (cases "\<exists>n r img. e = Answered n r img")
  case False
  then have "\<forall>n r img. e \<noteq> Answered n r img" by simp
  then have "preview_part (pair_step e s) = preview_part s" by (rule step_part)
  from preview_stands_part [OF this] show ?thesis using assms(1) by simp
next
  case True
  then obtain n r img where e: "e = Answered n r img" by blast
  show ?thesis
  proof (cases "n < length (calls s)")
    case False
    then show ?thesis using assms(1) by (simp add: e)
  next
    case n: True
    let ?s = "s\<lparr>calls := take n (calls s) @ drop (Suc n) (calls s)\<rparr>" and ?c = "calls s ! n"
    have st: "pair_step e s = answered img ?c r ?s" using n by (simp add: e)
    have q: "preview_stands R ?s" using assms(1) preview_stands_part [of ?s s] by simp
    show ?thesis
    proof (cases "\<exists>t. ?c = Ask_preview t")
      case False
      then have "\<forall>t. ?c \<noteq> Ask_preview t" by simp
      then have "preview_part (answered img ?c r ?s) = preview_part ?s" by (rule answered_part)
      from preview_stands_part [OF this] show ?thesis using q by (simp only: st)
    next
      case True
      then obtain t where t: "?c = Ask_preview t" by blast
      then have g: "pair_step e s = got_preview t r ?s" by (simp only: st answered_def pair_call.case)
      show ?thesis
      proof (cases r)
        case (Inl m)
        then have "preview_part (got_preview t r ?s) = preview_part ?s" by (simp add: got_preview_def)
        from preview_stands_part [OF this] show ?thesis using q by (simp only: g)
      next
        case (Inr p)
        then have "R t p" "is_ok (preview_rows p)" using assms(2) t n by (simp_all add: e Inr)
        then show ?thesis unfolding g Inr by (rule preview_stands_answer [OF _ _ q])
      qed
    qed
  qed
qed

lemma preview_stands_start: "preview_stands R pair_start"
  by (simp add: pair_start_def preview_stands_def)

lemma preview_stands_reachable: "reachable (\<lambda>s. s = pair_start) (pair_tr R) s \<Longrightarrow> preview_stands R s"
proof (erule invariantI)
  show "preview_stands R s" if "s = pair_start" for s unfolding that by (rule preview_stands_start)
  show "preview_stands R s'" if "preview_stands R s" "pair_tr R s e s'" for s e s'
    using that preview_stands_step unfolding pair_tr_def by blast
qed

section \<open>The Show QR button after a timeout\<close>

text \<open>No timer runs and no answer is outstanding that would bring the button back.\<close>

fun restores_button :: "pair_call \<Rightarrow> bool" where
  "restores_button (Ask_show _) = True"
| "restores_button (Ask_poll _) = True"
| "restores_button _ = False"

definition show_stuck :: "pairing \<Rightarrow> bool" where
  "show_stuck s =
     (show_disabled s \<and> show_label s = lit ''Working...'' \<and> (\<forall>p \<in> set (sessions s). \<not> polling p) \<and>
      (\<forall>c \<in> set (calls s). \<not> restores_button c))"

definition show_part :: "pairing \<Rightarrow> bool \<times> jstr \<times> poll_session list \<times> pair_call list" where
  "show_part s = (show_disabled s, show_label s, sessions s, calls s)"

lemma show_stuck_part: "show_part s' = show_part s \<Longrightarrow> show_stuck s \<Longrightarrow> show_stuck s'"
  by (simp add: show_part_def show_stuck_def)

lemma show_stuck_ask: "show_stuck s \<Longrightarrow> \<not> restores_button c \<Longrightarrow> show_stuck (ask c s)"
  by (auto simp: show_stuck_def ask_def)

lemma show_stuck_session:
  "show_stuck s \<Longrightarrow> (\<And>p. polling (f p) = polling p) \<Longrightarrow> show_stuck (map_session k f s)"
  by (auto simp: show_stuck_def map_session_def dest!: set_update_subset_insert [THEN subsetD])

lemma show_stuck_simps [simp]:
  "show_stuck (qr_status t k s) = show_stuck s" "show_stuck (scan_status t k s) = show_stuck s"
  "show_stuck (stopScanner s) = show_stuck s" "show_stuck (request_frame s) = show_stuck s"
  "show_stuck (s\<lparr>qrBox_hidden := b\<rparr>) = show_stuck s" "show_stuck (s\<lparr>dialogs := ds\<rparr>) = show_stuck s"
  "show_stuck (s\<lparr>chat_phrases := cs\<rparr>) = show_stuck s" "show_stuck (s\<lparr>scanStream := x\<rparr>) = show_stuck s"
  "show_stuck (s\<lparr>cameras := cam\<rparr>) = show_stuck s" "show_stuck (s\<lparr>streams_made := n\<rparr>) = show_stuck s"
  "show_stuck (s\<lparr>scan_label := l\<rparr>) = show_stuck s" "show_stuck (s\<lparr>frames := fs\<rparr>) = show_stuck s"
  "show_stuck (s\<lparr>accept_disabled := b\<rparr>) = show_stuck s" "show_stuck (s\<lparr>accepted := acc\<rparr>) = show_stuck s"
  "show_stuck (s\<lparr>result_html := h\<rparr>) = show_stuck s" "show_stuck (s\<lparr>pendingPreview := pp\<rparr>) = show_stuck s"
  "show_stuck (s\<lparr>preview_hidden := b\<rparr>) = show_stuck s" "show_stuck (s\<lparr>preview_html := rows\<rparr>) = show_stuck s"
  "show_stuck (s\<lparr>accept_hidden := b\<rparr>) = show_stuck s" "show_stuck (s\<lparr>showName := t\<rparr>) = show_stuck s"
  "show_stuck (s\<lparr>showDevice := t\<rparr>) = show_stuck s" "show_stuck (s\<lparr>scanPaste := t\<rparr>) = show_stuck s"
  by (simp_all add: show_stuck_def qr_status_def scan_status_def stopScanner_def request_frame_def)

lemma show_stuck_preview: "show_stuck s \<Longrightarrow> show_stuck (previewInvite t s)"
  by (simp add: previewInvite_def show_stuck_ask)

lemma show_stuck_look: "show_stuck s \<Longrightarrow> show_stuck (look img s)"
  by (auto simp: look_def show_stuck_preview split: option.split)

lemma show_stuck_answer:
  assumes "show_stuck s" and "\<not> restores_button c"
  shows "show_stuck (answered img c r s)"
proof (cases c)
  case (Ask_before k)
  have "show_stuck (map_session k (\<lambda>p. p\<lparr>peersBefore := ids\<rparr>) s)" for ids
    by (rule show_stuck_session [OF assms(1)]) simp
  then show ?thesis using assms(1) by (simp add: Ask_before answered_def got_before_def split: sum.split)
next
  case (Ask_safety i peer)
  then show ?thesis using assms(1) by (simp add: answered_def got_safety_def Let_def show_stuck_ask split: sum.split)
next
  case Ask_camera
  then show ?thesis using assms(1) by (simp add: answered_def got_camera_def camera_failed_def show_stuck_ask split: sum.split)
next
  case (Ask_play n)
  then show ?thesis using assms(1) by (simp add: answered_def got_play_def camera_failed_def show_stuck_look split: sum.split)
next
  case (Ask_preview t)
  then show ?thesis using assms(1) by (simp add: answered_def got_preview_def Let_def split: sum.split)
next
  case Ask_accept
  then show ?thesis using assms(1) by (simp add: answered_def got_accept_def show_stuck_ask split: sum.split prod.split)
next
  case (Phrase_timer o1 i name)
  then show ?thesis using assms(1) by (simp add: answered_def phrase_timer_def)
qed (use assms(2) in simp_all)

lemma show_stuck_step: "show_stuck s \<Longrightarrow> show_stuck (pair_step e s)"
proof (cases e)
  case Press_show
  then show "show_stuck s \<Longrightarrow> ?thesis" by (simp add: press_show_def show_stuck_def)
next
  case (Poll_timer k)
  assume "show_stuck s"
  then show ?thesis using Poll_timer by (auto simp: poll_timer_def show_stuck_def)
next
  case (Answered n r img)
  assume s: "show_stuck s"
  let ?s = "s\<lparr>calls := take n (calls s) @ drop (Suc n) (calls s)\<rparr>"
  have "show_stuck ?s" using s by (auto simp: show_stuck_def dest: in_set_takeD in_set_dropD)
  moreover have "n < length (calls s) \<Longrightarrow> \<not> restores_button (calls s ! n)" using s by (simp add: show_stuck_def)
  ultimately show ?thesis using s show_stuck_answer by (simp add: Answered)
qed (simp_all add: press_tab_def press_scan_def frame_fires_def press_paste_def press_accept_def phrase_given_def Let_def
    show_stuck_ask show_stuck_preview show_stuck_look split: option.split sum.split prod.split origin.split)

lemma show_stuck_run: "show_stuck s \<Longrightarrow> show_stuck (fold pair_step es s)"
  by (induction es arbitrary: s) (simp_all add: show_stuck_step)

section \<open>Which steps accept an invite\<close>

lemma accepted_simps [simp]:
  "accepted (ask c s) = accepted s" "accepted (qr_status t k s) = accepted s" "accepted (scan_status t k s) = accepted s"
  "accepted (map_session n f s) = accepted s" "accepted (show_ready s) = accepted s" "accepted (stopScanner s) = accepted s"
  "accepted (request_frame s) = accepted s"
  by (simp_all add: ask_def qr_status_def scan_status_def map_session_def show_ready_def stopScanner_def request_frame_def)

lemma accepted_scan [simp]: "accepted (previewInvite t s) = accepted s" "accepted (look img s) = accepted s"
  by (simp_all add: previewInvite_def look_def split: option.split)

lemma accepted_handlers [simp]:
  "accepted (got_before k r s) = accepted s" "accepted (got_show k r s) = accepted s"
  "accepted (got_poll k r s) = accepted s" "accepted (camera_failed e s) = accepted s"
  "accepted (phrase_timer o1 i name s) = accepted s"
  "accepted (press_tab s) = accepted s" "accepted (press_show s) = accepted s"
  "accepted (poll_timer k s) = accepted s" "accepted (press_scan s) = accepted s"
  unfolding got_before_def got_show_def got_poll_def camera_failed_def phrase_timer_def press_tab_def press_show_def
    poll_timer_def press_scan_def Let_def
  by (simp_all split: sum.split option.split prod.split)

lemma accepted_got [simp]:
  "accepted (got_camera r s) = accepted s" "accepted (got_play img r s) = accepted s"
  "accepted (frame_fires n img s) = accepted s" "accepted (press_paste s) = accepted s"
  "accepted (got_safety i peer r s) = accepted s" "accepted (got_accept r s) = accepted s"
  "accepted (got_preview t r s) = accepted s" "accepted (phrase_given n phrase s) = accepted s"
  unfolding got_camera_def got_play_def frame_fires_def press_paste_def got_safety_def got_accept_def got_preview_def
    phrase_given_def Let_def
  by (simp_all split: sum.split prod.split origin.split)

lemma accepted_answered: "accepted (answered img c r s) = accepted s"
  by (cases c) (simp_all add: answered_def)

lemma accepted_frame: "e \<noteq> Press_accept \<Longrightarrow> accepted (pair_step e s) = accepted s"
  by (cases e) (simp_all add: accepted_answered)

section \<open>Properties\<close>

text \<open>
  C35: The app accepts only the invite it shows. The accept command is sent only by the Accept
  button, and it carries the text of an invite whose own preview stands on the screen at the click:
  the rows shown (name, device, key, addresses, expiry) are those of an answer the native side gave
  when it was asked about exactly that text, whatever it says of it (any relation \<open>R\<close> that its
  answers keep), and whatever other invites were scanned, typed, pasted, refused or answered late.
\<close>

theorem accept_sends_shown_invite:
  assumes "reachable (\<lambda>s. s = pair_start) (pair_tr R) s" and "accepted (pair_step e s) \<noteq> accepted s"
  shows "e = Press_accept \<and> (\<exists>t p. R t p \<and> preview_rows p = Inr (preview_html s) \<and> \<not> preview_hidden s \<and>
    accepted (pair_step e s) =
      accepted s @ [(t, or_default (trim (showName s)) ''user'', or_default (trim (showDevice s)) ''device'')])"
proof -
  have e: "e = Press_accept" using assms(2) accepted_frame by blast
  with assms(2) obtain t p where p: "pendingPreview s = Some (t, p)" "\<not> accept_hidden s" "\<not> accept_disabled s"
    by (auto simp: press_accept_def split: if_splits option.splits)
  have "accepted (pair_step e s) =
      accepted s @ [(t, or_default (trim (showName s)) ''user'', or_default (trim (showDevice s)) ''device'')]"
    using p by (simp add: e press_accept_def ask_def scan_status_def)
  then show ?thesis using preview_stands_reachable [OF assms(1)] p(1) e by (auto simp: preview_stands_def)
qed

definition sample_preview :: jsval where
  "sample_preview = JObj [(lit ''name'', JStr (lit ''Ann'')), (lit ''device'', JStr (lit ''phone'')), (lit ''public_hex'', JStr (lit ''ab'')),
     (lit ''addrs'', JArr []), (lit ''expires_at'', JStr (lit ''soon''))]"

lemma sample_rows: "\<exists>rows. preview_rows sample_preview = Inr rows"
  by (simp add: preview_rows_def sample_preview_def escaped_field_def escapeHtml_pair_def val_or_def)

definition previewed :: pairing where
  "previewed = fold pair_step [Type_paste (lit ''qev''), Press_paste, Answered 0 (Inr sample_preview) None] pair_start"

text \<open>The native side of the example: it knows one invite, in a paste box that is edited meanwhile.\<close>

definition sample_relation :: "jstr \<Rightarrow> jsval \<Rightarrow> bool" where
  "sample_relation t p = (t = lit ''qev'' \<and> p = sample_preview)"

lemma previewed_reachable: "reachable (\<lambda>s. s = pair_start) (pair_tr sample_relation) previewed"
proof -
  let ?s1 = "pair_step (Type_paste (lit ''qev'')) pair_start" let ?s2 = "pair_step Press_paste ?s1"
  have c: "calls ?s2 = [Ask_preview (lit ''qev'')]"
    by (simp add: press_paste_def pair_start_def previewInvite_def ask_def scan_status_def Let_def trim_def js_space_def lit_def unit_of_def)
  have ok: "is_ok (preview_rows sample_preview)" using sample_rows by (auto simp: is_ok_iff)
  have "reachable (\<lambda>s. s = pair_start) (pair_tr sample_relation) pair_start" by (rule reachable.start) simp
  then have "reachable (\<lambda>s. s = pair_start) (pair_tr sample_relation) ?s1"
    by (rule reachable.step [where e = "Type_paste (lit ''qev'')"]) (simp add: pair_tr_def)
  then have "reachable (\<lambda>s. s = pair_start) (pair_tr sample_relation) ?s2" by (rule reachable.step [where e = Press_paste]) (simp add: pair_tr_def)
  then have "reachable (\<lambda>s. s = pair_start) (pair_tr sample_relation) (pair_step (Answered 0 (Inr sample_preview) None) ?s2)"
    by (rule reachable.step [where e = "Answered 0 (Inr sample_preview) None"]) (simp add: pair_tr_def c ok sample_relation_def del: pair_step.simps)
  then show ?thesis by (simp add: previewed_def del: pair_step.simps)
qed

theorem accept_sends_shown_invite_witness:
  "accepted (pair_step Press_accept (pair_step (Type_paste (lit ''other'')) previewed)) = [(lit ''qev'', lit ''user'', lit ''device'')] \<and>
   preview_rows sample_preview = Inr (preview_html previewed)"
proof -
  obtain rows where r: "preview_rows sample_preview = Inr rows" using sample_rows by blast
  let ?s = "pair_step (Type_paste (lit ''other'')) previewed"
  have "reachable (\<lambda>s. s = pair_start) (pair_tr sample_relation) ?s"
    by (rule reachable.step [where e = "Type_paste (lit ''other'')", OF previewed_reachable]) (simp add: pair_tr_def)
  moreover have f: "pendingPreview ?s = Some (lit ''qev'', sample_preview)" "accept_hidden ?s = False" "accept_disabled ?s = False"
    "accepted ?s = []" "showName ?s = []" "showDevice ?s = []" "preview_html ?s = preview_html previewed"
    by (simp_all add: previewed_def press_paste_def pair_start_def previewInvite_def ask_def scan_status_def Let_def trim_def js_space_def
        lit_def unit_of_def answered_def got_preview_def r)
  moreover have "accepted (pair_step Press_accept ?s) \<noteq> accepted ?s" using f by (simp add: press_accept_def)
  moreover have "trim [] = []" by (simp add: trim_def)
  ultimately show ?thesis
    using accept_sends_shown_invite [where R = sample_relation and s = ?s and e = Press_accept]
    by (auto simp: sample_relation_def or_default_def)
qed

lemma map_session_fields [simp]:
  "show_disabled (map_session k f s) = show_disabled s" "show_label (map_session k f s) = show_label s"
  "calls (map_session k f s) = calls s" "qrStatus (map_session k f s) = qrStatus s"
  "k < length (sessions s) \<Longrightarrow> sessions (map_session k f s) = (sessions s)[k := f (sessions s ! k)]"
  by (simp_all add: map_session_def)

lemma qr_status_fields [simp]:
  "show_disabled (qr_status t kd s) = show_disabled s" "show_label (qr_status t kd s) = show_label s"
  "calls (qr_status t kd s) = calls s" "qrStatus (qr_status t kd s) = (t, kd)" "sessions (qr_status t kd s) = sessions s"
  by (simp_all add: qr_status_def)

lemma poll_timeout:
  assumes "k < length (sessions s)" and "polling (sessions s ! k)" and "pollCount (sessions s ! k) = 150"
  shows "pair_step (Poll_timer k) s = qr_status (lit ''Timed out waiting. Try again.'') ''err''
    (map_session k (\<lambda>p. p\<lparr>polling := False\<rparr>) (map_session k (\<lambda>p. p\<lparr>pollCount := Suc (pollCount p)\<rparr>) s))"
  unfolding pair_step.simps poll_timer_def Let_def assms(3) using assms(1,2) by simp

text \<open>
  C36: A pairing that times out leaves the panel dead. At the 151st tick of the timer the page
  says "Timed out waiting. Try again.", but the button stays disabled and reads "Working..."
  whatever happens afterwards: no event of the page brings it back.
\<close>

theorem timed_out_pairing_is_stuck:
  assumes "k < length (sessions s)" and "polling (sessions s ! k)" and "pollCount (sessions s ! k) = 150"
    and "\<forall>j < length (sessions s). j \<noteq> k \<longrightarrow> \<not> polling (sessions s ! j)" and "\<forall>c \<in> set (calls s). \<not> restores_button c"
    and "show_disabled s" and "show_label s = lit ''Working...''"
  shows "qrStatus (pair_step (Poll_timer k) s) = (lit ''Timed out waiting. Try again.'', ''err'') \<and>
    show_disabled (fold pair_step es (pair_step (Poll_timer k) s)) \<and>
    show_label (fold pair_step es (pair_step (Poll_timer k) s)) = lit ''Working...''"
proof -
  let ?s = "pair_step (Poll_timer k) s"
  note st = poll_timeout [OF assms(1-3)]
  have ss: "sessions ?s = (sessions s)[k := (sessions s ! k)\<lparr>pollCount := Suc (pollCount (sessions s ! k)), polling := False\<rparr>]"
    unfolding st using assms(1) by simp
  have "show_stuck ?s"
    unfolding show_stuck_def
  proof (intro conjI ballI)
    show "show_disabled ?s" "show_label ?s = lit ''Working...''" unfolding st using assms(6,7) by simp_all
    show "\<not> polling p" if p: "p \<in> set (sessions ?s)" for p
    proof -
      obtain j where "j < length (sessions s)" "p = sessions ?s ! j"
        using p unfolding ss by (metis in_set_conv_nth length_list_update)
      then show ?thesis using assms(4) unfolding ss by (cases "j = k") simp_all
    qed
    show "\<not> restores_button c" if "c \<in> set (calls ?s)" for c using that assms(5) unfolding st by simp
  qed
  then have "show_stuck (fold pair_step es ?s)" by (rule show_stuck_run)
  moreover have "qrStatus ?s = (lit ''Timed out waiting. Try again.'', ''err'')"
    unfolding st by simp
  ultimately show ?thesis by (simp only: show_stuck_def simp_thms)
qed

definition waiting_long :: pairing where
  "waiting_long = pair_start\<lparr>show_disabled := True, show_label := lit ''Working...'',
     sessions := [\<lparr>peersBefore = [], pollCount = 150, polling = True\<rparr>]\<rparr>"

theorem timed_out_pairing_is_stuck_witness:
  "show_disabled (fold pair_step [Press_show, Press_tab, Press_show] (pair_step (Poll_timer 0) waiting_long))"
proof -
  have w: "0 < length (sessions waiting_long)" "polling (sessions waiting_long ! 0)" "pollCount (sessions waiting_long ! 0) = 150"
    "\<forall>j < length (sessions waiting_long). j \<noteq> 0 \<longrightarrow> \<not> polling (sessions waiting_long ! j)"
    "\<forall>c \<in> set (calls waiting_long). \<not> restores_button c" "show_disabled waiting_long" "show_label waiting_long = lit ''Working...''"
    by (simp_all add: waiting_long_def pair_start_def)
  show ?thesis using timed_out_pairing_is_stuck [OF w] by blast
qed

text \<open>
  Which peer a QR pairing announces. An answer of the poll asks for the safety number of the
  first listed peer that was not on the snapshot taken when Show QR was pressed, and of no peer
  when all were. With a snapshot that failed or has not arrived, the first peer of the list is
  announced as newly paired, however long it has been there.
\<close>

theorem announced_peer:
  assumes "peer_ids v = Inr ids" and "peer_list v = Inr ps" and "k < length (sessions s)"
  shows "(\<forall>i peer. Ask_safety i peer \<in> set (calls (got_poll k (Inr v) s)) - set (calls s) \<longrightarrow>
      i \<in> set ids \<and> i \<notin> set (peersBefore (sessions s ! k)) \<and> peer \<in> set ps \<and> get peer (lit ''id'') = Inr i) \<and>
    (set ids \<subseteq> set (peersBefore (sessions s ! k)) \<longrightarrow> got_poll k (Inr v) s = s) \<and>
    (peersBefore (sessions s ! k) = [] \<and> ids \<noteq> [] \<longrightarrow>
      (\<exists>peer. calls (got_poll k (Inr v) s) = calls s @ [Ask_safety (hd ids) peer]))"
proof -
  let ?b = "peersBefore (sessions s ! k)"
  have ids: "res_list (map (\<lambda>p. get p (lit ''id'')) ps) = Inr ids" using assms(1,2) by (simp add: peer_ids_def)
  have owner: "\<exists>p. find (\<lambda>p. get p (lit ''id'') = Inr i) ps = Some p \<and> p \<in> set ps \<and> get p (lit ''id'') = Inr i"
    if "i \<in> set ids" for i
  proof -
    have "\<exists>p \<in> set ps. get p (lit ''id'') = Inr i"
      using ids that by (induction ps arbitrary: ids) auto
    then have "find (\<lambda>p. get p (lit ''id'') = Inr i) ps \<noteq> None" unfolding find_None_iff by blast
    then obtain p where p: "find (\<lambda>p. get p (lit ''id'') = Inr i) ps = Some p" by (elim not_None_eq [THEN iffD1, THEN exE])
    then show ?thesis unfolding find_Some_iff using nth_mem by blast
  qed
  have new: "new_peer ?b v = Inr (case find (\<lambda>i. i \<notin> set ?b) ids of None \<Rightarrow> None
      | Some i \<Rightarrow> Some (i, the (find (\<lambda>p. get p (lit ''id'') = Inr i) ps)))"
    using assms(1,2) by (simp add: new_peer_def)
  show ?thesis
  proof (cases "find (\<lambda>i. i \<notin> set ?b) ids")
    case None
    then have sub: "set ids \<subseteq> set ?b" by (auto simp: find_None_iff)
    have g: "got_poll k (Inr v) s = s" using assms(3) by (simp add: got_poll_def new None)
    have "?b = [] \<Longrightarrow> ids = []" using sub by simp
    then show ?thesis unfolding g by blast
  next
    case (Some i)
    then have i: "i \<in> set ids" "i \<notin> set ?b" by (auto simp: find_Some_iff)
    obtain p where p: "find (\<lambda>p. get p (lit ''id'') = Inr i) ps = Some p" "p \<in> set ps" "get p (lit ''id'') = Inr i"
      using owner [OF i(1)] by blast
    have c: "calls (got_poll k (Inr v) s) = calls s @ [Ask_safety i p]"
      using assms(3) by (simp add: got_poll_def new Some p show_ready_def ask_def map_session_def)
    have h: "?b = [] \<Longrightarrow> ids \<noteq> [] \<Longrightarrow> i = hd ids" using Some by (cases ids) simp_all
    show ?thesis
    proof (intro conjI allI impI)
      fix i' peer assume "Ask_safety i' peer \<in> set (calls (got_poll k (Inr v) s)) - set (calls s)"
      then have "i' = i \<and> peer = p" unfolding c by auto
      then show "i' \<in> set ids" "i' \<notin> set ?b" "peer \<in> set ps" "get peer (lit ''id'') = Inr i'" using i p by simp_all
    next
      assume "set ids \<subseteq> set ?b"
      then show "got_poll k (Inr v) s = s" using i by blast
    next
      assume "?b = [] \<and> ids \<noteq> []"
      then show "\<exists>peer. calls (got_poll k (Inr v) s) = calls s @ [Ask_safety (hd ids) peer]" using c h by blast
    qed
  qed
qed

definition known_peers :: jsval where
  "known_peers = JArr [JObj [(lit ''id'', JStr (lit ''old'')), (lit ''peer_name'', JStr (lit ''Bob''))]]"

theorem announced_peer_witness:
  "\<exists>peer. calls (got_poll 0 (Inr known_peers) waiting_long) = calls waiting_long @ [Ask_safety (JStr (lit ''old'')) peer]"
proof -
  have "peer_ids known_peers = Inr [JStr (lit ''old'')]"
    "peer_list known_peers = Inr [JObj [(lit ''id'', JStr (lit ''old'')), (lit ''peer_name'', JStr (lit ''Bob''))]]"
    by (simp_all add: peer_ids_def peer_list_def known_peers_def)
  from announced_peer [OF this, of 0 waiting_long] show ?thesis by (simp add: waiting_long_def)
qed

text \<open>
  Two presses before the first permission is granted open two cameras; stopping stops only the
  second, and no button reaches the first any more.
\<close>

lemma second_request_leaks_camera:
  "let s = fold pair_step [Press_scan, Press_scan, Answered 0 (Inr JUndef) None, Answered 0 (Inr JUndef) None, Press_scan] pair_start
   in scanStream s = None \<and> cameras s = [0]"
  by (simp add: pair_start_def press_scan_def ask_def scan_status_def answered_def got_camera_def stopScanner_def Let_def)

end
