(* ===== verification/Pair_Send.thy ===== *)
theory Pair_Send
  imports Pairing Web_Page
begin

text \<open>
  \<open>tauri-app/ui/pairing.js\<close>, sending a locked vault to a paired device and the relay inbox, as a
  machine. The commands a handler invokes are logged with their arguments; what waits for an
  answer is kept with the values it closed over. The answers a user gives to \<open>prompt\<close> and
  \<open>confirm\<close>, which block the page, come with the event whose handler asks. The result box holds what
  the lock form of the vault page put there (\<open>Web_Page\<close>).
\<close>

section \<open>State\<close>

text \<open>A row of the peer list or of the inbox: its markup and the object its handlers close over.\<close>

record list_row =
  row_id :: nat
  row_peer :: jsval
  row_html :: jstr

datatype inbox_view = Untouched | Inbox_html jstr | Inbox_rows "list_row list"

datatype command =
  Peers_list
| Unpair_cmd jsval
| Seal_cmd jstr jstr
| Send_direct jsval bytes jstr
| Send_relay jsval bytes jstr
| Fetch_inbox
| Is_sealed jsval
| Unseal_cmd jsval jstr
| Ack_cmd "jsval list"

text \<open>The handler that waits, after its command was invoked.\<close>

datatype send_call =
  For_button
| For_modal
| For_unpair nat
| For_seal jsval
| For_direct jsval bytes jstr
| For_relay jsval
| For_inbox
| For_sealed jsval
| For_unseal
| For_ack

record sending =
  send_btn_hidden :: bool
  send_modal_hidden :: bool
  send_rows :: "list_row list"
  rows_made :: nat
  result_shown :: bool
  result_json :: jstr
  seal_checked :: bool
  inbox_disabled :: bool
  inbox_label :: jstr
  inbox :: inbox_view
  decrypt_input :: jstr
  open_tab_shown :: bool
  alerts :: "jstr list"
  invoked :: "command list"
  waiting :: "send_call list"

definition alert :: "jstr \<Rightarrow> sending \<Rightarrow> sending" where
  "alert t s = s\<lparr>alerts := alerts s @ [t]\<rparr>"

definition invoke :: "command \<Rightarrow> send_call \<Rightarrow> sending \<Rightarrow> sending" where
  "invoke c k s = s\<lparr>invoked := invoked s @ [c], waiting := waiting s @ [k]\<rparr>"

text \<open>The text of a thrown \<open>TypeError\<close>, as string concatenation shows it.\<close>

definition type_error :: "jstr \<Rightarrow> jstr" where
  "type_error m = lit ''TypeError: '' @ m"

fun thrown :: "'a res \<Rightarrow> 'a res" where
  "thrown (Inl m) = Inl (type_error m)"
| "thrown (Inr x) = Inr x"

text \<open>\<open>(v || []).forEach\<close>: only an array has it.\<close>

definition for_each :: "jsval \<Rightarrow> jsval list res" where
  "for_each v = (if truthy v then (case v of JArr vs \<Rightarrow> Inr vs | _ \<Rightarrow> Inl (lit ''forEach is not a function'')) else Inr [])"

section \<open>The peer picker\<close>

definition markup :: "string list \<Rightarrow> jstr" where
  "markup ls = join [10] (map lit ls)"

definition dq :: "string \<Rightarrow> string" where
  "dq s = map (\<lambda>c. if c = CHR ''`'' then CHR 0x22 else c) s"

text \<open>The markup of a peer's row; a backquote stands for a double quote in the templates.\<close>

definition peer_markup :: "jstr \<Rightarrow> jstr \<Rightarrow> jstr \<Rightarrow> jstr \<Rightarrow> jstr" where
  "peer_markup trustClass name device trust =
     markup [[], dq ''        <div class=`pair-send-peer-info` data-action=`send`>'', dq ''          <div class=`name`>''] @ name @
     markup [''</div>'', dq ''          <div class=`device`>''] @ device @
     markup [''</div>'', ''        </div>'', dq ''        <span class=`pair-send-peer-trust ''] @ trustClass @ lit (dq ''`>'') @ trust @
     markup [''</span>'', dq ''        <button class=`pair-unpair-btn` title=`Unpair this device`>&times;</button>'', ''      '']"

definition send_row_html :: "jsval \<Rightarrow> jstr res" where
  "send_row_html peer =
     bind_res (get peer (lit ''trust'')) (\<lambda>trust.
     bind_res (escaped_field peer ''peer_name'') (\<lambda>name.
     bind_res (escaped_field peer ''peer_device'') (\<lambda>device.
     bind_res (escapeHtml_pair trust) (\<lambda>t.
     Inr (peer_markup
       (if trust = JStr (lit ''verified'') then lit ''pair-send-peer-trust-verified'' else lit ''pair-send-peer-trust-unverified'')
       name device t)))))"

text \<open>The loop of \<open>openSendModal\<close>: rows are appended until one throws.\<close>

fun append_rows :: "jsval list \<Rightarrow> sending \<Rightarrow> unit res \<times> sending" where
  "append_rows [] s = (Inr (), s)"
| "append_rows (p # ps) s =
     (case send_row_html p of
        Inl e \<Rightarrow> (Inl e, s)
      | Inr h \<Rightarrow>
          append_rows ps (s\<lparr>send_rows := send_rows s @ [\<lparr>row_id = rows_made s, row_peer = p, row_html = h\<rparr>],
                            rows_made := Suc (rows_made s)\<rparr>))"

definition openSendModal :: "jsval \<Rightarrow> sending \<Rightarrow> unit res \<times> sending" where
  "openSendModal peers s =
     (let s1 = s\<lparr>send_rows := []\<rparr>
      in case for_each peers of
           Inl e \<Rightarrow> (Inl e, s1)
         | Inr ps \<Rightarrow>
             (case append_rows ps s1 of
                (Inl e, s2) \<Rightarrow> (Inl e, s2)
              | (Inr _, s2) \<Rightarrow> (Inr (), s2\<lparr>send_modal_hidden := False\<rparr>)))"

definition refreshSendButtonVisibility :: "sending \<Rightarrow> sending" where
  "refreshSendButtonVisibility s = invoke Peers_list For_button s"

definition got_button :: "jsval res \<Rightarrow> sending \<Rightarrow> sending" where
  "got_button r s =
     s\<lparr>send_btn_hidden := (case r of Inr (JArr ps) \<Rightarrow> ps = [] | _ \<Rightarrow> True)\<rparr>"

text \<open>The observer of the result box's class.\<close>

definition result_observed :: "bool \<Rightarrow> sending \<Rightarrow> sending" where
  "result_observed shown s =
     (let s1 = s\<lparr>result_shown := shown\<rparr> in if shown then refreshSendButtonVisibility s1 else s1)"

definition press_send :: "sending \<Rightarrow> sending" where
  "press_send s = (if send_btn_hidden s then s else invoke Peers_list For_modal s)"

definition got_modal :: "jsval res \<Rightarrow> sending \<Rightarrow> sending" where
  "got_modal r s =
     (case r of
        Inl e \<Rightarrow> alert (lit ''Could not load peers: '' @ e) s
      | Inr v \<Rightarrow>
          (case openSendModal v s of
             (Inl m, s1) \<Rightarrow> alert (lit ''Could not load peers: '' @ type_error m) s1
           | (Inr _, s1) \<Rightarrow> s1))"

definition press_send_cancel :: "sending \<Rightarrow> sending" where
  "press_send_cancel s = s\<lparr>send_modal_hidden := True\<rparr>"

definition press_unpair :: "nat \<Rightarrow> bool \<Rightarrow> sending \<Rightarrow> sending" where
  "press_unpair i says_yes s =
     (if i < length (send_rows s) \<and> \<not> send_modal_hidden s
      then let row = send_rows s ! i
           in case bind_res (to_str (fld (row_peer row) ''peer_name'')) (\<lambda>_. to_str (fld (row_peer row) ''peer_device'')) of
                Inl _ \<Rightarrow> s
              | Inr _ \<Rightarrow> if says_yes then invoke (Unpair_cmd (fld (row_peer row) ''id'')) (For_unpair (row_id row)) s else s
      else s)"

text \<open>A row that a newer list has replaced is no longer in it; the count is that of the list shown.\<close>

definition got_unpair :: "nat \<Rightarrow> jsval res \<Rightarrow> sending \<Rightarrow> sending" where
  "got_unpair rid r s =
     (case r of
        Inl e \<Rightarrow> alert (lit ''Unpair failed: '' @ e) s
      | Inr _ \<Rightarrow>
          let s1 = s\<lparr>send_rows := filter (\<lambda>row. row_id row \<noteq> rid) (send_rows s)\<rparr>
          in if send_rows s1 = [] then s1\<lparr>send_modal_hidden := True, send_btn_hidden := True\<rparr> else s1)"

section \<open>Sending\<close>

text \<open>\<open>new TextEncoder().encode(v)\<close>: nothing gives no bytes, anything else its string.\<close>

definition encode_value :: "jsval \<Rightarrow> bytes res" where
  "encode_value v = (if v = JUndef then Inr [] else bind_res (to_str v) (\<lambda>t. Inr (utf8 t)))"

definition vault_filename :: "jstr \<Rightarrow> jstr" where
  "vault_filename now = lit ''vault-'' @ take 10 now @ lit ''.vault.json''"

text \<open>The part of \<open>sendToPeer\<close> after the seal: an exception of the encoder is not caught.\<close>

definition send_payload :: "jstr \<Rightarrow> jsval \<Rightarrow> jsval \<Rightarrow> sending \<Rightarrow> sending" where
  "send_payload now peer finalPayload s =
     (case encode_value finalPayload of
        Inl _ \<Rightarrow> s
      | Inr vaultBytes \<Rightarrow>
          invoke (Send_direct (fld peer ''id'') vaultBytes (vault_filename now))
            (For_direct peer vaultBytes (vault_filename now)) (s\<lparr>send_modal_hidden := True\<rparr>))"

definition sendToPeer :: "jstr \<Rightarrow> jsval \<Rightarrow> jstr option \<Rightarrow> sending \<Rightarrow> sending" where
  "sendToPeer now peer phrase s =
     (let vaultJson = trim (result_json s)
      in if vaultJson = [] then alert (lit ''No locked vault found. Lock a message first.'') s
         else case parse_text vaultJson of
                Inl e \<Rightarrow> alert (lit ''Could not parse locked vault JSON: SyntaxError: '' @ e) s
              | Inr _ \<Rightarrow>
                  if seal_checked s
                  then (case phrase of
                          None \<Rightarrow> alert (lit ''Seal cancelled '' @ [0x2014] @ lit '' message not sent.'') s
                        | Some p \<Rightarrow>
                            if p = [] then alert (lit ''Seal cancelled '' @ [0x2014] @ lit '' message not sent.'') s
                            else invoke (Seal_cmd vaultJson p) (For_seal peer) s)
                  else send_payload now peer (JStr vaultJson) s)"

definition press_peer :: "jstr \<Rightarrow> nat \<Rightarrow> jstr option \<Rightarrow> sending \<Rightarrow> sending" where
  "press_peer now i phrase s =
     (if i < length (send_rows s) \<and> \<not> send_modal_hidden s then sendToPeer now (row_peer (send_rows s ! i)) phrase s else s)"

definition got_seal :: "jstr \<Rightarrow> jsval \<Rightarrow> jsval res \<Rightarrow> sending \<Rightarrow> sending" where
  "got_seal now peer r s =
     (case r of Inl e \<Rightarrow> alert (lit ''Seal failed: '' @ e) s | Inr v \<Rightarrow> send_payload now peer v s)"

text \<open>The note after a send reads the check box again.\<close>

definition sent_note :: "string \<Rightarrow> jsval \<Rightarrow> sending \<Rightarrow> jstr res" where
  "sent_note how peer s =
     bind_res (to_str (fld peer ''peer_name'')) (\<lambda>name.
     Inr (lit how @ name @ (if seal_checked s then lit '' (sealed)'' else []) @ lit ''.''))"

definition got_direct :: "jsval \<Rightarrow> bytes \<Rightarrow> jstr \<Rightarrow> bool \<Rightarrow> jsval res \<Rightarrow> sending \<Rightarrow> sending" where
  "got_direct peer vaultBytes filename says_yes r s =
     (case bind_res r (\<lambda>_. thrown (sent_note ''Sent to '' peer s)) of
        Inr t \<Rightarrow> alert t s
      | Inl _ \<Rightarrow>
          if says_yes then invoke (Send_relay (fld peer ''id'') vaultBytes filename) (For_relay peer) s else s)"

definition got_relay :: "jsval \<Rightarrow> jsval res \<Rightarrow> sending \<Rightarrow> sending" where
  "got_relay peer r s =
     (case bind_res r (\<lambda>_. thrown (sent_note ''Sent via relay to '' peer s)) of
        Inr t \<Rightarrow> alert t s
      | Inl e \<Rightarrow> alert (lit ''Relay send also failed: '' @ e) s)"

section \<open>The relay inbox\<close>

definition press_inbox :: "sending \<Rightarrow> sending" where
  "press_inbox s =
     (if inbox_disabled s then s
      else invoke Fetch_inbox For_inbox (s\<lparr>inbox_disabled := True, inbox_label := lit ''Checking...''\<rparr>))"

text \<open>\<open>env.from_hex.slice(0, 16)\<close>, escaped; \<open>when\<close> is the text of the date.\<close>

definition from_text :: "jsval \<Rightarrow> jstr res" where
  "from_text v =
     bind_res (case v of
                 JStr t \<Rightarrow> Inr (JStr (take 16 t))
               | JArr vs \<Rightarrow> Inr (JArr (take 16 vs))
               | JUndef \<Rightarrow> Inl (msg_read_of ''undefined'' (lit ''slice''))
               | JNull \<Rightarrow> Inl (msg_read_of ''null'' (lit ''slice''))
               | _ \<Rightarrow> Inl (lit ''slice is not a function'')) escapeHtml_pair"

definition inbox_markup :: "nat \<Rightarrow> jstr \<Rightarrow> jstr \<Rightarrow> jstr" where
  "inbox_markup i sender date =
     markup [[], dq ''        <div class=`pair-inbox-from`>From: <code>''] @ sender @
     markup [''...</code></div>'', dq ''        <div class=`pair-inbox-time`>''] @ date @
     markup [''</div>'', dq ''        <button class=`app-btn-small` data-env-idx=`''] @ num_str (int i) @
     markup [dq ''`>Open</button>'', ''      '']"

definition inbox_row :: "(jsval \<Rightarrow> jstr) \<Rightarrow> nat \<Rightarrow> jsval \<Rightarrow> list_row res" where
  "inbox_row when i env =
     bind_res (get env (lit ''from_hex'')) (\<lambda>f.
     bind_res (from_text f) (\<lambda>t.
     Inr \<lparr>row_id = i, row_peer = env, row_html = inbox_markup i t (when (fld env ''created_at''))\<rparr>))"

fun inbox_rows :: "(jsval \<Rightarrow> jstr) \<Rightarrow> nat \<Rightarrow> jsval list \<Rightarrow> list_row list res" where
  "inbox_rows when i [] = Inr []"
| "inbox_rows when i (e # es) =
     bind_res (inbox_row when i e) (\<lambda>r. bind_res (inbox_rows when (Suc i) es) (\<lambda>rs. Inr (r # rs)))"

definition hint_markup :: "string \<Rightarrow> jstr \<Rightarrow> jstr" where
  "hint_markup attrs t = lit (dq ''<div class=`pair-hint`'' @ attrs @ ''>'') @ t @ lit ''</div>''"

text \<open>Nothing in the list: an empty array, or an object whose \<open>length\<close> is 0.\<close>

definition no_envelopes :: "jsval \<Rightarrow> bool" where
  "no_envelopes v = (\<not> truthy v \<or> v = JArr [] \<or> fld v ''length'' = JNum 0)"

definition renderInbox :: "(jsval \<Rightarrow> jstr) \<Rightarrow> jsval \<Rightarrow> sending \<Rightarrow> unit res \<times> sending" where
  "renderInbox when envelopes s =
     (if no_envelopes envelopes then (Inr (), s\<lparr>inbox := Inbox_html (hint_markup [] (lit ''No pending envelopes.''))\<rparr>)
      else case bind_res (for_each envelopes) (inbox_rows when 0) of
             Inl e \<Rightarrow> (Inl e, s)
           | Inr rows \<Rightarrow>
               (Inr (), invoke (Ack_cmd (map (\<lambda>r. fld (row_peer r) ''id'') rows)) For_ack (s\<lparr>inbox := Inbox_rows rows\<rparr>)))"

definition relay_unreachable :: "jstr \<Rightarrow> jstr" where
  "relay_unreachable e =
     hint_markup ('' style='' @ dq ''`color:var(--text-dim)`'') (lit ''Relay unreachable: '' @ escape_text e)"

definition got_inbox :: "(jsval \<Rightarrow> jstr) \<Rightarrow> jsval res \<Rightarrow> sending \<Rightarrow> sending" where
  "got_inbox when r s =
     (let s1 = (case r of
                  Inl e \<Rightarrow> s\<lparr>inbox := Inbox_html (relay_unreachable e)\<rparr>
                | Inr v \<Rightarrow>
                    (case renderInbox when v s of
                       (Inl m, s2) \<Rightarrow> s2\<lparr>inbox := Inbox_html (relay_unreachable (type_error m))\<rparr>
                     | (Inr _, s2) \<Rightarrow> s2))
      in s1\<lparr>inbox_disabled := False, inbox_label := lit ''Check relay inbox''\<rparr>)"

definition press_open_envelope :: "nat \<Rightarrow> sending \<Rightarrow> sending" where
  "press_open_envelope i s =
     (case inbox s of
        Inbox_rows rows \<Rightarrow>
          if i < length rows
          then invoke (Is_sealed (fld (row_peer (rows ! i)) ''payload'')) (For_sealed (fld (row_peer (rows ! i)) ''payload'')) s
          else s
      | _ \<Rightarrow> s)"

text \<open>Setting the value of a text area: null empties it.\<close>

definition put_payload :: "jsval \<Rightarrow> sending \<Rightarrow> sending" where
  "put_payload v s =
     (case (if v = JNull then Inr [] else to_str v) of
        Inl _ \<Rightarrow> s
      | Inr t \<Rightarrow> s\<lparr>decrypt_input := t, open_tab_shown := True\<rparr>)"

definition got_sealed :: "jsval \<Rightarrow> jstr option \<Rightarrow> jsval res \<Rightarrow> sending \<Rightarrow> sending" where
  "got_sealed payload phrase r s =
     (case r of
        Inl e \<Rightarrow> alert (lit ''Unseal failed: '' @ e) s
      | Inr sealed \<Rightarrow>
          if truthy sealed
          then (case phrase of
                  None \<Rightarrow> s
                | Some p \<Rightarrow> if p = [] then s else invoke (Unseal_cmd payload p) For_unseal s)
          else put_payload payload s)"

definition got_unseal :: "jsval res \<Rightarrow> sending \<Rightarrow> sending" where
  "got_unseal r s =
     (case r of Inl e \<Rightarrow> alert (lit ''Unseal failed: '' @ e) s | Inr v \<Rightarrow> put_payload v s)"

section \<open>The machine\<close>

text \<open>What the user says to the dialogs of one handler.\<close>

record dialogs =
  says_yes :: bool
  typed :: "jstr option"

definition send_answered :: "(jsval \<Rightarrow> jstr) \<Rightarrow> jstr \<Rightarrow> send_call \<Rightarrow> dialogs \<Rightarrow> jsval res \<Rightarrow> sending \<Rightarrow> sending" where
  "send_answered when now k d r s =
     (case k of
        For_button \<Rightarrow> got_button r s
      | For_modal \<Rightarrow> got_modal r s
      | For_unpair rid \<Rightarrow> got_unpair rid r s
      | For_seal peer \<Rightarrow> got_seal now peer r s
      | For_direct peer vaultBytes filename \<Rightarrow> got_direct peer vaultBytes filename (says_yes d) r s
      | For_relay peer \<Rightarrow> got_relay peer r s
      | For_inbox \<Rightarrow> got_inbox when r s
      | For_sealed payload \<Rightarrow> got_sealed payload (typed d) r s
      | For_unseal \<Rightarrow> got_unseal r s
      | For_ack \<Rightarrow> s)"

datatype send_event =
  Result_text jstr | Result_class bool | Check_seal bool
| Press_send | Press_send_cancel | Press_peer jstr nat "jstr option" | Press_unpair nat bool
| Press_inbox | Press_envelope nat | Edit_decrypt jstr | Leave_open_tab
| S_answered jstr nat dialogs "jsval res"

fun send_step :: "(jsval \<Rightarrow> jstr) \<Rightarrow> send_event \<Rightarrow> sending \<Rightarrow> sending" where
  "send_step when (Result_text t) s = s\<lparr>result_json := t\<rparr>"
| "send_step when (Result_class b) s = result_observed b s"
| "send_step when (Check_seal b) s = s\<lparr>seal_checked := b\<rparr>"
| "send_step when Press_send s = press_send s"
| "send_step when Press_send_cancel s = press_send_cancel s"
| "send_step when (Press_peer now i phrase) s = press_peer now i phrase s"
| "send_step when (Press_unpair i yes) s = press_unpair i yes s"
| "send_step when Press_inbox s = press_inbox s"
| "send_step when (Press_envelope i) s = press_open_envelope i s"
| "send_step when (Edit_decrypt t) s = s\<lparr>decrypt_input := t\<rparr>"
| "send_step when Leave_open_tab s = s\<lparr>open_tab_shown := False\<rparr>"
| "send_step when (S_answered now n d r) s =
     (if n < length (waiting s)
      then send_answered when now (waiting s ! n) d r (s\<lparr>waiting := take n (waiting s) @ drop (Suc n) (waiting s)\<rparr>) else s)"

definition send_start :: sending where
  "send_start =
     \<lparr>send_btn_hidden = True, send_modal_hidden = True, send_rows = [], rows_made = 0, result_shown = False, result_json = [],
      seal_checked = False, inbox_disabled = False, inbox_label = lit ''Check relay inbox'', inbox = Untouched, decrypt_input = [],
      open_tab_shown = False, alerts = [], invoked = [], waiting = []\<rparr>"

section \<open>Names are text\<close>

text \<open>The characters that open or close elements and attributes.\<close>

definition markup_chars :: "16 word set" where "markup_chars = {0x22, 0x27, 0x3C, 0x3E}"

definition markup_count :: "jstr \<Rightarrow> nat" where
  "markup_count t = length (filter (\<lambda>u. u \<in> markup_chars) t)"

lemma markup_count_append [simp]: "markup_count (s @ t) = markup_count s + markup_count t" "markup_count [] = 0"
  by (simp_all add: markup_count_def)

lemma filter_replace_all:
  "\<forall>u \<in> set t. \<not> P u \<Longrightarrow> filter P (replace_all c t s) = filter (\<lambda>u. P u \<and> u \<noteq> c) s"
  by (induction s) (auto simp: replace_all_def filter_empty_conv)

lemma escape_text_plain: "markup_count (escape_text s) = 0"
proof -
  let ?P = "\<lambda>u. u \<in> markup_chars"
  have z: "\<forall>u \<in> set (lit ''&#39;''). \<not> ?P u" "\<forall>u \<in> set (lit ''&quot;''). \<not> ?P u" "\<forall>u \<in> set (lit ''&gt;''). \<not> ?P u"
    "\<forall>u \<in> set (lit ''&lt;''). \<not> ?P u" "\<forall>u \<in> set (lit ''&amp;''). \<not> ?P u"
    by (simp_all add: markup_chars_def lit_def unit_of_def)
  have "filter ?P (escape_text s) = filter (\<lambda>u. ((((?P u \<and> u \<noteq> 0x27) \<and> u \<noteq> 0x22) \<and> u \<noteq> 0x3E) \<and> u \<noteq> 0x3C) \<and> u \<noteq> 0x26) s"
    unfolding escape_text_def using z by (simp add: filter_replace_all)
  also have "\<dots> = []" by (auto simp: markup_chars_def filter_empty_conv)
  finally show ?thesis by (simp add: markup_count_def)
qed

lemma escaped_plain: "escapeHtml_pair v = Inr t \<Longrightarrow> markup_count t = 0" "escaped_field v k = Inr t \<Longrightarrow> markup_count t = 0"
  by (auto simp: escapeHtml_pair_def escaped_field_def escape_text_plain)

lemma peer_markup_count:
  assumes "markup_count c = 0" "markup_count n = 0" "markup_count d = 0" "markup_count t = 0"
  shows "markup_count (peer_markup c n d t) = 34"
  using assms by (simp add: peer_markup_def markup_def dq_def) (simp add: markup_count_def markup_chars_def lit_def unit_of_def)

lemma digs_no_markup: "markup_count (digs n) = 0"
proof -
  have "\<not> is_digit u" if "u \<in> markup_chars" for u using that by (auto simp: markup_chars_def is_digit_def)
  then show ?thesis using digs_digits [of n] by (auto simp: markup_count_def filter_empty_conv)
qed

lemma markup_count_digits: "markup_count (num_str (int n)) = 0"
  by (simp add: num_str_def digs_no_markup)

lemma inbox_markup_count: "markup_count t = 0 \<Longrightarrow> markup_count d = 0 \<Longrightarrow> markup_count (inbox_markup i t d) = 24"
proof -
  assume z: "markup_count t = 0" "markup_count d = 0"
  obtain k where k: "k = num_str (int i)" "markup_count k = 0" using markup_count_digits by blast
  show ?thesis using z k(2) unfolding inbox_markup_def k(1) [symmetric]
    by (simp add: markup_def dq_def) (simp add: markup_count_def markup_chars_def lit_def unit_of_def)
qed

section \<open>What is sent\<close>

text \<open>
  The text of a vault that the lock form shows in its result box (\<open>chat.js\<close> is the only code that
  writes there), and what is known of it: it was sealed under a phrase that passes the strength gate.
\<close>

definition panel_text :: "sodium \<Rightarrow> jstr \<Rightarrow> bool" where
  "panel_text so t =
     (\<exists>lower p v f eid. page_reachable so lower p \<and> result_for p = Some (v, f, eid) \<and> t = text_or_undefined (JSON_stringify2 v))"

definition locked_text :: "sodium \<Rightarrow> jstr \<Rightarrow> bool" where
  "locked_text so j = (\<exists>v. made so v \<and> j = trim (text_or_undefined (JSON_stringify2 v)))"

lemma panel_text_locked: "panel_text so t \<Longrightarrow> locked_text so (trim t)"
  by (auto simp: panel_text_def locked_text_def page_ok_def outputs_ok_def dest!: page_reachable_ok split: option.splits)

text \<open>What a direct send may carry: such a text, or an answer of the seal command.\<close>

definition sendable :: "sodium \<Rightarrow> (jsval \<Rightarrow> bool) \<Rightarrow> bytes \<Rightarrow> bool" where
  "sendable so sealed bs = ((\<exists>j. locked_text so j \<and> bs = utf8 j) \<or> (\<exists>v. sealed v \<and> encode_value v = Inr bs))"

text \<open>
  The machine when the result box shows what the lock form put there and the answers of the seal
  command satisfy \<open>sealed\<close>.
\<close>

definition sealing_step :: "sodium \<Rightarrow> (jsval \<Rightarrow> bool) \<Rightarrow> (jsval \<Rightarrow> jstr) \<Rightarrow> sending \<Rightarrow> send_event \<Rightarrow> sending \<Rightarrow> bool" where
  "sealing_step so sealed when s e s' =
     (s' = send_step when e s \<and>
      (case e of
         Result_text t \<Rightarrow> panel_text so t
       | S_answered now n d r \<Rightarrow>
           (case r of Inr v \<Rightarrow> n < length (waiting s) \<and> (\<exists>peer. waiting s ! n = For_seal peer) \<longrightarrow> sealed v | Inl _ \<Rightarrow> True)
       | _ \<Rightarrow> True))"

definition command_ok :: "sodium \<Rightarrow> (jsval \<Rightarrow> bool) \<Rightarrow> command list \<Rightarrow> command \<Rightarrow> bool" where
  "command_ok so sealed cs c =
     (case c of
        Send_direct p bs f \<Rightarrow> sendable so sealed bs
      | Send_relay p bs f \<Rightarrow> Send_direct p bs f \<in> set cs
      | Seal_cmd j ph \<Rightarrow> locked_text so j \<and> ph \<noteq> []
      | Unseal_cmd v ph \<Rightarrow> ph \<noteq> []
      | _ \<Rightarrow> True)"

definition send_ok :: "sodium \<Rightarrow> (jsval \<Rightarrow> bool) \<Rightarrow> sending \<Rightarrow> bool" where
  "send_ok so sealed s =
     ((\<forall>c \<in> set (invoked s). command_ok so sealed (invoked s) c) \<and>
      (\<forall>p bs f. For_direct p bs f \<in> set (waiting s) \<longrightarrow> Send_direct (fld p ''id'') bs f \<in> set (invoked s)) \<and>
      (trim (result_json s) = [] \<or> locked_text so (trim (result_json s))))"

lemma command_ok_mono: "command_ok so sealed cs c \<Longrightarrow> set cs \<subseteq> set cs' \<Longrightarrow> command_ok so sealed cs' c"
  by (cases c) (auto simp: command_ok_def)

lemma send_ok_frame:
  "send_ok so sealed s \<Longrightarrow> invoked s' = invoked s \<Longrightarrow> result_json s' = result_json s \<Longrightarrow> set (waiting s') \<subseteq> set (waiting s) \<Longrightarrow> send_ok so sealed s'"
  by (auto simp: send_ok_def)

lemma send_ok_invoke:
  assumes "send_ok so sealed s" and "command_ok so sealed (invoked s) c"
    and "\<And>p bs f. k = For_direct p bs f \<Longrightarrow> c = Send_direct (fld p ''id'') bs f"
  shows "send_ok so sealed (invoke c k s)"
  using assms unfolding send_ok_def invoke_def by (auto intro: command_ok_mono)

lemma send_ok_simps [simp]:
  "send_ok so sealed (alert t s) = send_ok so sealed s" "send_ok so sealed (s\<lparr>send_btn_hidden := b\<rparr>) = send_ok so sealed s"
  "send_ok so sealed (s\<lparr>send_modal_hidden := b\<rparr>) = send_ok so sealed s" "send_ok so sealed (s\<lparr>send_rows := rs\<rparr>) = send_ok so sealed s"
  "send_ok so sealed (s\<lparr>rows_made := n\<rparr>) = send_ok so sealed s" "send_ok so sealed (s\<lparr>result_shown := b\<rparr>) = send_ok so sealed s"
  "send_ok so sealed (s\<lparr>seal_checked := b\<rparr>) = send_ok so sealed s"
  "send_ok so sealed (s\<lparr>inbox_disabled := b\<rparr>) = send_ok so sealed s" "send_ok so sealed (s\<lparr>inbox_label := t\<rparr>) = send_ok so sealed s"
  "send_ok so sealed (s\<lparr>inbox := v\<rparr>) = send_ok so sealed s" "send_ok so sealed (s\<lparr>decrypt_input := t\<rparr>) = send_ok so sealed s"
  "send_ok so sealed (s\<lparr>open_tab_shown := b\<rparr>) = send_ok so sealed s"
  by (simp_all add: send_ok_def alert_def)

lemma command_ok_simps [simp]:
  "command_ok so sealed cs Peers_list" "command_ok so sealed cs (Unpair_cmd v)" "command_ok so sealed cs Fetch_inbox"
  "command_ok so sealed cs (Is_sealed v)" "command_ok so sealed cs (Ack_cmd vs)"
  "command_ok so sealed cs (Seal_cmd j ph) = (locked_text so j \<and> ph \<noteq> [])" "command_ok so sealed cs (Unseal_cmd v ph) = (ph \<noteq> [])"
  "command_ok so sealed cs (Send_direct p bs f) = sendable so sealed bs"
  "command_ok so sealed cs (Send_relay p bs f) = (Send_direct p bs f \<in> set cs)"
  by (simp_all add: command_ok_def)

lemma append_rows_frame:
  "append_rows ps s = (r, s') \<Longrightarrow> send_ok so sealed s' = send_ok so sealed s"
  by (induction ps s arbitrary: r s' rule: append_rows.induct) (auto split: sum.splits)

lemma openSendModal_frame: "openSendModal v s = (r, s') \<Longrightarrow> send_ok so sealed s' = send_ok so sealed s"
  by (auto simp: openSendModal_def Let_def split: sum.splits prod.splits dest!: append_rows_frame [of _ _ _ _ so sealed])

lemma send_ok_payload:
  assumes "send_ok so sealed s" and "\<And>bs. encode_value v = Inr bs \<Longrightarrow> sendable so sealed bs"
  shows "send_ok so sealed (send_payload now peer v s)"
  using assms by (auto simp: send_payload_def split: sum.split intro!: send_ok_invoke)

lemma send_ok_sendToPeer: "send_ok so sealed s \<Longrightarrow> send_ok so sealed (sendToPeer now peer ph s)"
proof -
  assume s: "send_ok so sealed s"
  let ?j = "trim (result_json s)"
  have l: "locked_text so ?j" if "?j \<noteq> []" using s that by (simp add: send_ok_def)
  have "sendable so sealed bs" if "encode_value (JStr ?j) = Inr bs" "?j \<noteq> []" for bs
    using that(1) l [OF that(2)] by (auto simp: sendable_def encode_value_def)
  then show ?thesis
    using s l by (auto simp: sendToPeer_def Let_def split: sum.split option.split intro!: send_ok_invoke send_ok_payload)
qed

lemma got_unpair_frame: "send_ok so sealed (got_unpair rid r s) = send_ok so sealed s"
  by (simp add: got_unpair_def Let_def split: sum.split)

lemma send_ok_answered:
  assumes s: "send_ok so sealed s" and k: "\<And>p bs f. k = For_direct p bs f \<Longrightarrow> Send_direct (fld p ''id'') bs f \<in> set (invoked s)"
    and v: "\<And>peer v. k = For_seal peer \<Longrightarrow> r = Inr v \<Longrightarrow> sealed v"
  shows "send_ok so sealed (send_answered when now k d r s)"
proof (cases k)
  case (For_seal peer)
  have "sendable so sealed bs" if "r = Inr x" "encode_value x = Inr bs" for x bs
    using that v [OF For_seal] by (auto simp: sendable_def)
  then show ?thesis using s by (auto simp: For_seal send_answered_def got_seal_def split: sum.split intro!: send_ok_payload)
next
  case (For_direct p bs f)
  then show ?thesis using s k [OF For_direct] by (auto simp: send_answered_def got_direct_def split: sum.split intro!: send_ok_invoke)
next
  case For_modal
  then show ?thesis using s
    by (auto simp: send_answered_def got_modal_def split: sum.split prod.split dest!: openSendModal_frame [of _ _ _ _ so sealed])
next
  case For_inbox
  then show ?thesis using s
    by (auto simp: send_answered_def got_inbox_def renderInbox_def Let_def split: sum.split intro!: send_ok_invoke)
next
  case (For_sealed v)
  then show ?thesis using s
    by (auto simp: send_answered_def got_sealed_def put_payload_def split: sum.split option.split intro!: send_ok_invoke)
qed (use s in \<open>simp_all add: send_answered_def got_button_def got_unpair_frame got_relay_def got_unseal_def put_payload_def split: sum.split\<close>)

lemma sealing_stepD: "sealing_step so sealed when s e s' \<Longrightarrow> s' = send_step when e s"
  by (simp add: sealing_step_def)

lemma sealing_answer:
  "sealing_step so sealed when s (S_answered now n d (Inr v)) s' \<Longrightarrow> n < length (waiting s) \<Longrightarrow> waiting s ! n = For_seal peer \<Longrightarrow> sealed v"
  unfolding sealing_step_def by auto

lemma send_ok_step:
  assumes s: "send_ok so sealed s" and e: "sealing_step so sealed when s e s'"
  shows "send_ok so sealed s'"
proof (cases e)
  case (S_answered now n d r)
  show ?thesis
  proof (cases "n < length (waiting s)")
    case n: True
    let ?s = "s\<lparr>waiting := take n (waiting s) @ drop (Suc n) (waiting s)\<rparr>"
    have "set (waiting ?s) \<subseteq> set (waiting s)" by (simp add: set_remove_nth del: set_append)
    then have q: "send_ok so sealed ?s" by (intro send_ok_frame [OF s]) simp_all
    have k: "Send_direct (fld p ''id'') bs f \<in> set (invoked ?s)" if "waiting s ! n = For_direct p bs f" for p bs f
      using that nth_mem [OF n] s by (auto simp: send_ok_def)
    have v: "sealed v" if "waiting s ! n = For_seal peer" "r = Inr v" for peer v
      by (rule sealing_answer [OF e [unfolded S_answered that(2)] n that(1)])
    have "s' = send_answered when now (waiting s ! n) d r ?s" unfolding sealing_stepD [OF e] S_answered using n by (simp only: send_step.simps if_True)
    then show ?thesis by (simp only: send_ok_answered [OF q k v])
  next
    case False
    then show ?thesis unfolding sealing_stepD [OF e] S_answered using s by (simp only: send_step.simps if_False)
  qed
next
  case (Press_unpair i yes)
  have "send_ok so sealed (press_unpair i yes s)"
    using s by (auto simp: press_unpair_def Let_def intro!: send_ok_invoke split: sum.split)
  then show ?thesis unfolding sealing_stepD [OF e] Press_unpair by (simp only: send_step.simps)
next
  case (Press_envelope i)
  have "send_ok so sealed (press_open_envelope i s)"
    using s by (auto simp: press_open_envelope_def intro!: send_ok_invoke split: inbox_view.split)
  then show ?thesis unfolding sealing_stepD [OF e] Press_envelope by (simp only: send_step.simps)
next
  case (Result_text u)
  then have "panel_text so u" using e by (simp add: sealing_step_def)
  then show ?thesis using s panel_text_locked unfolding sealing_stepD [OF e] Result_text by (simp add: send_ok_def)
next
  case (Result_class b)
  have "send_ok so sealed (result_observed b s)"
    using s by (auto simp: result_observed_def Let_def refreshSendButtonVisibility_def intro!: send_ok_invoke)
  then show ?thesis unfolding sealing_stepD [OF e] Result_class by (simp only: send_step.simps)
next
  case Press_send
  have "send_ok so sealed (press_send s)" using s by (auto simp: press_send_def intro!: send_ok_invoke)
  then show ?thesis unfolding sealing_stepD [OF e] Press_send by (simp only: send_step.simps)
next
  case Press_inbox
  have "send_ok so sealed (press_inbox s)" using s by (auto simp: press_inbox_def intro!: send_ok_invoke)
  then show ?thesis unfolding sealing_stepD [OF e] Press_inbox by (simp only: send_step.simps)
qed (unfold sealing_stepD [OF e], insert s, simp_all add: press_send_cancel_def press_peer_def send_ok_sendToPeer)

section \<open>Properties\<close>

text \<open>
  C38: Only locked messages leave through the peer picker. Whatever happens and in whatever order,
  each direct send carries the text of a vault the lock form made, under a phrase that passes its
  strength gate, or an answer of the seal command; the relay gets only what a direct send to the
  same peer carried before; and the seal command gets such a text and a phrase that is not empty.
\<close>

theorem sends_only_locked:
  assumes "reachable (\<lambda>s. s = send_start) (sealing_step so sealed when) s" and "c \<in> set (invoked s)"
  shows "(\<forall>p bs f. c = Send_direct p bs f \<longrightarrow>
      (\<exists>v. made so v \<and> bs = utf8 (trim (text_or_undefined (JSON_stringify2 v)))) \<or> (\<exists>v. sealed v \<and> encode_value v = Inr bs)) \<and>
    (\<forall>p bs f. c = Send_relay p bs f \<longrightarrow> Send_direct p bs f \<in> set (invoked s)) \<and>
    (\<forall>j ph. c = Seal_cmd j ph \<longrightarrow> ph \<noteq> [] \<and> (\<exists>v. made so v \<and> j = trim (text_or_undefined (JSON_stringify2 v))))"
proof -
  have "send_ok so sealed s"
  proof (rule invariantI [OF assms(1)])
    show "send_ok so sealed s" if "s = send_start" for s unfolding that send_ok_def send_start_def by (simp add: trim_def)
  qed (rule send_ok_step)
  then have "command_ok so sealed (invoked s) c" using assms(2) by (simp add: send_ok_def)
  then show ?thesis by (cases c) (auto simp: sendable_def locked_text_def)
qed

text \<open>
  What other devices choose is text in the page, never markup. Whatever a paired peer calls
  itself and whatever sender the relay names, the row written for it has exactly the tags and
  attribute quotes of its template.
\<close>

theorem names_stay_text:
  "(send_row_html peer = Inr h \<longrightarrow> markup_count h = 34) \<and>
   (inbox_row when i env = Inr row \<and> markup_count (when (fld env ''created_at'')) = 0 \<longrightarrow> markup_count (row_html row) = 24)"
proof (intro conjI impI)
  assume h: "send_row_html peer = Inr h"
  have c: "markup_count (if b then lit ''pair-send-peer-trust-verified'' else lit ''pair-send-peer-trust-unverified'') = 0" for b
    by (simp add: markup_count_def markup_chars_def lit_def unit_of_def)
  from h obtain n d t b where "markup_count n = 0" "markup_count d = 0" "markup_count t = 0"
    and "h = peer_markup (if b then lit ''pair-send-peer-trust-verified'' else lit ''pair-send-peer-trust-unverified'') n d t"
    unfolding send_row_html_def bind_res_Inr_iff sum.inject using escaped_plain by metis
  with peer_markup_count [OF c] show "markup_count h = 34" by simp
next
  assume r: "inbox_row when i env = Inr row \<and> markup_count (when (fld env ''created_at'')) = 0"
  then obtain t where "markup_count t = 0" and "row_html row = inbox_markup i t (when (fld env ''created_at''))"
    unfolding inbox_row_def from_text_def bind_res_Inr_iff sum.inject using escaped_plain(1) by fastforce
  with r show "markup_count (row_html row) = 24" by (simp add: inbox_markup_count)
qed

definition alice :: jsval where
  "alice = JObj [(lit ''id'', JStr (lit ''7''))]"

definition alice_row :: list_row where
  "alice_row = \<lparr>row_id = 0, row_peer = alice, row_html = []\<rparr>"

text \<open>
  A message is locked on the page, the picker is opened and its one peer clicked: the vault that
  was made is sent.
\<close>

definition send_visit :: "jstr \<Rightarrow> sending" where
  "send_visit t =
     fold (send_step (\<lambda>_. []))
       [Result_text t, Result_class True, S_answered [] 0 \<lparr>says_yes = False, typed = None\<rparr> (Inr (JArr [alice])), Press_send,
        S_answered [] 0 \<lparr>says_yes = False, typed = None\<rparr> (Inr (JArr [alice])), Press_peer [] 0 None] send_start"

lemma send_visit_sends:
  assumes "trim t \<noteq> []" and "JSON_parse (trim t) = Some v"
  shows "invoked (send_visit t) = [Peers_list, Peers_list, Send_direct (JStr (lit ''7'')) (utf8 (trim t)) (vault_filename [])]"
proof -
  obtain h where h: "send_row_html alice = Inr h"
    by (simp add: send_row_html_def alice_def escaped_field_def escapeHtml_pair_def val_or_def)
  have i: "fld alice ''id'' = JStr (lit ''7'')" by (simp add: alice_def fld_def)
  show ?thesis using assms
    by (simp add: send_visit_def send_start_def result_observed_def refreshSendButtonVisibility_def invoke_def Let_def
        send_answered_def got_button_def press_send_def got_modal_def openSendModal_def for_each_def h press_peer_def
        sendToPeer_def parse_text_def send_payload_def encode_value_def i)
qed

lemma send_visit_reachable:
  assumes "panel_text so t"
  shows "reachable (\<lambda>s. s = send_start) (sealing_step so sealed (\<lambda>_. [])) (send_visit t)"
proof -
  let ?r = "reachable (\<lambda>s. s = send_start) (sealing_step so sealed (\<lambda>_. []))" and ?d = "\<lparr>says_yes = False, typed = None\<rparr>"
  let ?f = "send_step (\<lambda>_. [])"
  let ?s1 = "?f (Result_class True) (?f (Result_text t) send_start)"
  let ?s2 = "?f Press_send (?f (S_answered [] 0 ?d (Inr (JArr [alice]))) ?s1)"
  have go: "?r (?f e s)" if "?r s" "sealing_step so sealed (\<lambda>_. []) s e (?f e s)" for e s
    using that by (rule reachable.step)
  have w: "waiting ?s1 = [For_button]" "waiting ?s2 = [For_modal]"
    by (simp_all add: send_start_def result_observed_def refreshSendButtonVisibility_def invoke_def Let_def send_answered_def
        got_button_def press_send_def)
  have 1: "?r ?s1" by (intro go reachable.start) (simp_all add: sealing_step_def assms)
  have 2: "?r ?s2" by (intro go 1) (simp_all add: sealing_step_def w(1) del: send_step.simps)
  have "?r (?f (Press_peer [] 0 None) (?f (S_answered [] 0 ?d (Inr (JArr [alice]))) ?s2))"
    by (intro go 2) (simp_all add: sealing_step_def w(2) del: send_step.simps)
  then show ?thesis by (simp only: send_visit_def fold.simps comp_apply id_apply)
qed

theorem sends_only_locked_witness:
  "\<exists>t bs v. Send_direct (JStr (lit ''7'')) bs (vault_filename []) \<in> set (invoked (send_visit t)) \<and>
     made toy_sodium v \<and> bs = utf8 (trim (text_or_undefined (JSON_stringify2 v)))"
proof -
  obtain p v f eid where p: "page_reachable toy_sodium (\<lambda>s. s) p" "result_for p = Some (v, f, eid)" by (rule sample_result)
  let ?t = "text_or_undefined (JSON_stringify2 v)"
  have t: "panel_text toy_sodium ?t" unfolding panel_text_def using p by blast
  have "made toy_sodium v"
    using page_reachable_ok [OF p(1)] p(2) by (simp add: page_ok_def outputs_ok_def)
  then obtain now opts r r' where e: "encryptVault toy_sodium now opts r = (Inr v, r')" unfolding made_def by blast
  obtain body where "?t = 0x7B # body @ [0x7D]" "trim ?t = ?t" "JSON_parse ?t = Some v"
    by (rule result_json_text [OF toy_all(3) e])
  then have c: "Send_direct (JStr (lit ''7'')) (utf8 (trim ?t)) (vault_filename []) \<in> set (invoked (send_visit ?t))"
    using send_visit_sends [of ?t v] by simp
  have "(\<exists>u. made toy_sodium u \<and> utf8 (trim ?t) = utf8 (trim (text_or_undefined (JSON_stringify2 u)))) \<or>
      (\<exists>u. False \<and> encode_value u = Inr (utf8 (trim ?t)))"
    using sends_only_locked [OF send_visit_reachable [OF t, where sealed = "\<lambda>_. False"] c] by blast
  with c show ?thesis by blast
qed

theorem names_stay_text_witness:
  "(\<exists>h. send_row_html alice = Inr h \<and> markup_count h = 34)"
proof -
  obtain h where h: "send_row_html alice = Inr h"
    by (simp add: send_row_html_def alice_def escaped_field_def escapeHtml_pair_def val_or_def)
  show ?thesis by (intro exI conjI, rule h, rule names_stay_text [THEN conjunct1, THEN mp, OF h])
qed

text \<open>
  The inbox acknowledges what it lists, opened or not: fetched again, the list no longer has a
  message that nobody opened.
\<close>

lemma unopened_message_is_acknowledged:
  "let ans = \<lparr>says_yes = False, typed = None\<rparr>;
       env = JObj [(lit ''id'', JStr (lit ''7'')), (lit ''from_hex'', JStr (lit ''ab'')), (lit ''payload'', JStr (lit ''null''))];
       s = fold (send_step (\<lambda>_. [])) [Press_inbox, S_answered [] 0 ans (Inr (JArr [env])), Press_inbox, S_answered [] 1 ans (Inr (JArr []))] send_start
   in invoked s = [Fetch_inbox, Ack_cmd [JStr (lit ''7'')], Fetch_inbox] \<and> decrypt_input s = [] \<and>
      inbox s = Inbox_html (hint_markup [] (lit ''No pending envelopes.''))"
  by (simp add: Let_def press_inbox_def invoke_def send_start_def send_answered_def got_inbox_def renderInbox_def no_envelopes_def
      fld_def for_each_def inbox_row_def from_text_def escapeHtml_pair_def val_or_def)

text \<open>A ticked box sends nothing by itself: the click only asks for the seal.\<close>

lemma ticked_box_seals:
  "seal_checked s \<Longrightarrow> \<exists>cs. invoked (press_peer now i ph s) = invoked s @ cs \<and> (\<forall>c \<in> set cs. \<exists>j p. c = Seal_cmd j p)"
  by (auto simp: press_peer_def sendToPeer_def Let_def alert_def invoke_def split: sum.split option.split)

text \<open>
  The note after a send reads the box when the answer comes: ticked in between, it calls a message
  sealed that left without a seal.
\<close>

lemma sealed_note_can_be_wrong:
  assumes "waiting s = [For_direct peer bs f]" and "to_str (fld peer ''peer_name'') = Inr name"
  shows "let s' = fold (send_step when) [Check_seal True, S_answered now 0 d (Inr JNull)] s
    in invoked s' = invoked s \<and> alerts s' = alerts s @ [lit ''Sent to '' @ name @ lit '' (sealed)'' @ lit ''.'']"
  using assms by (simp add: Let_def send_answered_def got_direct_def sent_note_def alert_def)

end
