(* ===== verification/Backup.thy ===== *)
theory Backup
  imports Pairing
begin

text \<open>
  \<open>tauri-app/ui/pairing.js\<close>, identity backup and restore: the at-risk banner, the export panel
  and the import panel, as a machine whose events are clicks, keystrokes, timers and the answers
  of the native commands. The page has all the elements the script looks up.
\<close>

section \<open>State\<close>

text \<open>What waits for a status check: nothing, or the \<open>finally\<close> of an export or an import.\<close>

datatype after_status = Then_nothing | Then_export nat | Then_import

datatype backup_call =
  Get_status after_status
| Export_backup jstr nat
| Save_file jsval jstr nat
| Pick_backup
| Import_backup jsval jstr
| Status_timer
| Cta_timer

record backup =
  banner_hidden :: bool
  banner_count :: jstr
  storage_blocked :: bool
  session_dismissed :: bool
  status_line :: jstr
  export_open :: bool
  import_open :: bool
  exportPass :: jstr
  exportConfirm :: jstr
  importPass :: jstr
  exportStatus :: "jstr \<times> string"
  importStatus :: "jstr \<times> string"
  exportGo_disabled :: bool
  importGo_disabled :: bool
  importFilename :: "jstr option"
  loadedBackupJson :: "jsval option"
  watchdogs :: "bool option list"
  b_calls :: "backup_call list"
  exports_sent :: "jstr list"
  imports_sent :: "(jsval \<times> jstr) list"

text \<open>
  A watchdog is \<open>None\<close> once cleared, else whether it has fired. The banner's dismissal lives in
  \<open>sessionStorage\<close>; when that is blocked, reading and writing it throw.
\<close>

definition b_ask :: "backup_call \<Rightarrow> backup \<Rightarrow> backup" where
  "b_ask c s = s\<lparr>b_calls := b_calls s @ [c]\<rparr>"

definition export_status :: "jstr \<Rightarrow> string \<Rightarrow> backup \<Rightarrow> backup" where
  "export_status t k s = s\<lparr>exportStatus := (t, k)\<rparr>"

definition import_status :: "jstr \<Rightarrow> string \<Rightarrow> backup \<Rightarrow> backup" where
  "import_status t k s = s\<lparr>importStatus := (t, k)\<rparr>"

section \<open>The banner and the status line\<close>

text \<open>\<open>a > 0\<close> on the count, which is a number.\<close>

definition positive :: "jsval \<Rightarrow> bool" where
  "positive v = (is_num v \<and> num_of v > 0)"

definition risk_banner :: "jsval \<Rightarrow> backup \<Rightarrow> backup" where
  "risk_banner st s =
     (let shouldShow = truthy (fld st ''has_identity'') \<and> positive (fld st ''peer_count'') \<and>
            truthy (fld st ''has_never_backed_up'') \<and> \<not> session_dismissed s
      in (if shouldShow then s\<lparr>banner_count := num_str (num_of (fld st ''peer_count''))\<rparr> else s)\<lparr>banner_hidden := \<not> shouldShow\<rparr>)"

definition never_backed_up_text :: jstr where
  "never_backed_up_text =
     lit (''You'' @ squote @ ''ve never backed up your identity. If you lose this Mac without a backup, you'' @ squote @
       ''ll need to re-pair every device.'')"

text \<open>\<open>t.replace("T", " ").slice(0, 19)\<close>: the first \<open>T\<close> only.\<close>

fun replace_T :: "jstr \<Rightarrow> jstr" where
  "replace_T [] = []"
| "replace_T (u # t) = (if u = 0x54 then 0x20 # t else u # replace_T t)"

definition status_text :: "jsval \<Rightarrow> jstr res" where
  "status_text st =
     (if \<not> truthy (fld st ''has_identity'') then Inr (lit ''No identity yet '' @ [0x2014] @ lit '' pair a device first, then back up.'')
      else if truthy (fld st ''has_never_backed_up'') then Inr never_backed_up_text
      else (case fld st ''last_backup_at'' of
              JStr t \<Rightarrow> Inr (lit ''Last backup: '' @ take 19 (replace_T t) @ lit '' (UTC). Refresh your backup after major changes.'')
            | _ \<Rightarrow> Inl (lit ''replace is not a function'')))"

definition refreshBackupStatus :: "after_status \<Rightarrow> backup \<Rightarrow> backup" where
  "refreshBackupStatus w s = b_ask (Get_status w) s"

definition show_status :: "jsval res \<Rightarrow> backup \<Rightarrow> backup" where
  "show_status r s =
     (case bind_res r (\<lambda>st. throw_if (storage_blocked s) (lit ''SecurityError'') (bind_res (get st (lit ''has_identity'')) (\<lambda>_. Inr st))) of
        Inl _ \<Rightarrow> s
      | Inr st \<Rightarrow>
          let s1 = risk_banner st s
          in (case status_text st of Inl _ \<Rightarrow> s1 | Inr t \<Rightarrow> s1\<lparr>status_line := t\<rparr>))"

definition dismiss_banner :: "backup \<Rightarrow> backup" where
  "dismiss_banner s = s\<lparr>banner_hidden := True, session_dismissed := session_dismissed s \<or> \<not> storage_blocked s\<rparr>"

section \<open>The panels\<close>

definition hideBackupPanels :: "backup \<Rightarrow> backup" where
  "hideBackupPanels s =
     s\<lparr>export_open := False, import_open := False, exportPass := [], exportConfirm := [], importPass := [],
       importFilename := None, importGo_disabled := True, loadedBackupJson := None,
       exportStatus := ([], []), importStatus := ([], [])\<rparr>"

definition openExportPanel :: "backup \<Rightarrow> backup" where
  "openExportPanel s = (hideBackupPanels s)\<lparr>export_open := True\<rparr>"

definition openImportPanel :: "backup \<Rightarrow> backup" where
  "openImportPanel s = (hideBackupPanels s)\<lparr>import_open := True\<rparr>"

section \<open>Export\<close>

definition clear_watchdog :: "nat \<Rightarrow> backup \<Rightarrow> backup" where
  "clear_watchdog w s = s\<lparr>watchdogs := (watchdogs s)[w := None]\<rparr>"

definition msg_still_waiting :: jstr where
  "msg_still_waiting =
     lit ''Still waiting'' @ [0x2026] @
     lit '' if your macOS password prompt or save dialog is hidden behind the window, click outside this app (Cmd+Tab) or check your menu bar. If it'' @
     lit squote @ lit (''s truly stuck, press Cancel and try again.'')"

definition watchdog_fires :: "nat \<Rightarrow> backup \<Rightarrow> backup" where
  "watchdog_fires w s =
     (if w < length (watchdogs s) \<and> watchdogs s ! w = Some False
      then export_status msg_still_waiting ''warn'' (s\<lparr>watchdogs := (watchdogs s)[w := Some True]\<rparr>) else s)"

definition onExportGo :: "backup \<Rightarrow> backup" where
  "onExportGo s =
     (if exportGo_disabled s then s
      else if length (exportPass s) < 12 then export_status (lit ''Passphrase must be at least 12 characters.'') ''err'' s
      else if exportPass s \<noteq> exportConfirm s then export_status (lit (''Passphrases don'' @ squote @ ''t match.'')) ''err'' s
      else (b_ask (Export_backup (exportPass s) (length (watchdogs s)))
              (export_status (lit ''Encrypting backup'' @ [0x2026]) [] s))
           \<lparr>exportGo_disabled := True, watchdogs := watchdogs s @ [Some False], exports_sent := exports_sent s @ [exportPass s]\<rparr>)"

definition export_finally :: "nat \<Rightarrow> backup \<Rightarrow> backup" where
  "export_finally w s = (clear_watchdog w s)\<lparr>exportGo_disabled := False\<rparr>"

definition export_failed :: "nat \<Rightarrow> jstr \<Rightarrow> backup \<Rightarrow> backup" where
  "export_failed w e s =
     export_finally w (export_status (lit ''Export failed: '' @ (if e = [] then lit ''unknown'' else e)) ''err'' s)"

definition got_export :: "jstr \<Rightarrow> nat \<Rightarrow> jsval res \<Rightarrow> backup \<Rightarrow> backup" where
  "got_export today w r s =
     (case r of
        Inl e \<Rightarrow> export_failed w e s
      | Inr envelope \<Rightarrow>
          b_ask (Save_file envelope (lit ''qev-identity-backup-'' @ today @ lit ''.json'') w)
            (if w < length (watchdogs s) \<and> watchdogs s ! w = Some True then s
             else export_status (lit ''Encrypted. Pick where to save the backup file'' @ [0x2026]) [] s))"

definition got_save :: "jstr \<Rightarrow> nat \<Rightarrow> jsval res \<Rightarrow> backup \<Rightarrow> backup" where
  "got_save filename w r s =
     (case r of
        Inl e \<Rightarrow> export_failed w e s
      | Inr v \<Rightarrow>
          let s1 = clear_watchdog w s
          in if truthy v \<and> truthy (fld v ''saved'')
             then (case to_str (val_or (fld v ''path'') (JStr filename)) of
                     Inl e \<Rightarrow> export_failed w e s1
                   | Inr path \<Rightarrow>
                       refreshBackupStatus (Then_export w)
                         (export_status (lit ''Backup saved to '' @ path @ lit ''. Keep it somewhere safe '' @ [0x2014] @
                            lit '' 1Password, encrypted USB, or similar. The passphrase is the only thing protecting it.'') ''ok'' s1))
             else export_finally w (export_status (lit ''Save cancelled.'') [] s1))"

section \<open>Import\<close>

definition onImportPick :: "backup \<Rightarrow> backup" where
  "onImportPick s = b_ask Pick_backup s"

definition got_pick :: "jsval res \<Rightarrow> backup \<Rightarrow> backup" where
  "got_pick r s =
     (case r of
        Inl e \<Rightarrow> import_status (lit ''Pick failed: '' @ (if e = [] then lit ''unknown'' else e)) ''err'' s
      | Inr v \<Rightarrow>
          if \<not> truthy v \<or> \<not> truthy (fld v ''loaded'') then import_status (lit ''No file picked.'') [] s
          else let s1 = s\<lparr>loadedBackupJson := Some (fld v ''text'')\<rparr>
               in (case to_str (val_or (fld v ''filename'') (JStr (lit ''backup file''))) of
                     Inl e \<Rightarrow> import_status (lit ''Pick failed: '' @ e) ''err'' s1
                   | Inr name \<Rightarrow>
                       import_status (lit ''Enter the passphrase that locks this backup.'') []
                         (s1\<lparr>importFilename := Some (lit ''Loaded: '' @ name), importGo_disabled := False\<rparr>)))"

definition onImportGo :: "backup \<Rightarrow> backup" where
  "onImportGo s =
     (if importGo_disabled s then s else
      case loadedBackupJson s of
        None \<Rightarrow> import_status (lit ''Pick a backup file first.'') ''err'' s
      | Some j \<Rightarrow>
          if \<not> truthy j then import_status (lit ''Pick a backup file first.'') ''err'' s
          else if importPass s = [] then import_status (lit ''Enter the passphrase.'') ''err'' s
          else (b_ask (Import_backup j (importPass s))
                 (import_status (lit ''Decrypting & restoring'' @ [0x2026]) [] s))
               \<lparr>importGo_disabled := True, imports_sent := imports_sent s @ [(j, importPass s)]\<rparr>)"

definition restored_text :: "jsval \<Rightarrow> jstr res" where
  "restored_text r =
     bind_res (escaped_field r ''name'') (\<lambda>name.
     bind_res (escaped_field r ''device'') (\<lambda>device.
     bind_res (case val_or (fld r ''own_public_hex'') (JStr []) of
                 JStr h \<Rightarrow> Inr (take 16 h) | _ \<Rightarrow> Inl (lit ''slice is not a function'')) (\<lambda>fp.
     bind_res (to_str (fld r ''peers_restored'')) (\<lambda>n.
     Inr (lit ''Restored. You are now '' @ name @ lit '' ('' @ device @ lit '') '' @ [0xB7] @ lit '' fingerprint '' @ fp @
          lit '' '' @ [0xB7] @ lit '' '' @ n @ lit '' peer(s) merged from backup. Reload the app to see your peers.'')))))"

definition got_import :: "jsval res \<Rightarrow> backup \<Rightarrow> backup" where
  "got_import r s =
     (case bind_res r restored_text of
        Inl e \<Rightarrow>
          (import_status (lit ''Restore failed: '' @ (if e = [] then lit ''unknown'' else e)) ''err'' s)\<lparr>importGo_disabled := False\<rparr>
      | Inr t \<Rightarrow> refreshBackupStatus Then_import ((import_status t ''ok'' s)\<lparr>loadedBackupJson := None\<rparr>))"

section \<open>The machine\<close>

definition finally_status :: "after_status \<Rightarrow> backup \<Rightarrow> backup" where
  "finally_status w s =
     (case w of Then_nothing \<Rightarrow> s | Then_export n \<Rightarrow> export_finally n s | Then_import \<Rightarrow> s\<lparr>importGo_disabled := False\<rparr>)"

definition b_answered :: "jstr \<Rightarrow> backup_call \<Rightarrow> jsval res \<Rightarrow> backup \<Rightarrow> backup" where
  "b_answered today c r s =
     (case c of
        Get_status w \<Rightarrow> finally_status w (show_status r s)
      | Export_backup _ w \<Rightarrow> got_export today w r s
      | Save_file _ filename w \<Rightarrow> got_save filename w r s
      | Pick_backup \<Rightarrow> got_pick r s
      | Import_backup _ _ \<Rightarrow> got_import r s
      | Status_timer \<Rightarrow> refreshBackupStatus Then_nothing s
      | Cta_timer \<Rightarrow> openExportPanel s)"

datatype backup_event =
  Type_export jstr | Type_confirm jstr | Type_import jstr
| Press_export | Press_import | Press_export_go | Press_export_cancel | Press_pick | Press_import_go | Press_import_cancel
| Press_cta | Press_dismiss | Press_pair_tab | Watchdog nat | B_answered jstr nat "jsval res"

fun backup_step :: "backup_event \<Rightarrow> backup \<Rightarrow> backup" where
  "backup_step (Type_export t) s = s\<lparr>exportPass := t\<rparr>"
| "backup_step (Type_confirm t) s = s\<lparr>exportConfirm := t\<rparr>"
| "backup_step (Type_import t) s = s\<lparr>importPass := t\<rparr>"
| "backup_step Press_export s = openExportPanel s"
| "backup_step Press_import s = openImportPanel s"
| "backup_step Press_export_go s = (if export_open s then onExportGo s else s)"
| "backup_step Press_export_cancel s = (if export_open s then hideBackupPanels s else s)"
| "backup_step Press_pick s = (if import_open s then onImportPick s else s)"
| "backup_step Press_import_go s = (if import_open s then onImportGo s else s)"
| "backup_step Press_import_cancel s = (if import_open s then hideBackupPanels s else s)"
| "backup_step Press_cta s = b_ask Cta_timer (b_ask Status_timer s)"
| "backup_step Press_dismiss s = dismiss_banner s"
| "backup_step Press_pair_tab s = b_ask Status_timer s"
| "backup_step (Watchdog w) s = watchdog_fires w s"
| "backup_step (B_answered today n r) s =
     (if n < length (b_calls s)
      then b_answered today (b_calls s ! n) r (s\<lparr>b_calls := take n (b_calls s) @ drop (Suc n) (b_calls s)\<rparr>) else s)"

text \<open>The page as it loads: the panels are closed and the first status check is scheduled.\<close>

definition backup_start :: "bool \<Rightarrow> backup" where
  "backup_start blocked =
     \<lparr>banner_hidden = True, banner_count = [], storage_blocked = blocked, session_dismissed = False, status_line = [],
      export_open = False, import_open = False, exportPass = [], exportConfirm = [], importPass = [], exportStatus = ([], []),
      importStatus = ([], []), exportGo_disabled = False, importGo_disabled = True, importFilename = None, loadedBackupJson = None,
      watchdogs = [], b_calls = [Status_timer], exports_sent = [], imports_sent = []\<rparr>"

section \<open>One export at a time\<close>

text \<open>The calls of an export that its button waits for.\<close>

fun exporting :: "backup_call \<Rightarrow> nat option" where
  "exporting (Export_backup _ w) = Some w"
| "exporting (Save_file _ _ w) = Some w"
| "exporting (Get_status (Then_export w)) = Some w"
| "exporting _ = None"

definition under_way :: "backup \<Rightarrow> nat list" where
  "under_way s = List.map_filter exporting (b_calls s)"

definition export_inv :: "backup \<Rightarrow> bool" where
  "export_inv s = (length (under_way s) = (if exportGo_disabled s then 1 else 0))"

lemma map_filter_Nil [simp]: "List.map_filter f [] = []"
  by (simp add: List.map_filter_def)

lemma removed_call:
  assumes "n < length xs"
  shows "length (List.map_filter f xs) =
    length (List.map_filter f (take n xs @ drop (Suc n) xs)) + (if f (xs ! n) = None then 0 else 1)"
proof -
  have "List.map_filter f xs = List.map_filter f (take n xs @ xs ! n # drop (Suc n) xs)"
    using id_take_nth_drop [OF assms] by simp
  then show ?thesis by (auto simp: map_filter_append List.map_filter_simps split: option.split)
qed

lemma under_way_ask [simp]: "under_way (b_ask c s) = under_way s @ (case exporting c of None \<Rightarrow> [] | Some w \<Rightarrow> [w])"
  by (simp add: under_way_def b_ask_def map_filter_append List.map_filter_simps split: option.split)

lemma under_way_simps [simp]:
  "under_way (export_status t k s) = under_way s" "under_way (import_status t k s) = under_way s"
  "under_way (hideBackupPanels s) = under_way s" "under_way (clear_watchdog w s) = under_way s"
  "under_way (export_finally w s) = under_way s" "under_way (export_failed w e s) = under_way s"
  "under_way (risk_banner st s) = under_way s" "under_way (dismiss_banner s) = under_way s"
  "under_way (s\<lparr>exportGo_disabled := d\<rparr>) = under_way s" "under_way (s\<lparr>watchdogs := ws\<rparr>) = under_way s"
  "under_way (s\<lparr>exports_sent := es\<rparr>) = under_way s" "under_way (s\<lparr>imports_sent := is\<rparr>) = under_way s"
  "under_way (s\<lparr>importGo_disabled := d\<rparr>) = under_way s" "under_way (s\<lparr>importFilename := f\<rparr>) = under_way s"
  "under_way (s\<lparr>loadedBackupJson := j\<rparr>) = under_way s" "under_way (s\<lparr>status_line := l\<rparr>) = under_way s"
  "under_way (s\<lparr>exportPass := t\<rparr>) = under_way s" "under_way (s\<lparr>exportConfirm := t\<rparr>) = under_way s"
  "under_way (s\<lparr>importPass := t\<rparr>) = under_way s" "under_way (s\<lparr>export_open := b\<rparr>) = under_way s"
  "under_way (s\<lparr>import_open := b\<rparr>) = under_way s"
  by (simp_all add: under_way_def export_status_def import_status_def hideBackupPanels_def clear_watchdog_def export_finally_def
      export_failed_def risk_banner_def dismiss_banner_def Let_def)

lemma disabled_simps [simp]:
  "exportGo_disabled (b_ask c s) = exportGo_disabled s"
  "exportGo_disabled (export_status t k s) = exportGo_disabled s" "exportGo_disabled (import_status t k s) = exportGo_disabled s"
  "exportGo_disabled (hideBackupPanels s) = exportGo_disabled s" "exportGo_disabled (clear_watchdog w s) = exportGo_disabled s"
  "exportGo_disabled (export_finally w s) = False" "exportGo_disabled (export_failed w e s) = False"
  "exportGo_disabled (risk_banner st s) = exportGo_disabled s" "exportGo_disabled (dismiss_banner s) = exportGo_disabled s"
  by (simp_all add: b_ask_def export_status_def import_status_def hideBackupPanels_def clear_watchdog_def export_finally_def
      export_failed_def risk_banner_def dismiss_banner_def Let_def)

lemma show_status_export [simp]:
  "under_way (show_status r s) = under_way s" "exportGo_disabled (show_status r s) = exportGo_disabled s"
  by (simp_all add: show_status_def Let_def split: sum.split)

lemma answered_exporting:
  assumes "under_way s = []" and "exportGo_disabled s" and "exporting c \<noteq> None"
  shows "export_inv (b_answered today c r s)"
proof (cases c)
  case (Get_status w)
  then show ?thesis using assms by (cases w) (simp_all add: b_answered_def finally_status_def export_inv_def)
next
  case (Export_backup p w)
  then show ?thesis using assms by (simp add: b_answered_def got_export_def export_inv_def split: sum.split)
next
  case (Save_file v f w)
  then show ?thesis using assms
    by (simp add: b_answered_def got_save_def export_inv_def Let_def refreshBackupStatus_def split: sum.split)
qed (use assms(3) in simp_all)

lemma answered_other:
  assumes "exporting c = None"
  shows "under_way (b_answered today c r s) = under_way s \<and> exportGo_disabled (b_answered today c r s) = exportGo_disabled s"
proof (cases c)
  case (Get_status w)
  then show ?thesis using assms by (cases w) (simp_all add: b_answered_def finally_status_def)
next
  case Pick_backup
  then show ?thesis by (simp add: b_answered_def got_pick_def Let_def split: sum.split)
next
  case (Import_backup j p)
  then show ?thesis by (simp add: b_answered_def got_import_def refreshBackupStatus_def split: sum.split)
qed (use assms in \<open>simp_all add: b_answered_def refreshBackupStatus_def openExportPanel_def\<close>)

lemma export_inv_frame:
  "export_inv s \<Longrightarrow> under_way s' = under_way s \<Longrightarrow> exportGo_disabled s' = exportGo_disabled s \<Longrightarrow> export_inv s'"
  by (simp add: export_inv_def)

lemma export_inv_go: "export_inv s \<Longrightarrow> export_inv (onExportGo s)"
  by (auto simp: export_inv_def onExportGo_def)

lemma onImportGo_export [simp]:
  "under_way (onImportGo s) = under_way s" "exportGo_disabled (onImportGo s) = exportGo_disabled s"
  by (simp_all add: onImportGo_def split: option.split)

lemma watchdog_export [simp]:
  "under_way (watchdog_fires w s) = under_way s" "exportGo_disabled (watchdog_fires w s) = exportGo_disabled s"
  by (simp_all add: watchdog_fires_def)

lemma export_inv_step: "export_inv s \<Longrightarrow> export_inv (backup_step e s)"
proof (cases e)
  case Press_export_go
  then show "export_inv s \<Longrightarrow> ?thesis" by (simp add: export_inv_go)
next
  case (B_answered today n r)
  assume i: "export_inv s"
  show ?thesis
  proof (cases "n < length (b_calls s)")
    case n: True
    let ?s = "s\<lparr>b_calls := take n (b_calls s) @ drop (Suc n) (b_calls s)\<rparr>" and ?c = "b_calls s ! n"
    have st: "backup_step e s = b_answered today ?c r ?s" using n by (simp add: B_answered)
    have len: "length (under_way s) = length (under_way ?s) + (if exporting ?c = None then 0 else 1)"
      using removed_call [OF n, of exporting] by (simp add: under_way_def)
    show ?thesis
    proof (cases "exporting ?c = None")
      case True
      have "export_inv ?s" using i len True by (simp add: export_inv_def)
      then show ?thesis unfolding st using answered_other [OF True] by (blast intro: export_inv_frame)
    next
      case False
      have "under_way ?s = [] \<and> exportGo_disabled ?s" using i len False by (simp add: export_inv_def split: if_splits)
      then show ?thesis unfolding st using answered_exporting False by blast
    qed
  next
    case False
    then show ?thesis using i by (simp add: B_answered)
  qed
qed (auto simp: export_inv_def openExportPanel_def openImportPanel_def onImportPick_def refreshBackupStatus_def)

section \<open>What leaves the page and what stays hidden\<close>

definition backup_safe :: "backup \<Rightarrow> bool" where
  "backup_safe s =
     ((\<forall>p \<in> set (exports_sent s). 12 \<le> length p) \<and> (\<forall>(j, p) \<in> set (imports_sent s). truthy j \<and> p \<noteq> []) \<and>
      (session_dismissed s \<longrightarrow> banner_hidden s))"

definition sent_part :: "backup \<Rightarrow> jstr list \<times> (jsval \<times> jstr) list \<times> bool \<times> bool" where
  "sent_part s = (exports_sent s, imports_sent s, session_dismissed s, banner_hidden s)"

lemma backup_safe_part: "sent_part s' = sent_part s \<Longrightarrow> backup_safe s \<Longrightarrow> backup_safe s'"
  by (simp add: sent_part_def backup_safe_def)

lemma sent_part_simps [simp]:
  "sent_part (b_ask c s) = sent_part s" "sent_part (export_status t k s) = sent_part s" "sent_part (import_status t k s) = sent_part s"
  "sent_part (hideBackupPanels s) = sent_part s" "sent_part (clear_watchdog w s) = sent_part s"
  "sent_part (export_finally w s) = sent_part s" "sent_part (export_failed w e s) = sent_part s"
  "sent_part (s\<lparr>exportGo_disabled := d\<rparr>) = sent_part s" "sent_part (s\<lparr>watchdogs := ws\<rparr>) = sent_part s"
  "sent_part (s\<lparr>importGo_disabled := d\<rparr>) = sent_part s" "sent_part (s\<lparr>importFilename := f\<rparr>) = sent_part s"
  "sent_part (s\<lparr>loadedBackupJson := j\<rparr>) = sent_part s" "sent_part (s\<lparr>status_line := l\<rparr>) = sent_part s"
  "sent_part (s\<lparr>exportPass := t\<rparr>) = sent_part s" "sent_part (s\<lparr>exportConfirm := t\<rparr>) = sent_part s"
  "sent_part (s\<lparr>importPass := t\<rparr>) = sent_part s" "sent_part (s\<lparr>export_open := b\<rparr>) = sent_part s"
  "sent_part (s\<lparr>import_open := b\<rparr>) = sent_part s" "sent_part (s\<lparr>b_calls := cs\<rparr>) = sent_part s"
  by (simp_all add: sent_part_def b_ask_def export_status_def import_status_def hideBackupPanels_def clear_watchdog_def
      export_finally_def export_failed_def)

lemma got_sent [simp]:
  "sent_part (got_export today w r s) = sent_part s" "sent_part (got_save f w r s) = sent_part s"
  "sent_part (got_pick r s) = sent_part s" "sent_part (got_import r s) = sent_part s"
  "sent_part (watchdog_fires w s) = sent_part s"
  unfolding got_export_def got_save_def got_pick_def got_import_def watchdog_fires_def refreshBackupStatus_def Let_def
  by (simp_all split: sum.split)

lemma backup_safe_status: "backup_safe s \<Longrightarrow> backup_safe (show_status r s)"
  by (auto simp: backup_safe_def show_status_def risk_banner_def Let_def split: sum.split)

lemma backup_safe_answered:
  assumes q: "backup_safe s"
  shows "backup_safe (b_answered today c r s)"
proof (cases c)
  case (Get_status w)
  have "sent_part (finally_status w (show_status r s)) = sent_part (show_status r s)"
    by (cases w) (simp_all add: finally_status_def)
  from backup_safe_part [OF this backup_safe_status [OF q]] show ?thesis by (simp add: b_answered_def Get_status)
qed ((rule backup_safe_part [OF _ q], simp add: b_answered_def refreshBackupStatus_def openExportPanel_def)+)

lemma backup_safe_step: "backup_safe s \<Longrightarrow> backup_safe (backup_step e s)"
proof (cases e)
  case Press_export_go
  then show "backup_safe s \<Longrightarrow> ?thesis"
    by (auto simp: backup_safe_def onExportGo_def export_status_def b_ask_def)
next
  case Press_import_go
  then show "backup_safe s \<Longrightarrow> ?thesis"
    by (auto simp: backup_safe_def onImportGo_def import_status_def b_ask_def split: option.split)
next
  case Press_dismiss
  then show "backup_safe s \<Longrightarrow> ?thesis" by (simp add: backup_safe_def dismiss_banner_def)
next
  case (B_answered today n r)
  assume s: "backup_safe s"
  show ?thesis
  proof (cases "n < length (b_calls s)")
    case n: True
    let ?s = "s\<lparr>b_calls := take n (b_calls s) @ drop (Suc n) (b_calls s)\<rparr>" and ?c = "b_calls s ! n"
    have st: "backup_step e s = b_answered today ?c r ?s" using n by (simp add: B_answered)
    have q: "backup_safe ?s" using backup_safe_part [OF _ s, of ?s] by simp
    show ?thesis unfolding st using q by (rule backup_safe_answered)
  next
    case False
    then show ?thesis using s by (simp add: B_answered)
  qed
qed (erule backup_safe_part [rotated], simp add: openExportPanel_def openImportPanel_def onImportPick_def)+

interpretation export_once: kept "\<lambda>s. s = backup_start blocked" backup_step export_inv for blocked
proof
  show "export_inv s" if "s = backup_start blocked" for s
    unfolding that export_inv_def under_way_def backup_start_def by (simp add: List.map_filter_simps)
qed (rule export_inv_step)

interpretation backup_sent: kept "\<lambda>s. s = backup_start blocked" backup_step backup_safe for blocked
proof
  show "backup_safe s" if "s = backup_start blocked" for s unfolding that backup_safe_def backup_start_def by simp
qed (rule backup_safe_step)

section \<open>Properties\<close>

text \<open>
  C37: The backup panels keep their rules in every run: an export command always carries a
  passphrase of at least twelve characters, a restore command a loaded file and a passphrase;
  at most one export is under way and its button is disabled exactly while it is; and a banner
  dismissed for the session is never shown again.
\<close>

theorem backup_rules:
  assumes "reachable (\<lambda>s. s = backup_start blocked) (by_step backup_step) s"
  shows "(\<forall>p \<in> set (exports_sent s). 12 \<le> length p) \<and> (\<forall>(j, p) \<in> set (imports_sent s). truthy j \<and> p \<noteq> []) \<and>
    length (under_way s) = (if exportGo_disabled s then 1 else 0) \<and> (session_dismissed s \<longrightarrow> banner_hidden s)"
proof -
  note e = export_once.holds [OF assms] and q = backup_sent.holds [OF assms]
  show ?thesis
    by (intro conjI) (rule q [unfolded backup_safe_def, THEN conjunct1], rule q [unfolded backup_safe_def, THEN conjunct2, THEN conjunct1],
        rule e [unfolded export_inv_def], rule q [unfolded backup_safe_def, THEN conjunct2, THEN conjunct2])
qed

definition exporting_page :: backup where
  "exporting_page = fold backup_step [Press_export, Type_export (lit ''correct horse''), Type_confirm (lit ''correct horse''), Press_export_go]
     (backup_start False)"

lemma exporting_page_sent: "exports_sent exporting_page = [lit ''correct horse''] \<and> exportGo_disabled exporting_page"
  by (simp add: exporting_page_def backup_start_def openExportPanel_def hideBackupPanels_def onExportGo_def b_ask_def export_status_def)

theorem backup_rules_witness:
  "exports_sent exporting_page = [lit ''correct horse''] \<and> length (under_way exporting_page) = 1 \<and> 12 \<le> length (lit ''correct horse'')"
proof -
  have r: "reachable (\<lambda>s. s = backup_start False) (by_step backup_step) exporting_page"
    unfolding exporting_page_def by (rule reachable_run [OF reachable.start]) simp
  show ?thesis using backup_rules [OF r] exporting_page_sent by simp
qed

text \<open>
  Who sees the warning that the identity was never backed up. When a status answer arrives
  and the storage can be read, the banner is on the screen exactly if there is an identity, there
  are paired peers, no backup was ever made, and the banner was not dismissed in this session;
  a failed check changes nothing.
\<close>

theorem risk_banner_shown_iff:
  "(\<not> storage_blocked s \<and> is_object st \<longrightarrow>
     (\<not> banner_hidden (show_status (Inr st) s) \<longleftrightarrow>
        truthy (fld st ''has_identity'') \<and> positive (fld st ''peer_count'') \<and> truthy (fld st ''has_never_backed_up'') \<and>
        \<not> session_dismissed s)) \<and>
   show_status (Inl e) s = s"
  by (simp add: show_status_def risk_banner_def Let_def split: sum.split)

text \<open>A file picked after Cancel is kept in the closed panel, ready to be restored when it opens.\<close>

lemma late_pick_survives_cancel:
  "let s = fold backup_step [Press_import, Press_pick, Press_import_cancel,
       B_answered [] 1 (Inr (JObj [(lit ''loaded'', JBool True), (lit ''text'', JStr (lit ''{}''))]))] (backup_start False)
   in \<not> import_open s \<and> loadedBackupJson s = Some (JStr (lit ''{}'')) \<and> \<not> importGo_disabled s"
  by (simp add: backup_start_def openImportPanel_def hideBackupPanels_def onImportPick_def b_ask_def b_answered_def got_pick_def
      import_status_def val_or_def Let_def)

end
