(* ===== verification/Desktop_App.thy ===== *)
theory Desktop_App
  imports Pairing
begin

text \<open>
  \<open>tauri-app/ui/app.js\<close>: the layer between the vault page and the native window. It remembers the
  blobs the page makes, turns clicks on download links into native saves, routes the clipboard and
  the file picker to the native side, switches the tabs and puts the focus into the message box.
  The native side answers by events; what is asked of it is logged.
\<close>

section \<open>State\<close>

datatype host = Tauri | Webkit | Browser

text \<open>What the window offers when the script is loaded.\<close>

record app_window =
  tauri_invoke :: bool
  webkit_download :: bool
  webkit_clipboard :: bool
  has_clipboard :: bool

record blob =
  b_type :: jstr
  b_bytes :: bytes

text \<open>A node on the way from the click up to the document.\<close>

record node =
  is_link :: bool
  href :: jstr
  download :: "jstr option"
  passthrough :: bool

datatype native =
  Save_vault_file jstr jstr
| Post_download jstr jstr jstr
| Copy_to_clipboard jstr
| Post_clipboard jstr
| Pick_vault_file

record desktop =
  win :: app_window
  vaultBlobs :: "(jstr \<times> blob) list"
  reads :: "(jstr \<times> jstr \<times> blob) list"
  native_log :: "native list"
  browser_copies :: "jstr list"
  downloads :: "(jstr \<times> jstr) list"
  picks :: nat
  open_input :: jstr
  open_status :: "jstr \<times> jstr"
  tabs :: "(jstr \<times> bool) list"
  panels :: "(jstr \<times> bool option) list"
  submit_disabled :: bool
  msg_focused :: nat
  focus_done :: bool
  tries :: nat
  ticking :: bool

section \<open>The host\<close>

definition hasTauriBridge :: "app_window \<Rightarrow> bool" where "hasTauriBridge w = tauri_invoke w"

definition detectHost :: "app_window \<Rightarrow> host" where
  "detectHost w = (if hasTauriBridge w then Tauri else if webkit_download w then Webkit else Browser)"

definition HOST :: "desktop \<Rightarrow> host" where "HOST s = detectHost (win s)"

definition ask_native :: "native \<Rightarrow> desktop \<Rightarrow> desktop" where
  "ask_native n s = s\<lparr>native_log := native_log s @ [n]\<rparr>"

section \<open>Blobs\<close>

text \<open>A \<open>Map\<close>: setting a known key keeps its place.\<close>

fun map_set :: "jstr \<Rightarrow> blob \<Rightarrow> (jstr \<times> blob) list \<Rightarrow> (jstr \<times> blob) list" where
  "map_set k v [] = [(k, v)]"
| "map_set k v ((k', v') # m) = (if k = k' then (k, v) # m else (k', v') # map_set k v m)"

text \<open>\<open>None\<close> stands for an object that is no blob; the URL is the browser's choice.\<close>

definition createObjectURL :: "blob option \<Rightarrow> jstr \<Rightarrow> desktop \<Rightarrow> desktop" where
  "createObjectURL obj url s =
     (case obj of None \<Rightarrow> s | Some b \<Rightarrow> s\<lparr>vaultBlobs := map_set url b (vaultBlobs s)\<rparr>)"

definition revokeObjectURL :: "jstr \<Rightarrow> desktop \<Rightarrow> desktop" where
  "revokeObjectURL url s = s\<lparr>vaultBlobs := filter (\<lambda>(k, b). k \<noteq> url) (vaultBlobs s)\<rparr>"

section \<open>The bridge\<close>

definition saveText :: "jstr \<Rightarrow> jstr \<Rightarrow> jstr \<Rightarrow> desktop \<Rightarrow> desktop" where
  "saveText filename mime text s =
     (case HOST s of
        Tauri \<Rightarrow> ask_native (Save_vault_file filename text) s
      | Webkit \<Rightarrow> ask_native (Post_download filename (if mime = [] then lit ''text/plain'' else mime) text) s
      | Browser \<Rightarrow> s)"

text \<open>
  Copying and \<open>navigator.clipboard.writeText\<close>, which the script replaces where there is a native host:
  without a native clipboard the two call each other. The first argument bounds the depth of the
  calls; \<open>None\<close> is a full stack, or a copy that is refused.
\<close>

fun copyText :: "nat \<Rightarrow> jstr \<Rightarrow> desktop \<Rightarrow> desktop option"
and writeText :: "nat \<Rightarrow> jstr \<Rightarrow> desktop \<Rightarrow> desktop option" where
  "copyText 0 text s = None"
| "copyText (Suc n) text s =
     (if HOST s = Tauri then Some (ask_native (Copy_to_clipboard text) s)
      else if HOST s = Webkit \<and> webkit_clipboard (win s) then Some (ask_native (Post_clipboard text) s)
      else if has_clipboard (win s) then writeText n text s else None)"
| "writeText 0 text s = None"
| "writeText (Suc n) text s =
     (if \<not> has_clipboard (win s) then None
      else if HOST s \<noteq> Browser then copyText n text s
      else Some (s\<lparr>browser_copies := browser_copies s @ [text]\<rparr>))"

text \<open>The page's call: four levels are enough for the copies that return.\<close>

definition write_clipboard :: "jstr \<Rightarrow> desktop \<Rightarrow> desktop" where
  "write_clipboard text s = (case writeText 4 text s of None \<Rightarrow> s | Some s' \<Rightarrow> s')"

definition pickFile :: "desktop \<Rightarrow> desktop" where
  "pickFile s = (if HOST s = Tauri then (ask_native Pick_vault_file s)\<lparr>picks := Suc (picks s)\<rparr> else s)"

section \<open>Downloads\<close>

definition default_name :: "jstr option \<Rightarrow> jstr" where
  "default_name d = (case d of None \<Rightarrow> lit ''vault.bin'' | Some n \<Rightarrow> if n = [] then lit ''vault.bin'' else n)"

definition handleDownloadClick :: "node \<Rightarrow> desktop \<Rightarrow> desktop" where
  "handleDownloadClick a s =
     (case map_of (vaultBlobs s) (href a) of
        None \<Rightarrow> s
      | Some b \<Rightarrow> s\<lparr>reads := reads s @ [(href a, default_name (download a), b)]\<rparr>)"

text \<open>The capture listener: the first download link on the way up that is not let through.\<close>

definition intercepts :: "node \<Rightarrow> bool" where
  "intercepts n = (is_link n \<and> download n \<noteq> None \<and> \<not> passthrough n)"

text \<open>Else the browser follows the first link; only downloads are kept.\<close>

definition default_click :: "node list \<Rightarrow> desktop \<Rightarrow> desktop" where
  "default_click path s =
     (case find is_link path of
        None \<Rightarrow> s
      | Some a \<Rightarrow> (case download a of None \<Rightarrow> s | Some n \<Rightarrow> s\<lparr>downloads := downloads s @ [(href a, n)]\<rparr>))"

definition on_click :: "node list \<Rightarrow> desktop \<Rightarrow> desktop" where
  "on_click path s =
     (case find intercepts path of Some a \<Rightarrow> handleDownloadClick a s | None \<Rightarrow> default_click path s)"

text \<open>\<open>FileReader.readAsText\<close>: the bytes decoded as UTF-8, a byte order mark dropped.\<close>

definition readBlobAsText :: "blob \<Rightarrow> jstr" where
  "readBlobAsText b = from_utf8_lossy (b_bytes b)"

definition blob_was_read :: "jstr \<times> jstr \<times> blob \<Rightarrow> bool \<Rightarrow> desktop \<Rightarrow> desktop" where
  "blob_was_read req ok s =
     (case req of (url, filename, b) \<Rightarrow>
        if \<not> ok then s
        else if HOST s = Browser
        then on_click [\<lparr>is_link = True, href = url, download = Some filename, passthrough = True\<rparr>] s
        else saveText filename (if b_type b = [] then lit ''text/plain'' else b_type b) (readBlobAsText b) s)"

section \<open>The file picker\<close>

definition press_choose :: "desktop \<Rightarrow> desktop" where
  "press_choose s = (if HOST s = Tauri then pickFile s else s)"

definition picked_value :: "jsval \<Rightarrow> (jsval \<times> jsval) option" where
  "picked_value r = (if truthy r \<and> truthy (fld r ''loaded'') then Some (fld r ''text'', fld r ''filename'') else None)"

text \<open>Setting the value of a text area: null empties it.\<close>

definition value_text :: "jsval \<Rightarrow> jstr res" where
  "value_text v = (if v = JNull then Inr [] else to_str v)"

definition was_picked :: "jsval res \<Rightarrow> desktop \<Rightarrow> desktop" where
  "was_picked r s =
     (case r of
        Inl _ \<Rightarrow> s
      | Inr v \<Rightarrow>
          (case picked_value v of
             None \<Rightarrow> s
           | Some (text, filename) \<Rightarrow>
               (case value_text text of
                  Inl _ \<Rightarrow> s
                | Inr t \<Rightarrow>
                    let s1 = s\<lparr>open_input := t\<rparr>
                    in (case to_str (val_or filename (JStr (lit ''file''))) of
                          Inl _ \<Rightarrow> s1
                        | Inr n \<Rightarrow>
                            s1\<lparr>open_status := (lit ''Loaded '' @ n @ lit ''. Now type the password.'', lit ''app-status app-status-info'')\<rparr>))))"

section \<open>Tabs and focus\<close>

definition activate :: "jstr \<Rightarrow> desktop \<Rightarrow> desktop" where
  "activate target s =
     s\<lparr>tabs := map (\<lambda>(t, _). (t, t = target)) (tabs s),
       panels := map (\<lambda>(k, p). (k, map_option (\<lambda>_. k \<noteq> target) p)) (panels s)\<rparr>"

text \<open>The tabs are wired when there are tabs and the lock and open panels.\<close>

definition tabs_wired :: "desktop \<Rightarrow> bool" where
  "tabs_wired s = (tabs s \<noteq> [] \<and> (\<forall>k \<in> {lit ''lock'', lit ''open''}. \<exists>h. map_of (panels s) k = Some (Some h)))"

definition press_tab_button :: "nat \<Rightarrow> desktop \<Rightarrow> desktop" where
  "press_tab_button i s = (if tabs_wired s \<and> i < length (tabs s) then activate (fst (tabs s ! i)) s else s)"

definition tryFocus :: "desktop \<Rightarrow> desktop" where
  "tryFocus s =
     (if \<not> focus_done s \<and> \<not> submit_disabled s then s\<lparr>msg_focused := Suc (msg_focused s), focus_done := True\<rparr> else s)"

definition focus_tick :: "desktop \<Rightarrow> desktop" where
  "focus_tick s =
     (if ticking s
      then let s1 = tryFocus (s\<lparr>tries := Suc (tries s)\<rparr>)
           in if focus_done s1 \<or> tries s1 > 40 then s1\<lparr>ticking := False\<rparr> else s1
      else s)"

section \<open>The machine\<close>

datatype desktop_event =
  Create_url "blob option" jstr | Revoke_url jstr | Click "node list" | Blob_read nat bool
| Write_clipboard jstr | Choose_file | File_picked "jsval res" | Tab_button nat | Submit_toggled bool | Tick
| Edit_open jstr

fun desktop_step :: "desktop_event \<Rightarrow> desktop \<Rightarrow> desktop" where
  "desktop_step (Create_url obj url) s = createObjectURL obj url s"
| "desktop_step (Revoke_url url) s = revokeObjectURL url s"
| "desktop_step (Click path) s = on_click path s"
| "desktop_step (Blob_read n ok) s =
     (if n < length (reads s) then blob_was_read (reads s ! n) ok (s\<lparr>reads := take n (reads s) @ drop (Suc n) (reads s)\<rparr>) else s)"
| "desktop_step (Write_clipboard t) s = write_clipboard t s"
| "desktop_step Choose_file s = press_choose s"
| "desktop_step (File_picked r) s = (if picks s = 0 then s else was_picked r (s\<lparr>picks := picks s - 1\<rparr>))"
| "desktop_step (Tab_button i) s = press_tab_button i s"
| "desktop_step (Submit_toggled b) s = s\<lparr>submit_disabled := b\<rparr>"
| "desktop_step Tick s = focus_tick s"
| "desktop_step (Edit_open t) s = s\<lparr>open_input := t\<rparr>"

text \<open>The page of \<open>index.html\<close>: four tabs, each with its panel, and the lock panel shown.\<close>

definition app_tabs :: "jstr list" where
  "app_tabs = [lit ''lock'', lit ''open'', lit ''pair'', lit ''chat'']"

definition desktop_start :: "app_window \<Rightarrow> desktop" where
  "desktop_start w =
     \<lparr>win = w, vaultBlobs = [], reads = [], native_log = [], browser_copies = [], downloads = [], picks = 0, open_input = [],
      open_status = ([], []), tabs = map (\<lambda>t. (t, t = lit ''lock'')) app_tabs, panels = map (\<lambda>t. (t, Some (t \<noteq> lit ''lock''))) app_tabs,
      submit_disabled = True, msg_focused = 0, focus_done = False, tries = 0, ticking = True\<rparr>"

section \<open>Invariants\<close>

lemma map_of_map_set [simp]: "map_of (map_set k v m) k' = (if k' = k then Some v else map_of m k')"
  by (induction m) auto

text \<open>One tab is active and exactly its panel is shown.\<close>

definition one_panel :: "desktop \<Rightarrow> jstr \<Rightarrow> bool" where
  "one_panel s t =
     (t \<in> set app_tabs \<and> tabs s = map (\<lambda>u. (u, u = t)) app_tabs \<and> panels s = map (\<lambda>u. (u, Some (u \<noteq> t))) app_tabs)"

definition focus_ok :: "desktop \<Rightarrow> bool" where
  "focus_ok s =
     (msg_focused s = (if focus_done s then 1 else 0) \<and> tries s \<le> 41 \<and> (ticking s \<longleftrightarrow> \<not> focus_done s \<and> tries s \<le> 40))"

definition shown_frame :: "desktop \<Rightarrow> (jstr \<times> bool) list \<times> (jstr \<times> bool option) list \<times> nat \<times> bool \<times> nat \<times> bool" where
  "shown_frame s = (tabs s, panels s, msg_focused s, focus_done s, tries s, ticking s)"

lemma shown_frame_simps [simp]:
  "shown_frame (ask_native q s) = shown_frame s" "shown_frame (createObjectURL obj url s) = shown_frame s"
  "shown_frame (revokeObjectURL url s) = shown_frame s" "shown_frame (saveText f m t s) = shown_frame s"
    "shown_frame (pickFile s) = shown_frame s" "shown_frame (press_choose s) = shown_frame s"
  "shown_frame (handleDownloadClick a s) = shown_frame s" "shown_frame (default_click p s) = shown_frame s"
  "shown_frame (on_click p s) = shown_frame s" "shown_frame (was_picked r s) = shown_frame s"
  "shown_frame (s\<lparr>reads := rs\<rparr>) = shown_frame s" "shown_frame (s\<lparr>picks := n\<rparr>) = shown_frame s"
  "shown_frame (s\<lparr>submit_disabled := b\<rparr>) = shown_frame s" "shown_frame (s\<lparr>open_input := t\<rparr>) = shown_frame s"
  by (simp_all add: shown_frame_def ask_native_def createObjectURL_def revokeObjectURL_def saveText_def
      pickFile_def press_choose_def handleDownloadClick_def default_click_def on_click_def was_picked_def Let_def
      split: option.split host.split sum.split)

lemma copy_write_frame:
  "(copyText n t s = Some s' \<longrightarrow> shown_frame s' = shown_frame s) \<and> (writeText n t s = Some s' \<longrightarrow> shown_frame s' = shown_frame s)"
  by (induction n arbitrary: s') (auto simp: shown_frame_def ask_native_def)

lemma write_clipboard_frame [simp]: "shown_frame (write_clipboard t s) = shown_frame s"
proof (cases "writeText 4 t s")
  case (Some s')
  then show ?thesis using copy_write_frame [of 4 t s s'] unfolding write_clipboard_def by (simp only: option.case)
qed (simp only: write_clipboard_def option.case)

lemma blob_read_frame [simp]: "shown_frame (blob_was_read req ok s) = shown_frame s"
  by (cases req) (simp add: blob_was_read_def)

lemma frame_invariants:
  "shown_frame s' = shown_frame s \<Longrightarrow> one_panel s' t = one_panel s t"
  "shown_frame s' = shown_frame s \<Longrightarrow> focus_ok s' = focus_ok s"
  by (simp_all add: shown_frame_def one_panel_def focus_ok_def)

lemma one_panel_tab:
  assumes "one_panel s t"
  shows "\<exists>t'. one_panel (press_tab_button i s) t'"
proof (cases "tabs_wired s \<and> i < length (tabs s)")
  case True
  have i: "i < length app_tabs" and f: "fst (tabs s ! i) = app_tabs ! i"
    using True assms by (simp_all add: one_panel_def)
  have "one_panel (press_tab_button i s) (app_tabs ! i)"
    using True assms i by (simp add: press_tab_button_def f activate_def one_panel_def)
  then show ?thesis by blast
next
  case False
  then have "press_tab_button i s = s" by (auto simp: press_tab_button_def)
  with assms show ?thesis by auto
qed

lemma focus_ok_tick:
  assumes "focus_ok s"
  shows "focus_ok (focus_tick s)"
proof (cases "ticking s")
  case True
  have f: "\<not> focus_done s" "tries s \<le> 40" "msg_focused s = 0" using assms True by (simp_all add: focus_ok_def)
  show ?thesis
  proof (cases "submit_disabled s")
    case d: True
    have t: "tryFocus (s\<lparr>tries := Suc (tries s)\<rparr>) = s\<lparr>tries := Suc (tries s)\<rparr>" by (simp add: tryFocus_def d)
    show ?thesis using f True by (simp add: focus_tick_def Let_def t focus_ok_def)
  next
    case False
    have t: "tryFocus (s\<lparr>tries := Suc (tries s)\<rparr>) = s\<lparr>tries := Suc (tries s), msg_focused := 1, focus_done := True\<rparr>"
      by (simp add: tryFocus_def False f)
    show ?thesis using f True by (simp add: focus_tick_def Let_def t focus_ok_def)
  qed
next
  case False
  then show ?thesis using assms by (simp add: focus_tick_def)
qed

lemma tick_panels: "one_panel (focus_tick s) t = one_panel s t"
proof -
  have t: "tabs (tryFocus u) = tabs u" "panels (tryFocus u) = panels u" for u by (simp_all add: tryFocus_def)
  have "tabs (focus_tick s) = tabs s" "panels (focus_tick s) = panels s" by (simp_all add: focus_tick_def Let_def t)
  then show ?thesis unfolding one_panel_def by (simp only:)
qed

lemma tab_focus: "focus_ok (press_tab_button i s) = focus_ok s"
  unfolding press_tab_button_def by (cases "tabs_wired s \<and> i < length (tabs s)") (simp_all only: if_True if_False activate_def focus_ok_def, simp_all)

definition desktop_ok :: "desktop \<Rightarrow> bool" where
  "desktop_ok s = ((\<exists>t. one_panel s t) \<and> focus_ok s)"

lemma desktop_ok_frame: "desktop_ok s \<Longrightarrow> shown_frame s' = shown_frame s \<Longrightarrow> desktop_ok s'"
  unfolding desktop_ok_def using frame_invariants [of s' s] by metis

lemma other_events_frame:
  assumes "\<forall>i. e \<noteq> Tab_button i" and "e \<noteq> Tick"
  shows "shown_frame (desktop_step e s) = shown_frame s"
  using assms by (cases e) auto

lemma desktop_ok_step:
  assumes "desktop_ok s"
  shows "desktop_ok (desktop_step e s)"
proof (cases "(\<exists>i. e = Tab_button i) \<or> e = Tick")
  case True
  then show ?thesis
  proof (elim disjE exE)
    fix i assume "e = Tab_button i"
    moreover obtain t where "one_panel s t" "focus_ok s" using assms by (auto simp: desktop_ok_def)
    ultimately show ?thesis using one_panel_tab [of s t i] by (simp add: desktop_ok_def tab_focus)
  next
    assume "e = Tick"
    then show ?thesis using assms by (simp add: desktop_ok_def tick_panels focus_ok_tick)
  qed
next
  case False
  then show ?thesis by (intro desktop_ok_frame [OF assms] other_events_frame) auto
qed

interpretation shell: kept "\<lambda>s. s = desktop_start w" desktop_step desktop_ok for w
proof
  have "one_panel (desktop_start w) (lit ''lock'')" by (simp add: desktop_start_def one_panel_def app_tabs_def)
  moreover have "focus_ok (desktop_start w)" by (simp add: desktop_start_def focus_ok_def)
  ultimately show "desktop_ok s" if "s = desktop_start w" for s unfolding that desktop_ok_def by blast
qed (rule desktop_ok_step)

section \<open>Properties\<close>

text \<open>
  C40: The native window saves what the page made. In a native host, a download link to a blob of a
  text hands the native side exactly that text and the link's name, once, even if the page gives
  the blob's URL back before it was read; nothing is navigated to.
\<close>

theorem native_save_exact:
  assumes "HOST s \<noteq> Browser" and "plain_text t" and "reads s = []" and "b_bytes b = utf8 t"
    and "find intercepts path = Some a" and "href a = url"
  shows "let s' = fold desktop_step [Create_url (Some b) url, Click path, Revoke_url url, Blob_read 0 True] s
    in native_log s' = native_log s @
         [if HOST s = Tauri then Save_vault_file (default_name (download a)) t
          else Post_download (default_name (download a)) (if b_type b = [] then lit ''text/plain'' else b_type b) t] \<and>
       downloads s' = downloads s \<and> map_of (vaultBlobs s') url = None"
proof -
  have r: "readBlobAsText b = t" by (simp add: readBlobAsText_def assms(4) from_utf8_lossy_utf8 plain_units [OF assms(2)])
  have g: "map_of (filter (\<lambda>(k, b). k \<noteq> url) m) url = None" for m :: "(jstr \<times> blob) list" by (induction m) auto
  let ?m = "map_set url b (vaultBlobs s)"
  let ?s = "s\<lparr>vaultBlobs := filter (\<lambda>(k, b). k \<noteq> url) ?m, reads := []\<rparr>"
  have 1: "desktop_step (Create_url (Some b) url) s = s\<lparr>vaultBlobs := ?m\<rparr>" by (simp add: createObjectURL_def)
  have 2: "desktop_step (Click path) (s\<lparr>vaultBlobs := ?m\<rparr>) = s\<lparr>vaultBlobs := ?m, reads := [(url, default_name (download a), b)]\<rparr>"
    by (simp add: on_click_def assms(5) handleDownloadClick_def assms(6) assms(3))
  have 3: "desktop_step (Revoke_url url) (s\<lparr>vaultBlobs := ?m, reads := [(url, default_name (download a), b)]\<rparr>) =
      ?s\<lparr>reads := [(url, default_name (download a), b)]\<rparr>" by (simp add: revokeObjectURL_def)
  have 4: "desktop_step (Blob_read 0 True) (?s\<lparr>reads := [(url, default_name (download a), b)]\<rparr>) =
      saveText (default_name (download a)) (if b_type b = [] then lit ''text/plain'' else b_type b) t ?s"
    using assms(1) by (simp add: blob_was_read_def r HOST_def)
  have f: "fold desktop_step [Create_url (Some b) url, Click path, Revoke_url url, Blob_read 0 True] s =
      saveText (default_name (download a)) (if b_type b = [] then lit ''text/plain'' else b_type b) t ?s"
    by (simp only: fold_simps 1 2 3 4)
  have h: "HOST ?s = HOST s" by (simp add: HOST_def)
  show ?thesis
    unfolding Let_def f saveText_def h using assms(1) by (cases "HOST s") (auto simp: ask_native_def g)
qed

text \<open>
  The tabs and the focus of the desktop window. In every reachable state exactly one tab is
  active, and exactly its panel is shown; the focus goes to the message box at most once, and only
  while the form can be submitted; and the timer that waits for the form has stopped after
  forty-one ticks, or as soon as the focus was set.
\<close>

theorem tabs_and_focus:
  assumes "reachable (\<lambda>s. s = desktop_start w) (by_step desktop_step) s"
  shows "(\<exists>!t. (t, True) \<in> set (tabs s)) \<and> (\<forall>t. (t, True) \<in> set (tabs s) \<longleftrightarrow> (t, Some False) \<in> set (panels s)) \<and>
    msg_focused s = (if focus_done s then 1 else 0) \<and> tries s \<le> 41 \<and> (ticking s \<longleftrightarrow> \<not> focus_done s \<and> tries s \<le> 40)"
proof -
  have "desktop_ok s" by (rule shell.holds [OF assms])
  then obtain t where t: "t \<in> set app_tabs" "tabs s = map (\<lambda>u. (u, u = t)) app_tabs" "panels s = map (\<lambda>u. (u, Some (u \<noteq> t))) app_tabs"
    and f: "focus_ok s" by (auto simp: desktop_ok_def one_panel_def)
  have "(u, True) \<in> set (tabs s) \<longleftrightarrow> u = t" "(u, Some False) \<in> set (panels s) \<longleftrightarrow> u = t" for u using t by auto
  then show ?thesis using f by (simp add: focus_ok_def)
qed

definition tauri_window :: app_window where
  "tauri_window = \<lparr>tauri_invoke = True, webkit_download = False, webkit_clipboard = False, has_clipboard = True\<rparr>"

theorem native_save_exact_witness:
  "\<exists>s :: desktop. native_log s = [Save_vault_file (lit ''vault.bin'') (lit ''hi'')] \<and> downloads s = []"
proof -
  let ?s = "desktop_start tauri_window" and ?a = "\<lparr>is_link = True, href = [1], download = Some [], passthrough = False\<rparr>"
  let ?b = "\<lparr>b_type = [], b_bytes = utf8 (lit ''hi'')\<rparr>"
  have h: "HOST ?s = Tauri" by (simp add: HOST_def desktop_start_def detectHost_def hasTauriBridge_def tauri_window_def)
  have s: "HOST ?s \<noteq> Browser" "reads ?s = []" "native_log ?s = []" "downloads ?s = []" using h by (simp_all add: desktop_start_def)
  have b: "b_bytes ?b = utf8 (lit ''hi'')" by simp
  have a: "find intercepts [?a] = Some ?a" "href ?a = [1]" "default_name (download ?a) = lit ''vault.bin''"
    by (simp_all add: intercepts_def default_name_def)
  note n = native_save_exact [OF s(1) sample_plain s(2) b a(1,2), unfolded Let_def h s(3,4) a(3) append_Nil]
  show ?thesis using n by (simp only: if_True refl) blast
qed

definition focused_page :: desktop where
  "focused_page = fold desktop_step [Submit_toggled False, Tick] (desktop_start tauri_window)"

theorem tabs_and_focus_witness:
  "(\<exists>!t. (t, True) \<in> set (tabs focused_page)) \<and> msg_focused focused_page = 1"
proof -
  have r: "reachable (\<lambda>s. s = desktop_start tauri_window) (by_step desktop_step) focused_page"
    unfolding focused_page_def by (rule reachable_run [OF reachable.start]) simp
  have f: "focus_done focused_page" by (simp add: focused_page_def desktop_start_def focus_tick_def tryFocus_def Let_def)
  note t = tabs_and_focus [OF r]
  show ?thesis
    by (rule conjI, rule t [THEN conjunct1]) (use t [THEN conjunct2, THEN conjunct2, THEN conjunct1] f in simp)
qed

text \<open>
  A WebKit window without a clipboard handler has no copy that returns: \<open>copyText\<close> falls back to
  the function it has replaced.
\<close>

lemma copy_without_handler:
  assumes "HOST s = Webkit" and "\<not> webkit_clipboard (win s)"
  shows "copyText n t s = None" and "writeText n t s = None"
proof -
  have "copyText n t s = None \<and> writeText n t s = None" using assms by (induction n) simp_all
  then show "copyText n t s = None" and "writeText n t s = None" by simp_all
qed

text \<open>The form can stay disabled for the whole time: after forty ticks, four seconds, the timer still runs.\<close>

lemma focus_timer_runs:
  "submit_disabled s \<Longrightarrow> \<not> focus_done s \<Longrightarrow> ticking s \<Longrightarrow> tries s = 0 \<Longrightarrow> n \<le> 40 \<Longrightarrow> (focus_tick ^^ n) s = s\<lparr>tries := n\<rparr>"
  by (induction n) (simp_all add: focus_tick_def tryFocus_def)

end
