(* ===== verification/Spec2Isabelle.thy ===== *)
theory Spec2Isabelle
  imports Utf8 Base64url Json_Roundtrip Canonical Vault_Format Vault Rewrap
    Prompt Self_Test Parse_Args Cli Cli_Rewrap
    Web_Format Web_Vault Web_Text Machines Chat_Envelope Chat_Ui Toy_Library Web_Page Site_Verify Notify_Worker
    Proof_Lock Proof_Lock_Use Pair_Send Backup Desktop_App
begin

text \<open>
  A verification library for QEV, the offline encrypted vault of \<open>qev-desktop\<close>. QEV seals a text (or
  a small file) under a phrase into a JSON file, the vault. The repository implements the format
  three times (the command line tool, the web and desktop page, the proof-lock page) and builds on
  it: a phone-to-page notifier, a desktop application with pairing, chat and backup, and a site
  whose pages check themselves against a signed manifest.

  \<^bold>\<open>Parts and theories.\<close>
  \<^item> \<open>Prelude\<close> (bytes, JavaScript strings as lists of 16-bit units, results with a thrown message, the
    locales \<open>codec\<close>, \<open>codec_chain\<close> and \<open>opener\<close>), \<open>Machines\<close> (reachability, runs of a step function, the
    locales \<open>kept\<close> for an invariant and \<open>refinement\<close>), \<open>Fetch\<close> (what a request can give),
    \<open>Utf8\<close>, \<open>Base64url\<close>, \<open>Json\<close> and \<open>Json_Roundtrip\<close> (what the source uses of the language's standard
    library, and that parsing inverts printing).
  \<^item> \<open>qev-cli/lib/canonical.js\<close>: \<open>Canonical\<close>, \<open>Utf8\<close>, \<open>Base64url\<close>. Canonical JSON is the additional data of
    every seal; it is equal exactly for values equal up to member order.
  \<^item> \<open>qev-cli/lib/vault.js\<close>: \<open>Vault_Format\<close> (constants, limits, validation), \<open>Vault\<close> (lock, unlock,
    passphrases), \<open>Self_Test\<close>; \<open>rewrap.js\<close>: \<open>Rewrap\<close>; \<open>prompt.js\<close>: \<open>Prompt\<close> (the phrase prompt: the
    decoder that \<open>setEncoding(undefined)\<close> puts on standard input, and the handler of what comes in);
    \<open>bin/qev.js\<close>: \<open>Parse_Args\<close>, \<open>Cli\<close>, \<open>Cli_Rewrap\<close>, every command on an explicit process state of files,
    terminal, standard input and random stream, with the part of \<open>unlock\<close> and \<open>rewrap\<close> after the phrase
    as a definition of its own (\<open>unlock_given\<close>, \<open>rewrap_given\<close>).
  \<^item> \<open>landing/vault/chat.js\<close>: \<open>Web_Format\<close> and \<open>Web_Vault\<close> (validators and the V2, V1 and Notify readers),
    \<open>Web_Text\<close> (strength meter, recovery sheet, pasted text), \<open>Web_Page\<close> (the page as a machine).
  \<^item> \<open>tauri-app/ui\<close>: \<open>Chat_Envelope\<close> and \<open>Chat_Ui\<close> (\<open>chat-ui.js\<close>), \<open>Pairing\<close>, \<open>Pair_Send\<close> and \<open>Backup\<close>
    (\<open>pairing.js\<close>), \<open>Desktop_App\<close> (\<open>app.js\<close>, the layer between the vault page and the native window).
  \<^item> \<open>landing/notify\<close>: \<open>Notify_Envelope\<close>, \<open>Notify\<close> and \<open>Notify_Safe\<close> (\<open>notify.js\<close>), \<open>Notify_Worker\<close> (\<open>sw.js\<close>).
  \<^item> \<open>public-site/site-verify.js\<close> and \<open>scripts/sign_site_content.py\<close>: \<open>Site_Verify\<close>.
  \<^item> \<open>proof-lock-web\<close>: \<open>Proof_Lock\<close> (\<open>qev.ts\<close>), \<open>Proof_Lock_App\<close> and \<open>Proof_Lock_Use\<close> (\<open>App.tsx\<close>).
  \<^item> \<open>Sodium\<close> states what the code relies on from libsodium, \<open>Toy_Library\<close> the concrete instance the
    witnesses run on.

  \<^bold>\<open>How the parts meet.\<close> A vault goes from one implementation to another as JSON text, so the theorems
  about pairs of implementations (\<open>interoperable\<close>, \<open>proof_lock_locks_like_cli\<close>,
  \<open>proof_lock_opens_like_cli\<close>) compare them on the same value. The desktop window wraps the vault
  page: \<open>Desktop_App\<close> takes its downloads and hands them to the native side, \<open>Pair_Send\<close> sends the text
  in the result box of \<open>Web_Page\<close> to another device (its lock form is the same code in the desktop
  copy), \<open>Pairing\<close> makes the peers and \<open>Chat_Ui\<close> seals what is said to them. \<open>Notify_Worker\<close> opens
  \<open>Notify\<close> on a topic: the address it opens is read back by the page as \<open>URLSearchParams\<close> does.

  \<^bold>\<open>How the code is modelled.\<close> A pure function is a HOL function; a thrown exception is the left side of
  \<open>res\<close>, with its message. A page is a record of what its script keeps and shows, and an event is a
  click, a keystroke, a timer or the end of something awaited. A handler that awaits is cut there:
  what it closed over is kept as a datatype of suspended calls, and an answer may come at any time and
  in any order, so the invariants hold under every interleaving. The random bytes are a stream that
  the calls consume. Requests, native commands and saved files are logged in the state.

  \<^bold>\<open>What the lemmas show.\<close> Codecs: each encoder with its decoder is an interpretation of \<open>codec\<close>, chained
  by \<open>codec_chain\<close>. Readers: each validator with its decryption is an interpretation of \<open>opener\<close>: what
  opens is well formed. Vaults: lock then unlock, what an opened vault must be, what tampering needs,
  the result on every input by the first step that fails, rewrap. Commands: as written none that asks
  for a phrase completes, because the prompt never settles (\<open>phrase_prompt_never_settles\<close>,
  \<open>phrase_commands_never_complete\<close>); what they do once they have a phrase is stated of \<open>unlock_given\<close> and
  \<open>rewrap_given\<close>, output, files and exit code. Pages:
  invariants of all reachable states (what leaves the page is sealed, which buttons are enabled) by one
  preservation lemma per handler, invariants of runs that tie what is shown or done to what stood in
  the form when it was asked for (\<open>noted_step\<close>, \<open>asked_open\<close>, \<open>asked_lock\<close>), and the behaviours that a run can
  reach although the code means to exclude them, as lemmas with a concrete run.

  \<^bold>\<open>Environment.\<close> libsodium is a record of functions (\<open>sodium\<close>), and what is assumed of it is named:
  \<open>kdf_works\<close> and \<open>aead_works\<close> (the calls of the code return, and opening undoes sealing), \<open>aead_exact\<close>
  (what opens was sealed so), \<open>uniform_bound\<close>, \<open>base64_works\<close>. SHA-256, Ed25519, the network, the
  dates, \<open>toLocaleString\<close> and the native commands are parameters or answers of events. All are
  instantiated in the witnesses.

  \<^bold>\<open>Bounds and fuel.\<close> The JSON parser recurses on fuel \<open>2 * length + 2\<close>; \<open>Json_Roundtrip\<close> shows that it
  suffices for everything the printer writes. The clipboard of \<open>Desktop_App\<close> has call depth 4, enough
  for each copy that returns; the copy that does not is shown to run out at every depth. The pairing poll
  stops after 150 polls, the focus timer after 41 ticks, as in the code.

  \<^bold>\<open>Approximations.\<close> JSON numbers are integers (a text with a fraction or an exponent is not parsed);
  \<open>Number(text)\<close> reads decimal integers only; a text area keeps the text it is given. Colours, focus,
  scrolling, tooltips and animations are left out.

  \<^bold>\<open>Not modelled.\<close> \<open>tauri-app/ui/chat.js\<close>, \<open>public-site/vault/chat.js\<close> and \<open>public-site/notify/notify.js\<close>,
  copies of modelled pages (an older one, one with a longer word list, an identical one); the product
  launcher, a menu of links; \<open>qev-cli/lib/index.js\<close>, re-exports; the static pages of the proof-lock
  site; vendored libsodium and jsQR; the Rust sources of the desktop application and the relay, and
  the Python and shell scripts other than the signer's canonical bytes, which are in other languages;
  HTML, styles and build files.
\<close>

end
